(* ===== verification/Go_Prelude.thy ===== *)
theory Go_Prelude
  imports Main "HOL-Library.Word" "HOL-Library.Char_ord"
begin

text \<open>
  What every component of the development shares: the result type of a Go function that
  returns an error, the run-time panic of an index or slice expression out of range as a
  value of that type, the machine bytes and big-endian integers of the standard package
  \<open>encoding/binary\<close>, and the collections of rewrite and introduction rules that the
  component proofs use.
\<close>

section \<open>Results: Go errors and Go panics as values\<close>

text \<open>
  A Go function of type \<open>(T, error)\<close> is a HOL function into \<open>('e, 'a) result\<close>. The
  constructor \<open>Err\<close> carries the error the code returns. \<open>Panic\<close> is the run-time
  panic of an index or slice expression out of range: it is a branch of the model, so that
  the absence of panics is a theorem about the code and not a convention.
\<close>

datatype 'e failure = Panic | Err (the_err: 'e)

type_synonym ('e, 'a) result = "'e failure + 'a"

abbreviation ok :: "'a \<Rightarrow> ('e, 'a) result" where
  "ok x \<equiv> Inr x"

abbreviation err :: "'e \<Rightarrow> ('e, 'a) result" where
  "err e \<equiv> Inl (Err e)"

abbreviation panic :: "('e, 'a) result" where
  "panic \<equiv> Inl Panic"

definition bind_result :: "('e, 'a) result \<Rightarrow> ('a \<Rightarrow> ('e, 'b) result) \<Rightarrow> ('e, 'b) result" where
  "bind_result m f = (case m of Inl e \<Rightarrow> Inl e | Inr x \<Rightarrow> f x)"

definition map_err :: "('e \<Rightarrow> 'f) \<Rightarrow> ('e, 'a) result \<Rightarrow> ('f, 'a) result" where
  "map_err h m = (case m of Inl Panic \<Rightarrow> Inl Panic | Inl (Err e) \<Rightarrow> Inl (Err (h e)) | Inr x \<Rightarrow> Inr x)"

definition is_ok :: "('e, 'a) result \<Rightarrow> bool" where
  "is_ok m = (case m of Inl _ \<Rightarrow> False | Inr _ \<Rightarrow> True)"

definition no_panic :: "('e, 'a) result \<Rightarrow> bool" where
  "no_panic m \<longleftrightarrow> m \<noteq> Inl Panic"

named_theorems result_simps "evaluation of the result combinators"
named_theorems no_panic_intros "introduction rules for the absence of panics"

lemma bind_result_ok [simp, result_simps]: "bind_result (Inr x) f = f x"
  and bind_result_fail [simp, result_simps]: "bind_result (Inl e) f = Inl e"
  by (simp_all add: bind_result_def)

lemma map_err_simps [simp, result_simps]:
  "map_err h (Inr x) = Inr x" "map_err h (Inl Panic) = Inl Panic"
  "map_err h (Inl (Err e)) = Inl (Err (h e))"
  by (simp_all add: map_err_def)

lemma is_ok_simps [simp, result_simps]: "is_ok (Inr x)" "\<not> is_ok (Inl e)"
  by (simp_all add: is_ok_def)

lemma is_ok_iff: "is_ok m \<longleftrightarrow> (\<exists>x. m = Inr x)"
  by (cases m) simp_all

lemma bind_result_cong [fundef_cong]:
  assumes "m = m'" and "\<And>x. m' = Inr x \<Longrightarrow> f x = g x"
  shows "bind_result m f = bind_result m' g"
  using assms by (cases m') simp_all

lemma bind_result_eq_ok: "bind_result m f = Inr y \<longleftrightarrow> (\<exists>x. m = Inr x \<and> f x = Inr y)"
  by (cases m) simp_all

lemma bind_result_eq_fail:
  "bind_result m f = Inl e \<longleftrightarrow> m = Inl e \<or> (\<exists>x. m = Inr x \<and> f x = Inl e)"
  by (cases m) simp_all

lemma map_err_eq_ok [simp]: "map_err h m = Inr x \<longleftrightarrow> m = Inr x"
  by (cases m) (auto simp: map_err_def split: failure.splits)

lemma map_err_eq_panic [simp]: "map_err h m = Inl Panic \<longleftrightarrow> m = Inl Panic"
  by (cases m) (auto simp: map_err_def split: failure.splits)

lemma no_panic_simps [simp, result_simps]:
  "no_panic (Inr x)" "no_panic (Inl (Err e))" "\<not> no_panic (Inl Panic)"
  by (simp_all add: no_panic_def)

lemma no_panic_bind [no_panic_intros]:
  assumes "no_panic m" and "\<And>x. m = Inr x \<Longrightarrow> no_panic (f x)"
  shows "no_panic (bind_result m f)"
  using assms by (cases m) (simp_all add: no_panic_def)

lemma no_panic_map_err [simp]: "no_panic (map_err h m) \<longleftrightarrow> no_panic m"
  by (simp add: no_panic_def)

lemma no_panic_if [no_panic_intros]:
  "(b \<Longrightarrow> no_panic m) \<Longrightarrow> (\<not> b \<Longrightarrow> no_panic n) \<Longrightarrow> no_panic (if b then m else n)"
  by simp

lemma no_panic_case [no_panic_intros]:
  assumes "no_panic m" and "\<And>e. m = Inl (Err e) \<Longrightarrow> no_panic (f e)" and "\<And>x. m = Inr x \<Longrightarrow> no_panic (g x)"
  shows "no_panic (case m of Inl Panic \<Rightarrow> panic | Inl (Err e) \<Rightarrow> f e | Inr x \<Rightarrow> g x)"
  using assms by (auto split: sum.splits failure.splits)

lemma no_panic_Let [no_panic_intros]: "(\<And>x. x = e \<Longrightarrow> no_panic (f x)) \<Longrightarrow> no_panic (let x = e in f x)"
  by simp

subsection \<open>Index and slice expressions\<close>

text \<open>
  \<open>xs[i]\<close> and \<open>xs[i:j]\<close>. A slice expression on a Go slice may reach up to the
  capacity; the model panics already past the length, so \<open>no_panic\<close> excludes reading
  stale bytes between the length and the capacity as well.
\<close>

definition index_at :: "'a list \<Rightarrow> nat \<Rightarrow> ('e, 'a) result" where
  "index_at xs i = (if i < length xs then Inr (xs ! i) else Inl Panic)"

definition slice :: "'a list \<Rightarrow> nat \<Rightarrow> nat \<Rightarrow> ('e, 'a list) result" where
  "slice xs i j = (if i \<le> j \<and> j \<le> length xs then Inr (take (j - i) (drop i xs)) else Inl Panic)"

lemma index_at_ok [simp]: "i < length xs \<Longrightarrow> index_at xs i = Inr (xs ! i)"
  by (simp add: index_at_def)

lemma slice_ok [simp]: "i \<le> j \<Longrightarrow> j \<le> length xs \<Longrightarrow> slice xs i j = Inr (take (j - i) (drop i xs))"
  by (simp add: slice_def)

lemma index_at_eq_ok: "index_at xs i = Inr x \<longleftrightarrow> i < length xs \<and> x = xs ! i"
  by (auto simp: index_at_def)

lemma slice_eq_ok:
  "slice xs i j = Inr ys \<longleftrightarrow> i \<le> j \<and> j \<le> length xs \<and> ys = take (j - i) (drop i xs)"
  by (auto simp: slice_def)

lemma no_panic_index_at [no_panic_intros]: "i < length xs \<Longrightarrow> no_panic (index_at xs i)"
  by simp

lemma no_panic_slice [no_panic_intros]: "i \<le> j \<Longrightarrow> j \<le> length xs \<Longrightarrow> no_panic (slice xs i j)"
  by simp

section \<open>Bytes and big-endian integers\<close>

unbundle bit_operations_syntax

type_synonym byte = "8 word"
type_synonym bytes = "8 word list"

text \<open>\<open>binary.BigEndian.PutUint16\<close>, \<open>PutUint32\<close>, \<open>PutUint64\<close> and their readers.\<close>

definition put_uint16 :: "16 word \<Rightarrow> bytes" where
  "put_uint16 v = [ucast (drop_bit 8 v), ucast v]"

definition put_uint32 :: "32 word \<Rightarrow> bytes" where
  "put_uint32 v = [ucast (drop_bit 24 v), ucast (drop_bit 16 v), ucast (drop_bit 8 v), ucast v]"

definition put_uint64 :: "64 word \<Rightarrow> bytes" where
  "put_uint64 v = [ucast (drop_bit 56 v), ucast (drop_bit 48 v), ucast (drop_bit 40 v),
     ucast (drop_bit 32 v), ucast (drop_bit 24 v), ucast (drop_bit 16 v), ucast (drop_bit 8 v), ucast v]"

definition uint16_be :: "bytes \<Rightarrow> 16 word" where
  "uint16_be b = push_bit 8 (ucast (b ! 0)) OR ucast (b ! 1)"

definition uint32_be :: "bytes \<Rightarrow> 32 word" where
  "uint32_be b = push_bit 24 (ucast (b ! 0)) OR push_bit 16 (ucast (b ! 1))
     OR push_bit 8 (ucast (b ! 2)) OR ucast (b ! 3)"

definition uint64_be :: "bytes \<Rightarrow> 64 word" where
  "uint64_be b = push_bit 56 (ucast (b ! 0)) OR push_bit 48 (ucast (b ! 1))
     OR push_bit 40 (ucast (b ! 2)) OR push_bit 32 (ucast (b ! 3))
     OR push_bit 24 (ucast (b ! 4)) OR push_bit 16 (ucast (b ! 5))
     OR push_bit 8 (ucast (b ! 6)) OR ucast (b ! 7)"

text \<open>A read of \<open>n\<close> bytes at an offset, as \<open>binary.BigEndian.Uint16(wire[i:i+2])\<close>.\<close>

definition read_uint16 :: "bytes \<Rightarrow> nat \<Rightarrow> ('e, 16 word) result" where
  "read_uint16 b i = bind_result (slice b i (i + 2)) (\<lambda>s. Inr (uint16_be s))"

definition read_uint32 :: "bytes \<Rightarrow> nat \<Rightarrow> ('e, 32 word) result" where
  "read_uint32 b i = bind_result (slice b i (i + 4)) (\<lambda>s. Inr (uint32_be s))"

lemma read_uint16_ok [simp]:
  "i + 2 \<le> length b \<Longrightarrow> read_uint16 b i = Inr (uint16_be (take 2 (drop i b)))"
  by (simp add: read_uint16_def)

lemma read_uint32_ok [simp]:
  "i + 4 \<le> length b \<Longrightarrow> read_uint32 b i = Inr (uint32_be (take 4 (drop i b)))"
  by (simp add: read_uint32_def)

lemma read_uint16_eq_ok:
  "read_uint16 b i = Inr v \<longleftrightarrow> i + 2 \<le> length b \<and> v = uint16_be (take 2 (drop i b))"
  by (auto simp: read_uint16_def slice_def)

lemma no_panic_read_uint16 [no_panic_intros]: "i + 2 \<le> length b \<Longrightarrow> no_panic (read_uint16 b i)"
  by simp

lemma no_panic_read_uint32 [no_panic_intros]: "i + 4 \<le> length b \<Longrightarrow> no_panic (read_uint32 b i)"
  by simp

lemma length_put_uint [simp]:
  "length (put_uint16 v) = 2" "length (put_uint32 w) = 4" "length (put_uint64 x) = 8"
  by (simp_all add: put_uint16_def put_uint32_def put_uint64_def)

lemmas be_bits = bit_or_iff bit_push_bit_iff bit_ucast_iff bit_drop_bit_eq

lemma uint16_be_put [simp]: "uint16_be (put_uint16 v) = v"
proof (rule bit_word_eqI)
  fix n
  assume "n < LENGTH(16)"
  then show "bit (uint16_be (put_uint16 v)) n \<longleftrightarrow> bit v n"
    unfolding uint16_be_def put_uint16_def be_bits
    by (cases "n < 8") (auto simp: be_bits comp_def dest: bit_imp_le_length)
qed

lemma uint32_be_put [simp]: "uint32_be (put_uint32 v) = v"
proof (rule bit_word_eqI)
  fix n
  assume n: "n < LENGTH(32)"
  consider "n < 8" | "8 \<le> n \<and> n < 16" | "16 \<le> n \<and> n < 24" | "24 \<le> n"
    by linarith
  then show "bit (uint32_be (put_uint32 v)) n \<longleftrightarrow> bit v n"
    unfolding uint32_be_def put_uint32_def be_bits
    using n by cases (auto simp: be_bits comp_def dest: bit_imp_le_length)
qed

lemma uint64_be_put [simp]: "uint64_be (put_uint64 v) = v"
proof (rule bit_word_eqI)
  fix n
  assume n: "n < LENGTH(64)"
  consider "n < 8" | "8 \<le> n \<and> n < 16" | "16 \<le> n \<and> n < 24" | "24 \<le> n \<and> n < 32"
    | "32 \<le> n \<and> n < 40" | "40 \<le> n \<and> n < 48" | "48 \<le> n \<and> n < 56" | "56 \<le> n"
    by linarith
  then show "bit (uint64_be (put_uint64 v)) n \<longleftrightarrow> bit v n"
    unfolding uint64_be_def put_uint64_def be_bits
    using n by cases (auto simp: be_bits comp_def dest: bit_imp_le_length)
qed

lemma uint16_be_append [simp]: "uint16_be (put_uint16 v @ xs) = v"
  using uint16_be_put [of v] by (simp add: uint16_be_def put_uint16_def)

lemma unat_word_of_nat_16 [simp]: "n < 65536 \<Longrightarrow> unat (word_of_nat n :: 16 word) = n"
  by (simp add: unat_of_nat take_bit_nat_eq_self)

lemma unat_word_of_nat_32 [simp]: "n < 4294967296 \<Longrightarrow> unat (word_of_nat n :: 32 word) = n"
  by (simp add: unat_of_nat take_bit_nat_eq_self)

end
