(* ===== verification/Policy_Decision.thy ===== *)
theory Policy_Decision
  imports Go_Prelude
begin

text \<open>
  \<open>internal/policy/decision.go\<close>: the enumeration of refusal reasons and the outcome of a
  policy check. A decision may carry the cause behind a refusal; its type is a parameter,
  because the cause is whatever error the resolver of the caller reports.
\<close>

datatype deny_reason =
    DenyNone
  | DenyMalformedAuthority
  | DenyIPLiteral
  | DenyPortNotAllowed
  | DenyNotAllowlisted
  | DenyResolutionFailed
  | DenyNonPublicAddress

fun deny_reason_string :: "deny_reason \<Rightarrow> string" where
  "deny_reason_string DenyNone = ''none''"
| "deny_reason_string DenyMalformedAuthority = ''malformed-authority''"
| "deny_reason_string DenyIPLiteral = ''ip-literal''"
| "deny_reason_string DenyPortNotAllowed = ''port-not-allowed''"
| "deny_reason_string DenyNotAllowlisted = ''not-allowlisted''"
| "deny_reason_string DenyResolutionFailed = ''resolution-failed''"
| "deny_reason_string DenyNonPublicAddress = ''non-public-address''"

record 'e decision =
  allowed :: bool
  reason :: deny_reason
  cause :: "'e option"

text \<open>\<open>Allow\<close>, \<open>Deny\<close> and \<open>DenyBecause\<close>; the zero value of a decision denies.\<close>

definition allow :: "'e decision" where
  "allow = \<lparr>allowed = True, reason = DenyNone, cause = None\<rparr>"

definition deny :: "deny_reason \<Rightarrow> 'e decision" where
  "deny r = \<lparr>allowed = False, reason = r, cause = None\<rparr>"

definition deny_because :: "deny_reason \<Rightarrow> 'e \<Rightarrow> 'e decision" where
  "deny_because r e = \<lparr>allowed = False, reason = r, cause = Some e\<rparr>"

definition decision_string :: "'e decision \<Rightarrow> string" where
  "decision_string d = (if allowed d then ''allow'' else ''deny:'' @ deny_reason_string (reason d))"

lemma decision_simps [simp]:
  "allowed allow" "\<not> allowed (deny r)" "\<not> allowed (deny_because r e)"
  "reason allow = DenyNone" "reason (deny r) = r" "reason (deny_because r e) = r"
  "cause allow = None" "cause (deny r) = None" "cause (deny_because r e) = Some e"
  by (simp_all add: allow_def deny_def deny_because_def)

lemma decision_neq [simp]:
  "allow \<noteq> deny r" "deny r \<noteq> allow" "allow \<noteq> deny_because r e" "deny_because r e \<noteq> allow"
  by (auto simp: allow_def deny_def deny_because_def)

lemma deny_eq [simp]: "deny r = deny r' \<longleftrightarrow> r = r'"
  by (auto simp: deny_def)

text \<open>The log tokens tell the reasons apart.\<close>

lemma deny_reason_string_inj: "deny_reason_string r = deny_reason_string r' \<longleftrightarrow> r = r'"
  by (cases r; cases r') simp_all

end
