(* ===== verification/Go_Strings.thy ===== *)
theory Go_Strings
  imports Go_Prelude
begin

text \<open>
  The part of the Go standard packages \<open>strings\<close>, \<open>unicode\<close>, \<open>unicode/utf8\<close> and
  \<open>strconv\<close> the program uses. A Go string is a byte sequence; it is modelled as a
  \<open>char list\<close>, one \<open>char\<close> per byte, so that \<open>len\<close> is \<open>length\<close> and an index is a
  byte offset. Operations that work on code points (\<open>ToLower\<close>, \<open>TrimSpace\<close>) decode
  UTF-8 as Go does: an invalid byte is the replacement rune of width one.
\<close>

section \<open>Bytes and characters\<close>

abbreviation code :: "char \<Rightarrow> nat" where
  "code c \<equiv> of_char c"

definition char_of_byte :: "byte \<Rightarrow> char" where
  "char_of_byte b = char_of (unat b)"

definition byte_of_char :: "char \<Rightarrow> byte" where
  "byte_of_char c = word_of_nat (code c)"

definition string_of_bytes :: "bytes \<Rightarrow> string" where
  "string_of_bytes bs = map char_of_byte bs"

definition bytes_of_string :: "string \<Rightarrow> bytes" where
  "bytes_of_string s = map byte_of_char s"

lemma char_of_byte_of_char [simp]: "char_of_byte (byte_of_char c) = c"
  by (simp add: char_of_byte_def byte_of_char_def unat_of_nat take_bit_nat_eq_self)

lemma byte_of_char_of_byte [simp]: "byte_of_char (char_of_byte b) = b"
proof -
  have "unat b < 2 ^ LENGTH(8)" by (rule unsigned_less)
  then show ?thesis by (simp add: char_of_byte_def byte_of_char_def)
qed

lemma string_of_bytes_of_string [simp]: "string_of_bytes (bytes_of_string s) = s"
  by (simp add: string_of_bytes_def bytes_of_string_def comp_def)

lemma bytes_of_string_of_bytes [simp]: "bytes_of_string (string_of_bytes b) = b"
  by (simp add: string_of_bytes_def bytes_of_string_def comp_def)

lemma length_string_of_bytes [simp]: "length (string_of_bytes b) = length b"
  and length_bytes_of_string [simp]: "length (bytes_of_string s) = length s"
  by (simp_all add: string_of_bytes_def bytes_of_string_def)

definition is_ascii :: "string \<Rightarrow> bool" where
  "is_ascii s = list_all (\<lambda>c. code c < 128) s"

section \<open>UTF-8\<close>

definition rune_error :: nat where
  "rune_error = 65533"

definition code_at :: "string \<Rightarrow> nat \<Rightarrow> nat" where
  "code_at s i = (if i < length s then code (s ! i) else 0)"

definition in_range :: "nat \<Rightarrow> nat \<Rightarrow> nat \<Rightarrow> bool" where
  "in_range lo hi n = (lo \<le> n \<and> n \<le> hi)"

text \<open>\<open>utf8.DecodeRuneInString\<close> on a non-empty string: the rune and its width.\<close>

definition decode_rune :: "string \<Rightarrow> nat \<times> nat" where
  "decode_rune s =
     (let b0 = code_at s 0; b1 = code_at s 1; b2 = code_at s 2; b3 = code_at s 3;
          lo1 = (if b0 = 224 then 160 else if b0 = 240 then 144 else 128);
          hi1 = (if b0 = 237 then 159 else if b0 = 244 then 143 else 191)
      in if b0 < 128 then (b0, 1)
         else if in_range 194 223 b0 \<and> in_range 128 191 b1
           then ((b0 - 192) * 64 + (b1 - 128), 2)
         else if in_range 224 239 b0 \<and> in_range lo1 hi1 b1 \<and> in_range 128 191 b2
           then ((b0 - 224) * 4096 + (b1 - 128) * 64 + (b2 - 128), 3)
         else if in_range 240 244 b0 \<and> in_range lo1 hi1 b1 \<and> in_range 128 191 b2 \<and> in_range 128 191 b3
           then ((b0 - 240) * 262144 + (b1 - 128) * 4096 + (b2 - 128) * 64 + (b3 - 128), 4)
         else (rune_error, 1))"

lemma decode_rune_width: "1 \<le> snd (decode_rune s)"
  by (simp add: decode_rune_def Let_def)

text \<open>\<open>utf8.AppendRune\<close>.\<close>

definition encode_rune :: "nat \<Rightarrow> string" where
  "encode_rune r =
     (if r < 128 then [char_of r]
      else if r < 2048 then [char_of (192 + r div 64), char_of (128 + r mod 64)]
      else if in_range 55296 57343 r \<or> 1114111 < r then [char_of (239::nat), char_of (191::nat), char_of (189::nat)]
      else if r < 65536 then [char_of (224 + r div 4096), char_of (128 + r div 64 mod 64), char_of (128 + r mod 64)]
      else [char_of (240 + r div 262144), char_of (128 + r div 4096 mod 64),
            char_of (128 + r div 64 mod 64), char_of (128 + r mod 64)])"

text \<open>The runes of a string in order, each with the bytes it was decoded from.\<close>

function runes :: "string \<Rightarrow> (nat \<times> string) list" where
  "runes s =
     (if s = [] then []
      else (fst (decode_rune s), take (snd (decode_rune s)) s) # runes (drop (snd (decode_rune s)) s))"
  by pat_completeness auto
termination
  by (relation "measure length") (auto simp: decode_rune_width Suc_le_lessD[OF decode_rune_width[unfolded One_nat_def]])

declare runes.simps [simp del]

lemma runes_Nil [simp]: "runes [] = []"
  by (simp add: runes.simps)

lemma decode_rune_ascii: "code c < 128 \<Longrightarrow> decode_rune (c # s) = (code c, 1)"
  by (simp add: decode_rune_def code_at_def)

lemma runes_ascii_Cons: "code c < 128 \<Longrightarrow> runes (c # s) = (code c, [c]) # runes s"
  by (simp add: runes.simps [of "c # s"] decode_rune_ascii)

lemma runes_ascii: "is_ascii s \<Longrightarrow> runes s = map (\<lambda>c. (code c, [c])) s"
  by (induction s) (simp_all add: is_ascii_def runes_ascii_Cons)

lemma runes_concat: "concat (map snd (runes s)) = s"
proof (induction s rule: runes.induct)
  case (1 s)
  then show ?case by (cases "s = []") (simp_all add: runes.simps [of s])
qed

section \<open>Case mapping and white space\<close>

text \<open>
  \<open>unicode.ToLower\<close> on code points from 128 on: the ranges \<open>(first, last, stride, delta)\<close>
  of the simple lower-case mapping of the Unicode character database. Two of them map into
  ASCII: U+0130 to the letter i and U+212A, the Kelvin sign, to the letter k.
\<close>

definition lower_table :: "(nat \<times> nat \<times> nat \<times> int) list" where
  "lower_table = [
    (192,214,1,32), (216,222,1,32), (256,302,2,1), (304,304,1,-199), (306,310,2,1), (313,327,2,1),
    (330,374,2,1), (376,376,1,-121), (377,381,2,1), (385,385,1,210), (386,388,2,1), (390,390,1,206),
    (391,391,1,1), (393,394,1,205), (395,395,1,1), (398,398,1,79), (399,399,1,202), (400,400,1,203),
    (401,401,1,1), (403,403,1,205), (404,404,1,207), (406,406,1,211), (407,407,1,209), (408,408,1,1),
    (412,412,1,211), (413,413,1,213), (415,415,1,214), (416,420,2,1), (422,422,1,218), (423,423,1,1),
    (425,425,1,218), (428,428,1,1), (430,430,1,218), (431,431,1,1), (433,434,1,217), (435,437,2,1),
    (439,439,1,219), (440,440,1,1), (444,444,1,1), (452,452,1,2), (453,453,1,1), (455,455,1,2),
    (456,456,1,1), (458,458,1,2), (459,475,2,1), (478,494,2,1), (497,497,1,2), (498,500,2,1),
    (502,502,1,-97), (503,503,1,-56), (504,542,2,1), (544,544,1,-130), (546,562,2,1), (570,570,1,10795),
    (571,571,1,1), (573,573,1,-163), (574,574,1,10792), (577,577,1,1), (579,579,1,-195), (580,580,1,69),
    (581,581,1,71), (582,590,2,1), (880,882,2,1), (886,886,1,1), (895,895,1,116), (902,902,1,38),
    (904,906,1,37), (908,908,1,64), (910,911,1,63), (913,929,1,32), (931,939,1,32), (975,975,1,8),
    (984,1006,2,1), (1012,1012,1,-60), (1015,1015,1,1), (1017,1017,1,-7), (1018,1018,1,1),
    (1021,1023,1,-130), (1024,1039,1,80), (1040,1071,1,32), (1120,1152,2,1), (1162,1214,2,1),
    (1216,1216,1,15), (1217,1229,2,1), (1232,1326,2,1), (1329,1366,1,48), (4256,4293,1,7264),
    (4295,4295,1,7264), (4301,4301,1,7264), (5024,5103,1,38864), (5104,5109,1,8), (7312,7354,1,-3008),
    (7357,7359,1,-3008), (7680,7828,2,1), (7838,7838,1,-7615), (7840,7934,2,1), (7944,7951,1,-8),
    (7960,7965,1,-8), (7976,7983,1,-8), (7992,7999,1,-8), (8008,8013,1,-8), (8025,8031,2,-8),
    (8040,8047,1,-8), (8072,8079,1,-8), (8088,8095,1,-8), (8104,8111,1,-8), (8120,8121,1,-8),
    (8122,8123,1,-74), (8124,8124,1,-9), (8136,8139,1,-86), (8140,8140,1,-9), (8152,8153,1,-8),
    (8154,8155,1,-100), (8168,8169,1,-8), (8170,8171,1,-112), (8172,8172,1,-7), (8184,8185,1,-128),
    (8186,8187,1,-126), (8188,8188,1,-9), (8486,8486,1,-7517), (8490,8490,1,-8383), (8491,8491,1,-8262),
    (8498,8498,1,28), (8544,8559,1,16), (8579,8579,1,1), (9398,9423,1,26), (11264,11311,1,48),
    (11360,11360,1,1), (11362,11362,1,-10743), (11363,11363,1,-3814), (11364,11364,1,-10727),
    (11367,11371,2,1), (11373,11373,1,-10780), (11374,11374,1,-10749), (11375,11375,1,-10783),
    (11376,11376,1,-10782), (11378,11378,1,1), (11381,11381,1,1), (11390,11391,1,-10815), (11392,11490,2,1),
    (11499,11501,2,1), (11506,11506,1,1), (42560,42604,2,1), (42624,42650,2,1), (42786,42798,2,1),
    (42802,42862,2,1), (42873,42875,2,1), (42877,42877,1,-35332), (42878,42886,2,1), (42891,42891,1,1),
    (42893,42893,1,-42280), (42896,42898,2,1), (42902,42920,2,1), (42922,42922,1,-42308),
    (42923,42923,1,-42319), (42924,42924,1,-42315), (42925,42925,1,-42305), (42926,42926,1,-42308),
    (42928,42928,1,-42258), (42929,42929,1,-42282), (42930,42930,1,-42261), (42931,42931,1,928),
    (42932,42946,2,1), (42948,42948,1,-48), (42949,42949,1,-42307), (42950,42950,1,-35384),
    (42951,42953,2,1), (42960,42960,1,1), (42966,42968,2,1), (42997,42997,1,1), (65313,65338,1,32),
    (66560,66599,1,40), (66736,66771,1,40), (66928,66938,1,39), (66940,66954,1,39), (66956,66962,1,39),
    (66964,66965,1,39), (68736,68786,1,64), (71840,71871,1,32), (93760,93791,1,32), (125184,125217,1,34)]"

fun lower_applies :: "nat \<Rightarrow> nat \<times> nat \<times> nat \<times> int \<Rightarrow> bool" where
  "lower_applies r (lo, hi, stride, delta) = (lo \<le> r \<and> r \<le> hi \<and> (r - lo) mod stride = 0)"

definition lower_ascii :: "nat \<Rightarrow> nat" where
  "lower_ascii r = (if in_range 65 90 r then r + 32 else r)"

definition unicode_to_lower :: "nat \<Rightarrow> nat" where
  "unicode_to_lower r =
     (if r < 128 then lower_ascii r
      else case find (lower_applies r) lower_table of
             None \<Rightarrow> r
           | Some (_, _, _, delta) \<Rightarrow> nat (int r + delta))"

definition lower_char :: "char \<Rightarrow> char" where
  "lower_char c = char_of (lower_ascii (code c))"

text \<open>\<open>strings.ToLower\<close>: byte-wise on ASCII strings, else \<open>strings.Map\<close> over the runes.\<close>

definition to_lower :: "string \<Rightarrow> string" where
  "to_lower s =
     (if is_ascii s then map lower_char s
      else concat (map (\<lambda>(r, _). encode_rune (unicode_to_lower r)) (runes s)))"

text \<open>\<open>unicode.IsSpace\<close> and \<open>strings.TrimSpace\<close>.\<close>

definition is_space :: "nat \<Rightarrow> bool" where
  "is_space r = (in_range 9 13 r \<or> r = 32 \<or> r = 133 \<or> r = 160 \<or> r = 5760 \<or> in_range 8192 8202 r
     \<or> r = 8232 \<or> r = 8233 \<or> r = 8239 \<or> r = 8287 \<or> r = 12288)"

definition trim_by :: "('a \<Rightarrow> bool) \<Rightarrow> 'a list \<Rightarrow> 'a list" where
  "trim_by p xs = rev (dropWhile p (rev (dropWhile p xs)))"

definition trim_space :: "string \<Rightarrow> string" where
  "trim_space s = concat (map snd (trim_by (\<lambda>(r, _). is_space r) (runes s)))"

text \<open>\<open>strings.Trim\<close> with an ASCII cut set is byte-wise.\<close>

definition trim_chars :: "string \<Rightarrow> string \<Rightarrow> string" where
  "trim_chars cutset s = trim_by (\<lambda>c. c \<in> set cutset) s"

section \<open>Prefixes, suffixes, splitting\<close>

definition has_prefix :: "string \<Rightarrow> string \<Rightarrow> bool" where
  "has_prefix s p = (take (length p) s = p)"

definition has_suffix :: "string \<Rightarrow> string \<Rightarrow> bool" where
  "has_suffix s p = (length p \<le> length s \<and> drop (length s - length p) s = p)"

definition trim_suffix :: "string \<Rightarrow> string \<Rightarrow> string" where
  "trim_suffix s p = (if has_suffix s p then take (length s - length p) s else s)"

definition trim_prefix :: "string \<Rightarrow> string \<Rightarrow> string" where
  "trim_prefix s p = (if has_prefix s p then drop (length p) s else s)"

text \<open>\<open>strings.Cut\<close> with a one-byte separator: \<open>None\<close> when it does not occur.\<close>

fun cut_at :: "char \<Rightarrow> string \<Rightarrow> (string \<times> string) option" where
  "cut_at sep [] = None"
| "cut_at sep (c # s) =
     (if c = sep then Some ([], s)
      else case cut_at sep s of None \<Rightarrow> None | Some (a, b) \<Rightarrow> Some (c # a, b))"

text \<open>\<open>strings.Split\<close> with a one-byte separator; the result is never empty.\<close>

fun split_on :: "char \<Rightarrow> string \<Rightarrow> string list" where
  "split_on sep [] = [[]]"
| "split_on sep (c # s) =
     (if c = sep then [] # split_on sep s
      else case split_on sep s of
             [] \<Rightarrow> [[c]]
           | w # ws \<Rightarrow> (c # w) # ws)"

fun join :: "string \<Rightarrow> string list \<Rightarrow> string" where
  "join sep [] = []"
| "join sep [w] = w"
| "join sep (w # ws) = w @ sep @ join sep ws"

section \<open>Decimal numbers\<close>

definition digit_char :: "nat \<Rightarrow> char" where
  "digit_char d = char_of (48 + d)"

definition is_digit :: "char \<Rightarrow> bool" where
  "is_digit c = in_range 48 57 (code c)"

text \<open>\<open>strconv.Itoa\<close> on a non-negative number.\<close>

fun itoa :: "nat \<Rightarrow> string" where
  "itoa n = (if n < 10 then [digit_char n] else itoa (n div 10) @ [digit_char (n mod 10)])"

declare itoa.simps [simp del]

text \<open>The value of a string of decimal digits, most significant first.\<close>

definition decimal :: "string \<Rightarrow> nat" where
  "decimal s = foldl (\<lambda>v c. v * 10 + (code c - 48)) 0 s"

section \<open>Lemmas on strings\<close>

named_theorems string_simps "evaluation of the string operations"

lemma code_less [simp]: "code c < 256"
  by (rule nat_of_char_less_256)

lemma is_ascii_simps [simp]:
  "is_ascii []" "is_ascii (c # s) \<longleftrightarrow> code c < 128 \<and> is_ascii s"
  "is_ascii (s @ t) \<longleftrightarrow> is_ascii s \<and> is_ascii t"
  by (simp_all add: is_ascii_def)

lemma is_ascii_iff: "is_ascii s \<longleftrightarrow> (\<forall>c \<in> set s. code c < 128)"
  by (simp add: is_ascii_def list_all_iff)

subsection \<open>Lower case\<close>

lemma lower_ascii_idem [simp]: "lower_ascii (lower_ascii r) = lower_ascii r"
  by (simp add: lower_ascii_def in_range_def)

lemma lower_ascii_less: "r < 128 \<Longrightarrow> lower_ascii r < 128"
  by (simp add: lower_ascii_def in_range_def)

lemma code_lower_char: "code c < 128 \<Longrightarrow> code (lower_char c) = lower_ascii (code c)"
  using lower_ascii_less [of "code c"] by (simp add: lower_char_def)

lemma lower_char_id: "code c < 65 \<or> 90 < code c \<Longrightarrow> lower_char c = c"
  by (auto simp: lower_char_def lower_ascii_def in_range_def)

lemma to_lower_id: "(\<And>c. c \<in> set s \<Longrightarrow> code c < 128 \<and> \<not> in_range 65 90 (code c)) \<Longrightarrow> to_lower s = s"
  by (auto simp: to_lower_def is_ascii_iff in_range_def not_le intro!: map_idI lower_char_id)

lemma to_lower_ascii: "is_ascii s \<Longrightarrow> to_lower s = map lower_char s"
  by (simp add: to_lower_def)

lemma lower_table_ascii:
  "list_all (\<lambda>(lo, hi, _, delta). 128 \<le> int lo + delta \<or> (lo = 304 \<and> hi = 304) \<or> (lo = 8490 \<and> hi = 8490))
     lower_table"
  by (simp add: lower_table_def)

text \<open>The two code points outside ASCII whose lower case is an ASCII letter.\<close>

lemma unicode_to_lower_non_ascii:
  assumes "128 \<le> r" and "r \<noteq> 304" and "r \<noteq> 8490"
  shows "128 \<le> unicode_to_lower r"
proof (cases "find (lower_applies r) lower_table")
  case None
  then show ?thesis using assms by (simp add: unicode_to_lower_def)
next
  case (Some e)
  obtain lo hi st delta where e: "e = (lo, hi, st, delta)" by (cases e)
  from Some have "e \<in> set lower_table" and app: "lower_applies r e"
    by (auto simp: find_Some_iff)
  then have "128 \<le> int lo + delta \<or> (lo = 304 \<and> hi = 304) \<or> (lo = 8490 \<and> hi = 8490)"
    using lower_table_ascii by (auto simp: list_all_iff e)
  with app assms show ?thesis
    by (auto simp: unicode_to_lower_def Some e)
qed

lemma encode_rune_non_ascii: "128 \<le> r \<Longrightarrow> c \<in> set (encode_rune r) \<Longrightarrow> 128 \<le> code c"
  by (auto simp: encode_rune_def split: if_splits)

lemma encode_rune_not_Nil [simp]: "encode_rune r \<noteq> []"
  by (simp add: encode_rune_def)

lemma runes_Cons: "s \<noteq> [] \<Longrightarrow> runes s = (fst (decode_rune s), take (snd (decode_rune s)) s) # runes (drop (snd (decode_rune s)) s)"
  by (simp add: runes.simps [of s])

lemma decode_rune_non_ascii: "128 \<le> code c \<Longrightarrow> 128 \<le> fst (decode_rune (c # s))"
proof -
  assume c: "128 \<le> code c"
  define b0 where "b0 = code_at (c # s) 0"
  define b1 where "b1 = code_at (c # s) 1"
  define b2 where "b2 = code_at (c # s) 2"
  define b3 where "b3 = code_at (c # s) 3"
  define lo1 :: nat where "lo1 = (if b0 = 224 then 160 else if b0 = 240 then 144 else 128)"
  define hi1 :: nat where "hi1 = (if b0 = 237 then 159 else if b0 = 244 then 143 else 191)"
  have b0: "128 \<le> b0" using c by (simp add: b0_def code_at_def)
  have two: "128 \<le> (b0 - 192) * 64 + (b1 - 128)" if "in_range 194 223 b0"
  proof -
    have "2 \<le> b0 - 192" using that unfolding in_range_def by arith
    then show ?thesis by linarith
  qed
  have three: "128 \<le> (b0 - 224) * 4096 + (b1 - 128) * 64 + (b2 - 128)"
    if "in_range 224 239 b0" "in_range lo1 hi1 b1"
    using that by (cases "b0 = 224") (auto simp: in_range_def lo1_def)
  have four: "128 \<le> (b0 - 240) * 262144 + (b1 - 128) * 4096 + (b2 - 128) * 64 + (b3 - 128)"
    if "in_range 240 244 b0" "in_range lo1 hi1 b1"
    using that by (cases "b0 = 240") (auto simp: in_range_def lo1_def)
  show ?thesis
    unfolding decode_rune_def Let_def b0_def [symmetric] b1_def [symmetric] b2_def [symmetric]
      b3_def [symmetric] lo1_def [symmetric] hi1_def [symmetric]
    using b0 two three four by (simp add: rune_error_def)
qed

lemma runes_all_ascii: "(\<And>r seg. (r, seg) \<in> set (runes s) \<Longrightarrow> r < 128) \<Longrightarrow> is_ascii s"
proof (induction s rule: runes.induct)
  case (1 s)
  show ?case
  proof (cases s)
    case (Cons c t)
    have r: "runes s = (fst (decode_rune s), take (snd (decode_rune s)) s) # runes (drop (snd (decode_rune s)) s)"
      by (rule runes_Cons) (simp add: Cons)
    then have "fst (decode_rune s) < 128"
      using 1(2) by auto
    then have c: "code c < 128"
      using decode_rune_non_ascii [of c t] by (metis Cons not_less)
    then have d: "snd (decode_rune s) = 1" by (simp add: Cons decode_rune_ascii)
    have "is_ascii (drop (snd (decode_rune s)) s)"
      by (rule 1(1)) (use r 1(2) in \<open>auto simp: Cons\<close>)
    with c d show ?thesis by (simp add: Cons)
  qed simp
qed

lemma runes_segment_not_Nil: "(r, seg) \<in> set (runes s) \<Longrightarrow> seg \<noteq> []"
proof (induction s rule: runes.induct)
  case (1 s)
  show ?case
  proof (cases "s = []")
    case False
    then have "(r, seg) = (fst (decode_rune s), take (snd (decode_rune s)) s)
        \<or> (r, seg) \<in> set (runes (drop (snd (decode_rune s)) s))"
      using 1(2) runes_Cons [OF False] by auto
    then show ?thesis
      using 1(1) False decode_rune_width [of s] by auto
  qed (use 1(2) in simp)
qed

lemma length_runes: "length (runes s) \<le> length s"
proof (induction s rule: runes.induct)
  case (1 s)
  show ?case
  proof (cases "s = []")
    case False
    then show ?thesis
      using 1 runes_Cons [OF False] decode_rune_width [of s] by (cases s) auto
  qed simp
qed

lemma concat_map_singletons: "(\<And>x. x \<in> set xs \<Longrightarrow> length (f x) = 1) \<Longrightarrow> length (concat (map f xs)) = length xs"
  by (induction xs) auto

lemma to_lower_runes:
  assumes "\<not> is_ascii s" and "(r, seg) \<in> set (runes s)"
  shows "set (encode_rune (unicode_to_lower r)) \<subseteq> set (to_lower s)"
  using assms by (force simp: to_lower_def)

lemma is_ascii_subset: "is_ascii t \<Longrightarrow> set s \<subseteq> set t \<Longrightarrow> is_ascii s"
  by (auto simp: is_ascii_iff)

lemma is_ascii_encode_rune: "is_ascii (encode_rune r) \<Longrightarrow> r < 128"
  using encode_rune_non_ascii [of r "hd (encode_rune r)"]
  by (metis encode_rune_not_Nil hd_in_set is_ascii_iff not_less)

text \<open>
  When the lower case of a string is ASCII, every code point of the string was ASCII or one of
  the two that map into ASCII, and the string has not grown.
\<close>

lemma to_lower_ascii_output:
  assumes "is_ascii (to_lower s)"
  shows "(r, seg) \<in> set (runes s) \<Longrightarrow> r < 128 \<or> r = 304 \<or> r = 8490"
    and "length (to_lower s) \<le> length s"
proof -
  have *: "r < 128 \<or> r = 304 \<or> r = 8490" if r: "(r, seg) \<in> set (runes s)" for r seg
  proof (cases "is_ascii s")
    case True
    with r show ?thesis by (auto simp: runes_ascii is_ascii_iff)
  next
    case False
    have "unicode_to_lower r < 128"
      by (rule is_ascii_encode_rune, rule is_ascii_subset [OF assms], rule to_lower_runes [OF False r])
    then show ?thesis
      using unicode_to_lower_non_ascii [of r] by (metis not_less)
  qed
  then show "(r, seg) \<in> set (runes s) \<Longrightarrow> r < 128 \<or> r = 304 \<or> r = 8490" .
  show "length (to_lower s) \<le> length s"
  proof (cases "is_ascii s")
    case False
    have "length (encode_rune (unicode_to_lower r)) = 1" if "(r, seg) \<in> set (runes s)" for r seg
    proof -
      have "unicode_to_lower r < 128"
        by (rule is_ascii_encode_rune, rule is_ascii_subset [OF assms], rule to_lower_runes [OF False that])
      then show ?thesis by (simp add: encode_rune_def)
    qed
    then have "length (concat (map (\<lambda>(r, _). encode_rune (unicode_to_lower r)) (runes s))) = length (runes s)"
      by (intro concat_map_singletons) auto
    then show ?thesis using False length_runes [of s] by (simp add: to_lower_def)
  qed (simp add: to_lower_def)
qed

lemma unicode_to_lower_into_ascii: "unicode_to_lower 304 = 105" "unicode_to_lower 8490 = 107"
  by (simp_all add: unicode_to_lower_def lower_table_def)

text \<open>A lower-cased string of digits and dots was that string already.\<close>

lemma to_lower_digits:
  assumes "\<And>c. c \<in> set (to_lower s) \<Longrightarrow> is_digit c \<or> c = CHR ''.''"
  shows "to_lower s = s"
proof -
  have asc: "is_ascii (to_lower s)"
    using assms by (fastforce simp: is_ascii_iff is_digit_def in_range_def)
  have "is_ascii s"
  proof (rule runes_all_ascii, rule ccontr)
    fix r seg
    assume r: "(r, seg) \<in> set (runes s)" and "\<not> r < 128"
    then have r2: "r = 304 \<or> r = 8490" using to_lower_ascii_output(1) [OF asc r] by simp
    have na: "\<not> is_ascii s"
    proof
      assume "is_ascii s"
      with r have "r < 128" by (auto simp: runes_ascii is_ascii_iff)
      with \<open>\<not> r < 128\<close> show False by simp
    qed
    have "set (encode_rune (unicode_to_lower r)) \<subseteq> set (to_lower s)"
      by (rule to_lower_runes [OF na r])
    moreover have "encode_rune (unicode_to_lower r) = ''i'' \<or> encode_rune (unicode_to_lower r) = ''k''"
      using r2 by (auto simp: unicode_to_lower_into_ascii encode_rune_def char_of_eq_iff)
    ultimately have "CHR ''i'' \<in> set (to_lower s) \<or> CHR ''k'' \<in> set (to_lower s)" by auto
    then show False using assms by (fastforce simp: is_digit_def in_range_def)
  qed
  have "lower_char c = c" if "c \<in> set s" for c
  proof -
    have "lower_char c \<in> set (to_lower s)" using that \<open>is_ascii s\<close> by (simp add: to_lower_ascii)
    then have "is_digit (lower_char c) \<or> lower_char c = CHR ''.''" by (rule assms)
    moreover have "code (lower_char c) = lower_ascii (code c)"
      using that \<open>is_ascii s\<close> by (simp add: code_lower_char is_ascii_iff)
    ultimately have "\<not> in_range 65 90 (code c)"
      by (auto simp: is_digit_def in_range_def lower_ascii_def split: if_splits)
    then show ?thesis by (intro lower_char_id) (auto simp: in_range_def)
  qed
  then show ?thesis using \<open>is_ascii s\<close> by (simp add: to_lower_ascii map_idI)
qed

subsection \<open>Trimming\<close>

lemma trim_by_id: "xs = [] \<or> (\<not> p (hd xs) \<and> \<not> p (last xs)) \<Longrightarrow> trim_by p xs = xs"
proof (cases "xs = []")
  case False
  assume "xs = [] \<or> (\<not> p (hd xs) \<and> \<not> p (last xs))"
  with False have "dropWhile p xs = xs" and "dropWhile p (rev xs) = rev xs"
    by (simp_all add: dropWhile_eq_self_iff hd_rev)
  then show ?thesis by (simp add: trim_by_def)
qed (simp add: trim_by_def)

lemma trim_by_map: "trim_by p (map f xs) = map f (trim_by (p \<circ> f) xs)"
  by (simp add: trim_by_def dropWhile_map rev_map)

lemma set_trim_by: "set (trim_by p xs) \<subseteq> set xs"
  unfolding trim_by_def by (metis set_dropWhileD set_rev subsetI)

lemma length_trim_by: "length (trim_by p xs) \<le> length xs"
  unfolding trim_by_def
  by (metis length_dropWhile_le length_rev order_trans)

lemma trim_by_ends: "trim_by p xs = [] \<or> (\<not> p (hd (trim_by p xs)) \<and> \<not> p (last (trim_by p xs)))"
proof (cases "trim_by p xs = []")
  case False
  let ?d = "dropWhile p xs"
  have ne: "dropWhile p (rev ?d) \<noteq> []" using False by (simp add: trim_by_def)
  then have last: "\<not> p (last (trim_by p xs))"
    by (simp add: trim_by_def last_rev hd_dropWhile)
  have "?d \<noteq> []" using ne by (metis dropWhile.simps(1) rev.simps(1))
  then have hd: "\<not> p (hd ?d)" by (rule hd_dropWhile)
  obtain ys where ys: "rev ?d = ys @ dropWhile p (rev ?d)"
    by (metis takeWhile_dropWhile_id)
  then have "?d = trim_by p xs @ rev ys"
    by (metis rev_append rev_rev_ident trim_by_def)
  then have "hd ?d = hd (trim_by p xs)"
    using False by (metis hd_append2)
  with hd last show ?thesis by simp
qed simp

lemma trim_by_idem [simp]: "trim_by p (trim_by p xs) = trim_by p xs"
  by (rule trim_by_id) (rule trim_by_ends)

lemma trim_space_ascii: "is_ascii s \<Longrightarrow> trim_space s = trim_by (\<lambda>c. is_space (code c)) s"
  by (simp add: trim_space_def runes_ascii trim_by_map comp_def)

subsection \<open>Splitting and joining\<close>

lemma split_on_not_Nil [simp]: "split_on sep s \<noteq> []"
  by (cases "(sep, s)" rule: split_on.cases) (auto split: list.splits)

lemma join_Cons: "ws \<noteq> [] \<Longrightarrow> join sep (w # ws) = w @ sep @ join sep ws"
  by (cases ws) simp_all

lemma join_split_on: "join [sep] (split_on sep s) = s"
proof (induction s)
  case (Cons c s)
  show ?case
  proof (cases "split_on sep s")
    case (Cons w ws)
    with Cons.IH show ?thesis by (cases ws) (simp_all add: join_Cons)
  qed simp
qed simp

lemma split_on_no_sep: "w \<in> set (split_on sep s) \<Longrightarrow> sep \<notin> set w"
  by (induction s arbitrary: w) (fastforce split: list.splits if_splits)+

lemma set_split_on: "w \<in> set (split_on sep s) \<Longrightarrow> set w \<subseteq> set s"
proof (induction s arbitrary: w)
  case (Cons c s)
  then show ?case by (fastforce split: list.splits if_splits)
qed simp

lemma set_in_split_on: "c \<in> set s \<Longrightarrow> c = sep \<or> (\<exists>w \<in> set (split_on sep s). c \<in> set w)"
proof (induction s)
  case (Cons d s)
  then show ?case by (cases "split_on sep s") (auto split: if_splits)
qed simp

lemma split_on_append:
  "split_on sep (s @ sep # t) = split_on sep s @ split_on sep t"
  by (induction s) (auto split: list.splits)

lemma split_on_free: "sep \<notin> set s \<Longrightarrow> split_on sep s = [s]"
  by (induction s) auto

lemma split_on_join:
  "ws \<noteq> [] \<Longrightarrow> (\<And>w. w \<in> set ws \<Longrightarrow> sep \<notin> set w) \<Longrightarrow> split_on sep (join [sep] ws) = ws"
proof (induction ws)
  case (Cons w ws)
  then show ?case
    by (cases ws) (simp_all add: split_on_append split_on_free)
qed simp

lemma cut_at_None: "cut_at sep s = None \<longleftrightarrow> sep \<notin> set s"
  by (induction s) (auto split: option.splits)

lemma cut_at_Some: "cut_at sep s = Some (a, b) \<longleftrightarrow> sep \<notin> set a \<and> s = a @ sep # b"
proof (induction s arbitrary: a)
  case (Cons c s)
  show ?case
  proof (cases "c = sep")
    case True
    then show ?thesis by (cases a) auto
  next
    case False
    show ?thesis
    proof (cases a)
      case Nil
      with False show ?thesis by (simp split: option.splits)
    next
      case (Cons d a')
      with False Cons.IH [of a'] show ?thesis by (auto split: option.splits)
    qed
  qed
qed simp

lemma trim_suffix_append [simp]: "trim_suffix (s @ p) p = s"
  by (simp add: trim_suffix_def has_suffix_def)

lemma has_suffix_iff: "has_suffix s p \<longleftrightarrow> (\<exists>u. s = u @ p)"
  by (auto simp: has_suffix_def) (metis append_take_drop_id)

lemma has_prefix_iff: "has_prefix s p \<longleftrightarrow> (\<exists>u. s = p @ u)"
  by (auto simp: has_prefix_def) (metis append_take_drop_id)

subsection \<open>Decimal numbers\<close>

lemma code_digit_char [simp]: "d < 10 \<Longrightarrow> code (digit_char d) = 48 + d"
  by (simp add: digit_char_def)

lemma is_digit_digit_char [simp]: "d < 10 \<Longrightarrow> is_digit (digit_char d)"
  by (simp add: is_digit_def in_range_def)

lemma itoa_digits: "c \<in> set (itoa n) \<Longrightarrow> is_digit c"
proof (induction n rule: itoa.induct)
  case (1 n)
  then show ?case
    by (cases "n < 10") (auto simp: itoa.simps [of n])
qed

lemma itoa_not_Nil [simp]: "itoa n \<noteq> []"
  by (simp add: itoa.simps [of n])

lemma decimal_snoc: "decimal (s @ [c]) = decimal s * 10 + (code c - 48)"
  by (simp add: decimal_def)

lemma decimal_itoa [simp]: "decimal (itoa n) = n"
proof (induction n rule: itoa.induct)
  case (1 n)
  then show ?case
    by (cases "n < 10") (simp_all add: itoa.simps [of n] decimal_snoc decimal_def)
qed

end
