(* ===== verification/Go_Netip.thy ===== *)
theory Go_Netip
  imports Go_Strings
begin

text \<open>
  The part of the Go standard packages \<open>net/netip\<close> and \<open>net\<close> the program uses: the
  address type, \<open>netip.ParseAddr\<close> for IPv4 and IPv6 texts, the address predicates,
  \<open>Prefix.Contains\<close> and \<open>net.SplitHostPort\<close>. Addresses are machine words; the
  predicates are the bit tests of the library.
\<close>

section \<open>Addresses\<close>

text \<open>
  \<open>netip.Addr\<close>: the zero value, an IPv4 address, or an IPv6 address with its zone (empty
  for none). An IPv4-mapped IPv6 address is an \<open>Addr6\<close>.
\<close>

datatype addr = AddrZero | Addr4 "32 word" | Addr6 "128 word" string

definition is_valid :: "addr \<Rightarrow> bool" where
  "is_valid a = (a \<noteq> AddrZero)"

fun addr_zone :: "addr \<Rightarrow> string" where
  "addr_zone (Addr6 _ z) = z"
| "addr_zone _ = []"

definition is4in6 :: "addr \<Rightarrow> bool" where
  "is4in6 a = (case a of Addr6 w _ \<Rightarrow> drop_bit 32 w = 65535 | _ \<Rightarrow> False)"

definition unmap :: "addr \<Rightarrow> addr" where
  "unmap a = (case a of Addr6 w z \<Rightarrow> if drop_bit 32 w = 65535 then Addr4 (ucast w) else a | _ \<Rightarrow> a)"

text \<open>\<open>v4(n)\<close>, the bytes of an IPv4 address, and \<open>v6u16(0)\<close>, the first group of an IPv6 one.\<close>

definition v4_byte :: "nat \<Rightarrow> 32 word \<Rightarrow> byte" where
  "v4_byte n w = ucast (drop_bit (24 - 8 * n) w)"

definition v6_group0 :: "128 word \<Rightarrow> 16 word" where
  "v6_group0 w = ucast (drop_bit 112 w)"

definition is_unspecified :: "addr \<Rightarrow> bool" where
  "is_unspecified a = (a = Addr4 0 \<or> a = Addr6 0 [])"

definition is_loopback :: "addr \<Rightarrow> bool" where
  "is_loopback a = (case unmap a of
     AddrZero \<Rightarrow> False
   | Addr4 w \<Rightarrow> v4_byte 0 w = 127
   | Addr6 w _ \<Rightarrow> w = 1)"

definition is_multicast :: "addr \<Rightarrow> bool" where
  "is_multicast a = (case unmap a of
     AddrZero \<Rightarrow> False
   | Addr4 w \<Rightarrow> v4_byte 0 w AND 240 = 224
   | Addr6 w _ \<Rightarrow> drop_bit 120 w = 255)"

definition is_link_local_unicast :: "addr \<Rightarrow> bool" where
  "is_link_local_unicast a = (case unmap a of
     AddrZero \<Rightarrow> False
   | Addr4 w \<Rightarrow> v4_byte 0 w = 169 \<and> v4_byte 1 w = 254
   | Addr6 w _ \<Rightarrow> v6_group0 w AND 65472 = 65152)"

definition is_link_local_multicast :: "addr \<Rightarrow> bool" where
  "is_link_local_multicast a = (case unmap a of
     AddrZero \<Rightarrow> False
   | Addr4 w \<Rightarrow> v4_byte 0 w = 224 \<and> v4_byte 1 w = 0 \<and> v4_byte 2 w = 0
   | Addr6 w _ \<Rightarrow> v6_group0 w AND 65295 = 65282)"

definition is_private :: "addr \<Rightarrow> bool" where
  "is_private a = (case unmap a of
     AddrZero \<Rightarrow> False
   | Addr4 w \<Rightarrow> v4_byte 0 w = 10 \<or> (v4_byte 0 w = 172 \<and> v4_byte 1 w AND 240 = 16)
       \<or> (v4_byte 0 w = 192 \<and> v4_byte 1 w = 168)
   | Addr6 w _ \<Rightarrow> (ucast (drop_bit 120 w) :: byte) AND 254 = 252)"

definition is_global_unicast :: "addr \<Rightarrow> bool" where
  "is_global_unicast a =
     (if a = AddrZero then False
      else let b = unmap a in
        if b = Addr4 0 \<or> b = Addr4 (- 1) then False
        else b \<noteq> Addr6 0 [] \<and> \<not> is_loopback b \<and> \<not> is_multicast b \<and> \<not> is_link_local_unicast b)"

section \<open>Prefixes\<close>

datatype addr_prefix = Prefix4 "32 word" nat | Prefix6 "128 word" nat

text \<open>\<open>Prefix.Contains\<close>: never across families, never for a zoned address.\<close>

definition prefix_contains :: "addr_prefix \<Rightarrow> addr \<Rightarrow> bool" where
  "prefix_contains p a = (case (p, a) of
     (Prefix4 w n, Addr4 v) \<Rightarrow> drop_bit (32 - n) (v XOR w) = 0
   | (Prefix6 w n, Addr6 v z) \<Rightarrow> z = [] \<and> (v XOR w) AND NOT (mask (128 - n)) = 0
   | _ \<Rightarrow> False)"

section \<open>Parsing\<close>

text \<open>\<open>parseIPv4Fields\<close>: the four octets. \<open>prev\<close> is the byte before the current one.\<close>

fun ipv4_fields_loop :: "nat list \<Rightarrow> nat \<Rightarrow> nat \<Rightarrow> char option \<Rightarrow> string \<Rightarrow> nat list option" where
  "ipv4_fields_loop fields val digits prev [] = (if length fields < 3 then None else Some (fields @ [val]))"
| "ipv4_fields_loop fields val digits prev (c # s) =
     (if is_digit c then
        (if digits = 1 \<and> val = 0 then None
         else let v = val * 10 + (code c - 48)
              in if 255 < v then None else ipv4_fields_loop fields v (digits + 1) (Some c) s)
      else if c = CHR ''.'' then
        (if prev = None \<or> s = [] \<or> prev = Some CHR ''.'' then None
         else if length fields = 3 then None
         else ipv4_fields_loop (fields @ [val]) 0 0 (Some c) s)
      else None)"

definition parse_ipv4_fields :: "string \<Rightarrow> nat list option" where
  "parse_ipv4_fields s = ipv4_fields_loop [] 0 0 None s"

text \<open>The big-endian value of a list of octets.\<close>

definition octets_value :: "nat list \<Rightarrow> nat" where
  "octets_value bs = foldl (\<lambda>v b. v * 256 + b) 0 bs"

definition parse_ipv4 :: "string \<Rightarrow> addr option" where
  "parse_ipv4 s = map_option (\<lambda>bs. Addr4 (word_of_nat (octets_value bs))) (parse_ipv4_fields s)"

definition hex_value :: "char \<Rightarrow> nat option" where
  "hex_value c =
     (if in_range 48 57 (code c) then Some (code c - 48)
      else if in_range 97 102 (code c) then Some (code c - 87)
      else if in_range 65 70 (code c) then Some (code c - 55)
      else None)"

text \<open>One group of hexadecimal digits: its value, its number of digits and the rest.\<close>

fun hex_group :: "nat \<Rightarrow> nat \<Rightarrow> string \<Rightarrow> (nat \<times> nat \<times> string) option" where
  "hex_group off acc [] = Some (acc, off, [])"
| "hex_group off acc (c # s) =
     (case hex_value c of
        None \<Rightarrow> Some (acc, off, c # s)
      | Some d \<Rightarrow>
          if 3 < off then None
          else if 65535 < acc * 16 + d then None
          else hex_group (off + 1) (acc * 16 + d) s)"

text \<open>
  The main loop of \<open>parseIPv6\<close>: the octets so far, the position of the ellipsis, the
  remaining text. It returns the same three when it leaves the loop.
\<close>

function ipv6_loop :: "nat list \<Rightarrow> nat option \<Rightarrow> string \<Rightarrow> (nat list \<times> nat option \<times> string) option" where
  "ipv6_loop ip ell s =
     (if 16 \<le> length ip then Some (ip, ell, s)
      else case hex_group 0 0 s of
        None \<Rightarrow> None
      | Some (acc, off, rest) \<Rightarrow>
          if off = 0 then None
          else if rest \<noteq> [] \<and> hd rest = CHR ''.'' then
            (if ell = None \<and> length ip \<noteq> 12 then None
             else if 16 < length ip + 4 then None
             else case parse_ipv4_fields s of None \<Rightarrow> None | Some f \<Rightarrow> Some (ip @ f, ell, []))
          else let ip' = ip @ [acc div 256, acc mod 256] in
            (case rest of
               [] \<Rightarrow> Some (ip', ell, [])
             | c # s1 \<Rightarrow>
                 if c \<noteq> CHR '':'' then None
                 else (case s1 of
                    [] \<Rightarrow> None
                  | d # s2 \<Rightarrow>
                      if d = CHR '':'' then
                        (if ell \<noteq> None then None
                         else if s2 = [] then Some (ip', Some (length ip'), [])
                         else ipv6_loop ip' (Some (length ip')) s2)
                      else ipv6_loop ip' ell s1)))"
  by pat_completeness auto
termination
  by (relation "measure (\<lambda>(ip, _, _). 16 - length ip)") auto

declare ipv6_loop.simps [simp del]

definition ipv6_finish :: "nat list \<times> nat option \<times> string \<Rightarrow> nat list option" where
  "ipv6_finish r = (case r of (ip, ell, s) \<Rightarrow>
     if s \<noteq> [] then None
     else if length ip < 16 then
       (case ell of
          None \<Rightarrow> None
        | Some e \<Rightarrow> Some (take e ip @ replicate (16 - length ip) 0 @ drop e ip))
     else if ell \<noteq> None then None
     else Some ip)"

definition parse_ipv6 :: "string \<Rightarrow> addr option" where
  "parse_ipv6 input =
     (let (s, zone, bad) = (case cut_at CHR ''%'' input of
            None \<Rightarrow> (input, [], False)
          | Some (a, z) \<Rightarrow> (a, z, z = []))
      in if bad then None
         else let lead = has_prefix s ''::'' in
           if lead \<and> length s = 2 then Some (Addr6 0 zone)
           else case ipv6_loop [] (if lead then Some 0 else None) (if lead then drop 2 s else s) of
                  None \<Rightarrow> None
                | Some r \<Rightarrow> map_option (\<lambda>ip. Addr6 (word_of_nat (octets_value ip)) zone) (ipv6_finish r))"

text \<open>\<open>netip.ParseAddr\<close>: the first of the bytes \<open>.\<close>, \<open>:\<close> and \<open>%\<close> decides.\<close>

definition parse_addr :: "string \<Rightarrow> addr option" where
  "parse_addr s = (case find (\<lambda>c. c \<in> set ''.:%'') s of
     None \<Rightarrow> None
   | Some c \<Rightarrow> if c = CHR ''.'' then parse_ipv4 s else if c = CHR '':'' then parse_ipv6 s else None)"

section \<open>Splitting host and port\<close>

definition cut_last :: "char \<Rightarrow> string \<Rightarrow> (string \<times> string) option" where
  "cut_last sep s = map_option (\<lambda>(a, b). (rev b, rev a)) (cut_at sep (rev s))"

definition split_host_port :: "string \<Rightarrow> (string \<times> string) option" where
  "split_host_port s = (case cut_last CHR '':'' s of
     None \<Rightarrow> None
   | Some (pre, port) \<Rightarrow>
       if has_prefix s ''['' then
         (case cut_at CHR '']'' s of
            None \<Rightarrow> None
          | Some (a, _) \<Rightarrow>
              if length a + 1 \<noteq> length pre then None
              else if CHR ''['' \<in> set (drop 1 s) \<or> CHR '']'' \<in> set (drop (length a + 1) s) then None
              else Some (drop 1 a, port))
       else if CHR '':'' \<in> set pre then None
       else if CHR ''['' \<in> set s \<or> CHR '']'' \<in> set s then None
       else Some (pre, port))"

section \<open>Lemmas\<close>

lemma cut_last_None: "cut_last sep s = None \<longleftrightarrow> sep \<notin> set s"
  by (simp add: cut_last_def cut_at_None)

lemma cut_last_Some: "cut_last sep s = Some (a, b) \<longleftrightarrow> sep \<notin> set b \<and> s = a @ sep # b"
proof -
  have "cut_last sep s = Some (a, b) \<longleftrightarrow> cut_at sep (rev s) = Some (rev b, rev a)"
    by (auto simp: cut_last_def)
  also have "\<dots> \<longleftrightarrow> sep \<notin> set b \<and> s = a @ sep # b"
    by (simp add: cut_at_Some) (metis append.assoc append_Cons append_Nil rev.simps(2) rev_append rev_rev_ident)
  finally show ?thesis .
qed

text \<open>A host free of brackets and colons and a port free of them survive the round trip.\<close>

lemma split_host_port_plain:
  assumes "set host \<inter> {CHR '':'', CHR ''['', CHR '']''} = {}"
    and "set port \<inter> {CHR '':'', CHR ''['', CHR '']''} = {}"
  shows "split_host_port (host @ CHR '':'' # port) = Some (host, port)"
proof -
  have "cut_last CHR '':'' (host @ CHR '':'' # port) = Some (host, port)"
    using assms by (simp add: cut_last_Some)
  moreover have "\<not> has_prefix (host @ CHR '':'' # port) ''[''"
    using assms by (cases host) (auto simp: has_prefix_def)
  ultimately show ?thesis using assms by (auto simp: split_host_port_def)
qed

text \<open>A successful parse of a dotted text used digits and dots only.\<close>

lemma ipv4_fields_loop_chars:
  "ipv4_fields_loop fields val digits prev s = Some bs \<Longrightarrow> c \<in> set s \<Longrightarrow> is_digit c \<or> c = CHR ''.''"
  by (induction fields val digits prev s rule: ipv4_fields_loop.induct)
    (auto simp: Let_def split: if_splits)

lemma parse_ipv4_chars: "parse_ipv4 s = Some a \<Longrightarrow> c \<in> set s \<Longrightarrow> is_digit c \<or> c = CHR ''.''"
  by (auto simp: parse_ipv4_def parse_ipv4_fields_def dest: ipv4_fields_loop_chars)

lemma find_Some_mem: "find P xs = Some x \<Longrightarrow> x \<in> set xs \<and> P x"
  by (induction xs) (auto split: if_splits)

text \<open>A text without a colon is an address only if it is a dotted IPv4 one.\<close>

lemma parse_addr_no_colon:
  assumes "parse_addr s = Some a" and "CHR '':'' \<notin> set s"
  shows "parse_ipv4 s = Some a"
proof (cases "find (\<lambda>c. c \<in> set ''.:%'') s")
  case None
  with assms(1) show ?thesis unfolding parse_addr_def by (simp only: option.case) simp
next
  case (Some c)
  then have "c \<in> set s" by (rule find_Some_mem [THEN conjunct1])
  with assms(2) have c: "c \<noteq> CHR '':''" by metis
  have "(if c = CHR ''.'' then parse_ipv4 s else if c = CHR '':'' then parse_ipv6 s else None) = Some a"
    using assms(1) unfolding parse_addr_def Some by (simp only: option.case)
  with c show ?thesis by (metis option.distinct(1))
qed

lemma drop_bit_xor_eq_0: "drop_bit k (v XOR w) = 0 \<longleftrightarrow> drop_bit k v = drop_bit k (w :: 'a::len word)"
  by (auto simp: drop_bit_xor bit_eq_iff bit_simps)

lemma and_not_mask_eq_0: "v AND NOT (mask k) = 0 \<longleftrightarrow> drop_bit k v = (0 :: 'a::len word)"
proof
  assume *: "v AND NOT (mask k) = 0"
  show "drop_bit k v = 0"
  proof (rule bit_word_eqI)
    fix n
    have "\<not> bit (v AND NOT (mask k)) (k + n)" using * by simp
    then show "bit (drop_bit k v) n = bit (0 :: 'a word) n"
      by (auto simp: bit_drop_bit_eq bit_and_iff bit_not_iff bit_mask_iff dest: bit_imp_le_length)
  qed
next
  assume *: "drop_bit k v = 0"
  show "v AND NOT (mask k) = 0"
  proof (rule bit_word_eqI)
    fix n
    have "\<not> bit (drop_bit k v) (n - k)" using * by simp
    then show "bit (v AND NOT (mask k)) n = bit (0 :: 'a word) n"
      by (auto simp: bit_drop_bit_eq bit_and_iff bit_not_iff bit_mask_iff not_less)
  qed
qed

end
