(* ===== verification/Policy_Hostname.thy ===== *)
theory Policy_Hostname
  imports Policy_Decision Go_Netip
begin

text \<open>
  The hostname grammar of \<open>internal/policy/allowlist.go\<close>: \<open>validateLabel\<close> and
  \<open>canonicalHostname\<close>, the predicate that describes a canonical hostname, and the proof
  that canonicalisation produces exactly such names and leaves them unchanged.
\<close>

definition max_hostname_length :: nat where
  "max_hostname_length = 253"

datatype host_error =
    NoLabels
  | HostTooLong
  | MisplacedWildcard
  | HostIsIPLiteral
  | EmptyLabel
  | LabelTooLong string
  | LabelHyphen string
  | LabelCharacter string

definition valid_label_char :: "char \<Rightarrow> bool" where
  "valid_label_char c =
     (in_range 97 122 (code c) \<or> in_range 48 57 (code c) \<or> c = CHR ''-'' \<or> c = CHR ''_'')"

text \<open>\<open>validateLabel\<close>: \<open>None\<close> is the nil error.\<close>

definition validate_label :: "string \<Rightarrow> host_error option" where
  "validate_label label =
     (if label = [] then Some EmptyLabel
      else if 63 < length label then Some (LabelTooLong label)
      else if hd label = CHR ''-'' \<or> last label = CHR ''-'' then Some (LabelHyphen label)
      else if \<not> list_all valid_label_char label then Some (LabelCharacter label)
      else None)"

fun validate_labels :: "string list \<Rightarrow> host_error option" where
  "validate_labels [] = None"
| "validate_labels (l # ls) = (case validate_label l of Some e \<Rightarrow> Some e | None \<Rightarrow> validate_labels ls)"

text \<open>\<open>canonicalHostname\<close>.\<close>

definition canonical_hostname :: "string \<Rightarrow> (deny_reason \<times> host_error, string) result" where
  "canonical_hostname raw =
     (let host = trim_suffix raw ''.'' in
      if host = [] then err (DenyMalformedAuthority, NoLabels)
      else if max_hostname_length < length host then err (DenyMalformedAuthority, HostTooLong)
      else if CHR ''*'' \<in> set host then err (DenyMalformedAuthority, MisplacedWildcard)
      else if parse_addr (trim_chars ''[]'' host) \<noteq> None then err (DenyIPLiteral, HostIsIPLiteral)
      else let lowered = to_lower host in
        case validate_labels (split_on CHR ''.'' lowered) of
          Some e \<Rightarrow> err (DenyMalformedAuthority, e)
        | None \<Rightarrow> ok lowered)"

section \<open>What a canonical hostname is\<close>

definition valid_label :: "string \<Rightarrow> bool" where
  "valid_label l = (l \<noteq> [] \<and> length l \<le> 63 \<and> hd l \<noteq> CHR ''-'' \<and> last l \<noteq> CHR ''-''
     \<and> list_all valid_label_char l)"

definition canonical_host :: "string \<Rightarrow> bool" where
  "canonical_host h = (length h \<le> max_hostname_length
     \<and> list_all valid_label (split_on CHR ''.'' h) \<and> parse_addr h = None)"

lemma validate_label_None: "validate_label l = None \<longleftrightarrow> valid_label l"
  by (auto simp: validate_label_def valid_label_def)

lemma validate_labels_None: "validate_labels ls = None \<longleftrightarrow> list_all valid_label ls"
  by (induction ls) (auto simp: validate_label_None [symmetric] split: option.splits)

lemma validate_labels_Some: "validate_labels ls = Some e \<Longrightarrow> \<exists>l \<in> set ls. validate_label l = Some e"
  by (induction ls) (auto split: option.splits)

lemma valid_label_char_facts:
  assumes "valid_label_char c"
  shows "code c < 128" "\<not> in_range 65 90 (code c)" "c \<noteq> CHR ''.''" "c \<noteq> CHR ''*''"
    "c \<noteq> CHR '':''" "c \<noteq> CHR ''[''" "c \<noteq> CHR '']''" "\<not> is_space (code c)"
  using assms by (auto simp: valid_label_char_def in_range_def is_space_def)

lemma canonical_host_chars:
  assumes "canonical_host h" and "c \<in> set h"
  shows "c = CHR ''.'' \<or> valid_label_char c"
  using set_in_split_on [OF assms(2), of "CHR ''.''"] assms(1)
  by (auto simp: canonical_host_def valid_label_def list_all_iff)

lemma canonical_host_not_Nil: "canonical_host h \<Longrightarrow> h \<noteq> []"
  by (auto simp: canonical_host_def valid_label_def)

lemma canonical_host_ascii: "canonical_host h \<Longrightarrow> is_ascii h"
  by (auto simp: is_ascii_iff dest: canonical_host_chars valid_label_char_facts)

lemma canonical_host_excludes:
  assumes "canonical_host h"
  shows "CHR ''*'' \<notin> set h" "CHR '':'' \<notin> set h" "CHR ''['' \<notin> set h" "CHR '']'' \<notin> set h"
  using canonical_host_chars [OF assms] valid_label_char_facts by fastforce+

lemma canonical_host_last: "canonical_host h \<Longrightarrow> last h \<noteq> CHR ''.''"
proof
  assume h: "canonical_host h" and "last h = CHR ''.''"
  then obtain u where "h = u @ [CHR ''.'']"
    by (metis append_butlast_last_id canonical_host_not_Nil)
  then have "[] \<in> set (split_on CHR ''.'' h)"
    by (simp add: split_on_append)
  with h show False by (auto simp: canonical_host_def valid_label_def list_all_iff)
qed

lemma canonical_host_no_suffix_dot: "canonical_host h \<Longrightarrow> trim_suffix h ''.'' = h"
  by (auto simp: trim_suffix_def has_suffix_iff dest: canonical_host_last)

lemma canonical_host_to_lower: "canonical_host h \<Longrightarrow> to_lower h = h"
proof (rule to_lower_id)
  fix c
  assume "canonical_host h" and "c \<in> set h"
  then have "c = CHR ''.'' \<or> valid_label_char c" by (rule canonical_host_chars)
  then show "code c < 128 \<and> \<not> in_range 65 90 (code c)"
    using valid_label_char_facts(1,2) by (auto simp: in_range_def)
qed

lemma canonical_host_trim_brackets: "canonical_host h \<Longrightarrow> trim_chars ''[]'' h = h"
  unfolding trim_chars_def
proof (rule trim_by_id)
  assume h: "canonical_host h"
  then have "hd h \<in> set h" and "last h \<in> set h" by (simp_all add: canonical_host_not_Nil)
  then show "h = [] \<or> hd h \<notin> set ''[]'' \<and> last h \<notin> set ''[]''"
    using canonical_host_excludes(3,4) [OF h] by auto
qed

text \<open>A canonical hostname is accepted unchanged.\<close>

lemma canonical_hostname_id:
  assumes "canonical_host h"
  shows "canonical_hostname h = ok h"
proof -
  have "validate_labels (split_on CHR ''.'' h) = None" and "length h \<le> max_hostname_length"
    and "parse_addr h = None"
    using assms by (simp_all add: canonical_host_def validate_labels_None)
  then show ?thesis
    using assms
    by (simp add: canonical_hostname_def Let_def canonical_host_no_suffix_dot canonical_host_not_Nil
        canonical_host_excludes canonical_host_trim_brackets canonical_host_to_lower)
qed

section \<open>What canonicalisation produces\<close>

lemma valid_labels_chars:
  assumes "list_all valid_label (split_on CHR ''.'' h)" and "c \<in> set h"
  shows "c = CHR ''.'' \<or> valid_label_char c"
  using set_in_split_on [OF assms(2), of "CHR ''.''"] assms(1)
  by (auto simp: valid_label_def list_all_iff)

lemma canonical_hostname_ok:
  assumes "canonical_hostname raw = ok h"
  shows "canonical_host h"
    and "h = to_lower (trim_suffix raw ''.'')"
    and "CHR ''*'' \<notin> set raw"
    and "parse_addr (trim_chars ''[]'' (trim_suffix raw ''.'')) = None"
proof -
  let ?host = "trim_suffix raw ''.''"
  from assms have h: "h = to_lower ?host" and len: "length ?host \<le> max_hostname_length"
    and star: "CHR ''*'' \<notin> set ?host"
    and noip: "parse_addr (trim_chars ''[]'' ?host) = None"
    and labels: "list_all valid_label (split_on CHR ''.'' h)"
    by (auto simp: canonical_hostname_def Let_def validate_labels_None split: if_splits option.splits)
  have chars: "c = CHR ''.'' \<or> valid_label_char c" if "c \<in> set h" for c
    by (rule valid_labels_chars [OF labels that])
  have asc: "is_ascii (to_lower ?host)"
    unfolding is_ascii_iff using chars valid_label_char_facts(1) by (fastforce simp: h)
  have "length h \<le> max_hostname_length"
    using to_lower_ascii_output(2) [OF asc] len h by simp
  moreover have "parse_addr h = None"
  proof (rule ccontr)
    assume "parse_addr h \<noteq> None"
    then obtain a where a: "parse_addr h = Some a" by blast
    have "CHR '':'' \<notin> set h" using chars valid_label_char_facts(5) by fastforce
    with a have "parse_ipv4 h = Some a" by (rule parse_addr_no_colon)
    then have dig: "is_digit c \<or> c = CHR ''.''" if "c \<in> set h" for c
      using that by (rule parse_ipv4_chars)
    then have same: "?host = h" unfolding h by (intro to_lower_digits [symmetric]) auto
    have brackets: "CHR ''['' \<notin> set h" "CHR '']'' \<notin> set h"
      using chars valid_label_char_facts(6,7) by fastforce+
    have "trim_chars ''[]'' h = h"
      unfolding trim_chars_def
    proof (rule trim_by_id, cases "h = []")
      case False
      then have "hd h \<in> set h" and "last h \<in> set h" by simp_all
      then show "h = [] \<or> hd h \<notin> set ''[]'' \<and> last h \<notin> set ''[]''"
        using brackets by auto
    qed simp
    with noip same a show False by simp
  qed
  ultimately show "canonical_host h"
    using labels by (simp add: canonical_host_def)
  show "h = to_lower ?host" by (rule h)
  show "CHR ''*'' \<notin> set raw"
    using star by (auto simp: trim_suffix_def has_suffix_iff split: if_splits)
  show "parse_addr (trim_chars ''[]'' ?host) = None" by (rule noip)
qed

text \<open>The deny reason separates addresses from names that are no hostnames.\<close>

lemma canonical_hostname_err:
  assumes "canonical_hostname raw = err (r, e)"
  shows "r = DenyIPLiteral \<longleftrightarrow> e = HostIsIPLiteral" "r = DenyMalformedAuthority \<or> r = DenyIPLiteral"
  using assms
  by (auto simp: canonical_hostname_def Let_def validate_label_def split: if_splits option.splits
      dest!: validate_labels_Some)

lemma canonical_hostname_no_panic [no_panic_intros]: "no_panic (canonical_hostname raw)"
  by (simp add: canonical_hostname_def Let_def no_panic_def split: option.splits)

end
