(* ===== verification/Policy_Destination.thy ===== *)
theory Policy_Destination
  imports Policy_Hostname
begin

text \<open>
  \<open>internal/policy/destination.go\<close>: the validated CONNECT target, its constructor
  \<open>NewDestination\<close>, the parser of an authority \<open>ParseAuthority\<close> with the port grammar
  \<open>parsePort\<close>, the rendering \<open>Authority\<close> and the classification \<open>DenyReasonOf\<close>.
\<close>

definition allowed_port :: "16 word" where
  "allowed_port = 443"

record destination =
  dest_host :: string
  dest_port :: "16 word"

text \<open>The zero value, which \<open>IsZero\<close> recognises.\<close>

definition zero_destination :: destination where
  "zero_destination = \<lparr>dest_host = [], dest_port = 0\<rparr>"

definition dest_is_zero :: "destination \<Rightarrow> bool" where
  "dest_is_zero d = (dest_host d = [])"

datatype port_error = PortRequired | PortTooLong | PortNotDecimal | PortLeadingZero | PortNotUsable

datatype dest_fault =
    HostFault host_error
  | PortNot443 "16 word"
  | NoDestination
  | SurroundingWhitespace
  | IPLiteralFault
  | NotHostPort
  | BracketsNotIPv6
  | PortFault port_error

text \<open>\<open>InvalidDestinationError\<close>; the prose of \<open>Reason\<close> is the constructor of the fault.\<close>

record invalid_destination =
  inv_authority :: string
  inv_deny :: deny_reason
  inv_fault :: dest_fault

definition invalid :: "string \<Rightarrow> deny_reason \<Rightarrow> dest_fault \<Rightarrow> (invalid_destination, 'a) result" where
  "invalid a r f = err \<lparr>inv_authority = a, inv_deny = r, inv_fault = f\<rparr>"

definition new_destination :: "string \<Rightarrow> 16 word \<Rightarrow> (invalid_destination, destination) result" where
  "new_destination host port =
     (case canonical_hostname host of
        Inl Panic \<Rightarrow> panic
      | Inl (Err (r, e)) \<Rightarrow> invalid host r (HostFault e)
      | Inr canonical \<Rightarrow>
          if port \<noteq> allowed_port
          then invalid (canonical @ '':'' @ itoa (unat port)) DenyPortNotAllowed (PortNot443 port)
          else ok \<lparr>dest_host = canonical, dest_port = port\<rparr>)"

text \<open>
  \<open>parsePort\<close>. After the length and digit checks \<open>strconv.ParseUint\<close> cannot fail: at most
  five decimal digits fit 32 bits.
\<close>

definition parse_port :: "string \<Rightarrow> (port_error, 16 word) result" where
  "parse_port text =
     (if text = [] then err PortRequired
      else if 5 < length text then err PortTooLong
      else if \<not> list_all is_digit text then err PortNotDecimal
      else if 1 < length text \<and> hd text = CHR ''0'' then err PortLeadingZero
      else let value = decimal text in
        if value = 0 \<or> 65535 < value then err PortNotUsable
        else ok (word_of_nat value))"

definition parse_authority :: "string \<Rightarrow> (invalid_destination, destination) result" where
  "parse_authority raw =
     (if raw = [] then invalid [] DenyMalformedAuthority NoDestination
      else if trim_space raw \<noteq> raw then invalid raw DenyMalformedAuthority SurroundingWhitespace
      else if parse_addr (trim_chars ''[]'' raw) \<noteq> None then invalid raw DenyIPLiteral IPLiteralFault
      else case split_host_port raw of
        None \<Rightarrow> invalid raw DenyMalformedAuthority NotHostPort
      | Some (host, port_text) \<Rightarrow>
          if has_prefix raw ''['' then
            (if parse_addr host \<noteq> None then invalid raw DenyIPLiteral IPLiteralFault
             else invalid raw DenyMalformedAuthority BracketsNotIPv6)
          else (case parse_port port_text of
              Inl Panic \<Rightarrow> panic
            | Inl (Err e) \<Rightarrow> invalid raw DenyMalformedAuthority (PortFault e)
            | Inr port \<Rightarrow> new_destination host port))"

definition authority :: "destination \<Rightarrow> string" where
  "authority d = (if dest_is_zero d then [] else dest_host d @ '':'' @ itoa (unat (dest_port d)))"

text \<open>
  \<open>DenyReasonOf\<close>: \<open>None\<close> is the nil error; an error that is no \<open>InvalidDestinationError\<close>
  is \<open>Some None\<close>.
\<close>

definition deny_reason_of :: "invalid_destination option option \<Rightarrow> deny_reason" where
  "deny_reason_of e = (case e of
     None \<Rightarrow> DenyNone
   | Some (Some i) \<Rightarrow> if inv_deny i \<noteq> DenyNone then inv_deny i else DenyMalformedAuthority
   | Some None \<Rightarrow> DenyMalformedAuthority)"

section \<open>The invariant of destinations\<close>

text \<open>What every destination built by this package satisfies.\<close>

definition valid_destination :: "destination \<Rightarrow> bool" where
  "valid_destination d = (canonical_host (dest_host d) \<and> dest_port d = allowed_port)"

lemma new_destination_eq_ok:
  "new_destination host port = ok d \<longleftrightarrow>
     (\<exists>h. canonical_hostname host = ok h \<and> port = allowed_port \<and> d = \<lparr>dest_host = h, dest_port = port\<rparr>)"
  by (auto simp: new_destination_def invalid_def split: sum.splits failure.splits)

lemma new_destination_valid: "new_destination host port = ok d \<Longrightarrow> valid_destination d"
  by (auto simp: new_destination_eq_ok valid_destination_def dest: canonical_hostname_ok)

lemma parse_authority_ok:
  assumes "parse_authority raw = ok d"
  shows "\<exists>host port_text. split_host_port raw = Some (host, port_text)
    \<and> parse_port port_text = ok allowed_port \<and> new_destination host allowed_port = ok d"
  using assms
  by (auto simp: parse_authority_def invalid_def new_destination_eq_ok
      split: if_splits option.splits sum.splits failure.splits)

lemma parse_authority_valid: "parse_authority raw = ok d \<Longrightarrow> valid_destination d"
  by (auto dest!: parse_authority_ok new_destination_valid)

lemma valid_destination_not_zero: "valid_destination d \<Longrightarrow> \<not> dest_is_zero d"
  by (simp add: valid_destination_def dest_is_zero_def canonical_host_not_Nil)

lemma new_destination_no_panic [no_panic_intros]: "no_panic (new_destination host port)"
  using canonical_hostname_no_panic [of host]
  by (auto simp: new_destination_def invalid_def no_panic_def split: sum.splits failure.splits)

lemma parse_port_no_panic [no_panic_intros]: "no_panic (parse_port t)"
  by (simp add: parse_port_def Let_def no_panic_def)

lemma parse_authority_no_panic [no_panic_intros]: "no_panic (parse_authority raw)"
  using new_destination_no_panic parse_port_no_panic
  by (auto simp: parse_authority_def invalid_def no_panic_def split: option.splits sum.splits failure.splits)

text \<open>Every refusal carries a reason other than \<open>DenyNone\<close>.\<close>

lemma new_destination_deny: "new_destination host port = err i \<Longrightarrow> inv_deny i \<noteq> DenyNone"
  by (auto simp: new_destination_def invalid_def split: sum.splits failure.splits if_splits
      dest!: canonical_hostname_err(2))

lemma parse_authority_deny: "parse_authority raw = err i \<Longrightarrow> inv_deny i \<noteq> DenyNone"
  by (auto simp: parse_authority_def invalid_def dest: new_destination_deny
      split: if_splits option.splits sum.splits failure.splits)

section \<open>Rendering and parsing\<close>

lemma itoa_443: "itoa 443 = ''443''"
  by (simp add: itoa.simps digit_char_def char_of_eq_iff)

lemma parse_port_443: "parse_port ''443'' = ok allowed_port"
  by (simp add: parse_port_def is_digit_def in_range_def decimal_def allowed_port_def Let_def)

lemma valid_destination_authority:
  "valid_destination d \<Longrightarrow> authority d = dest_host d @ '':443''"
  by (simp add: authority_def valid_destination_not_zero valid_destination_def allowed_port_def itoa_443)

lemma canonical_authority_trim:
  assumes "canonical_host h"
  shows "trim_space (h @ '':443'') = h @ '':443''"
proof -
  have asc: "is_ascii (h @ '':443'')" using canonical_host_ascii [OF assms] by simp
  have ne: "h \<noteq> []" by (rule canonical_host_not_Nil [OF assms])
  then have "hd h = CHR ''.'' \<or> valid_label_char (hd h)"
    by (intro canonical_host_chars [OF assms]) simp
  then have "\<not> is_space (code (hd h))"
  proof
    assume "hd h = CHR ''.''"
    then show ?thesis by (simp only:) (simp add: is_space_def in_range_def)
  qed (rule valid_label_char_facts(8))
  moreover have "\<not> is_space (code CHR ''3'')" by (simp add: is_space_def in_range_def)
  ultimately have "trim_by (\<lambda>c. is_space (code c)) (h @ '':443'') = h @ '':443''"
    using ne by (intro trim_by_id) simp
  then show ?thesis by (simp only: trim_space_ascii [OF asc])
qed

lemma hex_group_stops:
  "hex_group off acc (h @ CHR '':'' # t) = Some (acc', off', rest) \<Longrightarrow>
     \<exists>u v. h = u @ v \<and> rest = v @ CHR '':'' # t"
proof (induction h arbitrary: off acc)
  case Nil
  then show ?case by (simp add: hex_value_def in_range_def)
next
  case (Cons c h)
  show ?case
  proof (cases "hex_value c")
    case None
    with Cons.prems have "rest = (c # h) @ CHR '':'' # t" by simp
    then show ?thesis by (intro exI [of _ "[]"] exI [of _ "c # h"]) simp
  next
    case (Some d)
    with Cons.prems have "hex_group (off + 1) (acc * 16 + d) (h @ CHR '':'' # t) = Some (acc', off', rest)"
      by (simp split: if_splits)
    from Cons.IH [OF this] obtain u v where "h = u @ v" "rest = v @ CHR '':'' # t" by blast
    then show ?thesis by (metis append_Cons)
  qed
qed

text \<open>A name followed by a port is no IPv6 text: it has too few groups.\<close>

lemma ipv6_loop_host_port:
  assumes "CHR '':'' \<notin> set h" and "CHR ''.'' \<notin> set h"
    and "ipv6_loop [] None (h @ '':443'') = Some r"
  shows "ipv6_finish r = None"
proof -
  have g443: "hex_group 0 0 ''443'' = Some (1091, 3, [])"
    by (simp add: hex_value_def in_range_def)
  obtain acc off rest where g: "hex_group 0 0 (h @ '':443'') = Some (acc, off, rest)"
    using assms(3) by (subst (asm) ipv6_loop.simps) (auto split: option.splits)
  obtain u v where uv: "h = u @ v" "rest = v @ '':443''"
    using hex_group_stops [OF g] by blast
  have "v = []"
  proof (cases v)
    case (Cons x w)
    with uv assms(1,2) have "x \<noteq> CHR '':''" "x \<noteq> CHR ''.''" by auto
    with assms(3) Cons show ?thesis
      by (subst (asm) ipv6_loop.simps) (simp add: g uv(2) split: if_splits)
  qed
  then have rest: "rest = '':443''" using uv(2) by simp
  have "ipv6_loop [acc div 256, acc mod 256] None ''443'' = Some r"
    using assms(3) by (subst (asm) ipv6_loop.simps) (simp add: g rest split: if_splits)
  then have "r = ([acc div 256, acc mod 256, 4, 67], None, [])"
    by (subst (asm) ipv6_loop.simps) (simp add: g443 del: hex_group.simps)
  then show ?thesis by (simp add: ipv6_finish_def)
qed

lemma parse_addr_host_port:
  assumes "canonical_host h"
  shows "parse_addr (h @ '':443'') = None"
proof (rule ccontr)
  assume "parse_addr (h @ '':443'') \<noteq> None"
  then obtain a where a: "parse_addr (h @ '':443'') = Some a" by blast
  let ?s = "h @ '':443''"
  note chars = canonical_host_chars [OF assms]
  have pct: "CHR ''%'' \<notin> set h"
    using chars by (fastforce simp: valid_label_char_def in_range_def)
  have colon: "CHR '':'' \<notin> set h" by (rule canonical_host_excludes [OF assms])
  have "parse_ipv4 ?s = None"
  proof (rule ccontr)
    assume "parse_ipv4 ?s \<noteq> None"
    then obtain b where "parse_ipv4 ?s = Some b" by blast
    from parse_ipv4_chars [OF this, of "CHR '':''"] show False
      by (simp add: is_digit_def in_range_def)
  qed
  with a obtain c where f: "find (\<lambda>c. c \<in> set ''.:%'') ?s = Some c" and c: "c \<noteq> CHR ''.''" "parse_ipv6 ?s = Some a"
    unfolding parse_addr_def by (auto simp del: list.set split: option.splits if_splits)
  have nodot: "CHR ''.'' \<notin> set h"
  proof
    assume "CHR ''.'' \<in> set h"
    then have "find (\<lambda>c. c \<in> set ''.:%'') ?s = Some CHR ''.''"
      using colon pct by (induction h) auto
    with f c show False by simp
  qed
  have cut: "cut_at CHR ''%'' ?s = None" using pct by (simp add: cut_at_None)
  have lead: "\<not> has_prefix ?s ''::''"
    using colon canonical_host_not_Nil [OF assms] by (cases h) (auto simp: has_prefix_def)
  from c(2) obtain r where r: "ipv6_loop [] None ?s = Some r"
    and fin: "map_option (\<lambda>ip. Addr6 (word_of_nat (octets_value ip)) []) (ipv6_finish r) = Some a"
    by (auto simp: parse_ipv6_def cut lead Let_def split: option.splits)
  from ipv6_loop_host_port [OF colon nodot r] fin show False by simp
qed

text \<open>Rendering a destination and parsing it again gives the destination back.\<close>

lemma parse_authority_authority:
  assumes "valid_destination d"
  shows "parse_authority (authority d) = ok d"
proof -
  let ?h = "dest_host d"
  have h: "canonical_host ?h" and port: "dest_port d = allowed_port"
    using assms by (simp_all add: valid_destination_def)
  note excl = canonical_host_excludes [OF h]
  have a: "authority d = ?h @ '':443''" by (rule valid_destination_authority [OF assms])
  have ne: "?h \<noteq> []" by (rule canonical_host_not_Nil [OF h])
  have "hd ?h \<in> set ?h" using ne by simp
  then have hd: "hd ?h \<noteq> CHR ''[''" "hd ?h \<noteq> CHR '']''" using excl by metis+
  have br: "trim_chars ''[]'' (?h @ '':443'') = ?h @ '':443''"
    unfolding trim_chars_def using hd ne by (intro trim_by_id) simp
  have pre: "\<not> has_prefix (?h @ '':443'') ''[''"
    using hd(1) ne by (cases ?h) (auto simp: has_prefix_def)
  have split: "split_host_port (?h @ '':443'') = Some (?h, ''443'')"
    using split_host_port_plain [of ?h "''443''"] excl by simp
  have "new_destination ?h allowed_port = ok d"
    using port by (simp add: new_destination_eq_ok canonical_hostname_id [OF h])
  then show ?thesis
    unfolding parse_authority_def a
    by (simp add: canonical_authority_trim [OF h] br parse_addr_host_port [OF h] split pre parse_port_443)
qed

end
