(* ===== verification/Go_Io.thy ===== *)
theory Go_Io
  imports Go_Strings
begin

text \<open>
  The parts of \<open>bufio\<close> and \<open>io\<close> the program reads its inputs with: the line scanner
  \<open>bufio.Scanner\<close> with its default split function and buffer limit, \<open>io.ReadFull\<close> over a
  stream that delivers its bytes in pieces of any size, and the contract of a writer with
  the loop that writes all of a buffer.
\<close>

section \<open>The line scanner\<close>

text \<open>
  A reader is the text it delivers before it stops and the error it then reports, \<open>None\<close>
  for the end of the file. The scanner delivers the lines without their terminator and one
  trailing carriage return; a line that does not fit the 64 KiB buffer with its newline stops
  it with \<open>ErrTooLong\<close>. An empty text after the last newline is no line.
\<close>

record 'e reader =
  content :: string
  read_error :: "'e option"

datatype 'e scan_error = TokenTooLong | ReaderError 'e

definition max_scan_line :: nat where
  "max_scan_line = 65535"

definition newline :: char where
  "newline = CHR 0x0A"

definition drop_cr :: "string \<Rightarrow> string" where
  "drop_cr w = (if w \<noteq> [] \<and> last w = CHR 0x0D then butlast w else w)"

fun scan_tokens :: "string list \<Rightarrow> string list \<times> bool" where
  "scan_tokens [] = ([], False)"
| "scan_tokens [w] =
     (if w = [] then ([], False) else if max_scan_line < length w then ([], True) else ([drop_cr w], False))"
| "scan_tokens (w # ws) =
     (if max_scan_line < length w then ([], True)
      else let (ts, long) = scan_tokens ws in (drop_cr w # ts, long))"

text \<open>The lines \<open>Scan\<close> yields and what \<open>Err\<close> reports once it has returned false.\<close>

definition scan_lines :: "'e reader \<Rightarrow> string list \<times> 'e scan_error option" where
  "scan_lines r =
     (let (ts, long) = scan_tokens (split_on newline (content r))
      in (ts, if long then Some TokenTooLong else map_option ReaderError (read_error r)))"

text \<open>A text made of terminated lines is scanned back line by line.\<close>

lemma scan_tokens_terminated:
  "(\<And>l. l \<in> set ls \<Longrightarrow> length l \<le> max_scan_line \<and> (l = [] \<or> last l \<noteq> CHR 0x0D)) \<Longrightarrow>
     scan_tokens (ls @ [[]]) = (ls, False)"
proof (induction ls)
  case (Cons l ls)
  then have "scan_tokens (ls @ [[]]) = (ls, False)" by simp
  moreover have "length l \<le> max_scan_line" "l = [] \<or> last l \<noteq> CHR 0x0D"
    using Cons.prems [of l] by auto
  then have "drop_cr l = l" "\<not> max_scan_line < length l" by (auto simp: drop_cr_def)
  ultimately show ?case by (cases "ls @ [[]]") auto
qed simp

lemma scan_lines_terminated:
  assumes "\<And>l. l \<in> set ls \<Longrightarrow> newline \<notin> set l \<and> length l \<le> max_scan_line \<and> (l = [] \<or> last l \<noteq> CHR 0x0D)"
  shows "scan_lines \<lparr>content = concat (map (\<lambda>l. l @ [newline]) ls), read_error = None\<rparr> = (ls, None)"
proof -
  have "split_on newline (concat (map (\<lambda>l. l @ [newline]) ls)) = ls @ [[]]"
    using assms
  proof (induction ls)
    case (Cons l ls)
    then show ?case by (simp add: split_on_append split_on_free)
  qed simp
  with scan_tokens_terminated [of ls] assms show ?thesis
    by (simp add: scan_lines_def)
qed

section \<open>Streams and \<open>io.ReadFull\<close>\<close>

datatype 'e io_error = EOF | UnexpectedEOF | ShortWrite | IoError 'e

text \<open>
  A connection seen by its reader: the pieces the next calls of \<open>Read\<close> can deliver and the
  error after the last one. A call delivers at most the bytes of one piece; a piece may be
  empty.
\<close>

record 'e stream =
  chunks :: "bytes list"
  stream_end :: "'e io_error"

definition pending :: "'e stream \<Rightarrow> bytes" where
  "pending s = concat (chunks s)"

definition stream_read :: "'e stream \<Rightarrow> nat \<Rightarrow> bytes \<times> 'e io_error option \<times> 'e stream" where
  "stream_read s n = (case chunks s of
     [] \<Rightarrow> ([], Some (stream_end s), s)
   | c # cs \<Rightarrow> if length c \<le> n then (c, None, s\<lparr>chunks := cs\<rparr>)
       else (take n c, None, s\<lparr>chunks := drop n c # cs\<rparr>))"

definition stream_size :: "'e stream \<Rightarrow> nat" where
  "stream_size s = length (pending s) + length (chunks s)"

lemma stream_read_size:
  assumes "stream_read s n = (d, None, s')" and "0 < n"
  shows "stream_size s' < stream_size s"
  using assms by (auto simp: stream_read_def stream_size_def pending_def split: list.splits if_splits)

text \<open>The loop of \<open>io.ReadAtLeast\<close>: it reads until the buffer is full or a read fails.\<close>

function read_full_loop :: "'e stream \<Rightarrow> nat \<Rightarrow> bytes \<Rightarrow> bytes \<times> 'e io_error option \<times> 'e stream" where
  "read_full_loop s n acc =
     (if n \<le> length acc then (acc, None, s)
      else case stream_read s (n - length acc) of
        (d, None, s') \<Rightarrow> read_full_loop s' n (acc @ d)
      | (d, Some e, s') \<Rightarrow> (acc @ d, Some e, s'))"
  by pat_completeness auto
termination
  by (relation "measure (\<lambda>(s, _, _). stream_size s)") (auto intro: stream_read_size [OF sym])

declare read_full_loop.simps [simp del]

definition read_full :: "'e stream \<Rightarrow> nat \<Rightarrow> bytes \<times> 'e io_error option \<times> 'e stream" where
  "read_full s n =
     (case read_full_loop s n [] of (d, e, s') \<Rightarrow>
        if n \<le> length d then (d, None, s')
        else if d \<noteq> [] \<and> e = Some EOF then (d, Some UnexpectedEOF, s')
        else (d, e, s'))"

text \<open>What it returns depends on the bytes of the stream and not on how they are cut.\<close>

lemma read_full_loop_enough:
  assumes "n \<le> length acc + length (pending s)" and "length acc \<le> n"
  shows "\<exists>s'. read_full_loop s n acc = (acc @ take (n - length acc) (pending s), None, s')
    \<and> pending s' = drop (n - length acc) (pending s) \<and> stream_end s' = stream_end s"
  using assms
proof (induction s n acc rule: read_full_loop.induct)
  case (1 s n acc)
  show ?case
  proof (cases "n \<le> length acc")
    case True
    with 1 show ?thesis by (auto simp: read_full_loop.simps [of s n acc])
  next
    case False
    with 1 obtain c cs where cs: "chunks s = c # cs" by (cases "chunks s") (auto simp: pending_def)
    show ?thesis
    proof (cases "length c \<le> n - length acc")
      case fits: True
      let ?s = "s\<lparr>chunks := cs\<rparr>"
      have r: "stream_read s (n - length acc) = (c, None, ?s)"
        using fits by (simp add: stream_read_def cs)
      have p: "pending s = c @ pending ?s" by (simp add: pending_def cs)
      have "n \<le> length (acc @ c) + length (pending ?s)" "length (acc @ c) \<le> n"
        using "1.prems" fits False by (simp_all add: p)
      from "1.IH" [OF False r [symmetric] refl refl this] obtain s' where
        s': "read_full_loop ?s n (acc @ c) = ((acc @ c) @ take (n - length (acc @ c)) (pending ?s), None, s')"
        "pending s' = drop (n - length (acc @ c)) (pending ?s)" "stream_end s' = stream_end ?s" by blast
      have "read_full_loop s n acc = read_full_loop ?s n (acc @ c)"
        using False by (subst read_full_loop.simps) (simp add: r)
      with s' fits show ?thesis by (simp add: p)
    next
      case long: False
      let ?s = "s\<lparr>chunks := drop (n - length acc) c # cs\<rparr>"
      have "stream_read s (n - length acc) = (take (n - length acc) c, None, ?s)"
        using long by (simp add: stream_read_def cs)
      then have "read_full_loop s n acc = read_full_loop ?s n (acc @ take (n - length acc) c)"
        using False by (subst read_full_loop.simps) simp
      also have "n \<le> length (acc @ take (n - length acc) c)" using long by simp
      then have "read_full_loop ?s n (acc @ take (n - length acc) c) = (acc @ take (n - length acc) c, None, ?s)"
        by (subst read_full_loop.simps) (simp only: if_True)
      finally show ?thesis using long by (simp add: pending_def cs)
    qed
  qed
qed

lemma read_full_loop_short:
  assumes "length acc + length (pending s) < n"
  shows "\<exists>s'. read_full_loop s n acc = (acc @ pending s, Some (stream_end s), s') \<and> pending s' = []"
  using assms
proof (induction s n acc rule: read_full_loop.induct)
  case (1 s n acc)
  then have False': "\<not> n \<le> length acc" by simp
  show ?case
  proof (cases "chunks s")
    case Nil
    with False' show ?thesis
      by (subst read_full_loop.simps) (simp add: stream_read_def pending_def)
  next
    case (Cons c cs)
    let ?s = "s\<lparr>chunks := cs\<rparr>"
    have p: "pending s = c @ pending ?s" by (simp add: pending_def Cons)
    have "length c \<le> n - length acc" using "1.prems" by (simp add: p)
    then have r: "stream_read s (n - length acc) = (c, None, ?s)"
      by (simp add: stream_read_def Cons)
    have "length (acc @ c) + length (pending ?s) < n" using "1.prems" by (simp add: p)
    from "1.IH" [OF False' r [symmetric] refl refl this] obtain s' where
      "read_full_loop ?s n (acc @ c) = ((acc @ c) @ pending ?s, Some (stream_end ?s), s')" "pending s' = []"
      by blast
    with False' r show ?thesis by (subst read_full_loop.simps) (simp add: p)
  qed
qed

lemma read_full_enough:
  assumes "n \<le> length (pending s)"
  obtains s' where "read_full s n = (take n (pending s), None, s')" "pending s' = drop n (pending s)"
    "stream_end s' = stream_end s"
proof -
  from read_full_loop_enough [of n "[]" s] assms obtain s' where
    "read_full_loop s n [] = (take n (pending s), None, s')" "pending s' = drop n (pending s)"
    "stream_end s' = stream_end s" by auto
  with assms show thesis by (intro that [of s']) (simp_all add: read_full_def)
qed

lemma read_full_short:
  assumes "length (pending s) < n"
  obtains s' where "pending s' = []" "read_full s n = (pending s,
    Some (if pending s \<noteq> [] \<and> stream_end s = EOF then UnexpectedEOF else stream_end s), s')"
proof -
  from read_full_loop_short [of "[]" s n] assms obtain s' where
    "read_full_loop s n [] = (pending s, Some (stream_end s), s')" "pending s' = []" by auto
  with assms show thesis by (intro that [of s']) (simp_all add: read_full_def)
qed

lemma read_full_cases:
  assumes "read_full s n = (d, e, s')"
  shows "e = None \<Longrightarrow> length d = n \<and> pending s = d @ pending s' \<and> stream_end s' = stream_end s"
    and "e \<noteq> None \<Longrightarrow> d = pending s \<and> length d < n \<and> pending s' = []"
proof -
  have *: "if n \<le> length (pending s) then d = take n (pending s) \<and> e = None \<and> pending s' = drop n (pending s)
      \<and> stream_end s' = stream_end s
    else d = pending s \<and> e \<noteq> None \<and> pending s' = []"
  proof (cases "n \<le> length (pending s)")
    case True
    with read_full_enough [OF True] assms show ?thesis by (metis prod.inject)
  next
    case False
    then have "length (pending s) < n" by simp
    from read_full_short [OF this] assms False show ?thesis by (metis prod.inject option.distinct(1))
  qed
  show "e = None \<Longrightarrow> length d = n \<and> pending s = d @ pending s' \<and> stream_end s' = stream_end s"
    using * by (auto split: if_splits)
  show "e \<noteq> None \<Longrightarrow> d = pending s \<and> length d < n \<and> pending s' = []"
    using * by (auto split: if_splits)
qed

section \<open>Writers\<close>

text \<open>
  The loop of \<open>writeAll\<close> in \<open>internal/protocol/codec.go\<close> and of \<open>writeFull\<close> in
  \<open>internal/tunnel/websocket_conn.go\<close>. Every pass that does not end it consumes a byte. A
  count past the buffer is outside the contract of a writer; the slice expression panics.
\<close>

type_synonym ('s, 'e) writer = "'s \<Rightarrow> bytes \<Rightarrow> nat \<times> 'e io_error option \<times> 's"

function write_all :: "('s, 'e) writer \<Rightarrow> 's \<Rightarrow> bytes \<Rightarrow> ('e io_error, unit) result \<times> 's" where
  "write_all w s data =
     (if data = [] then (ok (), s)
      else case w s data of (count, e, s') \<Rightarrow>
        if length data < count then (panic, s')
        else (case e of
           Some x \<Rightarrow> (err x, s')
         | None \<Rightarrow> if count = 0 then (err ShortWrite, s') else write_all w s' (drop count data)))"
  by pat_completeness auto
termination
  by (relation "measure (\<lambda>(_, _, data). length data)") auto

declare write_all.simps [simp del]

text \<open>The contract of \<open>io.Writer\<close>: what is reported as written is a prefix of the buffer.\<close>

locale byte_sink =
  fixes write_bytes :: "('s, 'e) writer"
    and sent :: "'s \<Rightarrow> bytes"
  assumes count_bound: "write_bytes s data = (n, e, s') \<Longrightarrow> n \<le> length data"
    and sent_grows: "write_bytes s data = (n, e, s') \<Longrightarrow> sent s' = sent s @ take n data"
begin

lemma write_all_sent:
  "write_all write_bytes s data = (r, s') \<Longrightarrow>
     (\<exists>k \<le> length data. sent s' = sent s @ take k data) \<and> (r = ok () \<longrightarrow> sent s' = sent s @ data)
       \<and> no_panic r"
proof (induction "length data" arbitrary: s data rule: less_induct)
  case less
  show ?case
  proof (cases "data = []")
    case True
    with less.prems have "r = ok ()" "s' = s" by (auto simp: write_all.simps [of _ s "[]"])
    with True show ?thesis by simp
  next
    case False
    obtain n e t where w: "write_bytes s data = (n, e, t)" by (cases "write_bytes s data") auto
    have n: "n \<le> length data" and t: "sent t = sent s @ take n data"
      using count_bound [OF w] sent_grows [OF w] .
    show ?thesis
    proof (cases "e = None \<and> n \<noteq> 0")
      case True
      then have "write_all write_bytes t (drop n data) = (r, s')"
        using less.prems False w n by (simp add: write_all.simps [of write_bytes s data])
      moreover have "length (drop n data) < length data" using True False by simp
      ultimately obtain k where
        k: "k \<le> length (drop n data)" "sent s' = sent t @ take k (drop n data)"
        "r = ok () \<longrightarrow> sent s' = sent t @ drop n data" "no_panic r" using less.hyps by blast
      then have "sent s' = sent s @ take (n + k) data" "n + k \<le> length data"
        using n t by (simp_all add: take_add)
      with k t show ?thesis by auto
    next
      case False
      with less.prems \<open>data \<noteq> []\<close> w n have "s' = t" "r \<noteq> ok ()" "no_panic r"
        by (auto simp: write_all.simps [of write_bytes s data] split: option.splits if_splits)
      with n t show ?thesis by auto
    qed
  qed
qed

end

text \<open>
  The connection of the model: the bytes its peer receives and what the next calls of
  \<open>Write\<close> do with their buffer; without further script a call takes all of it.
\<close>

datatype 'e write_step = Accept nat | Refuse nat "'e io_error"

record 'e pipe =
  received :: bytes
  script :: "'e write_step list"

definition pipe_write :: "('e pipe, 'e) writer" where
  "pipe_write p data = (case script p of
     [] \<Rightarrow> (length data, None, p\<lparr>received := received p @ data\<rparr>)
   | Accept k # ss \<Rightarrow> (min k (length data), None, \<lparr>received = received p @ take k data, script = ss\<rparr>)
   | Refuse k e # ss \<Rightarrow> (min k (length data), Some e, \<lparr>received = received p @ take k data, script = ss\<rparr>))"

interpretation pipe: byte_sink pipe_write received
  by unfold_locales
    (auto simp: pipe_write_def min_def split: list.splits write_step.splits)

definition open_pipe :: "'e pipe" where
  "open_pipe = \<lparr>received = [], script = []\<rparr>"

lemma write_all_open: "script p = [] \<Longrightarrow> write_all pipe_write p data = (ok (), p\<lparr>received := received p @ data\<rparr>)"
  by (subst write_all.simps) (simp add: pipe_write_def write_all.simps)

end
