(* ===== verification/Policy_Allowlist.thy ===== *)
theory Policy_Allowlist
  imports Policy_Destination Go_Io
begin

text \<open>
  \<open>internal/policy/allowlist.go\<close>: host patterns and their matching, the parser of one
  pattern, the allowlist with its admission decision, and the two ways it is read.
\<close>

section \<open>Patterns\<close>

datatype pattern_kind = PatternExact | PatternWildcard

record host_pattern =
  pat_kind :: pattern_kind
  pat_host :: string

definition pattern_kind_string :: "pattern_kind \<Rightarrow> string" where
  "pattern_kind_string k = (case k of PatternExact \<Rightarrow> ''exact'' | PatternWildcard \<Rightarrow> ''wildcard'')"

definition pattern_string :: "host_pattern \<Rightarrow> string" where
  "pattern_string p = (if pat_kind p = PatternWildcard then ''*.'' @ pat_host p else pat_host p)"

text \<open>\<open>matches\<close>; the index expression of the wildcard case is inside the length guard.\<close>

definition pattern_matches :: "host_pattern \<Rightarrow> string \<Rightarrow> bool" where
  "pattern_matches p host =
     (if host = [] then False
      else case pat_kind p of
        PatternExact \<Rightarrow> host = pat_host p
      | PatternWildcard \<Rightarrow>
          if length host \<le> length (pat_host p) + 1 then False
          else if \<not> has_suffix host (pat_host p) then False
          else host ! (length host - length (pat_host p) - 1) = CHR ''.'')"

datatype pattern_fault = PatternHost host_error | WildcardNeedsTwoLabels

datatype pattern_error = EmptyPattern | InvalidPattern string pattern_fault

definition parse_host_pattern :: "string \<Rightarrow> (pattern_error, host_pattern) result" where
  "parse_host_pattern raw =
     (let trimmed = trim_space raw in
      if trimmed = [] then err EmptyPattern
      else let (kind, host) = (if has_prefix trimmed ''*.'' then (PatternWildcard, drop 2 trimmed)
                               else (PatternExact, trimmed))
      in case canonical_hostname host of
           Inl Panic \<Rightarrow> panic
         | Inl (Err (_, e)) \<Rightarrow> err (InvalidPattern trimmed (PatternHost e))
         | Inr canonical \<Rightarrow>
             if kind = PatternWildcard \<and> CHR ''.'' \<notin> set canonical
             then err (InvalidPattern trimmed WildcardNeedsTwoLabels)
             else ok \<lparr>pat_kind = kind, pat_host = canonical\<rparr>)"

section \<open>The allowlist\<close>

record allowlist =
  patterns :: "host_pattern list"
  all :: bool

definition empty_allowlist :: allowlist where
  "empty_allowlist = \<lparr>patterns = [], all = False\<rparr>"

definition allow_all :: allowlist where
  "allow_all = \<lparr>patterns = [], all = True\<rparr>"

text \<open>\<open>add\<close>: the loop returns at the first pattern equal to the new one.\<close>

definition allowlist_add :: "allowlist \<Rightarrow> host_pattern \<Rightarrow> allowlist" where
  "allowlist_add a p = (if p \<in> set (patterns a) then a else a\<lparr>patterns := patterns a @ [p]\<rparr>)"

definition allowlist_len :: "allowlist \<Rightarrow> nat" where
  "allowlist_len a = length (patterns a)"

definition allowlist_is_empty :: "allowlist \<Rightarrow> bool" where
  "allowlist_is_empty a = (\<not> all a \<and> length (patterns a) = 0)"

definition allowlist_string :: "allowlist \<Rightarrow> string" where
  "allowlist_string a = (if all a then ''all'' else join '' '' (map pattern_string (patterns a)))"

fun permits_loop :: "host_pattern list \<Rightarrow> string \<Rightarrow> 'e decision" where
  "permits_loop [] host = deny DenyNotAllowlisted"
| "permits_loop (p # ps) host = (if pattern_matches p host then allow else permits_loop ps host)"

definition permits :: "allowlist \<Rightarrow> destination \<Rightarrow> 'e decision" where
  "permits a d =
     (if dest_is_zero d then deny DenyMalformedAuthority
      else if dest_port d \<noteq> allowed_port then deny DenyPortNotAllowed
      else if all a then allow
      else permits_loop (patterns a) (dest_host d))"

fun parse_allowlist_loop :: "allowlist \<Rightarrow> string list \<Rightarrow> (pattern_error, allowlist) result" where
  "parse_allowlist_loop l [] = ok l"
| "parse_allowlist_loop l (e # es) =
     bind_result (parse_host_pattern e) (\<lambda>p. parse_allowlist_loop (allowlist_add l p) es)"

definition parse_allowlist :: "string list \<Rightarrow> (pattern_error, allowlist) result" where
  "parse_allowlist entries = parse_allowlist_loop empty_allowlist entries"

datatype 'e allowlist_file_error = AtLine nat pattern_error | ReadAllowlist "'e scan_error"

fun read_allowlist_loop ::
  "'e scan_error option \<Rightarrow> nat \<Rightarrow> allowlist \<Rightarrow> string list \<Rightarrow> ('e allowlist_file_error, allowlist) result" where
  "read_allowlist_loop serr line l [] = (case serr of Some e \<Rightarrow> err (ReadAllowlist e) | None \<Rightarrow> ok l)"
| "read_allowlist_loop serr line l (raw # rest) =
     (let text = trim_space raw in
      if text = [] \<or> has_prefix text ''#'' then read_allowlist_loop serr (line + 1) l rest
      else bind_result (map_err (AtLine (line + 1)) (parse_host_pattern text))
             (\<lambda>p. read_allowlist_loop serr (line + 1) (allowlist_add l p) rest))"

definition read_allowlist :: "'e reader \<Rightarrow> ('e allowlist_file_error, allowlist) result" where
  "read_allowlist r = (let (ls, serr) = scan_lines r in read_allowlist_loop serr 0 empty_allowlist ls)"

section \<open>The invariant of patterns\<close>

definition valid_pattern :: "host_pattern \<Rightarrow> bool" where
  "valid_pattern p = (canonical_host (pat_host p)
     \<and> (pat_kind p = PatternWildcard \<longrightarrow> CHR ''.'' \<in> set (pat_host p)))"

definition valid_allowlist :: "allowlist \<Rightarrow> bool" where
  "valid_allowlist a = (distinct (patterns a) \<and> list_all valid_pattern (patterns a))"

lemma parse_host_pattern_valid: "parse_host_pattern raw = ok p \<Longrightarrow> valid_pattern p"
  by (auto simp: parse_host_pattern_def valid_pattern_def Let_def
      split: if_splits sum.splits failure.splits dest: canonical_hostname_ok)

lemma parse_host_pattern_no_panic [no_panic_intros]: "no_panic (parse_host_pattern raw)"
  using canonical_hostname_no_panic
  by (fastforce simp: parse_host_pattern_def Let_def no_panic_def split: sum.splits failure.splits)

lemma empty_allowlist_valid [simp]: "valid_allowlist empty_allowlist" "valid_allowlist allow_all"
  by (simp_all add: valid_allowlist_def empty_allowlist_def allow_all_def)

lemma allowlist_add_valid: "valid_allowlist a \<Longrightarrow> valid_pattern p \<Longrightarrow> valid_allowlist (allowlist_add a p)"
  by (auto simp: valid_allowlist_def allowlist_add_def list_all_iff)

lemma allowlist_add_facts [simp]:
  "set (patterns (allowlist_add a p)) = insert p (set (patterns a))" "all (allowlist_add a p) = all a"
  by (auto simp: allowlist_add_def)

lemma parse_allowlist_loop_valid:
  "parse_allowlist_loop l es = ok a \<Longrightarrow> valid_allowlist l \<Longrightarrow> valid_allowlist a \<and> all a = all l"
  by (induction l es rule: parse_allowlist_loop.induct)
    (auto simp: bind_result_eq_ok allowlist_add_valid parse_host_pattern_valid)

lemma parse_allowlist_loop_set:
  "parse_allowlist_loop l es = ok a \<Longrightarrow>
     set (patterns a) = set (patterns l) \<union> {p. \<exists>e \<in> set es. parse_host_pattern e = ok p}"
  by (induction l es rule: parse_allowlist_loop.induct) (auto simp: bind_result_eq_ok)

text \<open>The first invalid entry decides the error of the whole list.\<close>

lemma parse_allowlist_loop_err:
  "parse_allowlist_loop l es = err x \<longleftrightarrow>
     (\<exists>pre e post. es = pre @ e # post \<and> (\<forall>q \<in> set pre. is_ok (parse_host_pattern q))
        \<and> parse_host_pattern e = err x)"
proof (induction l es rule: parse_allowlist_loop.induct)
  case (2 l e es)
  show ?case
  proof (cases "parse_host_pattern e")
    case (Inl f)
    show ?thesis
    proof
      assume "parse_allowlist_loop l (e # es) = err x"
      with Inl show "\<exists>pre e' post. e # es = pre @ e' # post \<and> (\<forall>q \<in> set pre. is_ok (parse_host_pattern q))
        \<and> parse_host_pattern e' = err x" by (intro exI [of _ "[]"] exI [of _ e] exI [of _ es]) simp
    next
      assume "\<exists>pre e' post. e # es = pre @ e' # post \<and> (\<forall>q \<in> set pre. is_ok (parse_host_pattern q))
        \<and> parse_host_pattern e' = err x"
      with Inl show "parse_allowlist_loop l (e # es) = err x" by (auto simp: Cons_eq_append_conv)
    qed
  next
    case (Inr p)
    have "(\<exists>pre e' post. e # es = pre @ e' # post \<and> (\<forall>q \<in> set pre. is_ok (parse_host_pattern q))
        \<and> parse_host_pattern e' = err x)
      \<longleftrightarrow> (\<exists>pre e' post. es = pre @ e' # post \<and> (\<forall>q \<in> set pre. is_ok (parse_host_pattern q))
        \<and> parse_host_pattern e' = err x)" (is "?L \<longleftrightarrow> ?R")
    proof
      assume ?L
      with Inr show ?R by (fastforce simp: Cons_eq_append_conv)
    next
      assume ?R
      then obtain pre e' post where "es = pre @ e' # post" "\<forall>q \<in> set pre. is_ok (parse_host_pattern q)"
        "parse_host_pattern e' = err x" by blast
      with Inr show ?L by (intro exI [of _ "e # pre"] exI [of _ e'] exI [of _ post]) simp
    qed
    with "2.IH" [OF Inr] Inr show ?thesis by simp
  qed
qed simp

lemma read_allowlist_loop_valid:
  "read_allowlist_loop serr n l ls = ok a \<Longrightarrow> valid_allowlist l \<Longrightarrow> valid_allowlist a \<and> all a = all l"
  by (induction serr n l ls rule: read_allowlist_loop.induct)
    (auto simp: bind_result_eq_ok Let_def allowlist_add_valid parse_host_pattern_valid
      split: if_splits option.splits)

section \<open>Matching\<close>

text \<open>
  The wildcard case splits the name in front of the suffix at a label separator, and at least
  one label precedes it.
\<close>

lemma wildcard_matches_iff:
  "pattern_matches \<lparr>pat_kind = PatternWildcard, pat_host = s\<rparr> host \<longleftrightarrow>
     (\<exists>u. u \<noteq> [] \<and> host = u @ CHR ''.'' # s)"
proof
  assume "pattern_matches \<lparr>pat_kind = PatternWildcard, pat_host = s\<rparr> host"
  then have len: "length s + 1 < length host" and suf: "has_suffix host s"
    and dot: "host ! (length host - length s - 1) = CHR ''.''"
    by (simp_all add: pattern_matches_def not_le split: if_splits)
  from suf obtain v where v: "host = v @ s" by (auto simp: has_suffix_iff)
  with len have "v \<noteq> []" by auto
  then obtain u c where u: "v = u @ [c]" by (metis append_butlast_last_id)
  with dot v have "c = CHR ''.''" by (simp add: nth_append)
  moreover have "u \<noteq> []" using len v u by auto
  ultimately show "\<exists>u. u \<noteq> [] \<and> host = u @ CHR ''.'' # s" using u v by auto
next
  assume "\<exists>u. u \<noteq> [] \<and> host = u @ CHR ''.'' # s"
  then obtain u where u: "u \<noteq> []" "host = u @ CHR ''.'' # s" by blast
  then have "has_suffix host s" unfolding has_suffix_iff by (intro exI [of _ "u @ ''.''"]) simp
  with u show "pattern_matches \<lparr>pat_kind = PatternWildcard, pat_host = s\<rparr> host"
    by (cases u) (simp_all add: pattern_matches_def nth_append)
qed

text \<open>In terms of labels: what the pattern language promises.\<close>

definition labels :: "string \<Rightarrow> string list" where
  "labels h = split_on CHR ''.'' h"

definition pattern_covers :: "host_pattern \<Rightarrow> string \<Rightarrow> bool" where
  "pattern_covers p host = (case pat_kind p of
     PatternExact \<Rightarrow> labels host = labels (pat_host p)
   | PatternWildcard \<Rightarrow> length (labels (pat_host p)) < length (labels host)
       \<and> drop (length (labels host) - length (labels (pat_host p))) (labels host) = labels (pat_host p))"

lemma labels_inj: "labels a = labels b \<longleftrightarrow> a = b"
  unfolding labels_def by (metis join_split_on)

lemma join_append: "as \<noteq> [] \<Longrightarrow> bs \<noteq> [] \<Longrightarrow> join sep (as @ bs) = join sep as @ sep @ join sep bs"
proof (induction as)
  case (Cons a as)
  then show ?case by (cases "as = []") (simp_all add: join_Cons)
qed simp

lemma join_eq_Nil: "join sep ws = [] \<Longrightarrow> w \<in> set ws \<Longrightarrow> w = []"
  by (induction sep ws rule: join.induct) auto

lemma pattern_matches_covers:
  assumes "canonical_host host"
  shows "pattern_matches p host \<longleftrightarrow> pattern_covers p host"
proof (cases "pat_kind p")
  case PatternExact
  then show ?thesis
    using canonical_host_not_Nil [OF assms]
    by (simp add: pattern_matches_def pattern_covers_def labels_inj)
next
  case PatternWildcard
  obtain s where p: "p = \<lparr>pat_kind = PatternWildcard, pat_host = s\<rparr>"
    using PatternWildcard by (cases p) simp
  let ?k = "length (labels host) - length (labels s)"
  show ?thesis
  proof
    assume "pattern_matches p host"
    then obtain u where u: "host = u @ CHR ''.'' # s"
      unfolding p wildcard_matches_iff by blast
    have l: "labels host = labels u @ labels s"
      unfolding u labels_def by (rule split_on_append)
    have "labels u \<noteq> []" by (simp add: labels_def)
    then have "0 < length (labels u)" by blast
    with l show "pattern_covers p host" by (simp add: p pattern_covers_def)
  next
    assume "pattern_covers p host"
    then have lt: "length (labels s) < length (labels host)" and d: "drop ?k (labels host) = labels s"
      by (simp_all add: p pattern_covers_def)
    let ?u = "join ''.'' (take ?k (labels host))"
    have ne: "take ?k (labels host) \<noteq> []" using lt by auto
    have "host = join ''.'' (labels host)" by (simp add: labels_def join_split_on)
    also have "labels host = take ?k (labels host) @ labels s" using d by (metis append_take_drop_id)
    also have "join ''.'' \<dots> = ?u @ ''.'' @ join ''.'' (labels s)"
      using ne by (rule join_append) (simp add: labels_def)
    finally have eq: "host = ?u @ CHR ''.'' # s" by (simp add: labels_def join_split_on)
    have "hd (take ?k (labels host)) \<in> set (take ?k (labels host))" by (rule hd_in_set [OF ne])
    then have hd: "hd (take ?k (labels host)) \<in> set (labels host)" by (rule in_set_takeD)
    have "?u \<noteq> []"
    proof
      assume "?u = []"
      then have "hd (take ?k (labels host)) = []" using hd_in_set [OF ne] by (rule join_eq_Nil)
      with hd have "[] \<in> set (labels host)" by simp
      with assms show False by (auto simp: canonical_host_def labels_def list_all_iff valid_label_def)
    qed
    with eq show "pattern_matches p host" unfolding p wildcard_matches_iff by blast
  qed
qed

lemma permits_loop_iff:
  "permits_loop ps h = (if \<exists>p \<in> set ps. pattern_matches p h then allow else deny DenyNotAllowlisted)"
  by (induction ps) auto

lemma permits_iff:
  "permits a d = allow \<longleftrightarrow>
     \<not> dest_is_zero d \<and> dest_port d = allowed_port
       \<and> (all a \<or> (\<exists>p \<in> set (patterns a). pattern_matches p (dest_host d)))"
  by (auto simp: permits_def permits_loop_iff)

lemma permits_allowed:
  "allowed (permits a d) \<longleftrightarrow>
     \<not> dest_is_zero d \<and> dest_port d = allowed_port
       \<and> (all a \<or> (\<exists>p \<in> set (patterns a). pattern_matches p (dest_host d)))"
  by (auto simp: permits_def permits_loop_iff)

lemma permits_is_allow: "allowed (permits a d :: 'e decision) \<Longrightarrow> permits a d = (allow :: 'e decision)"
  by (auto simp: permits_allowed permits_iff)

lemma permits_denied: "\<not> allowed (permits a d) \<Longrightarrow> reason (permits a d) \<noteq> DenyNone"
  by (auto simp: permits_def permits_loop_iff split: if_splits)

section \<open>Printing and parsing patterns\<close>

lemma canonical_host_trim_space:
  assumes "canonical_host h"
  shows "trim_space h = h"
proof -
  have "\<not> is_space (code c)" if "c \<in> set h" for c
    using canonical_host_chars [OF assms that] valid_label_char_facts(8) [of c]
    by (auto simp: is_space_def in_range_def)
  then show ?thesis
    using canonical_host_not_Nil [OF assms]
    by (simp add: trim_space_ascii canonical_host_ascii [OF assms] trim_by_id)
qed

lemma canonical_host_trim_space_star:
  assumes "canonical_host h"
  shows "trim_space (''*.'' @ h) = ''*.'' @ h"
proof -
  have "\<not> is_space (code (last h))"
    using canonical_host_chars [OF assms, of "last h"] canonical_host_not_Nil [OF assms]
      valid_label_char_facts(8) [of "last h"]
    by (auto simp: is_space_def in_range_def)
  then show ?thesis
    using canonical_host_not_Nil [OF assms]
    by (subst trim_space_ascii) (simp_all add: canonical_host_ascii [OF assms] trim_by_id is_space_def in_range_def)
qed

lemma parse_host_pattern_string:
  assumes "valid_pattern p"
  shows "parse_host_pattern (pattern_string p) = ok p"
proof (cases "pat_kind p")
  case PatternExact
  have h: "canonical_host (pat_host p)" using assms by (simp add: valid_pattern_def)
  then have "\<not> has_prefix (pat_host p) ''*.''"
    using canonical_host_excludes(1) [OF h] by (auto simp: has_prefix_iff)
  then show ?thesis
    using PatternExact canonical_host_not_Nil [OF h]
    by (simp add: parse_host_pattern_def pattern_string_def canonical_host_trim_space [OF h] Let_def
        canonical_hostname_id [OF h])
next
  case PatternWildcard
  have h: "canonical_host (pat_host p)" and dot: "CHR ''.'' \<in> set (pat_host p)"
    using assms PatternWildcard by (simp_all add: valid_pattern_def)
  have "has_prefix (''*.'' @ pat_host p) ''*.''" by (simp add: has_prefix_def)
  then show ?thesis
    using PatternWildcard canonical_host_trim_space_star [OF h] dot
    by (simp add: parse_host_pattern_def pattern_string_def Let_def canonical_hostname_id [OF h])
qed

end
