(* ===== verification/Policy_Addresses.thy ===== *)
theory Policy_Addresses
  imports Policy_Decision Go_Netip
begin

text \<open>
  \<open>internal/policy/addresses.go\<close>: the classes of resolved addresses, the reserved prefixes,
  the classification and the decision over a complete answer; and the description of the
  public addresses by prefixes of their numeric values, to which the classification is equal.
\<close>

datatype address_class =
    AddressPublic
  | AddressInvalid
  | AddressUnspecified
  | AddressLoopback
  | AddressPrivate
  | AddressLinkLocal
  | AddressMulticast
  | AddressNonGlobalUnicast
  | AddressReserved

fun address_class_string :: "address_class \<Rightarrow> string" where
  "address_class_string AddressPublic = ''public''"
| "address_class_string AddressInvalid = ''invalid''"
| "address_class_string AddressUnspecified = ''unspecified''"
| "address_class_string AddressLoopback = ''loopback''"
| "address_class_string AddressPrivate = ''private''"
| "address_class_string AddressLinkLocal = ''link-local''"
| "address_class_string AddressMulticast = ''multicast''"
| "address_class_string AddressNonGlobalUnicast = ''non-global-unicast''"
| "address_class_string AddressReserved = ''reserved''"

definition class_public :: "address_class \<Rightarrow> bool" where
  "class_public c = (c = AddressPublic)"

definition v4 :: "nat \<Rightarrow> nat \<Rightarrow> nat \<Rightarrow> nat \<Rightarrow> 32 word" where
  "v4 a b c d = word_of_nat (octets_value [a, b, c, d])"

text \<open>An IPv6 address by its first three groups, the rest zero.\<close>

definition v6 :: "nat \<Rightarrow> nat \<Rightarrow> nat \<Rightarrow> 128 word" where
  "v6 g0 g1 g2 = word_of_nat (((g0 * 65536 + g1) * 65536 + g2) * 2 ^ 80)"

definition reserved_prefixes :: "addr_prefix list" where
  "reserved_prefixes =
     [Prefix4 (v4 0 0 0 0) 8,
      Prefix4 (v4 100 64 0 0) 10,
      Prefix4 (v4 192 0 0 0) 24,
      Prefix4 (v4 192 0 2 0) 24,
      Prefix4 (v4 192 88 99 0) 24,
      Prefix4 (v4 198 18 0 0) 15,
      Prefix4 (v4 198 51 100 0) 24,
      Prefix4 (v4 203 0 113 0) 24,
      Prefix4 (v4 240 0 0 0) 4,
      Prefix6 (v6 100 65435 0) 96,
      Prefix6 (v6 100 65435 1) 48,
      Prefix6 (v6 256 0 0) 64,
      Prefix6 (v6 8193 0 0) 32,
      Prefix6 (v6 8193 2 0) 48,
      Prefix6 (v6 8193 3512 0) 32,
      Prefix6 (v6 8194 0 0) 16,
      Prefix6 (v6 65216 0 0) 10]"

definition classify_address :: "addr \<Rightarrow> address_class" where
  "classify_address a =
     (if \<not> is_valid a then AddressInvalid
      else if addr_zone a \<noteq> [] then AddressNonGlobalUnicast
      else let c = unmap a in
        if is_unspecified c then AddressUnspecified
        else if is_loopback c then AddressLoopback
        else if is_private c then AddressPrivate
        else if is_link_local_unicast c \<or> is_link_local_multicast c then AddressLinkLocal
        else if is_multicast c then AddressMulticast
        else if \<not> is_global_unicast c then AddressNonGlobalUnicast
        else if list_ex (\<lambda>p. prefix_contains p c) reserved_prefixes then AddressReserved
        else AddressPublic)"

fun first_non_public :: "addr list \<Rightarrow> (addr \<times> address_class) option" where
  "first_non_public [] = None"
| "first_non_public (a # as) =
     (if \<not> class_public (classify_address a) then Some (a, classify_address a) else first_non_public as)"

definition check_addresses :: "addr list \<Rightarrow> 'e decision" where
  "check_addresses as =
     (if length as = 0 then deny DenyResolutionFailed
      else if first_non_public as \<noteq> None then deny DenyNonPublicAddress
      else allow)"

section \<open>The decision over an answer\<close>

lemma first_non_public_None: "first_non_public as = None \<longleftrightarrow> (\<forall>a \<in> set as. classify_address a = AddressPublic)"
  by (induction as) (auto simp: class_public_def)

lemma first_non_public_Some:
  "first_non_public as = Some (a, c) \<Longrightarrow>
     \<exists>pre post. as = pre @ a # post \<and> (\<forall>b \<in> set pre. classify_address b = AddressPublic)
        \<and> c = classify_address a \<and> c \<noteq> AddressPublic"
proof (induction as)
  case (Cons b as)
  show ?case
  proof (cases "classify_address b = AddressPublic")
    case True
    with Cons.prems have "first_non_public as = Some (a, c)" by (simp add: class_public_def)
    from Cons.IH [OF this] obtain pre post where
      "as = pre @ a # post" "\<forall>b \<in> set pre. classify_address b = AddressPublic"
      "c = classify_address a" "c \<noteq> AddressPublic" by blast
    with True show ?thesis by (intro exI [of _ "b # pre"] exI [of _ post]) simp
  next
    case False
    with Cons.prems show ?thesis
      by (intro exI [of _ "[]"] exI [of _ as]) (auto simp: class_public_def)
  qed
qed simp

lemma check_addresses_allow:
  "check_addresses as = allow \<longleftrightarrow> as \<noteq> [] \<and> (\<forall>a \<in> set as. classify_address a = AddressPublic)"
  by (auto simp: check_addresses_def first_non_public_None)

lemma check_addresses_allowed:
  "allowed (check_addresses as) \<longleftrightarrow> as \<noteq> [] \<and> (\<forall>a \<in> set as. classify_address a = AddressPublic)"
  by (auto simp: check_addresses_def first_non_public_None)

lemma check_addresses_denied: "\<not> allowed (check_addresses as) \<Longrightarrow> reason (check_addresses as) \<noteq> DenyNone"
  by (auto simp: check_addresses_def split: if_splits)

section \<open>The public addresses\<close>

text \<open>
  Blocks of addresses as pairs of a number of low bits and the value of the bits above them:
  \<open>(24, 10)\<close> is \<open>10.0.0.0/8\<close>.
\<close>

definition in_block :: "nat \<Rightarrow> nat \<times> nat \<Rightarrow> bool" where
  "in_block n b = (n div 2 ^ fst b = snd b)"

definition special_blocks4 :: "(nat \<times> nat) list" where
  "special_blocks4 =
     [(24, 0), (24, 10), (24, 127), (22, 401), (16, 43518), (20, 2753), (8, 12582912), (8, 12582914),
      (8, 12605539), (16, 49320), (17, 25353), (8, 12989284), (8, 13303921), (28, 14), (28, 15)]"

definition special_blocks6 :: "(nat \<times> nat) list" where
  "special_blocks6 =
     [(0, 0), (0, 1), (32, (100 * 65536 + 65435) * 2 ^ 64),
      (80, (100 * 65536 + 65435) * 65536 + 1), (64, 256 * 2 ^ 48), (96, 8193 * 65536),
      (80, (8193 * 65536 + 2) * 65536), (96, 8193 * 65536 + 3512), (112, 8194), (121, 126),
      (118, 1018), (118, 1019), (120, 255)]"

definition public_address :: "addr \<Rightarrow> bool" where
  "public_address a = (case a of
     AddrZero \<Rightarrow> False
   | Addr4 w \<Rightarrow> \<not> list_ex (in_block (unat w)) special_blocks4
   | Addr6 w z \<Rightarrow> z = [] \<and>
       (if unat w div 2 ^ 32 = 65535 then \<not> list_ex (in_block (unat w mod 2 ^ 32)) special_blocks4
        else \<not> list_ex (in_block (unat w)) special_blocks6))"

section \<open>The bit tests as blocks\<close>

lemma unat_drop_bit_div: "unat (drop_bit k w) = unat w div 2 ^ k"
  by (simp only: unat_drop_bit_eq) (simp only: drop_bit_eq_div)

lemma drop_bit_eq_unat: "drop_bit k w = v \<longleftrightarrow> unat w div 2 ^ k = unat (v :: 'a::len word)"
  by (simp only: word_unat_eq_iff unat_drop_bit_div)

lemma unat_ucast_byte: "unat (ucast w :: byte) = unat w mod 256"
  by (simp only: unsigned_ucast_eq take_bit_eq_mod) simp

lemma unat_ucast_16: "unat (ucast w :: 16 word) = unat w mod 65536"
  by (simp only: unsigned_ucast_eq take_bit_eq_mod) simp

lemma and_not_mask_eq: "b AND NOT (mask k) = c AND NOT (mask k) \<longleftrightarrow> drop_bit k b = drop_bit k (c :: 'a::len word)"
proof -
  have "b AND NOT (mask k) = c AND NOT (mask k) \<longleftrightarrow> (b XOR c) AND NOT (mask k) = 0"
    by (auto simp: bit_eq_iff bit_simps)
  then show ?thesis by (simp only: and_not_mask_eq_0 drop_bit_xor_eq_0)
qed

lemma high_bits_tests:
  "(b :: byte) AND 240 = 224 \<longleftrightarrow> unat b div 16 = 14"
  "(b :: byte) AND 240 = 16 \<longleftrightarrow> unat b div 16 = 1"
  "(b :: byte) AND 254 = 252 \<longleftrightarrow> unat b div 2 = 126"
  "(g :: 16 word) AND 65472 = 65152 \<longleftrightarrow> unat g div 64 = 1018"
proof -
  have *: "(240 :: byte) = NOT (mask 4)" "(224 :: byte) = 224 AND NOT (mask 4)"
    "(16 :: byte) = 16 AND NOT (mask 4)" "(254 :: byte) = NOT (mask 1)" "(252 :: byte) = 252 AND NOT (mask 1)"
    "(65472 :: 16 word) = NOT (mask 6)" "(65152 :: 16 word) = 65152 AND NOT (mask 6)"
    by code_simp+
  show "b AND 240 = 224 \<longleftrightarrow> unat b div 16 = 14"
    by (subst *(1), subst *(2), subst and_not_mask_eq, subst drop_bit_eq_unat) (simp add: drop_bit_eq_div)
  show "b AND 240 = 16 \<longleftrightarrow> unat b div 16 = 1"
    by (subst *(1), subst *(3), subst and_not_mask_eq, subst drop_bit_eq_unat) (simp add: drop_bit_eq_div)
  show "b AND 254 = 252 \<longleftrightarrow> unat b div 2 = 126"
    by (subst *(4), subst *(5), subst and_not_mask_eq, subst drop_bit_eq_unat) (simp add: drop_bit_eq_div)
  show "g AND 65472 = 65152 \<longleftrightarrow> unat g div 64 = 1018"
    by (subst *(6), subst *(7), subst and_not_mask_eq, subst drop_bit_eq_unat) (simp add: drop_bit_eq_div)
qed

lemma link_local_multicast_high: "(g :: 16 word) AND 65295 = 65282 \<Longrightarrow> unat g div 256 = 255"
proof -
  assume g: "g AND 65295 = 65282"
  have m: "(65280 :: 16 word) = NOT (mask 8)" "(65280 :: 16 word) = 65280 AND NOT (mask 8)"
    "(65295 :: 16 word) AND 65280 = 65280" "(65282 :: 16 word) AND 65280 = 65280" by code_simp+
  have "g AND 65280 = (g AND 65295) AND 65280" by (simp only: and.assoc m(3))
  also have "\<dots> = 65280" by (simp only: g m(4))
  finally have "g AND NOT (mask 8) = 65280 AND NOT (mask 8)" using m(1,2) by metis
  then show ?thesis by (simp only: and_not_mask_eq drop_bit_eq_unat) (simp add: drop_bit_eq_div)
qed

text \<open>An IPv4 address as a number below \<open>2 ^ 32\<close>.\<close>

lemma unat_v4: "octets_value [a, b, c, d] < 4294967296 \<Longrightarrow> unat (v4 a b c d) = octets_value [a, b, c, d]"
  by (simp add: v4_def)

lemma div_mod_eq: "b < k \<Longrightarrow> (m div k = a \<and> m mod k = b) \<longleftrightarrow> m = a * k + (b :: nat)"
  using div_mult_mod_eq [of m k] by auto

lemma div_mod_div: "(m :: nat) mod 256 div 16 = m div 16 mod 16"
  using mod_mult2_eq [of m 16 16] by simp

lemma addr4_tests:
  fixes w :: "32 word"
  defines "n \<equiv> unat w"
  shows "is_loopback (Addr4 w) \<longleftrightarrow> in_block n (24, 127)"
    and "is_multicast (Addr4 w) \<longleftrightarrow> in_block n (28, 14)"
    and "is_link_local_unicast (Addr4 w) \<longleftrightarrow> in_block n (16, 43518)"
    and "is_private (Addr4 w) \<longleftrightarrow> in_block n (24, 10) \<or> in_block n (20, 2753) \<or> in_block n (16, 49320)"
    and "is_link_local_multicast (Addr4 w) \<Longrightarrow> in_block n (28, 14)"
    and "is_unspecified (Addr4 w) \<Longrightarrow> in_block n (24, 0)"
    and "w = - 1 \<Longrightarrow> in_block n (28, 15)"
proof -
  have n: "n < 4294967296" unfolding n_def using unsigned_less [of w] by simp
  have b: "unat (v4_byte 0 w) = n div 16777216" "unat (v4_byte 1 w) = n div 65536 mod 256"
    using n unfolding v4_byte_def unat_ucast_byte unat_drop_bit_div n_def [symmetric] by simp_all
  have u: "unmap (Addr4 w) = Addr4 w" by (simp add: unmap_def)
  have b1: "v4_byte (Suc 0) w = x \<longleftrightarrow> n div 65536 mod 256 = unat x"
    "unat (v4_byte (Suc 0) w) = n div 65536 mod 256" for x
    using b(2) by (simp_all add: word_unat_eq_iff)
  note t = word_unat_eq_iff [of "v4_byte 0 w"] b1 b high_bits_tests in_block_def
  show "is_loopback (Addr4 w) \<longleftrightarrow> in_block n (24, 127)"
    by (simp add: is_loopback_def u t)
  have "n div 16777216 div 16 = n div 268435456" by (simp flip: div_mult2_eq)
  then show mc: "is_multicast (Addr4 w) \<longleftrightarrow> in_block n (28, 14)"
    by (simp add: is_multicast_def u t)
  have d24: "n div 16777216 = n div 65536 div 256" by (simp flip: div_mult2_eq)
  have d20: "n div 1048576 = n div 65536 div 16" by (simp flip: div_mult2_eq)
  show "is_link_local_unicast (Addr4 w) \<longleftrightarrow> in_block n (16, 43518)"
    using div_mod_eq [of 254 256 "n div 65536" 169] by (simp add: is_link_local_unicast_def u t d24)
  have "n div 65536 div 256 = n div 65536 div 16 div 16" "n div 65536 mod 256 div 16 = n div 65536 div 16 mod 16"
    by (simp_all flip: div_mult2_eq add: div_mod_div)
  then show "is_private (Addr4 w) \<longleftrightarrow> in_block n (24, 10) \<or> in_block n (20, 2753) \<or> in_block n (16, 49320)"
    using div_mod_eq [of 168 256 "n div 65536" 192] div_mod_eq [of 1 16 "n div 65536 div 16" 172]
    by (simp add: is_private_def u t d24 d20)
  show "is_link_local_multicast (Addr4 w) \<Longrightarrow> in_block n (28, 14)"
    unfolding mc [symmetric] by (simp add: is_link_local_multicast_def is_multicast_def u)
  show "is_unspecified (Addr4 w) \<Longrightarrow> in_block n (24, 0)"
    by (simp add: is_unspecified_def in_block_def n_def)
  show "w = - 1 \<Longrightarrow> in_block n (28, 15)"
    by (simp add: in_block_def n_def unsigned_minus_1_eq_mask mask_eq_exp_minus_1)
qed


lemma prefix4_block:
  assumes "octets_value [a, b, c, d] < 4294967296"
  shows "prefix_contains (Prefix4 (v4 a b c d) k) (Addr4 w)
    \<longleftrightarrow> in_block (unat w) (32 - k, octets_value [a, b, c, d] div 2 ^ (32 - k))"
  by (simp only: prefix_contains_def prod.case addr_prefix.case addr.case drop_bit_xor_eq_0)
    (simp only: drop_bit_eq_unat unat_drop_bit_div unat_v4 [OF assms] in_block_def fst_conv snd_conv)

lemma prefix_families [simp]:
  "\<not> prefix_contains (Prefix6 v k) (Addr4 w)" "\<not> prefix_contains (Prefix4 u k) (Addr6 x z)"
  by (simp_all add: prefix_contains_def)

lemma reserved4:
  "list_ex (\<lambda>p. prefix_contains p (Addr4 w)) reserved_prefixes \<longleftrightarrow>
     list_ex (in_block (unat w))
       [(24, 0), (22, 401), (8, 12582912), (8, 12582914), (8, 12605539), (17, 25353), (8, 12989284),
        (8, 13303921), (28, 15)]"
  by (simp add: reserved_prefixes_def prefix4_block octets_value_def)

lemma classify_addr4: "classify_address (Addr4 w) = AddressPublic \<longleftrightarrow> public_address (Addr4 w)"
proof -
  have u: "unmap (Addr4 w) = Addr4 w" by (simp add: unmap_def)
  have guc: "is_global_unicast (Addr4 w) \<longleftrightarrow> w \<noteq> 0 \<and> w \<noteq> - 1 \<and> \<not> is_loopback (Addr4 w)
      \<and> \<not> is_multicast (Addr4 w) \<and> \<not> is_link_local_unicast (Addr4 w)"
    by (auto simp: is_global_unicast_def u Let_def)
  have un: "is_unspecified (Addr4 w) \<longleftrightarrow> w = 0" by (simp add: is_unspecified_def)
  have eq: "classify_address (Addr4 w) = AddressPublic \<longleftrightarrow>
     \<not> is_unspecified (Addr4 w) \<and> \<not> is_loopback (Addr4 w) \<and> \<not> is_private (Addr4 w)
     \<and> \<not> is_link_local_unicast (Addr4 w) \<and> \<not> is_link_local_multicast (Addr4 w)
     \<and> \<not> is_multicast (Addr4 w) \<and> is_global_unicast (Addr4 w)
     \<and> \<not> list_ex (\<lambda>p. prefix_contains p (Addr4 w)) reserved_prefixes"
    by (simp add: classify_address_def is_valid_def u Let_def)
  show ?thesis
    unfolding eq guc reserved4 addr4_tests(1-4) un public_address_def special_blocks4_def
    using addr4_tests(5-7) [of w] un by (simp only: addr.case list_ex_Nil_iff list_ex_Cons_iff) blast
qed

text \<open>An IPv6 address as a number below \<open>2 ^ 128\<close>.\<close>

lemma unat_word_of_nat_128: "n < 2 ^ 128 \<Longrightarrow> unat (word_of_nat n :: 128 word) = n"
  by (simp add: unat_of_nat take_bit_nat_eq_self)

lemma unat_v6:
  assumes "((g0 * 65536 + g1) * 65536 + g2) * 2 ^ 80 < (2 :: nat) ^ 128"
  shows "unat (v6 g0 g1 g2) = ((g0 * 65536 + g1) * 65536 + g2) * 2 ^ 80"
  unfolding v6_def by (rule unat_word_of_nat_128 [OF assms])

lemma prefix6_block:
  assumes "((g0 * 65536 + g1) * 65536 + g2) * 2 ^ 80 < (2 :: nat) ^ 128"
  shows "prefix_contains (Prefix6 (v6 g0 g1 g2) k) (Addr6 w [])
    \<longleftrightarrow> in_block (unat w) (128 - k, ((g0 * 65536 + g1) * 65536 + g2) * 2 ^ 80 div 2 ^ (128 - k))"
  by (simp only: prefix_contains_def prod.case addr_prefix.case addr.case and_not_mask_eq_0 drop_bit_xor_eq_0
      simp_thms)
    (simp only: drop_bit_eq_unat unat_drop_bit_div unat_v6 [OF assms] in_block_def fst_conv snd_conv)

lemma reserved6:
  "list_ex (\<lambda>p. prefix_contains p (Addr6 w [])) reserved_prefixes \<longleftrightarrow>
     list_ex (in_block (unat w))
       [(32, (100 * 65536 + 65435) * 2 ^ 64), (80, (100 * 65536 + 65435) * 65536 + 1), (64, 256 * 2 ^ 48),
        (96, 8193 * 65536), (80, (8193 * 65536 + 2) * 65536), (96, 8193 * 65536 + 3512), (112, 8194),
        (118, 1019)]"
  by (simp add: reserved_prefixes_def prefix6_block)

lemma addr6_tests:
  fixes w :: "128 word"
  defines "n \<equiv> unat w"
  assumes "n div 2 ^ 32 \<noteq> 65535"
  shows "is_loopback (Addr6 w z) \<longleftrightarrow> in_block n (0, 1)"
    and "is_multicast (Addr6 w z) \<longleftrightarrow> in_block n (120, 255)"
    and "is_link_local_unicast (Addr6 w z) \<longleftrightarrow> in_block n (118, 1018)"
    and "is_private (Addr6 w z) \<longleftrightarrow> in_block n (121, 126)"
    and "is_link_local_multicast (Addr6 w z) \<Longrightarrow> in_block n (120, 255)"
    and "is_unspecified (Addr6 w []) \<longleftrightarrow> in_block n (0, 0)"
proof -
  have n: "n < 2 ^ 128" unfolding n_def using unsigned_less [of w] by simp
  have nm: "drop_bit 32 w \<noteq> 65535" using assms(2) by (simp only: drop_bit_eq_unat n_def) simp
  then have u: "unmap (Addr6 w z) = Addr6 w z" by (simp add: unmap_def)
  have g: "unat (v6_group0 w) = n div 2 ^ 112"
    using n unfolding v6_group0_def unat_ucast_16 unat_drop_bit_div n_def [symmetric] by simp
  have b: "unat (ucast (drop_bit 120 w) :: byte) = n div 2 ^ 120"
    using n unfolding unat_ucast_byte unat_drop_bit_div n_def [symmetric] by simp
  show "is_loopback (Addr6 w z) \<longleftrightarrow> in_block n (0, 1)"
    by (simp add: is_loopback_def u in_block_def word_unat_eq_iff n_def)
  show mc: "is_multicast (Addr6 w z) \<longleftrightarrow> in_block n (120, 255)"
    by (simp only: is_multicast_def u addr.case drop_bit_eq_unat in_block_def n_def) simp
  show "is_link_local_unicast (Addr6 w z) \<longleftrightarrow> in_block n (118, 1018)"
    by (simp only: is_link_local_unicast_def u addr.case high_bits_tests g in_block_def) (simp flip: div_mult2_eq)
  show "is_private (Addr6 w z) \<longleftrightarrow> in_block n (121, 126)"
    by (simp only: is_private_def u addr.case high_bits_tests b in_block_def) (simp flip: div_mult2_eq)
  show "is_link_local_multicast (Addr6 w z) \<Longrightarrow> in_block n (120, 255)"
    by (simp only: is_link_local_multicast_def u addr.case) (drule link_local_multicast_high, simp add: g in_block_def flip: div_mult2_eq)
  show "is_unspecified (Addr6 w []) \<longleftrightarrow> in_block n (0, 0)"
    by (simp add: is_unspecified_def in_block_def n_def word_unat_eq_iff)
qed

lemma classify_mapped:
  assumes "unat w div 2 ^ 32 = 65535"
  shows "classify_address (Addr6 w []) = classify_address (Addr4 (ucast w))"
proof -
  have "drop_bit 32 w = 65535" using assms by (simp only: drop_bit_eq_unat) simp
  then show ?thesis by (simp add: classify_address_def is_valid_def unmap_def)
qed

lemma classify_addr6:
  assumes "unat w div 2 ^ 32 \<noteq> 65535"
  shows "classify_address (Addr6 w []) = AddressPublic \<longleftrightarrow> \<not> list_ex (in_block (unat w)) special_blocks6"
proof -
  have nm: "drop_bit 32 w \<noteq> 65535" using assms by (simp only: drop_bit_eq_unat) simp
  have u: "unmap (Addr6 w []) = Addr6 w []" using nm by (simp add: unmap_def)
  have guc: "is_global_unicast (Addr6 w []) \<longleftrightarrow> \<not> is_unspecified (Addr6 w []) \<and> \<not> is_loopback (Addr6 w [])
      \<and> \<not> is_multicast (Addr6 w []) \<and> \<not> is_link_local_unicast (Addr6 w [])"
    by (auto simp: is_global_unicast_def u is_unspecified_def Let_def)
  have eq: "classify_address (Addr6 w []) = AddressPublic \<longleftrightarrow>
     \<not> is_unspecified (Addr6 w []) \<and> \<not> is_loopback (Addr6 w []) \<and> \<not> is_private (Addr6 w [])
     \<and> \<not> is_link_local_unicast (Addr6 w []) \<and> \<not> is_link_local_multicast (Addr6 w [])
     \<and> \<not> is_multicast (Addr6 w []) \<and> is_global_unicast (Addr6 w [])
     \<and> \<not> list_ex (\<lambda>p. prefix_contains p (Addr6 w [])) reserved_prefixes"
    by (simp add: classify_address_def is_valid_def u Let_def)
  note t = addr6_tests [OF assms]
  show ?thesis
    unfolding eq guc reserved6 t(1-4,6) special_blocks6_def
    using t(5) by (simp only: list_ex_Nil_iff list_ex_Cons_iff) blast
qed

text \<open>The addresses the code dials are exactly the ones outside the special blocks.\<close>

lemma classify_address_public: "classify_address a = AddressPublic \<longleftrightarrow> public_address a"
proof (cases a)
  case AddrZero
  then show ?thesis by (simp add: classify_address_def is_valid_def public_address_def)
next
  case (Addr4 w)
  then show ?thesis by (simp only: classify_addr4)
next
  case (Addr6 w z)
  show ?thesis
  proof (cases "z = []")
    case False
    with Addr6 show ?thesis by (simp add: classify_address_def is_valid_def public_address_def)
  next
    case z: True
    show ?thesis
    proof (cases "unat w div 2 ^ 32 = 65535")
      case True
      have "unat (ucast w :: 32 word) = unat w mod 2 ^ 32"
        by (simp only: unsigned_ucast_eq take_bit_eq_mod) simp
      with True show ?thesis
        by (simp only: Addr6 z classify_mapped classify_addr4 public_address_def addr.case) simp
    next
      case False
      then show ?thesis by (simp only: Addr6 z classify_addr6 [OF False] public_address_def addr.case if_False simp_thms)
    qed
  qed
qed

end
