(* ===== verification/Policy_Checker.thy ===== *)
theory Policy_Checker
  imports Policy_Allowlist Policy_Addresses
begin

text \<open>
  \<open>internal/policy/checker.go\<close>: the two ends of the destination policy. The resolver is
  code of another package behind an interface, so it is an argument of the checker: a
  function from canonical hostnames to an error or a list of addresses, and \<open>None\<close> for
  the nil resolver.
\<close>

datatype 'e lookup_error = NoResolver | LookupFailed 'e

type_synonym 'e resolver = "string \<Rightarrow> 'e + addr list"

record 'e checker =
  chk_allowlist :: allowlist
  chk_resolver :: "'e resolver option"

definition new_checker :: "allowlist \<Rightarrow> 'e resolver option \<Rightarrow> 'e checker" where
  "new_checker a r = \<lparr>chk_allowlist = a, chk_resolver = r\<rparr>"

definition can_resolve :: "'e checker \<Rightarrow> bool" where
  "can_resolve c = (chk_resolver c \<noteq> None)"

definition check_destination :: "'e checker \<Rightarrow> destination \<Rightarrow> 'e lookup_error decision" where
  "check_destination c d = permits (chk_allowlist c) d"

definition check_authority :: "'e checker \<Rightarrow> string \<Rightarrow> destination \<times> 'e lookup_error decision" where
  "check_authority c raw =
     (case parse_authority raw of
        Inl (Err i) \<Rightarrow> (zero_destination, deny (deny_reason_of (Some (Some i))))
      | Inl Panic \<Rightarrow> (zero_destination, deny (deny_reason_of (Some None)))
      | Inr d \<Rightarrow> (d, check_destination c d))"

text \<open>\<open>Resolve\<close>; the nil slice of a refusal is \<open>None\<close>.\<close>

definition resolve :: "'e checker \<Rightarrow> destination \<Rightarrow> addr list option \<times> 'e lookup_error decision" where
  "resolve c d =
     (let dec = check_destination c d in
      if \<not> allowed dec then (None, dec)
      else case chk_resolver c of
        None \<Rightarrow> (None, deny_because DenyResolutionFailed NoResolver)
      | Some r \<Rightarrow>
          (case r (dest_host d) of
             Inl e \<Rightarrow> (None, deny_because DenyResolutionFailed (LookupFailed e))
           | Inr as \<Rightarrow>
               let dec = check_addresses as in
               if \<not> allowed dec then (None, dec) else (Some as, allow)))"

section \<open>What a checker lets through\<close>

lemma check_authority_allowed:
  assumes "check_authority c raw = (d, dec)" and "allowed dec"
  shows "parse_authority raw = ok d" and "dec = allow" and "valid_destination d"
    and "allowed (check_destination c d)"
  using assms
  by (auto simp: check_authority_def check_destination_def
      split: sum.splits failure.splits dest: parse_authority_valid permits_is_allow)

lemma check_authority_denied:
  assumes "check_authority c raw = (d, dec)" and "\<not> allowed dec"
  shows "reason dec \<noteq> DenyNone"
proof (cases "parse_authority raw")
  case (Inl f)
  with assms show ?thesis
    using parse_authority_no_panic [of raw] parse_authority_deny [of raw]
    by (auto simp: check_authority_def deny_reason_of_def split: failure.splits)
next
  case (Inr x)
  with assms show ?thesis
    by (auto simp: check_authority_def check_destination_def permits_denied)
qed

lemma resolve_addresses:
  assumes "resolve c d = (Some as, dec)"
  shows "dec = allow" and "as \<noteq> []" and "\<forall>a \<in> set as. public_address a"
    and "\<not> dest_is_zero d" and "dest_port d = allowed_port"
    and "allowed (check_destination c d)"
    and "\<exists>r. chk_resolver c = Some r \<and> r (dest_host d) = Inr as"
  using assms
  by (auto simp: resolve_def Let_def check_addresses_allowed classify_address_public
      check_destination_def permits_allowed split: if_splits option.splits sum.splits)

lemma resolve_refuses:
  assumes "resolve c d = (None, dec)"
  shows "\<not> allowed dec" and "reason dec \<noteq> DenyNone"
  using assms
  by (auto simp: resolve_def check_destination_def Let_def permits_denied check_addresses_denied
      split: if_splits option.splits sum.splits)

end
