(* ===== verification/Go_Crypto.thy ===== *)
theory Go_Crypto
  imports Go_Strings
begin

text \<open>
  The standard packages the secrets pass through: \<open>crypto/subtle.ConstantTimeCompare\<close>,
  \<open>crypto/sha256.Sum256\<close>, \<open>encoding/hex\<close> and \<open>encoding/base64.StdEncoding\<close>.
\<close>

section \<open>Comparison\<close>

text \<open>The loop accumulates the differences of all positions and is tested once at the end.\<close>

fun ct_diff :: "byte \<Rightarrow> bytes \<Rightarrow> bytes \<Rightarrow> byte" where
  "ct_diff v (x # xs) (y # ys) = ct_diff (v OR (x XOR y)) xs ys"
| "ct_diff v _ _ = v"

definition constant_time_compare :: "bytes \<Rightarrow> bytes \<Rightarrow> nat" where
  "constant_time_compare x y = (if length x \<noteq> length y then 0 else if ct_diff 0 x y = 0 then 1 else 0)"

lemma word_of_nat_unat: "word_of_nat (unat w) = (w :: 'a::len word)"
  by (simp only: of_nat_unat ucast_id)

lemma or_eq_0: "(a OR b = 0) \<longleftrightarrow> a = 0 \<and> b = (0 :: 'a::len word)"
  by (auto simp: bit_eq_iff bit_simps)

lemma xor_eq_0: "(a XOR b = 0) \<longleftrightarrow> a = (b :: 'a::len word)"
  by (auto simp: bit_eq_iff bit_simps)

lemma ct_diff_eq_0: "length x = length y \<Longrightarrow> ct_diff v x y = 0 \<longleftrightarrow> v = 0 \<and> x = y"
  by (induction v x y rule: ct_diff.induct) (auto simp: or_eq_0 xor_eq_0)

lemma constant_time_compare_cases: "constant_time_compare x y = (if x = y then 1 else 0)"
  by (auto simp: constant_time_compare_def ct_diff_eq_0)

section \<open>SHA-256\<close>

definition sha256_size :: nat where
  "sha256_size = 32"

definition rotr32 :: "nat \<Rightarrow> 32 word \<Rightarrow> 32 word" where
  "rotr32 n x = drop_bit n x OR push_bit (32 - n) x"

text \<open>
  The constants are the first 32 bits of the fractional parts of the cube roots of the first 64
  primes, and of the square roots of the first eight; \<open>root_bits\<close> finds an integer root bit by
  bit from the top.
\<close>

fun root_bits :: "nat \<Rightarrow> nat \<Rightarrow> nat \<Rightarrow> nat \<Rightarrow> nat" where
  "root_bits k n 0 r = r"
| "root_bits k n (Suc b) r = root_bits k n b (if (r + 2 ^ b) ^ k \<le> n then r + 2 ^ b else r)"

definition primes_below :: "nat \<Rightarrow> nat list" where
  "primes_below m = filter (\<lambda>p. list_all (\<lambda>d. p mod d \<noteq> 0) [2..<p]) [2..<m]"

definition root_fraction :: "nat \<Rightarrow> nat \<Rightarrow> 32 word" where
  "root_fraction k p = word_of_nat (root_bits k (p * 2 ^ (32 * k)) 36 0)"

definition sha256_k :: "32 word list" where
  "sha256_k = map (root_fraction 3) (primes_below 312)"

definition sha256_init :: "32 word list" where
  "sha256_init = map (root_fraction 2) (primes_below 20)"

lemma length_primes: "length (primes_below 20) = 8"
  by (simp add: primes_below_def upt_rec)

text \<open>The padding: a one bit, zeros up to 56 modulo 64, the length in bits.\<close>

definition sha256_pad :: "bytes \<Rightarrow> bytes" where
  "sha256_pad m = m @ [0x80] @ replicate ((119 - length m mod 64) mod 64) 0
     @ put_uint64 (word_of_nat (8 * length m))"

fun sha256_schedule :: "nat \<Rightarrow> 32 word list \<Rightarrow> 32 word list" where
  "sha256_schedule 0 ws = ws"
| "sha256_schedule (Suc n) ws =
     (let i = length ws; a = ws ! (i - 15); b = ws ! (i - 2);
          s0 = rotr32 7 a XOR rotr32 18 a XOR drop_bit 3 a;
          s1 = rotr32 17 b XOR rotr32 19 b XOR drop_bit 10 b
      in sha256_schedule n (ws @ [s1 + ws ! (i - 7) + s0 + ws ! (i - 16)]))"

fun sha256_round :: "32 word list \<Rightarrow> 32 word \<times> 32 word \<Rightarrow> 32 word list" where
  "sha256_round [a, b, c, d, e, f, g, h] (k, w) =
     (let t1 = h + (rotr32 6 e XOR rotr32 11 e XOR rotr32 25 e) + ((e AND f) XOR (NOT e AND g)) + k + w;
          t2 = (rotr32 2 a XOR rotr32 13 a XOR rotr32 22 a) + ((a AND b) XOR (a AND c) XOR (b AND c))
      in [t1 + t2, a, b, c, d + t1, e, f, g])"
| "sha256_round st kw = st"

fun block_words :: "bytes \<Rightarrow> 32 word list" where
  "block_words (b0 # b1 # b2 # b3 # bs) = uint32_be [b0, b1, b2, b3] # block_words bs"
| "block_words _ = []"

definition sha256_block :: "32 word list \<Rightarrow> bytes \<Rightarrow> 32 word list" where
  "sha256_block st b = map2 (+) st (foldl sha256_round st (zip sha256_k (sha256_schedule 48 (block_words b))))"

fun sha256_blocks :: "nat \<Rightarrow> 32 word list \<Rightarrow> bytes \<Rightarrow> 32 word list" where
  "sha256_blocks 0 st m = st"
| "sha256_blocks (Suc n) st m = sha256_blocks n (sha256_block st (take 64 m)) (drop 64 m)"

definition sha256 :: "bytes \<Rightarrow> bytes" where
  "sha256 m = (let p = sha256_pad m
     in concat (map put_uint32 (sha256_blocks (length p div 64) sha256_init p)))"

lemma sha256_round_length: "length st = 8 \<Longrightarrow> length (sha256_round st kw) = 8"
  by (cases "(st, kw)" rule: sha256_round.cases) (simp_all add: Let_def)

lemma sha256_rounds_length: "length st = 8 \<Longrightarrow> length (foldl sha256_round st kws) = 8"
  by (induction kws arbitrary: st) (simp_all add: sha256_round_length)

lemma sha256_blocks_length: "length st = 8 \<Longrightarrow> length (sha256_blocks n st m) = 8"
  by (induction n arbitrary: st m) (simp_all add: sha256_block_def sha256_rounds_length)

lemma length_concat_put_uint32: "length (concat (map put_uint32 ws)) = 4 * length ws"
  by (induction ws) simp_all

lemma length_sha256 [simp]: "length (sha256 m) = sha256_size"
  by (simp add: sha256_def Let_def length_concat_put_uint32 sha256_blocks_length sha256_init_def length_primes sha256_size_def)

section \<open>Hexadecimal\<close>

definition from_hex_char :: "char \<Rightarrow> nat option" where
  "from_hex_char c =
     (if in_range 48 57 (code c) then Some (code c - 48)
      else if in_range 97 102 (code c) then Some (code c - 87)
      else if in_range 65 70 (code c) then Some (code c - 55)
      else None)"

fun hex_decode :: "string \<Rightarrow> bytes option" where
  "hex_decode [] = Some []"
| "hex_decode [c] = None"
| "hex_decode (a # b # s) =
     (case (from_hex_char a, from_hex_char b) of
        (Some x, Some y) \<Rightarrow> map_option ((#) (word_of_nat (16 * x + y))) (hex_decode s)
      | _ \<Rightarrow> None)"

definition hex_digit :: "nat \<Rightarrow> char" where
  "hex_digit d = (if d < 10 then char_of (48 + d) else char_of (87 + d))"

definition hex_encode :: "bytes \<Rightarrow> string" where
  "hex_encode bs = concat (map (\<lambda>b. [hex_digit (unat b div 16), hex_digit (unat b mod 16)]) bs)"

lemma from_hex_hex_digit [simp]: "d < 16 \<Longrightarrow> from_hex_char (hex_digit d) = Some d"
  by (simp add: from_hex_char_def hex_digit_def in_range_def)

lemma hex_decode_encode: "hex_decode (hex_encode bs) = Some bs"
proof (induction bs)
  case (Cons b bs)
  have "unat b < 256" using unsigned_less [of b] by simp
  then have "unat b div 16 < 16" by (simp add: div_less_iff_less_mult)
  moreover have "word_of_nat (16 * (unat b div 16) + unat b mod 16) = b"
    by (simp only: mult_div_mod_eq word_of_nat_unat)
  ultimately show ?case using Cons by (simp add: hex_encode_def)
qed (simp add: hex_encode_def)

lemma length_hex_decode: "hex_decode s = Some bs \<Longrightarrow> length s = 2 * length bs"
  by (induction s arbitrary: bs rule: hex_decode.induct) (auto split: option.splits)

section \<open>Base 64\<close>

definition base64_char :: "nat \<Rightarrow> char" where
  "base64_char d =
     (if d < 26 then char_of (65 + d) else if d < 52 then char_of (71 + d)
      else if d < 62 then char_of (d - 4) else if d = 62 then CHR ''+'' else CHR ''/'')"

definition base64_value :: "char \<Rightarrow> nat option" where
  "base64_value c =
     (if in_range 65 90 (code c) then Some (code c - 65)
      else if in_range 97 122 (code c) then Some (code c - 71)
      else if in_range 48 57 (code c) then Some (code c + 4)
      else if c = CHR ''+'' then Some 62 else if c = CHR ''/'' then Some 63 else None)"

text \<open>The four sextets of three bytes and the three bytes of four sextets.\<close>

definition sextet0 :: "byte \<Rightarrow> nat" where "sextet0 a = unat a div 4"
definition sextet1 :: "byte \<Rightarrow> byte \<Rightarrow> nat" where "sextet1 a b = unat a mod 4 * 16 + unat b div 16"
definition sextet2 :: "byte \<Rightarrow> byte \<Rightarrow> nat" where "sextet2 b c = unat b mod 16 * 4 + unat c div 64"
definition sextet3 :: "byte \<Rightarrow> nat" where "sextet3 c = unat c mod 64"

definition octet0 :: "nat \<Rightarrow> nat \<Rightarrow> byte" where "octet0 w x = word_of_nat (w * 4 + x div 16)"
definition octet1 :: "nat \<Rightarrow> nat \<Rightarrow> byte" where "octet1 x y = word_of_nat (x mod 16 * 16 + y div 4)"
definition octet2 :: "nat \<Rightarrow> nat \<Rightarrow> byte" where "octet2 y z = word_of_nat (y mod 4 * 64 + z)"

fun base64_encode :: "bytes \<Rightarrow> string" where
  "base64_encode [] = []"
| "base64_encode [a] = [base64_char (sextet0 a), base64_char (sextet1 a 0), CHR ''='', CHR ''='']"
| "base64_encode [a, b] =
     [base64_char (sextet0 a), base64_char (sextet1 a b), base64_char (sextet2 b 0), CHR ''='']"
| "base64_encode (a # b # c # bs) =
     [base64_char (sextet0 a), base64_char (sextet1 a b), base64_char (sextet2 b c), base64_char (sextet3 c)]
       @ base64_encode bs"

text \<open>
  The decoder skips carriage returns and newlines, requires the padding of the last quantum
  and ignores the unused low bits before it.
\<close>

fun base64_quanta :: "string \<Rightarrow> bytes option" where
  "base64_quanta [] = Some []"
| "base64_quanta (a # b # c # d # s) =
     (case (base64_value a, base64_value b) of
        (Some w, Some x) \<Rightarrow>
          (if c = CHR ''='' then (if d = CHR ''='' \<and> s = [] then Some [octet0 w x] else None)
           else case base64_value c of
             None \<Rightarrow> None
           | Some y \<Rightarrow>
               if d = CHR ''='' then (if s = [] then Some [octet0 w x, octet1 x y] else None)
               else (case base64_value d of
                  None \<Rightarrow> None
                | Some z \<Rightarrow>
                    map_option (\<lambda>bs. octet0 w x # octet1 x y # octet2 y z # bs) (base64_quanta s)))
      | _ \<Rightarrow> None)"
| "base64_quanta _ = None"

definition base64_decode :: "string \<Rightarrow> bytes option" where
  "base64_decode s = base64_quanta (filter (\<lambda>c. c \<noteq> CHR 0x0A \<and> c \<noteq> CHR 0x0D) s)"

lemma base64_value_char [simp]: "d < 64 \<Longrightarrow> base64_value (base64_char d) = Some d"
  by (auto simp: base64_value_def base64_char_def in_range_def)

lemma base64_char_plain [simp]:
  assumes "d < 64"
  shows "base64_char d \<noteq> CHR ''=''" "base64_char d \<noteq> CHR 0x0A" "base64_char d \<noteq> CHR 0x0D"
proof -
  have "base64_value CHR ''='' = None" "base64_value CHR 0x0A = None" "base64_value CHR 0x0D = None"
    by (simp_all add: base64_value_def in_range_def)
  with base64_value_char [OF assms]
  show "base64_char d \<noteq> CHR ''=''" "base64_char d \<noteq> CHR 0x0A" "base64_char d \<noteq> CHR 0x0D"
    by (metis option.distinct(1))+
qed

lemma byte_bound: "unat (b :: byte) < 256"
  using unsigned_less [of b] by simp

lemma sextet_bounds [simp]: "sextet0 a < 64" "sextet1 a b < 64" "sextet2 b c < 64" "sextet3 c < 64"
proof -
  have "unat a div 4 < 64" "unat b div 16 < 16" "unat c div 64 < 4"
    using byte_bound [of a] byte_bound [of b] byte_bound [of c] by (simp_all add: div_less_iff_less_mult)
  moreover have "unat a mod 4 < 4" "unat b mod 16 < 16" "unat c mod 64 < 64" by simp_all
  ultimately show "sextet0 a < 64" "sextet1 a b < 64" "sextet2 b c < 64" "sextet3 c < 64"
    unfolding sextet0_def sextet1_def sextet2_def sextet3_def by linarith+
qed

lemma octets_of_sextets [simp]:
  "octet0 (sextet0 a) (sextet1 a b) = a" "octet1 (sextet1 a b) (sextet2 b c) = b"
  "octet2 (sextet2 b c) (sextet3 c) = c"
proof -
  have b: "unat b div 16 < 16" and c: "unat c div 64 < 4"
    using byte_bound [of b] byte_bound [of c] by (simp_all add: div_less_iff_less_mult)
  have "sextet0 a * 4 + sextet1 a b div 16 = unat a" unfolding sextet0_def sextet1_def using b by simp
  then show "octet0 (sextet0 a) (sextet1 a b) = a" by (simp only: octet0_def word_of_nat_unat)
  have "sextet1 a b mod 16 * 16 + sextet2 b c div 4 = unat b" unfolding sextet1_def sextet2_def using b c by simp
  then show "octet1 (sextet1 a b) (sextet2 b c) = b" by (simp only: octet1_def word_of_nat_unat)
  have "sextet2 b c mod 4 * 64 + sextet3 c = unat c" unfolding sextet2_def sextet3_def using c by simp
  then show "octet2 (sextet2 b c) (sextet3 c) = c" by (simp only: octet2_def word_of_nat_unat)
qed

lemma base64_encode_plain: "c \<in> set (base64_encode bs) \<Longrightarrow> c \<noteq> CHR 0x0A \<and> c \<noteq> CHR 0x0D"
  by (induction bs rule: base64_encode.induct) auto

lemma base64_quanta_encode: "base64_quanta (base64_encode bs) = Some bs"
  by (induction bs rule: base64_encode.induct) simp_all

lemma base64_decode_encode: "base64_decode (base64_encode bs) = Some bs"
proof -
  have "filter (\<lambda>c. c \<noteq> CHR 0x0A \<and> c \<noteq> CHR 0x0D) (base64_encode bs) = base64_encode bs"
    using base64_encode_plain by (simp add: filter_id_conv)
  then show ?thesis by (simp only: base64_decode_def base64_quanta_encode)
qed

lemma length_base64_encode: "length (base64_encode bs) = 4 * ((length bs + 2) div 3)"
proof (induction bs rule: base64_encode.induct)
  case (4 a b c bs)
  have "(length bs + 5) div 3 = (length bs + 2) div 3 + 1" by simp
  with 4 show ?case by (simp add: add.commute)
qed simp_all

end
