(* ===== verification/Config_Token.thy ===== *)
theory Config_Token
  imports Go_Crypto
begin

text \<open>
  \<open>internal/config/token.go\<close>: the shared secret, its length limits and comparisons, and the
  set of tokens the remote accepts. The reading of the files is split at the system calls:
  what \<open>os.Stat\<close>, \<open>privatepath.Validate\<close> and \<open>os.ReadFile\<close> report is an argument.
\<close>

definition min_token_bytes :: nat where
  "min_token_bytes = 32"

definition max_token_bytes :: nat where
  "max_token_bytes = 4094"

definition max_server_tokens :: nat where
  "max_server_tokens = 2"

record token =
  secret :: bytes

definition zero_token :: token where
  "zero_token = \<lparr>secret = []\<rparr>"

definition token_is_zero :: "token \<Rightarrow> bool" where
  "token_is_zero t = (length (secret t) = 0)"

definition token_len :: "token \<Rightarrow> nat" where
  "token_len t = length (secret t)"

definition redacted_token :: string where
  "redacted_token = ''[redacted]''"

text \<open>\<open>String\<close>, \<open>GoString\<close>, \<open>Format\<close> and \<open>LogValue\<close> never read the secret.\<close>

definition token_string :: "token \<Rightarrow> string" where
  "token_string t = redacted_token"

definition token_format :: "token \<Rightarrow> char \<Rightarrow> string" where
  "token_format t verb = (if verb = CHR ''q'' then [CHR 0x22] @ redacted_token @ [CHR 0x22] else redacted_token)"

definition token_equal :: "token \<Rightarrow> token \<Rightarrow> bool" where
  "token_equal t u = (if token_is_zero t \<or> token_is_zero u then False
     else constant_time_compare (secret t) (secret u) = 1)"

definition token_equal_bytes :: "token \<Rightarrow> bytes \<Rightarrow> bool" where
  "token_equal_bytes t candidate = (if token_is_zero t \<or> length candidate = 0 then False
     else constant_time_compare (secret t) candidate = 1)"

datatype token_error = TokenTooShort nat | TokenTooLong nat

definition new_token :: "bytes \<Rightarrow> (token_error, token) result" where
  "new_token value =
     (if length value < min_token_bytes then err (TokenTooShort (length value))
      else if max_token_bytes < length value then err (TokenTooLong (length value))
      else ok \<lparr>secret = value\<rparr>)"

section \<open>The accepted set\<close>

record token_set =
  digests :: "bytes list"

definition zero_token_set :: token_set where
  "zero_token_set = \<lparr>digests = []\<rparr>"

datatype token_set_error = TokenSetEmpty | TokenSetTooBig nat | TokenEntryEmpty nat

fun new_token_set_loop :: "nat \<Rightarrow> bytes list \<Rightarrow> token list \<Rightarrow> (token_set_error, token_set) result" where
  "new_token_set_loop i ds [] = ok \<lparr>digests = ds\<rparr>"
| "new_token_set_loop i ds (t # ts) =
     (if token_is_zero t then err (TokenEntryEmpty (i + 1))
      else new_token_set_loop (i + 1) (ds @ [sha256 (secret t)]) ts)"

definition new_token_set :: "token list \<Rightarrow> (token_set_error, token_set) result" where
  "new_token_set ts =
     (if length ts = 0 then err TokenSetEmpty
      else if max_server_tokens < length ts then err (TokenSetTooBig (length ts))
      else new_token_set_loop 0 [] ts)"

definition token_set_contains :: "token_set \<Rightarrow> token \<Rightarrow> bool" where
  "token_set_contains s candidate =
     (if token_is_zero candidate \<or> length (digests s) = 0 then False
      else let d = sha256 (secret candidate)
           in foldl (\<lambda>matched digest. or matched (constant_time_compare digest d)) 0 (digests s) = (1 :: nat))"

section \<open>Token files\<close>

record 'e file_info =
  is_dir :: bool
  permission :: "'e option"
  file_size :: nat
  file_data :: "'e + bytes"

datatype 'e token_file_error =
    NotConfigured
  | StatFailed 'e
  | IsDirectory
  | BadPermission 'e
  | FileTooLarge
  | ReadFailed 'e
  | BadToken token_error
  | BadTokenAtLine nat token_error
  | BadTokenSet token_set_error

definition open_token_file :: "string \<Rightarrow> 'e + 'e file_info \<Rightarrow> nat \<Rightarrow> ('e token_file_error, bytes) result" where
  "open_token_file path stat limit =
     (if path = [] then err NotConfigured
      else case stat of
        Inl e \<Rightarrow> err (StatFailed e)
      | Inr info \<Rightarrow>
          if is_dir info then err IsDirectory
          else case permission info of
            Some e \<Rightarrow> err (BadPermission e)
          | None \<Rightarrow>
              if limit < file_size info then err FileTooLarge
              else (case file_data info of Inl e \<Rightarrow> err (ReadFailed e) | Inr raw \<Rightarrow> ok raw))"

definition read_token :: "string \<Rightarrow> 'e + 'e file_info \<Rightarrow> ('e token_file_error, token) result" where
  "read_token path stat =
     bind_result (open_token_file path stat max_token_bytes)
       (\<lambda>raw. map_err BadToken (new_token (bytes_of_string (trim_space (string_of_bytes raw)))))"

fun token_lines :: "nat \<Rightarrow> token list \<Rightarrow> string list \<Rightarrow> ('e token_file_error, token list) result" where
  "token_lines n ts [] = ok ts"
| "token_lines n ts (l # ls) =
     (let value = trim_space l in
      if value = [] then token_lines (n + 1) ts ls
      else bind_result (map_err (BadTokenAtLine (n + 1)) (new_token (bytes_of_string value)))
             (\<lambda>t. token_lines (n + 1) (ts @ [t]) ls))"

definition read_token_set :: "string \<Rightarrow> 'e + 'e file_info \<Rightarrow> ('e token_file_error, token_set) result" where
  "read_token_set path stat =
     bind_result (open_token_file path stat (max_server_tokens * (max_token_bytes + 1)))
       (\<lambda>raw. bind_result (token_lines 0 [] (split_on CHR 0x0A (trim_space (string_of_bytes raw))))
         (\<lambda>ts. map_err BadTokenSet (new_token_set ts)))"

section \<open>What the set accepts\<close>

definition valid_token :: "token \<Rightarrow> bool" where
  "valid_token t = (min_token_bytes \<le> token_len t \<and> token_len t \<le> max_token_bytes)"

lemma new_token_ok: "new_token v = ok t \<longleftrightarrow> t = \<lparr>secret = v\<rparr> \<and> valid_token t"
  by (auto simp: new_token_def valid_token_def token_len_def)

lemma new_token_no_panic [no_panic_intros]: "no_panic (new_token v)"
  by (simp add: new_token_def)

lemma valid_token_not_zero: "valid_token t \<Longrightarrow> \<not> token_is_zero t"
  by (auto simp: valid_token_def token_is_zero_def token_len_def min_token_bytes_def)

lemma new_token_secret: "valid_token t \<Longrightarrow> new_token (secret t) = ok t"
  by (simp add: new_token_ok)

lemma token_equal_iff: "token_equal t u \<longleftrightarrow> \<not> token_is_zero t \<and> t = u"
  by (cases t; cases u) (auto simp: token_equal_def constant_time_compare_cases token_is_zero_def)

lemma new_token_set_loop_ok:
  "new_token_set_loop i ds ts = ok s \<longleftrightarrow>
     (\<forall>t \<in> set ts. \<not> token_is_zero t) \<and> digests s = ds @ map (\<lambda>t. sha256 (secret t)) ts"
  by (induction i ds ts rule: new_token_set_loop.induct) (auto simp: token_set.splits)

lemma new_token_set_ok:
  "new_token_set ts = ok s \<longleftrightarrow>
     ts \<noteq> [] \<and> length ts \<le> max_server_tokens \<and> (\<forall>t \<in> set ts. \<not> token_is_zero t)
       \<and> digests s = map (\<lambda>t. sha256 (secret t)) ts"
  by (auto simp: new_token_set_def new_token_set_loop_ok)

lemma or_bits: "(m :: nat) \<le> 1 \<Longrightarrow> b \<le> 1 \<Longrightarrow> or m b \<le> 1 \<and> (or m b = 1 \<longleftrightarrow> m = 1 \<or> b = 1)"
  by (cases m; cases b) auto

lemma contains_loop:
  "m \<le> (1 :: nat) \<Longrightarrow>
     foldl (\<lambda>matched digest. or matched (constant_time_compare digest d)) m ds = 1 \<longleftrightarrow> m = 1 \<or> d \<in> set ds"
proof (induction ds arbitrary: m)
  case (Cons x ds)
  have "constant_time_compare x d \<le> 1" by (simp add: constant_time_compare_cases)
  from or_bits [OF Cons.prems this] Cons.IH show ?case
    by (auto simp: constant_time_compare_cases)
qed simp

lemma token_set_contains_iff:
  "token_set_contains s t \<longleftrightarrow> \<not> token_is_zero t \<and> sha256 (secret t) \<in> set (digests s)"
  using contains_loop [of 0 "sha256 (secret t)" "digests s"]
  by (auto simp: token_set_contains_def Let_def)

lemma token_set_contains_member:
  "new_token_set ts = ok s \<Longrightarrow> t \<in> set ts \<Longrightarrow> token_set_contains s t"
  by (auto simp: token_set_contains_iff new_token_set_ok)

text \<open>A candidate that is accepted is one of the tokens or collides with one of them.\<close>

lemma token_set_contains_sound:
  assumes "new_token_set ts = ok s" and "token_set_contains s t"
  shows "\<exists>u \<in> set ts. sha256 (secret t) = sha256 (secret u)"
  using assms by (auto simp: token_set_contains_iff new_token_set_ok)

lemma token_lines_valid:
  "token_lines n ts ls = ok us \<Longrightarrow> list_all valid_token ts \<Longrightarrow> list_all valid_token us"
  by (induction n ts ls rule: token_lines.induct)
    (auto simp: Let_def bind_result_eq_ok new_token_ok split: if_splits)

lemma read_token_set_size:
  "read_token_set path stat = ok s \<Longrightarrow> 1 \<le> length (digests s) \<and> length (digests s) \<le> max_server_tokens"
  by (auto simp: read_token_set_def bind_result_eq_ok new_token_set_ok Suc_le_eq)

section \<open>Properties\<close>

text \<open>
  A set accepts exactly the tokens whose digest is that of one of its members; every member is
  accepted and the zero token never, although the comparison runs over all digests in constant time.
\<close>

theorem token_set_accepts_exactly_its_members:
  assumes "new_token_set ts = ok s"
  shows "token_set_contains s t \<longleftrightarrow> \<not> token_is_zero t \<and> (\<exists>u \<in> set ts. sha256 (secret t) = sha256 (secret u))"
  using assms by (auto simp: token_set_contains_iff new_token_set_ok)

theorem token_set_accepts_exactly_its_members_witness:
  "\<exists>s. new_token_set [\<lparr>secret = [1, 2, 3]\<rparr>, \<lparr>secret = [4]\<rparr>] = ok s \<and> token_set_contains s \<lparr>secret = [4]\<rparr>
     \<and> \<not> token_set_contains s \<lparr>secret = []\<rparr>"
proof -
  obtain s where s: "new_token_set [\<lparr>secret = [1, 2, 3]\<rparr>, \<lparr>secret = [4]\<rparr>] = ok s"
    by (fastforce simp: new_token_set_ok token_is_zero_def max_server_tokens_def intro: token_set.select_convs)
  from token_set_accepts_exactly_its_members [OF s] s show ?thesis by (auto simp: token_is_zero_def)
qed

end
