(* ===== verification/Protocol_Messages.thy ===== *)
theory Protocol_Messages
  imports Policy_Destination Config_Token Go_Io
begin

text \<open>
  \<open>internal/protocol/protocol.go\<close> and \<open>internal/protocol/messages.go\<close>: the version, the
  message types, the five control messages with their validation, the error codes and the
  mapping of policy refusals to codes.
\<close>

type_synonym version = "8 word"

definition version1 :: version where
  "version1 = 1"

definition version_supported :: "version \<Rightarrow> bool" where
  "version_supported v = (v = version1)"

type_synonym message_type = "8 word"

definition message_hello :: message_type where "message_hello = 1"
definition message_hello_ok :: message_type where "message_hello_ok = 2"
definition message_open :: message_type where "message_open = 3"
definition message_open_ok :: message_type where "message_open_ok = 4"
definition message_open_error :: message_type where "message_open_error = 5"

lemmas message_type_defs = message_hello_def message_hello_ok_def message_open_def
  message_open_ok_def message_open_error_def

definition message_type_valid :: "message_type \<Rightarrow> bool" where
  "message_type_valid t =
     (t = message_hello \<or> t = message_hello_ok \<or> t = message_open \<or> t = message_open_ok
       \<or> t = message_open_error)"

definition message_type_string :: "message_type \<Rightarrow> string" where
  "message_type_string t =
     (if t = message_hello then ''HELLO'' else if t = message_hello_ok then ''HELLO_OK''
      else if t = message_open then ''OPEN'' else if t = message_open_ok then ''OPEN_OK''
      else if t = message_open_error then ''OPEN_ERROR''
      else ''MessageType('' @ itoa (unat t) @ '')'')"

section \<open>Error codes\<close>

type_synonym error_code = "16 word"

definition error_unauthenticated :: error_code where "error_unauthenticated = 1"
definition error_forbidden_destination :: error_code where "error_forbidden_destination = 2"
definition error_resolution_failed :: error_code where "error_resolution_failed = 3"
definition error_address_rejected :: error_code where "error_address_rejected = 4"
definition error_dial_failed :: error_code where "error_dial_failed = 5"
definition error_limit_exceeded :: error_code where "error_limit_exceeded = 6"
definition error_malformed :: error_code where "error_malformed = 7"
definition error_unsupported_version :: error_code where "error_unsupported_version = 8"
definition error_internal :: error_code where "error_internal = 9"

lemmas error_code_defs = error_unauthenticated_def error_forbidden_destination_def
  error_resolution_failed_def error_address_rejected_def error_dial_failed_def
  error_limit_exceeded_def error_malformed_def error_unsupported_version_def error_internal_def

definition error_code_valid :: "error_code \<Rightarrow> bool" where
  "error_code_valid c =
     (c = error_unauthenticated \<or> c = error_forbidden_destination \<or> c = error_resolution_failed
       \<or> c = error_address_rejected \<or> c = error_dial_failed \<or> c = error_limit_exceeded
       \<or> c = error_malformed \<or> c = error_unsupported_version \<or> c = error_internal)"

definition error_code_string :: "error_code \<Rightarrow> string" where
  "error_code_string c =
     (if c = error_unauthenticated then ''unauthenticated''
      else if c = error_forbidden_destination then ''forbidden-destination''
      else if c = error_resolution_failed then ''resolution-failed''
      else if c = error_address_rejected then ''address-rejected''
      else if c = error_dial_failed then ''dial-failed''
      else if c = error_limit_exceeded then ''limit-exceeded''
      else if c = error_malformed then ''malformed''
      else if c = error_unsupported_version then ''unsupported-version''
      else if c = error_internal then ''internal''
      else ''ErrorCode('' @ itoa (unat c) @ '')'')"

fun error_code_for :: "deny_reason \<Rightarrow> error_code" where
  "error_code_for DenyResolutionFailed = error_resolution_failed"
| "error_code_for DenyNonPublicAddress = error_address_rejected"
| "error_code_for DenyMalformedAuthority = error_forbidden_destination"
| "error_code_for DenyIPLiteral = error_forbidden_destination"
| "error_code_for DenyPortNotAllowed = error_forbidden_destination"
| "error_code_for DenyNotAllowlisted = error_forbidden_destination"
| "error_code_for _ = error_internal"

section \<open>Messages\<close>

datatype message =
    Hello version token
  | HelloOK version
  | Open destination
  | OpenOK
  | OpenError error_code

fun type_of :: "message \<Rightarrow> message_type" where
  "type_of (Hello _ _) = message_hello"
| "type_of (HelloOK _) = message_hello_ok"
| "type_of (Open _) = message_open"
| "type_of OpenOK = message_open_ok"
| "type_of (OpenError _) = message_open_error"

text \<open>The reasons the package wraps in \<open>ErrMalformedMessage\<close>, and its other errors.\<close>

datatype malformed_reason =
    HelloNoToken
  | HelloShortToken
  | OpenNoDestination
  | OpenBadPort
  | UnknownErrorCode error_code
  | NoMessage
  | NilMessagePointer message_type
  | OpenHostTooLong
  | TruncatedPrefix
  | EmptyMessage
  | TruncatedBody
  | BadFields message_type

datatype proto_error =
    Malformed malformed_reason
  | UnsupportedVersion version
  | MessageTooLarge nat int
  | UnknownMessageType message_type
  | CleanEOF

fun validate_message :: "message \<Rightarrow> (proto_error, unit) result" where
  "validate_message (Hello v t) =
     (if \<not> version_supported v then err (UnsupportedVersion v)
      else if token_is_zero t then err (Malformed HelloNoToken)
      else if token_len t < min_token_bytes then err (Malformed HelloShortToken)
      else ok ())"
| "validate_message (HelloOK v) =
     (if \<not> version_supported v then err (UnsupportedVersion v) else ok ())"
| "validate_message (Open d) =
     (if dest_is_zero d then err (Malformed OpenNoDestination)
      else if dest_port d \<noteq> allowed_port then err (Malformed OpenBadPort)
      else ok ())"
| "validate_message OpenOK = ok ()"
| "validate_message (OpenError c) =
     (if \<not> error_code_valid c then err (Malformed (UnknownErrorCode c)) else ok ())"

text \<open>\<open>Hello.String\<close>: the token is formatted, hence redacted.\<close>

definition hello_string :: "version \<Rightarrow> token \<Rightarrow> string" where
  "hello_string v t = ''HELLO{version:dproxy/'' @ itoa (unat v) @ '', token:'' @ token_format t CHR ''s'' @ ''}''"

section \<open>Lemmas\<close>

text \<open>What a message satisfies that both sides of a session build.\<close>

fun valid_message :: "message \<Rightarrow> bool" where
  "valid_message (Hello v t) = (v = version1 \<and> valid_token t)"
| "valid_message (HelloOK v) = (v = version1)"
| "valid_message (Open d) = valid_destination d"
| "valid_message OpenOK = True"
| "valid_message (OpenError c) = error_code_valid c"

lemma valid_message_validates: "valid_message m \<Longrightarrow> validate_message m = ok ()"
  by (cases m) (auto simp: version_supported_def valid_token_not_zero valid_token_def token_len_def
      valid_destination_def dest_is_zero_def canonical_host_not_Nil)

lemma validate_message_no_panic [no_panic_intros]: "no_panic (validate_message m)"
  by (cases m) simp_all

lemma error_code_for_valid: "error_code_valid (error_code_for r)"
  by (cases r) (simp_all add: error_code_valid_def)

text \<open>A refusal never travels as a success or as an authentication failure.\<close>

lemma error_code_for_range:
  "error_code_for r \<in> {error_forbidden_destination, error_resolution_failed, error_address_rejected, error_internal}"
  by (cases r) simp_all

lemma type_of_valid: "message_type_valid (type_of m)"
  by (cases m) (simp_all add: message_type_valid_def)

lemma hello_string_hides: "hello_string v t = hello_string v u"
  by (simp add: hello_string_def token_format_def)

end
