(* ===== verification/Protocol_Codec.thy ===== *)
theory Protocol_Codec
  imports Protocol_Messages
begin

text \<open>
  \<open>internal/protocol/codec.go\<close>: the encoder and decoder of control frames. The writer and
  the reader are those of \<open>Go_Io\<close>; an absent one is \<open>None\<close>.
\<close>

definition frame_prefix_bytes :: nat where
  "frame_prefix_bytes = 4"

text \<open>What may be passed as a \<open>Message\<close>: a struct, a pointer to one, or a nil of either kind.\<close>

datatype go_message = NilInterface | NilPointer message_type | Pointer message | Struct message

fun marshal_message :: "message \<Rightarrow> (proto_error, bytes) result" where
  "marshal_message (Hello v t) = ok ([message_hello, v] @ secret t)"
| "marshal_message (HelloOK v) = ok [message_hello_ok, v]"
| "marshal_message (Open d) =
     (let host = dest_host d in
      if 65535 < length host then err (Malformed OpenHostTooLong)
      else ok ([message_open] @ put_uint16 (word_of_nat (length host)) @ bytes_of_string host
             @ put_uint16 (dest_port d)))"
| "marshal_message OpenOK = ok [message_open_ok]"
| "marshal_message (OpenError c) = ok ([message_open_error] @ put_uint16 c)"

datatype 'e encode_error =
    NoWriter
  | Refused proto_error
  | WriteLength "'e io_error"
  | WriteBody "'e io_error"

definition encode_message ::
  "('s, 'e) writer option \<Rightarrow> int \<Rightarrow> 's \<Rightarrow> message \<Rightarrow> ('e encode_error, unit) result \<times> 's" where
  "encode_message w max_bytes s m =
     (case w of None \<Rightarrow> (err NoWriter, s)
      | Some write \<Rightarrow>
        (case map_err Refused (validate_message m) of Inl e \<Rightarrow> (Inl e, s)
         | Inr _ \<Rightarrow>
           (case map_err Refused (marshal_message m) of Inl e \<Rightarrow> (Inl e, s)
            | Inr body \<Rightarrow>
              if max_bytes \<le> 0 \<or> max_bytes < int (length body)
              then (err (Refused (MessageTooLarge (length body) max_bytes)), s)
              else (case write_all write s (put_uint32 (word_of_nat (length body))) of
                  (Inl e, s1) \<Rightarrow> (map_err WriteLength (Inl e), s1)
                | (Inr _, s1) \<Rightarrow>
                    (case write_all write s1 body of (r, s2) \<Rightarrow> (map_err WriteBody r, s2))))))"

definition encode :: "('s, 'e) writer option \<Rightarrow> int \<Rightarrow> 's \<Rightarrow> go_message \<Rightarrow> ('e encode_error, unit) result \<times> 's" where
  "encode w max_bytes s gm =
     (case gm of
        NilInterface \<Rightarrow> (err (if w = None then NoWriter else Refused (Malformed NoMessage)), s)
      | NilPointer t \<Rightarrow> (err (if w = None then NoWriter else Refused (Malformed (NilMessagePointer t))), s)
      | Pointer m \<Rightarrow> encode_message w max_bytes s m
      | Struct m \<Rightarrow> encode_message w max_bytes s m)"

definition malformed :: "message_type \<Rightarrow> (proto_error, 'a) result" where
  "malformed t = err (Malformed (BadFields t))"

text \<open>The branches of the type switch; each builds the message \<open>Validate\<close> then checks.\<close>

definition unmarshal_hello :: "bytes \<Rightarrow> (proto_error, message) result" where
  "unmarshal_hello body =
     (if length body < 2 then malformed message_hello
      else bind_result (index_at body 1) (\<lambda>v.
        if \<not> version_supported v then err (UnsupportedVersion v)
        else bind_result (slice body 2 (length body)) (\<lambda>value.
          case new_token value of
            Inl Panic \<Rightarrow> panic
          | Inl (Err _) \<Rightarrow> malformed message_hello
          | Inr t \<Rightarrow> ok (Hello v t))))"

definition unmarshal_open :: "bytes \<Rightarrow> (proto_error, message) result" where
  "unmarshal_open body =
     (if length body < 5 then malformed message_open
      else bind_result (read_uint16 body 1) (\<lambda>len.
        let host_length = unat len in
        if host_length = 0 \<or> length body \<noteq> 1 + 2 + host_length + 2 then malformed message_open
        else bind_result (read_uint16 body (length body - 2)) (\<lambda>port.
          bind_result (slice body 3 (3 + host_length)) (\<lambda>host.
            case new_destination (string_of_bytes host) port of
              Inl Panic \<Rightarrow> panic
            | Inl (Err _) \<Rightarrow> malformed message_open
            | Inr d \<Rightarrow> ok (Open d)))))"

definition unmarshal_fields :: "message_type \<Rightarrow> bytes \<Rightarrow> (proto_error, message) result" where
  "unmarshal_fields t body =
     (if t = message_hello then unmarshal_hello body
      else if t = message_hello_ok then
        (if length body \<noteq> 2 then malformed t else bind_result (index_at body 1) (\<lambda>v. ok (HelloOK v)))
      else if t = message_open then unmarshal_open body
      else if t = message_open_ok then (if length body \<noteq> 1 then malformed t else ok OpenOK)
      else (if length body \<noteq> 3 then malformed t
            else bind_result (read_uint16 body 1) (\<lambda>c. ok (OpenError c))))"

definition unmarshal_message :: "bytes \<Rightarrow> (proto_error, message) result" where
  "unmarshal_message body =
     bind_result (index_at body 0) (\<lambda>t.
       if \<not> message_type_valid t then err (UnknownMessageType t)
       else bind_result (unmarshal_fields t body) (\<lambda>m.
         bind_result (validate_message m) (\<lambda>_. ok m)))"

text \<open>\<open>Decode\<close>; the \<open>None\<close> reader is the nil one.\<close>

definition decode :: "int \<Rightarrow> 'e stream \<Rightarrow> (proto_error, message) result \<times> 'e stream" where
  "decode max_bytes s =
     (case read_full s frame_prefix_bytes of
        (got, Some e, s1) \<Rightarrow>
          (if length got = 0 \<and> e = EOF then (err CleanEOF, s1) else (err (Malformed TruncatedPrefix), s1))
      | (prefix, None, s1) \<Rightarrow>
          let len = unat (uint32_be prefix) in
          if len = 0 then (err (Malformed EmptyMessage), s1)
          else if max_bytes \<le> 0 \<or> max_bytes < int len then (err (MessageTooLarge len max_bytes), s1)
          else (case read_full s1 len of
              (_, Some _, s2) \<Rightarrow> (err (Malformed TruncatedBody), s2)
            | (body, None, s2) \<Rightarrow> (unmarshal_message body, s2)))"

section \<open>The frame of a message\<close>

text \<open>The abstract wire format: what the encoder has to write and the decoder to accept.\<close>

fun body_of :: "message \<Rightarrow> bytes" where
  "body_of (Hello v t) = message_hello # v # secret t"
| "body_of (HelloOK v) = [message_hello_ok, v]"
| "body_of (Open d) = message_open # put_uint16 (word_of_nat (length (dest_host d)))
     @ bytes_of_string (dest_host d) @ put_uint16 (dest_port d)"
| "body_of OpenOK = [message_open_ok]"
| "body_of (OpenError c) = message_open_error # put_uint16 c"

definition frame :: "message \<Rightarrow> bytes" where
  "frame m = put_uint32 (word_of_nat (length (body_of m))) @ body_of m"

lemma valid_destination_length: "valid_destination d \<Longrightarrow> length (dest_host d) \<le> 253 \<and> dest_host d \<noteq> []"
  by (simp add: valid_destination_def canonical_host_def max_hostname_length_def)
    (auto simp: valid_label_def)

lemma marshal_valid: "valid_message m \<Longrightarrow> marshal_message m = ok (body_of m)"
  by (cases m) (auto simp: Let_def dest!: valid_destination_length)

lemma length_body_of: "valid_message m \<Longrightarrow> length (body_of m) \<le> 4096 \<and> 0 < length (body_of m)"
  by (cases m) (auto simp: valid_token_def token_len_def max_token_bytes_def put_uint16_def
      dest!: valid_destination_length)

section \<open>Decoding a body\<close>

lemma malformed_simps [simp]: "no_panic (malformed t)" "malformed t \<noteq> ok m"
  by (simp_all add: malformed_def)

lemma unmarshal_hello_no_panic [no_panic_intros]: "no_panic (unmarshal_hello body)"
  unfolding unmarshal_hello_def by (intro no_panic_intros) simp_all

lemma unmarshal_open_no_panic [no_panic_intros]: "no_panic (unmarshal_open body)"
  unfolding unmarshal_open_def by (intro no_panic_intros) simp_all

lemma unmarshal_message_no_panic [no_panic_intros]:
  assumes "body \<noteq> []"
  shows "no_panic (unmarshal_message body)"
  unfolding unmarshal_message_def unmarshal_fields_def
  using assms by (intro no_panic_intros) simp_all

lemma decode_no_panic: "no_panic (fst (decode max_bytes s))"
proof -
  have "no_panic (unmarshal_message body)" if "read_full s1 n = (body, None, s2)" "n \<noteq> 0" for n body s1 s2
    using read_full_cases(1) [OF that(1)] that(2) by (auto intro!: no_panic_intros)
  then show ?thesis
    by (auto simp: decode_def Let_def split: prod.splits option.splits)
qed

text \<open>Whatever comes out of the decoder is a valid message: hostile input included.\<close>

lemma unmarshal_hello_ok: "unmarshal_hello body = ok m \<Longrightarrow> \<exists>v t. m = Hello v t \<and> valid_token t"
  by (auto simp: unmarshal_hello_def bind_result_eq_ok new_token_ok split: if_splits sum.splits failure.splits)

lemma open_case_ok:
  "(case new_destination h p of Inl Panic \<Rightarrow> panic | Inl (Err _) \<Rightarrow> malformed t | Inr d \<Rightarrow> ok (Open d)) = ok m \<Longrightarrow>
     \<exists>d. m = Open d \<and> valid_destination d"
  by (auto split: sum.splits failure.splits dest: new_destination_valid)

lemma unmarshal_open_ok:
  assumes "unmarshal_open body = ok m"
  shows "\<exists>d. m = Open d \<and> valid_destination d"
proof -
  from assms obtain host port where
    "(case new_destination (string_of_bytes host) port of
        Inl Panic \<Rightarrow> panic | Inl (Err _) \<Rightarrow> malformed message_open | Inr d \<Rightarrow> ok (Open d)) = ok m"
    unfolding unmarshal_open_def Let_def by (simp only: bind_result_eq_ok malformed_simps split: if_splits) blast
  then show ?thesis by (rule open_case_ok)
qed

lemma unmarshal_message_valid:
  assumes "unmarshal_message body = ok m"
  shows "valid_message m"
proof -
  from assms obtain t where f: "unmarshal_fields t body = ok m" and v: "validate_message m = ok ()"
    by (auto simp: unmarshal_message_def bind_result_eq_ok split: if_splits)
  from f have "(\<exists>v t. m = Hello v t \<and> valid_token t) \<or> (\<exists>v. m = HelloOK v)
      \<or> (\<exists>d. m = Open d \<and> valid_destination d) \<or> m = OpenOK \<or> (\<exists>c. m = OpenError c)"
    unfolding unmarshal_fields_def
    by (auto simp: bind_result_eq_ok split: if_splits dest: unmarshal_hello_ok unmarshal_open_ok)
  with v show ?thesis by (auto simp: version_supported_def split: if_splits)
qed

lemma decode_valid: "decode max_bytes s = (ok m, s') \<Longrightarrow> valid_message m"
  by (auto simp: decode_def Let_def split: prod.splits option.splits if_splits dest: unmarshal_message_valid)

lemma body_parts:
  assumes b: "b = t # put_uint16 (word_of_nat (length host)) @ bytes_of_string host @ put_uint16 p"
  shows "length b = 1 + 2 + length host + 2"
    and "read_uint16 b 1 = ok (word_of_nat (length host))"
    and "read_uint16 b (1 + length host + 2) = ok p"
    and "slice b 3 (3 + length host) = ok (bytes_of_string host)"
proof -
  show len: "length b = 1 + 2 + length host + 2" by (simp add: b)
  have "take 2 (drop 1 b) = put_uint16 (word_of_nat (length host))" by (simp add: b)
  then show "read_uint16 b 1 = ok (word_of_nat (length host))" using len by simp
  have "drop (1 + length host + 2) b = put_uint16 p" by (simp add: b)
  then show "read_uint16 b (1 + length host + 2) = ok p" using len by simp
  have "drop 3 b = bytes_of_string host @ put_uint16 p" by (simp add: b)
  then show "slice b 3 (3 + length host) = ok (bytes_of_string host)" using len by (simp add: slice_def)
qed

lemma unmarshal_body_of:
  assumes "valid_message m"
  shows "unmarshal_message (body_of m) = ok m"
proof -
  have v: "validate_message m = ok ()" by (rule valid_message_validates [OF assms])
  have f: "unmarshal_fields (type_of m) (body_of m) = ok m"
  proof (cases m)
    case (Hello ver t)
    with assms have "version_supported ver" "new_token (secret t) = ok t"
      by (simp_all add: version_supported_def new_token_secret)
    then show ?thesis
      by (simp add: Hello unmarshal_fields_def unmarshal_hello_def)
  next
    case (HelloOK ver)
    then show ?thesis by (simp add: unmarshal_fields_def message_type_defs)
  next
    case (Open d)
    then have d: "valid_destination d" using assms by simp
    from valid_destination_length [OF d] have len: "length (dest_host d) \<le> 65535" "dest_host d \<noteq> []" by auto
    then have u: "unat (word_of_nat (length (dest_host d)) :: 16 word) = length (dest_host d)" by simp
    have "new_destination (dest_host d) (dest_port d) = ok d"
      using d by (simp add: new_destination_eq_ok valid_destination_def canonical_hostname_id)
    define b where "b = body_of m"
    have b: "b = message_open # put_uint16 (word_of_nat (length (dest_host d)))
        @ bytes_of_string (dest_host d) @ put_uint16 (dest_port d)" by (simp add: b_def Open)
    note parts = body_parts [OF b]
    have "unmarshal_open b = ok m"
      using len u parts \<open>new_destination _ _ = _\<close> by (simp add: unmarshal_open_def Let_def Open)
    then show ?thesis
      by (simp add: b_def Open unmarshal_fields_def message_type_defs)
  next
    case OpenOK
    then show ?thesis by (simp add: unmarshal_fields_def message_type_defs)
  next
    case (OpenError c)
    then show ?thesis by (simp add: unmarshal_fields_def message_type_defs)
  qed
  have "body_of m ! 0 = type_of m" "0 < length (body_of m)" by (cases m; simp)+
  with v f show ?thesis by (simp add: unmarshal_message_def type_of_valid)
qed

section \<open>Encoding then decoding\<close>

context byte_sink
begin

text \<open>A successful encode sends exactly the frame.\<close>

lemma encode_sends_frame:
  assumes "encode (Some write_bytes) max_bytes s (Struct m) = (ok (), s')" and "valid_message m"
  shows "sent s' = sent s @ frame m \<and> int (length (body_of m)) \<le> max_bytes"
proof -
  from assms obtain s1 where
    w1: "write_all write_bytes s (put_uint32 (word_of_nat (length (body_of m)))) = (ok (), s1)"
    and w2: "write_all write_bytes s1 (body_of m) = (ok (), s')"
    and le: "int (length (body_of m)) \<le> max_bytes"
    by (auto simp: encode_def encode_message_def valid_message_validates marshal_valid
        split: prod.splits sum.splits if_splits)
  from write_all_sent [OF w1] write_all_sent [OF w2] le show ?thesis by (simp add: frame_def)
qed

end

lemma encode_open_pipe:
  assumes "valid_message m" and "int (length (body_of m)) \<le> max_bytes" and "script p = []"
  shows "encode (Some pipe_write) max_bytes p (Struct m) = (ok (), p\<lparr>received := received p @ frame m\<rparr>)"
proof -
  have "\<not> (max_bytes \<le> 0 \<or> max_bytes < int (length (body_of m)))"
    using assms(2) length_body_of [OF assms(1)] by linarith
  then show ?thesis
    using assms(3)
    by (simp add: encode_def encode_message_def valid_message_validates [OF assms(1)] marshal_valid [OF assms(1)]
        write_all_open frame_def)
qed

lemma encode_open_pipe_received:
  assumes "valid_message m" and "int (length (body_of m)) \<le> max_bytes" and "script p = []"
    and "encode (Some pipe_write) max_bytes p (Struct m) = (r, p')"
  shows "r = ok ()" and "received p' = received p @ frame m" and "script p' = []"
  using assms(4) encode_open_pipe [OF assms(1-3)] assms(3) by auto

lemma decode_frame:
  assumes "valid_message m" and "int (length (body_of m)) \<le> max_bytes" and "pending s = frame m @ rest"
  shows "\<exists>s'. decode max_bytes s = (ok m, s') \<and> pending s' = rest \<and> stream_end s' = stream_end s"
proof -
  let ?n = "length (body_of m)"
  have n: "0 < ?n" "?n < 4294967296" using length_body_of [OF assms(1)] by auto
  have p: "pending s = put_uint32 (word_of_nat ?n) @ body_of m @ rest" using assms(3) by (simp add: frame_def)
  then have "frame_prefix_bytes \<le> length (pending s)" by (simp add: frame_prefix_bytes_def)
  then obtain s1 where s1: "read_full s frame_prefix_bytes = (take frame_prefix_bytes (pending s), None, s1)"
    "pending s1 = drop frame_prefix_bytes (pending s)" "stream_end s1 = stream_end s"
    by (rule read_full_enough)
  have p1: "pending s1 = body_of m @ rest" using s1(2) p by (simp add: frame_prefix_bytes_def)
  then have "?n \<le> length (pending s1)" by simp
  then obtain s2 where s2: "read_full s1 ?n = (take ?n (pending s1), None, s2)"
    "pending s2 = drop ?n (pending s1)" "stream_end s2 = stream_end s1" by (rule read_full_enough)
  have "take frame_prefix_bytes (pending s) = put_uint32 (word_of_nat ?n)"
    using p by (simp add: frame_prefix_bytes_def)
  with s1(1) have r1: "read_full s frame_prefix_bytes = (put_uint32 (word_of_nat ?n), None, s1)" by simp
  have ne: "\<not> (max_bytes \<le> 0 \<or> max_bytes < int ?n)" using n(1) assms(2) by linarith
  have r2: "read_full s1 ?n = (body_of m, None, s2)" using s2(1) p1 by simp
  have "decode max_bytes s = (unmarshal_message (body_of m), s2)"
    using n ne by (simp add: decode_def Let_def r1 r2)
  moreover have "pending s2 = rest" using s2(2) p1 by simp
  ultimately show ?thesis using s1(3) s2(3) by (simp add: unmarshal_body_of [OF assms(1)])
qed

text \<open>The decoder reads at most the prefix and the announced length.\<close>

lemma decode_consumes:
  assumes "decode max_bytes s = (r, s')"
  shows "\<exists>used. pending s = used @ pending s' \<and> int (length used) \<le> int frame_prefix_bytes + max 0 max_bytes"
proof (cases "read_full s frame_prefix_bytes")
  case (fields prefix e s1)
  show ?thesis
  proof (cases e)
    case (Some x)
    with assms fields have "s' = s1" by (auto simp: decode_def split: if_splits)
    with read_full_cases(2) [OF fields] Some show ?thesis by (intro exI [of _ prefix]) auto
  next
    case None
    note r1 = read_full_cases(1) [OF fields None]
    let ?n = "unat (uint32_be prefix)"
    show ?thesis
    proof (cases "?n = 0 \<or> max_bytes \<le> 0 \<or> max_bytes < int ?n")
      case True
      with assms fields None have "s' = s1" by (auto simp: decode_def Let_def split: if_splits)
      with r1 show ?thesis by (intro exI [of _ prefix]) auto
    next
      case False
      obtain body e2 s2 where r2: "read_full s1 ?n = (body, e2, s2)" by (cases "read_full s1 ?n")
      with assms fields None False have "s' = s2" by (auto simp: decode_def Let_def split: if_splits option.splits)
      moreover have "pending s1 = body @ pending s2 \<and> length body \<le> ?n"
        using read_full_cases [OF r2] by (cases e2) auto
      moreover have "int (length body) \<le> max_bytes" using calculation(2) False by linarith
      ultimately show ?thesis using r1 by (intro exI [of _ "prefix @ body"]) auto
    qed
  qed
qed

section \<open>Properties\<close>

text \<open>
  C31: on every input, however it is cut and however it ends, the decoder returns a message or an
  error and never panics, and it takes at most its limit and the four bytes of the prefix off the
  stream, in order.
\<close>

theorem decode_is_total_and_bounded:
  "no_panic (fst (decode max_bytes s)) \<and> (\<exists>used. pending s = used @ pending (snd (decode max_bytes s))
     \<and> int (length used) \<le> 4 + max 0 max_bytes)"
  using decode_no_panic [of max_bytes s] decode_consumes [of max_bytes s, OF prod.collapse [symmetric]]
  by (simp add: frame_prefix_bytes_def)

text \<open>
  C32: a message the decoder returns is valid: its token has the required length, its destination is
  canonical and on port 443, its error code is one of the protocol; so it can be sent on as it is.
\<close>

theorem decoded_messages_are_valid:
  assumes "decode max_bytes s = (ok m, s')"
  shows "valid_message m \<and> validate_message m = ok () \<and> marshal_message m = ok (body_of m)"
  using decode_valid [OF assms] valid_message_validates marshal_valid by blast

theorem decoded_messages_are_valid_witness:
  "\<exists>s'. decode 4096 (\<lparr>chunks = [frame OpenOK], stream_end = EOF\<rparr> :: string stream) = (ok OpenOK, s')
     \<and> marshal_message OpenOK = ok (body_of OpenOK)"
proof -
  have v: "valid_message OpenOK" "int (length (body_of OpenOK)) \<le> 4096" by simp_all
  have "pending (\<lparr>chunks = [frame OpenOK], stream_end = EOF\<rparr> :: string stream) = frame OpenOK @ []" by (simp add: pending_def)
  from decode_frame [OF v this] obtain s' where
    "decode 4096 (\<lparr>chunks = [frame OpenOK], stream_end = EOF\<rparr> :: string stream) = (ok OpenOK, s')" by blast
  with decoded_messages_are_valid [OF this] show ?thesis by blast
qed

end
