(* ===== verification/Go_Strconv.thy ===== *)
theory Go_Strconv
  imports Go_Netip
begin

text \<open>
  The parts of the standard library that turn operator text into values: \<open>strconv.Atoi\<close> on a
  64-bit platform, \<open>strconv.Unquote\<close> of a double-quoted text, and the accessors of \<open>url.URL\<close>.
\<close>

section \<open>Integers\<close>

text \<open>An optional sign and at least one decimal digit, within the range of \<open>int\<close>.\<close>

definition atoi :: "string \<Rightarrow> int option" where
  "atoi s =
     (let negative = has_prefix s ''-'';
          digits = (if negative \<or> has_prefix s ''+'' then drop 1 s else s);
          n = (if negative then - int (decimal digits) else int (decimal digits))
      in if digits = [] \<or> \<not> list_all is_digit digits then None
         else if n < - (2 ^ 63) \<or> 2 ^ 63 \<le> n then None
         else Some n)"

section \<open>Unquoting\<close>

definition hex_number :: "string \<Rightarrow> nat option" where
  "hex_number s = foldl (\<lambda>acc c. case (acc, hex_value c) of (Some v, Some d) \<Rightarrow> Some (16 * v + d) | _ \<Rightarrow> None) (Some 0) s"

definition valid_rune :: "nat \<Rightarrow> bool" where
  "valid_rune r = (r < 55296 \<or> (57343 < r \<and> r \<le> 1114111))"

text \<open>
  \<open>UnquoteChar\<close> with the double quote, on a text that does not start with it: the bytes the
  character contributes and how many bytes of the text it takes.
\<close>

definition simple_escape :: "char \<Rightarrow> nat option" where
  "simple_escape c = map_of (zip ''abfnrtv'' [7, 8, 12, 10, 13, 9, 11]) c"

definition octal_digit :: "char \<Rightarrow> bool" where
  "octal_digit c = in_range 48 55 (code c)"

definition unquote_char :: "string \<Rightarrow> (string \<times> nat) option" where
  "unquote_char s =
     (let c = hd s in
      if 128 \<le> code c then Some (encode_rune (fst (decode_rune s)), snd (decode_rune s))
      else if c \<noteq> CHR 0x5C then Some ([c], 1)
      else if length s \<le> 1 then None
      else let c = s ! 1; rest = drop 2 s in
        case simple_escape c of Some v \<Rightarrow> Some ([char_of v], 2)
        | None \<Rightarrow>
            if c = CHR ''x'' then
              (if length rest < 2 then None else map_option (\<lambda>v. ([char_of v], 4)) (hex_number (take 2 rest)))
            else if c = CHR ''u'' \<or> c = CHR ''U'' then
              (let n = (if c = CHR ''u'' then 4 else 8) in
               if length rest < n then None
               else case hex_number (take n rest) of None \<Rightarrow> None
                    | Some v \<Rightarrow> if valid_rune v then Some (encode_rune v, 2 + n) else None)
            else if octal_digit c then
              (if length rest < 2 \<or> \<not> octal_digit (rest ! 0) \<or> \<not> octal_digit (rest ! 1) then None
               else let v = 64 * (code c - 48) + 8 * (code (rest ! 0) - 48) + (code (rest ! 1) - 48) in
                 if 255 < v then None else Some ([char_of v], 4))
            else if c = CHR 0x5C then Some ([c], 2)
            else if c = CHR ''\"'' then Some ([c], 2)
            else None)"

lemma unquote_char_width: "unquote_char s = Some (out, n) \<Longrightarrow> 1 \<le> n"
  using decode_rune_width [of s]
  by (auto simp: unquote_char_def Let_def split: if_splits option.splits)

function unquote_loop :: "string \<Rightarrow> string \<Rightarrow> string option" where
  "unquote_loop out s =
     (if s = [] then None
      else if hd s = CHR ''\"'' then (if length s = 1 then Some out else None)
      else if hd s = CHR 0x0A then None
      else case unquote_char s of None \<Rightarrow> None | Some (o', n) \<Rightarrow> unquote_loop (out @ o') (drop n s))"
  by pat_completeness auto
termination
  by (relation "measure (\<lambda>(_, s). length s)") (auto dest!: unquote_char_width)

declare unquote_loop.simps [simp del]

text \<open>
  \<open>strconv.Unquote\<close> of a text that starts with a double quote. Its shortcut for texts without
  escapes gives what the loop gives.
\<close>

definition strconv_unquote :: "string \<Rightarrow> string option" where
  "strconv_unquote s = (if length s < 2 then None else unquote_loop [] (drop 1 s))"

definition plain_char :: "char \<Rightarrow> bool" where
  "plain_char c = (code c < 128 \<and> c \<noteq> CHR ''\"'' \<and> c \<noteq> CHR 0x5C \<and> c \<noteq> CHR 0x0A)"

lemma unquote_loop_plain:
  "list_all plain_char s \<Longrightarrow> unquote_loop out (s @ [CHR ''\"'']) = Some (out @ s)"
proof (induction s arbitrary: out)
  case Nil
  then show ?case by (simp add: unquote_loop.simps)
next
  case (Cons c s)
  then have "unquote_char (c # s @ [CHR ''\"'']) = Some ([c], 1)"
    by (simp add: unquote_char_def plain_char_def)
  with Cons show ?case by (subst unquote_loop.simps) (simp add: plain_char_def)
qed

lemma strconv_unquote_plain:
  "list_all plain_char s \<Longrightarrow> strconv_unquote (CHR ''\"'' # s @ [CHR ''\"'']) = Some s"
  by (simp add: strconv_unquote_def unquote_loop_plain)

section \<open>URLs\<close>

text \<open>
  A parsed \<open>url.URL\<close>, by the fields and the escaped path the program looks at. \<open>Hostname\<close> and
  \<open>Port\<close> split the host as the standard library does.
\<close>

record url =
  url_scheme :: string
  url_has_user :: bool
  url_host :: string
  url_escaped_path :: string
  url_raw_query :: string
  url_fragment :: string

definition valid_optional_port :: "string \<Rightarrow> bool" where
  "valid_optional_port p = (p = [] \<or> (hd p = CHR '':'' \<and> list_all is_digit (tl p)))"

definition url_split_host_port :: "string \<Rightarrow> string \<times> string" where
  "url_split_host_port s =
     (let (host, port) = (case cut_last CHR '':'' s of None \<Rightarrow> (s, [])
            | Some (a, b) \<Rightarrow> if valid_optional_port (CHR '':'' # b) then (a, b) else (s, []))
      in (if has_prefix host ''['' \<and> has_suffix host '']'' then butlast (tl host) else host, port))"

definition url_hostname :: "url \<Rightarrow> string" where
  "url_hostname u = fst (url_split_host_port (url_host u))"

definition url_port :: "url \<Rightarrow> string" where
  "url_port u = snd (url_split_host_port (url_host u))"

text \<open>\<open>strings.Contains\<close>.\<close>

fun contains :: "string \<Rightarrow> string \<Rightarrow> bool" where
  "contains [] sub = (sub = [])"
| "contains (c # s) sub = (has_prefix (c # s) sub \<or> contains s sub)"

lemma contains_iff: "contains s sub \<longleftrightarrow> (\<exists>a b. s = a @ sub @ b)"
proof (induction s)
  case (Cons c s)
  show ?case
    by (auto simp: Cons has_prefix_iff Cons_eq_append_conv)
qed simp

end
