(* ===== verification/Config_Pin.thy ===== *)
theory Config_Pin
  imports Go_Crypto
begin

text \<open>
  \<open>internal/config/pin.go\<close> and \<open>internal/config/pinset.go\<close>: the digest of a public key the
  inner TLS session must present, its two text forms, and the bounded set of client pins.
\<close>

record pin =
  pin_algorithm :: string
  pin_digest :: bytes
  pin_set :: bool

definition pin_sha256 :: string where
  "pin_sha256 = ''sha256''"

text \<open>The zero value: the digest is an array, so it is 32 zero bytes.\<close>

definition zero_pin :: pin where
  "zero_pin = \<lparr>pin_algorithm = [], pin_digest = replicate sha256_size 0, pin_set = False\<rparr>"

definition pin_is_zero :: "pin \<Rightarrow> bool" where
  "pin_is_zero p = (\<not> pin_set p)"

definition pin_string :: "pin \<Rightarrow> string" where
  "pin_string p = (if \<not> pin_set p then ''<unset>''
     else pin_algorithm p @ '':'' @ base64_encode (pin_digest p))"

definition pin_matches :: "pin \<Rightarrow> bytes \<Rightarrow> bool" where
  "pin_matches p d = (if \<not> pin_set p \<or> length d \<noteq> length (pin_digest p) then False
     else constant_time_compare (pin_digest p) d = 1)"

definition pin_matches_spki :: "pin \<Rightarrow> bytes \<Rightarrow> bool" where
  "pin_matches_spki p spki = pin_matches p (sha256 spki)"

definition pin_from_spki :: "bytes \<Rightarrow> pin" where
  "pin_from_spki spki = \<lparr>pin_algorithm = pin_sha256, pin_digest = sha256 spki, pin_set = True\<rparr>"

datatype pin_error = PinEmpty | PinNoAlgorithm | PinAlgorithm | PinEncoding | PinDigestLength nat

definition decode_digest :: "string \<Rightarrow> (pin_error, bytes) result" where
  "decode_digest encoded =
     (case (if length encoded = 2 * sha256_size then hex_decode encoded else None) of
        Some d \<Rightarrow> ok d
      | None \<Rightarrow> (case base64_decode encoded of None \<Rightarrow> err PinEncoding | Some d \<Rightarrow> ok d))"

definition parse_pin :: "string \<Rightarrow> (pin_error, pin) result" where
  "parse_pin raw =
     (let trimmed = trim_space raw in
      if trimmed = [] then err PinEmpty
      else case cut_at CHR '':'' trimmed of
        None \<Rightarrow> err PinNoAlgorithm
      | Some (algorithm, encoded) \<Rightarrow>
          if to_lower algorithm \<noteq> pin_sha256 then err PinAlgorithm
          else bind_result (decode_digest encoded) (\<lambda>d.
            if length d \<noteq> sha256_size then err (PinDigestLength (length d))
            else ok \<lparr>pin_algorithm = pin_sha256, pin_digest = d, pin_set = True\<rparr>))"

section \<open>Pin sets\<close>

definition max_client_pins :: nat where
  "max_client_pins = 16"

record pin_set =
  pins :: "pin list"

definition empty_pin_set :: pin_set where
  "empty_pin_set = \<lparr>pins = []\<rparr>"

datatype pin_set_error = PinSetEmpty | PinSetTooBig nat | PinEntryEmpty nat | PinEntryInvalid nat

fun new_pin_set_loop :: "nat \<Rightarrow> pin list \<Rightarrow> pin list \<Rightarrow> (pin_set_error, pin_set) result" where
  "new_pin_set_loop i acc [] = ok \<lparr>pins = acc\<rparr>"
| "new_pin_set_loop i acc (p # ps) =
     (if pin_is_zero p then err (PinEntryEmpty (i + 1)) else new_pin_set_loop (i + 1) (acc @ [p]) ps)"

definition new_pin_set :: "pin list \<Rightarrow> (pin_set_error, pin_set) result" where
  "new_pin_set ps =
     (if length ps = 0 then err PinSetEmpty
      else if max_client_pins < length ps then err (PinSetTooBig (length ps))
      else new_pin_set_loop 0 [] ps)"

fun parse_pins :: "nat \<Rightarrow> string list \<Rightarrow> (pin_set_error, pin list) result" where
  "parse_pins i [] = ok []"
| "parse_pins i (e # es) =
     (case parse_pin e of
        Inl _ \<Rightarrow> err (PinEntryInvalid (i + 1))
      | Inr p \<Rightarrow> bind_result (parse_pins (i + 1) es) (\<lambda>ps. ok (p # ps)))"

definition parse_pin_set :: "string list \<Rightarrow> (pin_set_error, pin_set) result" where
  "parse_pin_set raw = (if length raw = 0 then ok empty_pin_set else bind_result (parse_pins 0 raw) new_pin_set)"

definition pin_set_contains_spki :: "pin_set \<Rightarrow> bytes \<Rightarrow> bool" where
  "pin_set_contains_spki s spki =
     (if length (pins s) = 0 \<or> length spki = 0 then False
      else foldl (\<lambda>matched p. pin_matches_spki p spki \<or> matched) False (pins s))"

section \<open>Lemmas\<close>

definition valid_pin :: "pin \<Rightarrow> bool" where
  "valid_pin p = (pin_set p \<and> pin_algorithm p = pin_sha256 \<and> length (pin_digest p) = sha256_size)"

lemma pin_from_spki_valid: "valid_pin (pin_from_spki spki)"
  by (simp add: valid_pin_def pin_from_spki_def)

lemma parse_pin_valid: "parse_pin raw = ok p \<Longrightarrow> valid_pin p"
  by (auto simp: parse_pin_def Let_def bind_result_eq_ok valid_pin_def split: if_splits option.splits)

lemma decode_digest_no_panic [no_panic_intros]: "no_panic (decode_digest e)"
  by (simp add: decode_digest_def no_panic_def split: option.splits)

lemma parse_pin_no_panic [no_panic_intros]: "no_panic (parse_pin raw)"
  by (auto simp: parse_pin_def Let_def intro!: no_panic_intros split: option.splits)

lemma pin_matches_iff: "pin_matches p d \<longleftrightarrow> pin_set p \<and> d = pin_digest p"
  by (auto simp: pin_matches_def constant_time_compare_cases)

lemma pin_matches_spki_iff: "pin_matches_spki p spki \<longleftrightarrow> pin_set p \<and> sha256 spki = pin_digest p"
  by (simp add: pin_matches_spki_def pin_matches_iff)

lemma base64_char_printable: "d < 64 \<Longrightarrow> 33 \<le> code (base64_char d) \<and> code (base64_char d) < 127"
  by (auto simp: base64_char_def)

lemma base64_encode_printable: "c \<in> set (base64_encode bs) \<Longrightarrow> 33 \<le> code c \<and> code c < 127"
  by (induction bs rule: base64_encode.induct) (auto simp: base64_char_printable)

lemma parse_pin_string:
  assumes "valid_pin p"
  shows "parse_pin (pin_string p) = ok p"
proof -
  let ?e = "base64_encode (pin_digest p)"
  have s: "pin_string p = ''sha256:'' @ ?e"
    using assms by (simp add: pin_string_def valid_pin_def pin_sha256_def)
  have prefix: "\<forall>c \<in> set ''sha256:''. 33 \<le> code c \<and> code c < 127" by simp
  have chars: "33 \<le> code c \<and> code c < 127" if "c \<in> set (pin_string p)" for c
    using that base64_encode_printable [of c "pin_digest p"] prefix unfolding s set_append by blast
  then have "is_ascii (pin_string p)" by (fastforce simp: is_ascii_iff)
  moreover have "\<not> is_space (code c)" if "c \<in> set (pin_string p)" for c
    using chars [OF that] by (auto simp: is_space_def in_range_def)
  moreover have "pin_string p \<noteq> []" by (simp add: s)
  ultimately have "trim_space (pin_string p) = pin_string p"
    by (simp add: trim_space_ascii trim_by_id)
  moreover have "cut_at CHR '':'' (pin_string p) = Some (''sha256'', ?e)"
    by (simp add: cut_at_Some s)
  moreover have "to_lower ''sha256'' = pin_sha256"
    by (subst to_lower_id) (auto simp: in_range_def pin_sha256_def)
  moreover have "length ?e = 44"
    using assms by (simp add: length_base64_encode valid_pin_def sha256_size_def)
  then have "decode_digest ?e = ok (pin_digest p)"
    by (simp add: decode_digest_def base64_decode_encode sha256_size_def)
  moreover have "pin_string p \<noteq> []" by (simp add: s)
  moreover have "\<lparr>pin_algorithm = pin_sha256, pin_digest = pin_digest p, pin_set = True\<rparr> = p"
    using assms by (cases p) (simp add: valid_pin_def)
  ultimately show ?thesis
    using assms by (simp add: parse_pin_def Let_def valid_pin_def)
qed

lemma new_pin_set_loop_ok:
  "new_pin_set_loop i acc ps = ok s \<longleftrightarrow> (\<forall>p \<in> set ps. pin_set p) \<and> pins s = acc @ ps"
  by (induction i acc ps rule: new_pin_set_loop.induct) (auto simp: pin_is_zero_def pin_set.splits)

lemma new_pin_set_ok:
  "new_pin_set ps = ok s \<longleftrightarrow> ps \<noteq> [] \<and> length ps \<le> max_client_pins \<and> (\<forall>p \<in> set ps. pin_set p) \<and> pins s = ps"
  by (auto simp: new_pin_set_def new_pin_set_loop_ok)

lemma contains_spki_loop:
  "foldl (\<lambda>matched p. pin_matches_spki p spki \<or> matched) m ps \<longleftrightarrow> m \<or> (\<exists>p \<in> set ps. pin_matches_spki p spki)"
  by (induction ps arbitrary: m) auto

lemma pin_set_contains_spki_iff:
  "pin_set_contains_spki s spki \<longleftrightarrow> spki \<noteq> [] \<and> (\<exists>p \<in> set (pins s). pin_matches_spki p spki)"
  by (auto simp: pin_set_contains_spki_def contains_spki_loop)

lemma parse_pins_valid: "parse_pins i es = ok ps \<Longrightarrow> length ps = length es \<and> list_all valid_pin ps"
  by (induction i es arbitrary: ps rule: parse_pins.induct)
    (auto simp: bind_result_eq_ok split: sum.splits dest: parse_pin_valid)

section \<open>Properties\<close>

text \<open>
  The text of a valid pin, with any white space around it, is parsed back to the pin, and what
  parses is valid: a SHA-256 digest of 32 bytes.
\<close>

theorem pin_round_trip:
  assumes "valid_pin p"
  shows "parse_pin (pin_string p) = ok p \<and> (\<forall>raw q. parse_pin raw = ok q \<longrightarrow> valid_pin q)"
  using parse_pin_string [OF assms] parse_pin_valid by blast

theorem pin_round_trip_witness: "parse_pin (pin_string (pin_from_spki [1, 2, 3])) = ok (pin_from_spki [1, 2, 3])"
  using pin_round_trip [OF pin_from_spki_valid] by blast

end
