(* ===== verification/Config_Settings.thy ===== *)
theory Config_Settings
  imports Go_Strconv Policy_Checker Config_Pin
begin

text \<open>
  \<open>internal/config/config.go\<close> and \<open>internal/config/log.go\<close>: the validated settings of the two
  roles. Durations are in nanoseconds; an error is one constructor per message of the code, and
  \<open>InField\<close> is the wrapping with the name of the field.
\<close>

datatype config_error =
    NotHostPort string | PortMissing | PortUnusable string | HostNotLiteral string | HostNotLoopback string
  | BadScheme string | HasUserinfo | HasQueryOrFragment | HostMissing | HostIsLiteral | PortNot443 string
  | PathNotAbsolute | PathNotCanonical string | DoHURLMissing | RelayURLMissing | PinMissing
  | TokenFileMissing | IdentityFileMissing | TooManyPins nat | UnknownECHMode string
  | EmptyAllowlist | TimeoutNotPositive string int | IdleNegative int | LifetimeNegative int
  | LifetimeBelowIdle int int | SessionsNotPositive int | ControlTooSmall int | ControlTooBig int
  | UnknownLogLevel string | UnknownLogFormat string
  | BootstrapNotAddress string | BootstrapNotDialable addr | NoBootstrap string
  | InField string config_error

type_synonym 'a config_result = "(config_error, 'a) result"

section \<open>Modes and logging options\<close>

definition mode_client :: string where "mode_client = ''client''"
definition mode_server :: string where "mode_server = ''server''"

type_synonym ech_mode = string

definition ech_required :: ech_mode where "ech_required = ''required''"
definition ech_insecure_disabled :: ech_mode where "ech_insecure_disabled = ''insecure-disabled''"

definition ech_secure :: "ech_mode \<Rightarrow> bool" where
  "ech_secure m = (m = ech_required)"

definition parse_ech_mode :: "string \<Rightarrow> ech_mode config_result" where
  "parse_ech_mode raw =
     (if raw = ech_required then ok ech_required
      else if raw = ech_insecure_disabled then ok ech_insecure_disabled
      else err (UnknownECHMode raw))"

definition log_level_debug :: string where "log_level_debug = ''debug''"
definition log_level_info :: string where "log_level_info = ''info''"
definition log_level_warn :: string where "log_level_warn = ''warn''"
definition log_level_error :: string where "log_level_error = ''error''"

definition parse_log_level :: "string \<Rightarrow> string config_result" where
  "parse_log_level raw =
     (if raw \<in> {log_level_debug, log_level_info, log_level_warn, log_level_error} then ok raw
      else err (UnknownLogLevel raw))"

definition log_format_text :: string where "log_format_text = ''text''"
definition log_format_json :: string where "log_format_json = ''json''"

definition parse_log_format :: "string \<Rightarrow> string config_result" where
  "parse_log_format raw =
     (if raw \<in> {log_format_text, log_format_json} then ok raw else err (UnknownLogFormat raw))"

record log_options =
  log_level :: string
  log_format :: string
  log_include_targets :: bool

definition default_log_options :: log_options where
  "default_log_options =
     \<lparr>log_level = log_level_info, log_format = log_format_text, log_include_targets = False\<rparr>"

definition validate_log_options :: "log_options \<Rightarrow> unit config_result" where
  "validate_log_options o' =
     bind_result (parse_log_level (log_level o')) (\<lambda>_.
       bind_result (parse_log_format (log_format o')) (\<lambda>_. ok ()))"

section \<open>Timeouts and limits\<close>

definition second :: int where "second = 1000000000"

record timeouts =
  t_dial :: int
  t_tls_handshake :: int
  t_control :: int
  t_idle :: int
  t_max_lifetime :: int
  t_shutdown :: int

definition default_timeouts :: timeouts where
  "default_timeouts =
     \<lparr>t_dial = 10 * second, t_tls_handshake = 10 * second, t_control = 10 * second,
      t_idle = 300 * second, t_max_lifetime = 0, t_shutdown = 30 * second\<rparr>"

fun all_positive :: "(string \<times> int) list \<Rightarrow> unit config_result" where
  "all_positive [] = ok ()"
| "all_positive ((name, value) # rest) =
     (if value \<le> 0 then err (TimeoutNotPositive name value) else all_positive rest)"

definition validate_timeouts :: "timeouts \<Rightarrow> unit config_result" where
  "validate_timeouts t =
     bind_result (all_positive [(''dial'', t_dial t), (''tls-handshake'', t_tls_handshake t),
       (''control'', t_control t), (''shutdown'', t_shutdown t)]) (\<lambda>_.
     if t_idle t < 0 then err (IdleNegative (t_idle t))
     else if t_max_lifetime t < 0 then err (LifetimeNegative (t_max_lifetime t))
     else if t_max_lifetime t \<noteq> 0 \<and> t_idle t \<noteq> 0 \<and> t_max_lifetime t < t_idle t
       then err (LifetimeBelowIdle (t_max_lifetime t) (t_idle t))
     else ok ())"

record limits =
  max_sessions :: int
  max_control_message_bytes :: int

definition default_limits :: limits where
  "default_limits = \<lparr>max_sessions = 64, max_control_message_bytes = 4096\<rparr>"

definition validate_limits :: "limits \<Rightarrow> unit config_result" where
  "validate_limits l =
     (if max_sessions l \<le> 0 then err (SessionsNotPositive (max_sessions l))
      else if max_control_message_bytes l < 256 then err (ControlTooSmall (max_control_message_bytes l))
      else if 1048576 < max_control_message_bytes l then err (ControlTooBig (max_control_message_bytes l))
      else ok ())"

section \<open>Addresses to listen on and URLs\<close>

definition validate_listen_address :: "string \<Rightarrow> unit config_result" where
  "validate_listen_address address =
     (case split_host_port address of
        None \<Rightarrow> err (NotHostPort address)
      | Some (host, port) \<Rightarrow>
          if port = [] then err PortMissing
          else case atoi port of
            None \<Rightarrow> err (PortUnusable port)
          | Some n \<Rightarrow>
              if n \<le> 0 \<or> 65535 < n then err (PortUnusable port)
              else if host = [] then ok ()
              else if parse_addr host = None then err (HostNotLiteral host)
              else ok ())"

definition validate_loopback_address :: "string \<Rightarrow> unit config_result" where
  "validate_loopback_address address =
     bind_result (validate_listen_address address) (\<lambda>_.
       case split_host_port address of
         None \<Rightarrow> err (NotHostPort address)
       | Some (host, _) \<Rightarrow>
           (case parse_addr host of
              None \<Rightarrow> err (HostNotLoopback host)
            | Some a \<Rightarrow> if \<not> is_loopback a then err (HostNotLoopback host) else ok ()))"

definition validate_relay_url :: "url \<Rightarrow> unit config_result" where
  "validate_relay_url u =
     (if url_scheme u \<noteq> ''wss'' then err (BadScheme (url_scheme u))
      else if url_has_user u then err HasUserinfo
      else if url_raw_query u \<noteq> [] \<or> url_fragment u \<noteq> [] then err HasQueryOrFragment
      else if url_hostname u = [] then err HostMissing
      else if parse_addr (url_hostname u) \<noteq> None then err HostIsLiteral
      else if url_port u \<noteq> [] \<and> url_port u \<noteq> ''443'' then err (PortNot443 (url_port u))
      else if \<not> has_prefix (url_escaped_path u) ''/'' then err PathNotAbsolute
      else ok ())"

definition validate_doh_url :: "url option \<Rightarrow> unit config_result" where
  "validate_doh_url v =
     (case v of None \<Rightarrow> err DoHURLMissing
      | Some u \<Rightarrow>
          if url_scheme u \<noteq> ''https'' then err (BadScheme (url_scheme u))
          else if url_has_user u then err HasUserinfo
          else if url_raw_query u \<noteq> [] \<or> url_fragment u \<noteq> [] then err HasQueryOrFragment
          else if url_hostname u = [] then err HostMissing
          else if \<not> has_prefix (url_escaped_path u) ''/'' \<or> contains (to_lower (url_escaped_path u)) ''%2f''
            then err (PathNotCanonical (url_escaped_path u))
          else ok ())"

section \<open>Bootstrap addresses\<close>

definition validate_bootstrap_address :: "addr \<Rightarrow> unit config_result" where
  "validate_bootstrap_address a =
     (if \<not> is_valid a \<or> is_unspecified a \<or> is_multicast a then err (BootstrapNotDialable a) else ok ())"

fun validate_bootstrap_addresses :: "addr list \<Rightarrow> unit config_result" where
  "validate_bootstrap_addresses [] = ok ()"
| "validate_bootstrap_addresses (a # as) =
     bind_result (validate_bootstrap_address a) (\<lambda>_. validate_bootstrap_addresses as)"

definition validate_doh_bootstrap :: "url option \<Rightarrow> addr list \<Rightarrow> unit config_result" where
  "validate_doh_bootstrap endpoint addresses =
     bind_result (validate_bootstrap_addresses addresses) (\<lambda>_.
       if addresses \<noteq> [] then ok ()
       else case endpoint of None \<Rightarrow> err DoHURLMissing
         | Some u \<Rightarrow> if parse_addr (url_hostname u) \<noteq> None then ok () else err (NoBootstrap (url_hostname u)))"

fun parse_bootstrap_loop :: "addr list \<Rightarrow> string list \<Rightarrow> addr list config_result" where
  "parse_bootstrap_loop acc [] = ok acc"
| "parse_bootstrap_loop acc (e # es) =
     (case parse_addr (trim_space e) of
        None \<Rightarrow> err (BootstrapNotAddress e)
      | Some a \<Rightarrow> bind_result (validate_bootstrap_address a) (\<lambda>_. parse_bootstrap_loop (acc @ [a]) es))"

definition parse_bootstrap_addresses :: "string list \<Rightarrow> addr list config_result" where
  "parse_bootstrap_addresses entries = parse_bootstrap_loop [] entries"

definition known_doh_bootstrap :: "(string \<times> string list) list" where
  "known_doh_bootstrap =
     [(''cloudflare-dns.com'', [''1.1.1.1'', ''1.0.0.1'', ''2606:4700:4700::1111'', ''2606:4700:4700::1001'']),
      (''one.one.one.one'', [''1.1.1.1'', ''1.0.0.1'', ''2606:4700:4700::1111'', ''2606:4700:4700::1001''])]"

text \<open>The built-in entries are parsed; one that does not parse is a panic.\<close>

fun parse_built_in :: "string list \<Rightarrow> addr list config_result" where
  "parse_built_in [] = ok []"
| "parse_built_in (e # es) =
     (case parse_addr e of None \<Rightarrow> panic | Some a \<Rightarrow> bind_result (parse_built_in es) (\<lambda>as. ok (a # as)))"

definition default_doh_bootstrap :: "url option \<Rightarrow> addr list config_result" where
  "default_doh_bootstrap endpoint =
     (case endpoint of None \<Rightarrow> ok []
      | Some u \<Rightarrow> (case map_of known_doh_bootstrap (to_lower (url_hostname u)) of
          None \<Rightarrow> ok [] | Some entries \<Rightarrow> parse_built_in entries))"

section \<open>The two roles\<close>

record client_config =
  c_listen :: string
  c_relay_url :: "url option"
  c_server_pin :: pin
  c_token_file :: string
  c_client_identity_file :: string
  c_doh_url :: "url option"
  c_doh_bootstrap :: "addr list"
  c_ech :: ech_mode
  c_allowlist :: allowlist
  c_timeouts :: timeouts
  c_log :: log_options

definition client_checker :: "client_config \<Rightarrow> 'e checker" where
  "client_checker c = new_checker (c_allowlist c) None"

definition in_field :: "string \<Rightarrow> 'a config_result \<Rightarrow> 'a config_result" where
  "in_field name m = map_err (InField name) m"

definition validate_client :: "client_config \<Rightarrow> unit config_result" where
  "validate_client c =
     bind_result (in_field ''listen address'' (validate_loopback_address (c_listen c))) (\<lambda>_.
     case c_relay_url c of None \<Rightarrow> err RelayURLMissing
     | Some relay \<Rightarrow>
     bind_result (in_field ''relay URL'' (validate_relay_url relay)) (\<lambda>_.
     if pin_is_zero (c_server_pin c) then err PinMissing
     else if c_token_file c = [] then err TokenFileMissing
     else
     bind_result (in_field ''DoH URL'' (validate_doh_url (c_doh_url c))) (\<lambda>_.
     bind_result (validate_doh_bootstrap (c_doh_url c) (c_doh_bootstrap c)) (\<lambda>_.
     bind_result (parse_ech_mode (c_ech c)) (\<lambda>_.
     if allowlist_is_empty (c_allowlist c) then err EmptyAllowlist
     else
     bind_result (validate_timeouts (c_timeouts c)) (\<lambda>_. validate_log_options (c_log c)))))))"

record server_config =
  s_listen :: string
  s_identity_file :: string
  s_token_file :: string
  s_client_pins :: pin_set
  s_doh_url :: "url option"
  s_doh_bootstrap :: "addr list"
  s_allowlist :: allowlist
  s_timeouts :: timeouts
  s_limits :: limits
  s_log :: log_options

definition server_checker :: "server_config \<Rightarrow> 'e resolver option \<Rightarrow> 'e checker" where
  "server_checker s r = new_checker (s_allowlist s) r"

definition validate_server :: "server_config \<Rightarrow> unit config_result" where
  "validate_server s =
     bind_result (in_field ''listen address'' (validate_listen_address (s_listen s))) (\<lambda>_.
     if s_token_file s = [] then err TokenFileMissing
     else if s_identity_file s = [] then err IdentityFileMissing
     else if max_client_pins < length (pins (s_client_pins s)) then err (TooManyPins (length (pins (s_client_pins s))))
     else
     bind_result (in_field ''DoH URL'' (validate_doh_url (s_doh_url s))) (\<lambda>_.
     bind_result (validate_doh_bootstrap (s_doh_url s) (s_doh_bootstrap s)) (\<lambda>_.
     if allowlist_is_empty (s_allowlist s) then err EmptyAllowlist
     else
     bind_result (validate_timeouts (s_timeouts s)) (\<lambda>_.
     bind_result (validate_limits (s_limits s)) (\<lambda>_. validate_log_options (s_log s))))))"

section \<open>What validation promises\<close>

lemma in_field_ok [simp]: "in_field name m = ok x \<longleftrightarrow> m = ok x"
  by (simp add: in_field_def)

definition valid_timeouts :: "timeouts \<Rightarrow> bool" where
  "valid_timeouts t \<longleftrightarrow> 0 < t_dial t \<and> 0 < t_tls_handshake t \<and> 0 < t_control t \<and> 0 < t_shutdown t
     \<and> 0 \<le> t_idle t \<and> 0 \<le> t_max_lifetime t
     \<and> (t_max_lifetime t = 0 \<or> t_idle t = 0 \<or> t_idle t \<le> t_max_lifetime t)"

lemma validate_timeouts_ok: "validate_timeouts t = ok () \<longleftrightarrow> valid_timeouts t"
  by (auto simp: validate_timeouts_def valid_timeouts_def bind_result_eq_ok)

lemma validate_limits_ok:
  "validate_limits l = ok () \<longleftrightarrow>
     0 < max_sessions l \<and> 256 \<le> max_control_message_bytes l \<and> max_control_message_bytes l \<le> 1048576"
  by (auto simp: validate_limits_def)

lemma defaults_valid:
  "valid_timeouts default_timeouts" "validate_limits default_limits = ok ()"
  "validate_log_options default_log_options = ok ()"
  by (simp_all add: valid_timeouts_def default_timeouts_def second_def validate_limits_def default_limits_def
      validate_log_options_def default_log_options_def parse_log_level_def parse_log_format_def)

lemma parse_ech_mode_ok: "parse_ech_mode raw = ok m \<longleftrightarrow> m = raw \<and> (raw = ech_required \<or> raw = ech_insecure_disabled)"
  by (auto simp: parse_ech_mode_def)

text \<open>A listen address: an optional IP literal and a port.\<close>

definition listen_parts :: "string \<Rightarrow> string \<Rightarrow> int \<Rightarrow> bool" where
  "listen_parts address host n \<longleftrightarrow>
     (\<exists>port. split_host_port address = Some (host, port) \<and> atoi port = Some n) \<and> 0 < n \<and> n < 65536"

lemma validate_listen_ok:
  "validate_listen_address address = ok () \<longleftrightarrow>
     (\<exists>host n. listen_parts address host n \<and> (host = [] \<or> parse_addr host \<noteq> None))"
proof
  assume "validate_listen_address address = ok ()"
  then show "\<exists>host n. listen_parts address host n \<and> (host = [] \<or> parse_addr host \<noteq> None)"
    by (auto simp: validate_listen_address_def listen_parts_def split: option.split_asm if_split_asm)
next
  assume "\<exists>host n. listen_parts address host n \<and> (host = [] \<or> parse_addr host \<noteq> None)"
  then obtain host port n where p: "split_host_port address = Some (host, port)" "atoi port = Some n" "0 < n" "n < 65536"
    "host = [] \<or> parse_addr host \<noteq> None"
    by (auto simp: listen_parts_def)
  moreover have "port \<noteq> []" using p(2) by (auto simp: atoi_def has_prefix_def)
  ultimately show "validate_listen_address address = ok ()"
    by (auto simp: validate_listen_address_def)
qed

lemma validate_loopback_ok:
  "validate_loopback_address address = ok () \<longleftrightarrow>
     (\<exists>host n a. listen_parts address host n \<and> parse_addr host = Some a \<and> is_loopback a)"
proof
  assume loop: "validate_loopback_address address = ok ()"
  then have "validate_listen_address address = ok ()"
    by (auto simp: validate_loopback_address_def bind_result_eq_ok)
  then obtain host n where h: "listen_parts address host n" unfolding validate_listen_ok by blast
  with loop have "\<exists>a. parse_addr host = Some a \<and> is_loopback a"
    by (auto simp: validate_loopback_address_def bind_result_eq_ok listen_parts_def split: option.split_asm if_split_asm)
  with h show "\<exists>host n a. listen_parts address host n \<and> parse_addr host = Some a \<and> is_loopback a" by blast
next
  assume "\<exists>host n a. listen_parts address host n \<and> parse_addr host = Some a \<and> is_loopback a"
  then obtain host n a where h: "listen_parts address host n" "parse_addr host = Some a" "is_loopback a" by blast
  then have "validate_listen_address address = ok ()" unfolding validate_listen_ok by blast
  with h show "validate_loopback_address address = ok ()"
    by (auto simp: validate_loopback_address_def listen_parts_def)
qed

lemma validate_relay_url_ok:
  "validate_relay_url u = ok () \<longleftrightarrow> url_scheme u = ''wss'' \<and> \<not> url_has_user u \<and> url_raw_query u = []
     \<and> url_fragment u = [] \<and> url_hostname u \<noteq> [] \<and> parse_addr (url_hostname u) = None
     \<and> url_port u \<in> {[], ''443''} \<and> has_prefix (url_escaped_path u) ''/''"
  by (auto simp: validate_relay_url_def)

lemma validate_doh_url_ok:
  "validate_doh_url v = ok () \<longleftrightarrow> (\<exists>u. v = Some u \<and> url_scheme u = ''https'' \<and> \<not> url_has_user u
     \<and> url_raw_query u = [] \<and> url_fragment u = [] \<and> url_hostname u \<noteq> []
     \<and> has_prefix (url_escaped_path u) ''/'' \<and> \<not> contains (to_lower (url_escaped_path u)) ''%2f'')"
  by (cases v) (auto simp: validate_doh_url_def)

definition dialable :: "addr \<Rightarrow> bool" where
  "dialable a \<longleftrightarrow> is_valid a \<and> \<not> is_unspecified a \<and> \<not> is_multicast a"

lemma validate_bootstrap_ok: "validate_bootstrap_address a = ok () \<longleftrightarrow> dialable a"
  by (simp add: validate_bootstrap_address_def dialable_def)

lemma validate_bootstrap_all_ok: "validate_bootstrap_addresses as = ok () \<longleftrightarrow> (\<forall>a \<in> set as. dialable a)"
  by (induction as) (simp_all add: bind_result_eq_ok validate_bootstrap_ok)

text \<open>
  The resolver is reachable without a lookup: at a bootstrap address, or at the endpoint, whose
  host is then an address.
\<close>

lemma validate_doh_bootstrap_ok:
  "validate_doh_bootstrap endpoint as = ok () \<longleftrightarrow> (\<forall>a \<in> set as. dialable a)
     \<and> (as \<noteq> [] \<or> (\<exists>u. endpoint = Some u \<and> parse_addr (url_hostname u) \<noteq> None))"
  by (auto simp: validate_doh_bootstrap_def bind_result_eq_ok validate_bootstrap_all_ok split: option.splits)

lemma parse_bootstrap_loop_ok:
  "parse_bootstrap_loop acc es = ok as \<Longrightarrow>
     \<exists>bs. as = acc @ bs \<and> list_all2 (\<lambda>e b. parse_addr (trim_space e) = Some b \<and> dialable b) es bs"
proof (induction es arbitrary: acc)
  case (Cons e es)
  then obtain a where a: "parse_addr (trim_space e) = Some a" "dialable a"
    "parse_bootstrap_loop (acc @ [a]) es = ok as"
    by (auto simp: bind_result_eq_ok validate_bootstrap_ok split: option.split_asm)
  from Cons.IH [OF a(3)] a(1,2) show ?case by fastforce
qed simp

lemmas parse_addr_evals = parse_addr_def parse_ipv4_def parse_ipv4_fields_def parse_ipv6_def ipv6_loop.simps
  ipv6_finish_def hex_value_def is_digit_def in_range_def has_prefix_def

lemma parse_built_in_no_panic: "\<forall>e \<in> set es. parse_addr e \<noteq> None \<Longrightarrow> no_panic (parse_built_in es)"
  by (induction es) (auto intro!: no_panic_intros)

lemma known_bootstrap_parses: "\<forall>p \<in> set known_doh_bootstrap. \<forall>e \<in> set (snd p). parse_addr e \<noteq> None"
  unfolding known_doh_bootstrap_def by (simp add: parse_addr_evals)

lemma default_bootstrap_no_panic: "no_panic (default_doh_bootstrap u)"
  using known_bootstrap_parses map_of_SomeD [of known_doh_bootstrap]
  by (auto simp: default_doh_bootstrap_def intro!: parse_built_in_no_panic split: option.split) fastforce

text \<open>A client configuration that was accepted.\<close>

lemma validate_client_ok:
  assumes "validate_client c = ok ()"
  shows "\<exists>host n a. listen_parts (c_listen c) host n \<and> parse_addr host = Some a \<and> is_loopback a"
    and "\<exists>u. c_relay_url c = Some u \<and> validate_relay_url u = ok ()"
    and "\<not> pin_is_zero (c_server_pin c)" and "c_token_file c \<noteq> []"
    and "validate_doh_url (c_doh_url c) = ok ()" and "validate_doh_bootstrap (c_doh_url c) (c_doh_bootstrap c) = ok ()"
    and "c_ech c = ech_required \<or> c_ech c = ech_insecure_disabled"
    and "\<not> allowlist_is_empty (c_allowlist c)" and "valid_timeouts (c_timeouts c)"
    and "validate_log_options (c_log c) = ok ()"
  using assms unfolding validate_client_def
  by (simp_all add: bind_result_eq_ok validate_loopback_ok parse_ech_mode_ok validate_timeouts_ok
      split: option.split_asm if_split_asm)

lemma validate_server_ok:
  assumes "validate_server s = ok ()"
  shows "\<exists>host n. listen_parts (s_listen s) host n \<and> (host = [] \<or> parse_addr host \<noteq> None)"
    and "s_token_file s \<noteq> []" and "s_identity_file s \<noteq> []"
    and "length (pins (s_client_pins s)) \<le> max_client_pins"
    and "validate_doh_url (s_doh_url s) = ok ()" and "validate_doh_bootstrap (s_doh_url s) (s_doh_bootstrap s) = ok ()"
    and "\<not> allowlist_is_empty (s_allowlist s)" and "valid_timeouts (s_timeouts s)"
    and "0 < max_sessions (s_limits s)" and "256 \<le> max_control_message_bytes (s_limits s)"
    and "max_control_message_bytes (s_limits s) \<le> 1048576"
  using assms unfolding validate_server_def
  by (simp_all add: bind_result_eq_ok validate_listen_ok validate_timeouts_ok validate_limits_ok
      split: if_splits)

end
