(* ===== verification/Config_Toml.thy ===== *)
theory Config_Toml
  imports Config_Settings
begin

text \<open>
  \<open>internal/config/toml.go\<close>: the subset of TOML the configuration files are written in. A document
  is the list of its entries in file order; the lookup of a key is \<open>map_of\<close> over it. Indexing and
  slicing keep the panic of Go as a value. The parser of durations is the standard library's and
  stays an argument: its fractions are computed in floating point.
\<close>

datatype toml_fault =
    ExpectedKeyValue | EmptyKey | BadKey string | MalformedHeader | ArrayOfTables | NestedTables
  | TableName toml_fault | UnbalancedBracket | UnterminatedString | UnterminatedArray | NoValue string
  | DuplicateKey string nat | UnknownKey string | NotQuoted | InvalidString | NotAnArray
  | NestedArrays | EmptyElement | ValuesNotQuoted | MustBeString string | MustBeBool string
  | MustBeInteger string | MustBeDuration string | NotADuration string | InKey string toml_fault

datatype toml_error = AtLine nat toml_fault | ReadToml "string scan_error"

record toml_entry =
  entry_raw :: string
  entry_line :: nat

type_synonym toml_document = "(string \<times> toml_entry) list"

section \<open>Values with quotes and comments\<close>

definition double_quote :: char where "double_quote = CHR 0x22"
definition single_quote :: char where "single_quote = CHR 0x27"
definition backslash :: char where "backslash = CHR 0x5C"

text \<open>
  The state inside a string: the quote that closes it and whether the previous byte escapes. One
  step of it is shared by the two scanners.
\<close>

definition quote_step :: "char \<Rightarrow> bool \<Rightarrow> char \<Rightarrow> char option \<times> bool" where
  "quote_step q escaped c =
     (if escaped then (Some q, False)
      else if q = double_quote \<and> c = backslash then (Some q, True)
      else if c = q then (None, False)
      else (Some q, False))"

fun scan_value_loop ::
  "string \<Rightarrow> char option \<Rightarrow> bool \<Rightarrow> nat \<Rightarrow> string \<Rightarrow> (toml_fault, string \<times> nat) result" where
  "scan_value_loop value quote escaped depth [] =
     (if quote \<noteq> None then err UnterminatedString else ok (trim_space value, depth))"
| "scan_value_loop value (Some q) escaped depth (c # cs) =
     (case quote_step q escaped c of (quote, escaped) \<Rightarrow> scan_value_loop (value @ [c]) quote escaped depth cs)"
| "scan_value_loop value None escaped depth (c # cs) =
     (if c = CHR ''#'' then ok (trim_space value, depth)
      else if c = double_quote \<or> c = single_quote then scan_value_loop (value @ [c]) (Some c) escaped depth cs
      else if c = CHR ''['' then scan_value_loop (value @ [c]) None escaped (depth + 1) cs
      else if c = CHR '']'' then
        (if depth = 0 then err UnbalancedBracket else scan_value_loop (value @ [c]) None escaped (depth - 1) cs)
      else scan_value_loop (value @ [c]) None escaped depth cs)"

definition scan_value :: "string \<Rightarrow> nat \<Rightarrow> (toml_fault, string \<times> nat) result" where
  "scan_value line depth = scan_value_loop [] None False depth line"

section \<open>Keys and tables\<close>

definition bare_key_char :: "char \<Rightarrow> bool" where
  "bare_key_char c = (in_range 97 122 (code c) \<or> in_range 65 90 (code c) \<or> in_range 48 57 (code c)
     \<or> c = CHR ''_'' \<or> c = CHR ''-'')"

definition validate_bare_key :: "string \<Rightarrow> (toml_fault, unit) result" where
  "validate_bare_key name =
     (if name = [] then err EmptyKey else if \<not> list_all bare_key_char name then err (BadKey name) else ok ())"

definition parse_table_header :: "string \<Rightarrow> (toml_fault, string) result" where
  "parse_table_header line =
     (if \<not> has_suffix line '']'' then err MalformedHeader
      else bind_result (slice line 1 (length line - 1)) (\<lambda>inner.
        let name = trim_space inner in
        if has_prefix name ''['' then err ArrayOfTables
        else if contains name ''.'' then err NestedTables
        else bind_result (map_err TableName (validate_bare_key name)) (\<lambda>_. ok name)))"

section \<open>Documents\<close>

definition clean_line :: "string \<Rightarrow> string" where
  "clean_line text = trim_space (trim_suffix text [CHR 0x0D])"

definition at_line :: "nat \<Rightarrow> (toml_fault, 'a) result \<Rightarrow> (toml_error, 'a) result" where
  "at_line n m = map_err (AtLine n) m"

text \<open>An array that continues: the text, the number of lines read and the lines left.\<close>

fun continue_array ::
  "nat \<Rightarrow> nat \<Rightarrow> string \<Rightarrow> nat \<Rightarrow> string list \<Rightarrow> (toml_error, string \<times> nat \<times> string list) result" where
  "continue_array start n raw depth lines =
     (if depth = 0 then ok (raw, n, lines)
      else case lines of
        [] \<Rightarrow> err (AtLine start UnterminatedArray)
      | l # ls \<Rightarrow> bind_result (at_line (n + 1) (scan_value (clean_line l) depth)) (\<lambda>(fragment, continued).
          continue_array start (n + 1) (raw @ fragment) continued ls))"

declare continue_array.simps [simp del]

lemma continue_array_length:
  "continue_array start n raw depth lines = ok (raw', n', rest) \<Longrightarrow> length rest \<le> length lines"
proof (induction lines arbitrary: n raw depth)
  case Nil
  then show ?case by (simp add: continue_array.simps split: if_split_asm)
next
  case (Cons l ls)
  show ?case
  proof (cases "depth = 0")
    case True
    with Cons.prems show ?thesis by (simp add: continue_array.simps)
  next
    case False
    with Cons.prems obtain f d where "continue_array start (n + 1) (raw @ f) d ls = ok (raw', n', rest)"
      by (subst (asm) continue_array.simps) (auto simp: bind_result_eq_ok)
    from Cons.IH [OF this] show ?thesis by simp
  qed
qed

definition qualified_key :: "string \<Rightarrow> string \<Rightarrow> string" where
  "qualified_key table name = (if table \<noteq> [] then table @ ''.'' @ name else name)"

function parse_lines ::
  "string scan_error option \<Rightarrow> string \<Rightarrow> nat \<Rightarrow> toml_document \<Rightarrow> string list \<Rightarrow> (toml_error, toml_document) result" where
  "parse_lines serr table n doc [] =
     (case serr of Some e \<Rightarrow> err (ReadToml e) | None \<Rightarrow> ok doc)"
| "parse_lines serr table n doc (l # ls) =
     (let line = clean_line l; n = n + 1 in
      if line = [] \<or> has_prefix line ''#'' then parse_lines serr table n doc ls
      else if has_prefix line ''['' then
        bind_result (at_line n (parse_table_header line)) (\<lambda>name. parse_lines serr name n doc ls)
      else case cut_at CHR ''='' line of
        None \<Rightarrow> err (AtLine n ExpectedKeyValue)
      | Some (key, value) \<Rightarrow>
          let name = trim_space key in
          bind_result (at_line n (validate_bare_key name)) (\<lambda>_.
          bind_result (at_line n (scan_value (trim_space value) 0)) (\<lambda>(raw, depth).
          bind_result (continue_array n n raw depth ls) (\<lambda>(raw, last, rest).
            if raw = [] then err (AtLine n (NoValue name))
            else case map_of doc (qualified_key table name) of
              Some previous \<Rightarrow> err (AtLine n (DuplicateKey (qualified_key table name) (entry_line previous)))
            | None \<Rightarrow>
                parse_lines serr table last
                  (doc @ [(qualified_key table name, \<lparr>entry_raw = raw, entry_line = n\<rparr>)]) rest))))"
  by pat_completeness auto
termination
  by (relation "measure (\<lambda>(_, _, _, _, ls). length ls)") (auto dest: continue_array_length)

declare parse_lines.simps(2) [simp del]

definition parse_toml :: "string reader \<Rightarrow> (toml_error, toml_document) result" where
  "parse_toml r = (let (ls, serr) = scan_lines r in parse_lines serr [] 0 [] ls)"

fun reject_unknown_keys :: "string list \<Rightarrow> toml_document \<Rightarrow> (toml_error, unit) result" where
  "reject_unknown_keys known [] = ok ()"
| "reject_unknown_keys known ((key, entry) # doc) =
     (if key \<notin> set known then err (AtLine (entry_line entry) (UnknownKey key)) else reject_unknown_keys known doc)"

section \<open>Typed access\<close>

definition unquote :: "string \<Rightarrow> (toml_fault, string) result" where
  "unquote raw =
     (if 2 \<le> length raw \<and> raw ! 0 = single_quote \<and> raw ! (length raw - 1) = single_quote
        then slice raw 1 (length raw - 1)
      else if 2 \<le> length raw \<and> raw ! 0 = double_quote \<and> raw ! (length raw - 1) = double_quote
        then (case strconv_unquote raw of None \<Rightarrow> err InvalidString | Some v \<Rightarrow> ok v)
      else err NotQuoted)"

text \<open>The elements so far, the current one, and the state inside a string.\<close>

fun split_elements_loop ::
  "string list \<Rightarrow> string \<Rightarrow> char option \<Rightarrow> bool \<Rightarrow> string \<Rightarrow> (toml_fault, string list) result" where
  "split_elements_loop elements current quote escaped [] =
     (if quote \<noteq> None then err UnterminatedString
      else let rest = trim_space current; all = (if rest \<noteq> [] then elements @ [rest] else elements) in
        if [] \<in> set all then err EmptyElement else ok all)"
| "split_elements_loop elements current (Some q) escaped (c # cs) =
     (case quote_step q escaped c of (quote, escaped) \<Rightarrow> split_elements_loop elements (current @ [c]) quote escaped cs)"
| "split_elements_loop elements current None escaped (c # cs) =
     (if c = double_quote \<or> c = single_quote then split_elements_loop elements (current @ [c]) (Some c) escaped cs
      else if c = CHR '','' then split_elements_loop (elements @ [trim_space current]) [] None escaped cs
      else if c = CHR ''['' \<or> c = CHR '']'' then err NestedArrays
      else split_elements_loop elements (current @ [c]) None escaped cs)"

definition split_array_elements :: "string \<Rightarrow> (toml_fault, string list) result" where
  "split_array_elements text = split_elements_loop [] [] None False text"

fun unquote_all :: "string list \<Rightarrow> (toml_fault, string list) result" where
  "unquote_all [] = ok []"
| "unquote_all (e # es) =
     bind_result (map_err (\<lambda>_. ValuesNotQuoted) (unquote e)) (\<lambda>v.
       bind_result (unquote_all es) (\<lambda>vs. ok (v # vs)))"

definition parse_string_array :: "string \<Rightarrow> (toml_fault, string list) result" where
  "parse_string_array raw =
     (if \<not> has_prefix raw ''['' \<or> \<not> has_suffix raw '']'' then err NotAnArray
      else bind_result (slice raw 1 (length raw - 1)) (\<lambda>inner.
        let text = trim_space inner in
        if text = [] then ok []
        else bind_result (split_array_elements text) unquote_all))"

text \<open>
  The setters assign when the key is present: here the new value from the old one. \<open>apply_entry\<close> is
  what they share.
\<close>

definition apply_entry ::
  "toml_document \<Rightarrow> string \<Rightarrow> (string \<Rightarrow> (toml_fault, 'a) result) \<Rightarrow> 'a \<Rightarrow> (toml_error, 'a) result" where
  "apply_entry doc key convert old =
     (case map_of doc key of None \<Rightarrow> ok old | Some e \<Rightarrow> at_line (entry_line e) (convert (entry_raw e)))"

definition apply_string :: "toml_document \<Rightarrow> string \<Rightarrow> string \<Rightarrow> (toml_error, string) result" where
  "apply_string doc key old = apply_entry doc key (\<lambda>raw. map_err (\<lambda>_. MustBeString key) (unquote raw)) old"

definition apply_bool :: "toml_document \<Rightarrow> string \<Rightarrow> bool \<Rightarrow> (toml_error, bool) result" where
  "apply_bool doc key old =
     apply_entry doc key (\<lambda>raw. if raw = ''true'' then ok True else if raw = ''false'' then ok False
       else err (MustBeBool key)) old"

definition apply_int :: "toml_document \<Rightarrow> string \<Rightarrow> int \<Rightarrow> (toml_error, int) result" where
  "apply_int doc key old =
     apply_entry doc key (\<lambda>raw. case atoi raw of None \<Rightarrow> err (MustBeInteger key) | Some n \<Rightarrow> ok n) old"

definition apply_duration ::
  "(string \<Rightarrow> int option) \<Rightarrow> toml_document \<Rightarrow> string \<Rightarrow> int \<Rightarrow> (toml_error, int) result" where
  "apply_duration parse_duration doc key old =
     apply_entry doc key (\<lambda>raw. bind_result (map_err (\<lambda>_. MustBeDuration key) (unquote raw)) (\<lambda>text.
       case parse_duration text of None \<Rightarrow> err (NotADuration key) | Some d \<Rightarrow> ok d)) old"

definition apply_strings :: "toml_document \<Rightarrow> string \<Rightarrow> string list \<Rightarrow> (toml_error, string list) result" where
  "apply_strings doc key old = apply_entry doc key (\<lambda>raw. map_err (InKey key) (parse_string_array raw)) old"

section \<open>No file makes the parser panic\<close>

lemma scan_value_loop_no_panic: "no_panic (scan_value_loop v quote escaped depth cs)"
  by (induction v quote escaped depth cs rule: scan_value_loop.induct) (auto split: prod.split)

lemma at_line_no_panic [no_panic_intros]: "no_panic m \<Longrightarrow> no_panic (at_line n m)"
  by (simp add: at_line_def)

lemma scan_value_no_panic [no_panic_intros]: "no_panic (scan_value line depth)"
  by (simp add: scan_value_def scan_value_loop_no_panic)

lemma validate_bare_key_no_panic [no_panic_intros]: "no_panic (validate_bare_key name)"
  by (simp add: validate_bare_key_def)

text \<open>The two ends of a bracketed or quoted text are two bytes, so it has an inside to slice.\<close>

lemma parse_table_header_no_panic [no_panic_intros]:
  assumes "has_prefix line ''[''"
  shows "no_panic (parse_table_header line)"
proof -
  have "1 \<le> length line - 1" if "has_suffix line '']''"
    using that assms by (cases line; cases "tl line") (auto simp: has_prefix_def has_suffix_def)
  then show ?thesis
    unfolding parse_table_header_def by (auto intro!: no_panic_intros simp: no_panic_map_err)
qed

lemma continue_array_no_panic [no_panic_intros]: "no_panic (continue_array start n raw depth lines)"
proof (induction lines arbitrary: n raw depth)
  case Nil
  show ?case by (simp add: continue_array.simps)
next
  case (Cons l ls)
  then show ?case
    by (subst continue_array.simps) (auto intro!: no_panic_intros)
qed

lemma parse_lines_no_panic: "no_panic (parse_lines serr table n doc ls)"
proof (induction "length ls" arbitrary: table n doc ls rule: less_induct)
  case less
  show ?case
  proof (cases ls)
    case Nil
    then show ?thesis by (simp split: option.split)
  next
    case (Cons l rest)
    have shorter: "no_panic (parse_lines serr t k d ls')" if "length ls' \<le> length rest" for t k d ls'
      using that by (intro less) (simp add: Cons)
    show ?thesis
      unfolding Cons parse_lines.simps(2) Let_def
      by (auto intro!: no_panic_intros shorter dest: continue_array_length split: option.split)
  qed
qed

lemma parse_toml_no_panic: "no_panic (parse_toml r)"
  by (simp add: parse_toml_def parse_lines_no_panic split: prod.split)

lemma unquote_no_panic [no_panic_intros]: "no_panic (unquote raw)"
  by (auto simp: unquote_def split: option.split)

lemma split_elements_loop_no_panic: "no_panic (split_elements_loop es current quote escaped cs)"
  by (induction es current quote escaped cs rule: split_elements_loop.induct)
    (auto simp: Let_def split: prod.split)

lemma unquote_all_no_panic: "no_panic (unquote_all es)"
  by (induction es) (auto intro!: no_panic_intros simp: no_panic_map_err)

lemma parse_string_array_no_panic [no_panic_intros]: "no_panic (parse_string_array raw)"
proof -
  have "1 \<le> length raw - 1" if "has_prefix raw ''[''" "has_suffix raw '']''"
    using that by (cases raw; cases "tl raw") (auto simp: has_prefix_def has_suffix_def)
  then show ?thesis
    unfolding parse_string_array_def
    by (auto intro!: no_panic_intros unquote_all_no_panic simp: split_array_elements_def split_elements_loop_no_panic)
qed

section \<open>What a parsed document is\<close>

text \<open>
  A key is a bare key, alone or behind the bare key of its table; no key comes twice; and every
  value is some text.
\<close>

definition bare_key :: "string \<Rightarrow> bool" where
  "bare_key s \<longleftrightarrow> s \<noteq> [] \<and> list_all bare_key_char s"

definition document_key :: "string \<Rightarrow> bool" where
  "document_key k \<longleftrightarrow> bare_key k \<or> (\<exists>t s. bare_key t \<and> bare_key s \<and> k = t @ ''.'' @ s)"

definition valid_document :: "toml_document \<Rightarrow> bool" where
  "valid_document doc \<longleftrightarrow> distinct (map fst doc) \<and> (\<forall>(k, e) \<in> set doc. document_key k \<and> entry_raw e \<noteq> [])"

lemma validate_bare_key_ok: "validate_bare_key s = ok () \<longleftrightarrow> bare_key s"
  by (simp add: validate_bare_key_def bare_key_def)

lemma at_line_ok [simp]: "at_line n m = ok x \<longleftrightarrow> m = ok x"
  by (simp add: at_line_def)

lemma parse_table_header_ok: "parse_table_header line = ok name \<Longrightarrow> bare_key name"
  by (auto simp: parse_table_header_def bind_result_eq_ok Let_def validate_bare_key_ok split: if_split_asm)

lemma document_key_qualified: "bare_key name \<Longrightarrow> table = [] \<or> bare_key table \<Longrightarrow> document_key (qualified_key table name)"
  by (auto simp: qualified_key_def document_key_def bare_key_def)

text \<open>One line of a file that parses: nothing, a table, or an entry and the lines of its array.\<close>

lemma parse_lines_step:
  assumes "parse_lines serr table n doc (l # ls) = ok doc'"
  obtains (skip) "parse_lines serr table (n + 1) doc ls = ok doc'"
  | (header) name where "bare_key name" "parse_lines serr name (n + 1) doc ls = ok doc'"
  | (entry) name raw k rest where "bare_key name" "raw \<noteq> []" "qualified_key table name \<notin> fst ` set doc"
      "length rest \<le> length ls"
      "parse_lines serr table k (doc @ [(qualified_key table name, \<lparr>entry_raw = raw, entry_line = n + 1\<rparr>)]) rest = ok doc'"
proof -
  let ?line = "clean_line l"
  consider (a) "?line = [] \<or> has_prefix ?line ''#''" | (b) "\<not> (?line = [] \<or> has_prefix ?line ''#'')" "has_prefix ?line ''[''"
    | (c) "\<not> (?line = [] \<or> has_prefix ?line ''#'')" "\<not> has_prefix ?line ''[''" by blast
  then show thesis
  proof cases
    case a
    with assms show ?thesis by (intro skip) (simp add: parse_lines.simps(2) Let_def)
  next
    case b
    with assms show ?thesis
      by (auto simp: parse_lines.simps(2) Let_def bind_result_eq_ok dest: parse_table_header_ok intro: header)
  next
    case c
    from assms c obtain key v where cut: "cut_at CHR ''='' ?line = Some (key, v)"
      by (cases "cut_at CHR ''='' ?line") (auto simp: parse_lines.simps(2) Let_def)
    from assms c cut obtain raw0 depth raw k rest where e: "bare_key (trim_space key)" "raw \<noteq> []"
      "continue_array (n + 1) (n + 1) raw0 depth ls = ok (raw, k, rest)"
      "map_of doc (qualified_key table (trim_space key)) = None"
      "parse_lines serr table k
         (doc @ [(qualified_key table (trim_space key), \<lparr>entry_raw = raw, entry_line = n + 1\<rparr>)]) rest = ok doc'"
      by (auto simp: parse_lines.simps(2) Let_def bind_result_eq_ok validate_bare_key_ok
          split: if_split_asm option.split_asm)
    from e(3) have "length rest \<le> length ls" by (rule continue_array_length)
    with e show ?thesis by (intro entry) (auto simp: map_of_eq_None_iff)
  qed
qed

lemma parse_lines_valid:
  "parse_lines serr table n doc ls = ok doc' \<Longrightarrow> table = [] \<or> bare_key table \<Longrightarrow> valid_document doc \<Longrightarrow>
     valid_document doc'"
proof (induction "length ls" arbitrary: table n doc ls rule: less_induct)
  case less
  show ?case
  proof (cases ls)
    case Nil
    with less.prems show ?thesis by (auto split: option.split_asm)
  next
    case (Cons l rest)
    from less.prems(1) [unfolded Cons] show ?thesis
    proof (cases rule: parse_lines_step)
      case skip
      from less.hyps [OF _ this less.prems(2,3)] show ?thesis by (simp add: Cons)
    next
      case (header name)
      from less.hyps [OF _ header(2) _ less.prems(3)] header(1) show ?thesis by (simp add: Cons)
    next
      case (entry name raw k rest')
      have "valid_document (doc @ [(qualified_key table name, \<lparr>entry_raw = raw, entry_line = n + 1\<rparr>)])"
        using less.prems(2,3) entry(1-3) document_key_qualified [OF entry(1)]
        by (auto simp: valid_document_def)
      from less.hyps [OF _ entry(5) less.prems(2) this] entry(4) show ?thesis by (simp add: Cons)
    qed
  qed
qed

lemma parse_toml_valid: "parse_toml r = ok doc \<Longrightarrow> valid_document doc"
  by (auto simp: parse_toml_def valid_document_def split: prod.split_asm dest: parse_lines_valid)

lemma reject_unknown_ok: "reject_unknown_keys known doc = ok () \<longleftrightarrow> fst ` set doc \<subseteq> set known"
  by (induction known doc rule: reject_unknown_keys.induct) auto

section \<open>A written document is read back\<close>

definition quoted :: "string \<Rightarrow> string" where
  "quoted v = double_quote # v @ [double_quote]"

definition setting_line :: "string \<times> string \<Rightarrow> string" where
  "setting_line p = fst p @ '' = '' @ quoted (snd p)"

lemma plain_char_ascii: "list_all plain_char v \<Longrightarrow> is_ascii v"
  by (auto simp: is_ascii_iff list_all_iff plain_char_def)

lemma bare_key_char_facts:
  "bare_key_char c \<Longrightarrow> code c < 128 \<and> \<not> is_space (code c) \<and> c \<notin> {CHR ''='', CHR ''#'', CHR ''['', CHR ''.''}"
  by (auto simp: bare_key_char_def in_range_def is_space_def)

lemma trim_space_wrapped:
  assumes "is_ascii s" and "s \<noteq> []" and "\<not> is_space (code (hd s))" and "\<not> is_space (code (last s))"
  shows "trim_space s = s"
  using assms by (simp add: trim_space_ascii trim_by_id)

lemma trim_by_snoc: "p x \<Longrightarrow> trim_by p (xs @ [x]) = trim_by p xs"
  by (cases "\<exists>y \<in> set xs. \<not> p y") (auto simp: trim_by_def dropWhile_append dest: set_dropWhileD)

lemma quoted_facts:
  assumes "list_all plain_char v"
  shows "is_ascii (quoted v)" and "trim_space (quoted v) = quoted v" and "unquote (quoted v) = ok v"
proof -
  show a: "is_ascii (quoted v)"
    using plain_char_ascii [OF assms] by (auto simp: quoted_def double_quote_def is_ascii_iff)
  then show "trim_space (quoted v) = quoted v"
    by (rule trim_space_wrapped) (simp_all add: quoted_def double_quote_def is_space_def in_range_def)
  show "unquote (quoted v) = ok v"
    using strconv_unquote_plain [OF assms]
    by (simp add: unquote_def quoted_def double_quote_def single_quote_def nth_append)
qed

lemma quoted_not_Nil: "quoted v \<noteq> []"
  by (simp add: quoted_def)

lemma scan_value_loop_inside:
  "list_all plain_char v \<Longrightarrow> scan_value_loop acc (Some double_quote) False depth (v @ double_quote # rest)
     = scan_value_loop (acc @ v @ [double_quote]) None False depth rest"
  by (induction v arbitrary: acc)
    (auto simp: quote_step_def plain_char_def double_quote_def backslash_def)

text \<open>A comment ends the value; a number sign inside the string does not.\<close>

lemma scan_value_quoted:
  assumes "list_all plain_char v"
  shows "scan_value (quoted v) depth = ok (quoted v, depth)"
    and "scan_value (quoted v @ ''#'' @ comment) depth = ok (quoted v, depth)"
proof -
  have "scan_value (quoted v @ rest) depth = scan_value_loop (quoted v) None False depth rest" for rest
    using scan_value_loop_inside [OF assms, of "[double_quote]" depth rest]
    by (simp add: scan_value_def quoted_def double_quote_def)
  note s = this
  from s [of "[]"] s [of "''#'' @ comment"]
  show "scan_value (quoted v) depth = ok (quoted v, depth)"
    "scan_value (quoted v @ ''#'' @ comment) depth = ok (quoted v, depth)"
    by (simp_all add: quoted_facts [OF assms])
qed

lemma setting_line_facts:
  assumes "bare_key name" and "list_all plain_char v"
  shows "clean_line (setting_line (name, v)) = setting_line (name, v)"
    and "\<not> has_prefix (setting_line (name, v)) ''#''" and "\<not> has_prefix (setting_line (name, v)) ''[''"
    and "cut_at CHR ''='' (setting_line (name, v)) = Some (name @ '' '', '' '' @ quoted v)"
    and "trim_space (name @ '' '') = name" and "trim_space ('' '' @ quoted v) = quoted v"
proof -
  from assms(1) obtain c cs where n: "name = c # cs" "bare_key_char c" and all: "list_all bare_key_char name"
    by (cases name) (auto simp: bare_key_def)
  have ascii: "is_ascii name" using all bare_key_char_facts by (auto simp: is_ascii_iff list_all_iff)
  have free: "CHR ''='' \<notin> set name" using all bare_key_char_facts by (fastforce simp: list_all_iff)
  have line: "setting_line (name, v) = (name @ '' = '' @ double_quote # v) @ [double_quote]"
    by (simp add: setting_line_def quoted_def)
  have "trim_suffix (setting_line (name, v)) [CHR 0x0D] = setting_line (name, v)"
    unfolding trim_suffix_def has_suffix_iff line append_assoc [symmetric] append1_eq_conv by (simp add: double_quote_def)
  moreover have "trim_space (setting_line (name, v)) = setting_line (name, v)"
  proof (rule trim_space_wrapped)
    show "is_ascii (setting_line (name, v))"
      using ascii quoted_facts(1) [OF assms(2)] by (auto simp: setting_line_def is_ascii_iff)
    show "\<not> is_space (code (hd (setting_line (name, v))))"
      using n bare_key_char_facts by (simp add: setting_line_def)
    show "\<not> is_space (code (last (setting_line (name, v))))"
      unfolding line last_snoc by (simp add: double_quote_def is_space_def in_range_def)
  qed (simp add: setting_line_def)
  ultimately show "clean_line (setting_line (name, v)) = setting_line (name, v)" by (simp add: clean_line_def)
  show "\<not> has_prefix (setting_line (name, v)) ''#''" "\<not> has_prefix (setting_line (name, v)) ''[''"
    using n bare_key_char_facts [OF n(2)] by (auto simp: setting_line_def has_prefix_def)
  show "cut_at CHR ''='' (setting_line (name, v)) = Some (name @ '' '', '' '' @ quoted v)"
    using free by (simp add: cut_at_Some setting_line_def)
  have sp: "is_space 32" by (simp add: is_space_def)
  have ns: "trim_by (\<lambda>c. is_space (code c)) name = name"
    using trim_space_wrapped [OF ascii] n all bare_key_char_facts ascii
    by (metis last_in_set list.distinct(1) list.sel(1) list_all_iff trim_space_ascii)
  show "trim_space (name @ '' '') = name"
    using ns ascii sp by (simp add: trim_space_ascii is_ascii_iff trim_by_snoc)
  show "trim_space ('' '' @ quoted v) = quoted v"
    using quoted_facts(1,2) [OF assms(2)] sp by (simp add: trim_space_ascii trim_by_def)
qed

lemma parse_lines_settings:
  "\<forall>(name, v) \<in> set ps. bare_key name \<and> list_all plain_char v \<Longrightarrow>
   distinct (map fst ps) \<Longrightarrow> fst ` set doc \<inter> fst ` set ps = {} \<Longrightarrow>
     \<exists>ns. length ns = length ps \<and> parse_lines None [] n doc (map setting_line ps) =
       ok (doc @ map2 (\<lambda>(name, v) k. (name, \<lparr>entry_raw = quoted v, entry_line = k\<rparr>)) ps ns)"
proof (induction ps arbitrary: n doc)
  case (Cons p ps)
  obtain name v where p: "p = (name, v)" by (cases p)
  with Cons.prems have b: "bare_key name" "list_all plain_char v" by auto
  let ?e = "(name, \<lparr>entry_raw = quoted v, entry_line = n + 1\<rparr>)"
  note f = setting_line_facts [OF b]
  have ne: "setting_line (name, v) \<noteq> []" by (simp add: setting_line_def)
  have fresh: "map_of doc name = None" using Cons.prems(3) p by (auto simp: map_of_eq_None_iff)
  have "parse_lines None [] n doc (map setting_line (p # ps)) = parse_lines None [] (n + 1) (doc @ [?e]) (map setting_line ps)"
    using fresh b(1) ne
    unfolding p list.map parse_lines.simps(2) Let_def f(1)
    by (simp only: f option.case prod.case if_False simp_thms)
      (simp add: validate_bare_key_def bare_key_def at_line_def scan_value_quoted(1) [OF b(2)] continue_array.simps
        qualified_key_def quoted_not_Nil)
  moreover from Cons.IH [of "doc @ [?e]" "n + 1"] Cons.prems obtain ns where
    "length ns = length ps" "parse_lines None [] (n + 1) (doc @ [?e]) (map setting_line ps) =
       ok ((doc @ [?e]) @ map2 (\<lambda>(name, v) k. (name, \<lparr>entry_raw = quoted v, entry_line = k\<rparr>)) ps ns)"
    by (auto simp: p)
  ultimately show ?case by (intro exI [of _ "(n + 1) # ns"]) (simp add: p)
qed simp

text \<open>
  A file written as settings, one per line, parses, and every setting is read back as it was
  written.
\<close>

lemma newline_not_bare: "\<not> bare_key_char newline"
  by (simp add: bare_key_char_def newline_def in_range_def)

lemma parse_toml_settings:
  assumes "\<forall>(name, v) \<in> set ps. bare_key name \<and> list_all plain_char v \<and> length name + length v + 5 \<le> max_scan_line"
    and "distinct (map fst ps)"
  shows "\<exists>doc. parse_toml \<lparr>content = concat (map (\<lambda>p. setting_line p @ [newline]) ps), read_error = None\<rparr> = ok doc
    \<and> map fst doc = map fst ps \<and> (\<forall>(name, v) \<in> set ps. apply_string doc name old = ok v)"
proof -
  have w: "newline \<notin> set (setting_line p) \<and> length (setting_line p) \<le> max_scan_line
      \<and> (setting_line p = [] \<or> last (setting_line p) \<noteq> CHR 0x0D)" if p: "p \<in> set ps" for p
  proof -
    obtain name v where n: "p = (name, v)" by (cases p)
    with assms(1) p have f: "list_all bare_key_char name" "list_all plain_char v" "length name + length v + 5 \<le> max_scan_line"
      by (auto simp: bare_key_def)
    have "newline \<notin> set name" "newline \<notin> set v"
      using f(1,2) by (metis list_all_iff newline_def plain_char_def newline_not_bare)
        (metis f(2) list_all_iff newline_def plain_char_def)
    with f(3) show ?thesis by (simp add: n setting_line_def quoted_def double_quote_def newline_def)
  qed
  have scan: "scan_lines \<lparr>content = concat (map (\<lambda>p. setting_line p @ [newline]) ps), read_error = None\<rparr>
      = (map setting_line ps, None)"
    using scan_lines_terminated [of "map setting_line ps"] w unfolding map_map comp_def set_map by blast
  have b: "\<forall>(name, v) \<in> set ps. bare_key name \<and> list_all plain_char v" using assms(1) by auto
  from parse_lines_settings [OF b assms(2), of "[]" 0] obtain ns where ns: "length ns = length ps"
    "parse_lines None [] 0 [] (map setting_line ps) =
       ok (map2 (\<lambda>(name, v) k. (name, \<lparr>entry_raw = quoted v, entry_line = k\<rparr>)) ps ns)" by auto
  let ?doc = "map2 (\<lambda>(name, v) k. (name, \<lparr>entry_raw = quoted v, entry_line = k\<rparr>)) ps ns"
  have keys: "map fst ?doc = map fst ps"
    using ns(1) by (intro nth_equalityI) (auto simp: split_beta)
  have "apply_string ?doc name old = ok v" if m: "(name, v) \<in> set ps" for name v
  proof -
    from m obtain i where i: "i < length ps" "ps ! i = (name, v)" by (auto simp: in_set_conv_nth)
    with ns(1) have "?doc ! i = (name, \<lparr>entry_raw = quoted v, entry_line = ns ! i\<rparr>)" "i < length ?doc" by simp_all
    then have "(name, \<lparr>entry_raw = quoted v, entry_line = ns ! i\<rparr>) \<in> set ?doc" by (metis nth_mem)
    moreover have "distinct (map fst ?doc)" using keys assms(2) by simp
    ultimately have "map_of ?doc name = Some \<lparr>entry_raw = quoted v, entry_line = ns ! i\<rparr>" by simp
    moreover have "list_all plain_char v" using b m by auto
    ultimately show ?thesis by (simp add: apply_string_def apply_entry_def quoted_facts(3))
  qed
  with ns(2) keys show ?thesis by (intro exI [of _ ?doc]) (auto simp: parse_toml_def scan)
qed

section \<open>Two inputs the checks let through\<close>

text \<open>
  A text between two single quotes is taken for one literal string whatever quotes it holds, and a
  table without entries is not among the keys that are checked.
\<close>

lemma literal_with_quotes:
  "unquote (single_quote # ''a'' @ single_quote # '' junk '' @ single_quote # ''b'' @ [single_quote])
     = ok (''a'' @ single_quote # '' junk '' @ single_quote # ''b'')"
  by (simp add: unquote_def slice_def)

lemma unknown_empty_table:
  "parse_toml \<lparr>content = ''[nosuch]'', read_error = None\<rparr> = ok []" "reject_unknown_keys known [] = ok ()"
proof -
  have c: "clean_line ''[nosuch]'' = ''[nosuch]''"
    by (simp add: clean_line_def trim_suffix_def has_suffix_def trim_space_ascii trim_by_id is_space_def in_range_def)
  have t: "trim_space ''nosuch'' = ''nosuch''" by (simp add: trim_space_ascii trim_by_id is_space_def in_range_def)
  have "scan_lines \<lparr>content = ''[nosuch]'', read_error = None\<rparr> = ([''[nosuch]''], None :: string scan_error option)"
    by (simp add: scan_lines_def newline_def max_scan_line_def drop_cr_def)
  then show "parse_toml \<lparr>content = ''[nosuch]'', read_error = None\<rparr> = ok []"
    by (simp add: parse_toml_def parse_lines.simps(2) c t has_prefix_def has_suffix_def parse_table_header_def Let_def
        validate_bare_key_def bare_key_char_def in_range_def at_line_def slice_def)
qed simp

section \<open>Properties\<close>



text \<open>
  Every document the parser returns has distinct keys, each a bare key with at most one table in
  front of it, and no empty value, and the parser never panics.
\<close>

theorem parsed_documents_are_valid:
  "no_panic (parse_toml r) \<and> (\<forall>doc. parse_toml r = ok doc \<longrightarrow> valid_document doc)"
  using parse_toml_no_panic parse_toml_valid by blast

theorem parsed_documents_are_valid_witness:
  "\<exists>doc. parse_toml \<lparr>content = ''[nosuch]'', read_error = None\<rparr> = ok doc \<and> valid_document doc"
  using parsed_documents_are_valid [of "\<lparr>content = ''[nosuch]'', read_error = None\<rparr>"] unknown_empty_table(1) by blast

end
