(* ===== verification/Config_Load.thy ===== *)
theory Config_Load
  imports Config_Toml
begin

text \<open>
  \<open>internal/config/load.go\<close>: a role's configuration from its defaults, its file and the flags
  that were given, in this order. The environment of the process is one record: the files, the
  home and configuration directories, the joining of paths, and the parsers of URLs and durations
  of the standard library. The flags that were given are a list of names; their values are the
  options the flag package filled in.
\<close>

datatype open_error = NotExist | OpenFailed string

record environment =
  env_open :: "string \<Rightarrow> open_error + string reader"
  env_home :: "string option"
  env_config_dir :: "string option"
  env_join :: "string \<Rightarrow> string \<Rightarrow> string"
  env_parse_url :: "string \<Rightarrow> url option"
  env_parse_duration :: "string \<Rightarrow> int option"

datatype load_error =
    TomlFault toml_error | Setting config_error | ConfigFile open_error | Joined "load_error list"
  | RelayURLRequired | RelayURLSyntax | DoHURLSyntax | PinRequired | PinFault pin_error
  | PinSetFault pin_set_error | TokenFileRequired | AllowlistFault pattern_error | AllowlistOpen open_error
  | AllowlistFile "string allowlist_file_error" | TildePath string | NoHome string | NoConfigDir
  | FlagNotApplied string

type_synonym 'a load_result = "(load_error, 'a) result"

definition default_client_listen :: string where "default_client_listen = ''127.0.0.1:18080''"
definition default_server_listen :: string where "default_server_listen = ''127.0.0.1:8686''"
definition default_doh_url :: string where "default_doh_url = ''https://cloudflare-dns.com/dns-query''"

section \<open>Paths\<close>

definition expand_path :: "environment \<Rightarrow> string \<Rightarrow> string load_result" where
  "expand_path env path =
     (if path = [] \<or> \<not> has_prefix path ''~'' then ok path
      else if path \<noteq> ''~'' \<and> \<not> has_prefix path ''~/'' then err (TildePath path)
      else case env_home env of
        None \<Rightarrow> err (NoHome path)
      | Some home \<Rightarrow> ok (if path = ''~'' then home else env_join env home (trim_prefix path ''~/'')))"

definition in_config_dir :: "environment \<Rightarrow> string \<Rightarrow> string" where
  "in_config_dir env file =
     (case env_config_dir env of None \<Rightarrow> [] | Some dir \<Rightarrow> env_join env (env_join env dir ''dproxy'') file)"

definition default_client_token_file :: "environment \<Rightarrow> string" where
  "default_client_token_file env = in_config_dir env ''token''"

definition default_server_identity_file :: "environment \<Rightarrow> string" where
  "default_server_identity_file env = in_config_dir env ''server-identity.pem''"

definition resolve_config_file :: "environment \<Rightarrow> string \<Rightarrow> string \<Rightarrow> (string \<times> bool) load_result" where
  "resolve_config_file env explicit role =
     (if explicit \<noteq> [] then bind_result (expand_path env explicit) (\<lambda>p. ok (p, True))
      else if env_config_dir env = None then err NoConfigDir
      else ok (in_config_dir env (role @ ''.toml''), False))"

section \<open>What the roles share\<close>

record common_draft =
  k_token_file :: string
  k_doh_url :: string
  k_bootstrap :: "string list"
  k_allow_path :: string
  k_allow_entries :: "string list"
  k_timeouts :: timeouts
  k_log :: log_options

record common_options =
  o_config_file :: string
  o_token_file :: string
  o_doh_url :: string
  o_doh_bootstrap :: "string list"
  o_allowlist_file :: string
  o_allow :: "string list"
  o_timeouts :: timeouts
  o_log_level :: string
  o_log_format :: string
  o_log_targets :: bool

definition common_keys :: "string list" where
  "common_keys =
     [''token_file'', ''doh_url'', ''doh_bootstrap'', ''allowlist_file'', ''allowlist'',
      ''timeouts.dial'', ''timeouts.tls_handshake'', ''timeouts.control'', ''timeouts.idle'',
      ''timeouts.max_lifetime'', ''timeouts.shutdown'', ''log.level'', ''log.format'', ''log.include_targets'']"

text \<open>
  \<open>errors.Join\<close> over settings that are all assigned before it is evaluated: every failure is
  reported, and the settings hold only when there was none.
\<close>

definition join_with ::
  "(load_error list, 'd) result \<Rightarrow> ('a \<Rightarrow> 'd \<Rightarrow> 'd) \<Rightarrow> 'a load_result \<Rightarrow> (load_error list, 'd) result" where
  "join_with m update r =
     (case r of
        Inl Panic \<Rightarrow> panic
      | Inl (Err e) \<Rightarrow> (case m of Inl Panic \<Rightarrow> panic | Inl (Err es) \<Rightarrow> err (es @ [e]) | Inr _ \<Rightarrow> err [e])
      | Inr v \<Rightarrow> bind_result m (\<lambda>d. ok (update v d)))"

definition joined :: "(load_error list, 'd) result \<Rightarrow> 'd load_result" where
  "joined m = map_err Joined m"

definition toml :: "(toml_error, 'a) result \<Rightarrow> 'a load_result" where
  "toml m = map_err TomlFault m"

definition apply_log_file :: "toml_document \<Rightarrow> log_options \<Rightarrow> log_options load_result" where
  "apply_log_file doc into =
     bind_result (joined (join_with (join_with (join_with (ok into)
       (\<lambda>v d. d\<lparr>log_level := v\<rparr>) (toml (apply_string doc ''log.level'' (log_level into))))
       (\<lambda>v d. d\<lparr>log_format := v\<rparr>) (toml (apply_string doc ''log.format'' (log_format into))))
       (\<lambda>v d. d\<lparr>log_include_targets := v\<rparr>) (toml (apply_bool doc ''log.include_targets'' (log_include_targets into)))))
     (\<lambda>d. bind_result (map_err Setting (parse_log_level (log_level d))) (\<lambda>l.
       bind_result (map_err Setting (parse_log_format (log_format d))) (\<lambda>f.
         ok (d\<lparr>log_level := l, log_format := f\<rparr>))))"

definition apply_timeout ::
  "environment \<Rightarrow> toml_document \<Rightarrow> string \<Rightarrow> int \<Rightarrow> int load_result" where
  "apply_timeout env doc key old = toml (apply_duration (env_parse_duration env) doc key old)"

text \<open>The fields of the timeouts, as setters of the draft.\<close>

definition on_timeouts :: "(int \<Rightarrow> timeouts \<Rightarrow> timeouts) \<Rightarrow> int \<Rightarrow> 'a common_draft_scheme \<Rightarrow> 'a common_draft_scheme" where
  "on_timeouts f v d = d\<lparr>k_timeouts := f v (k_timeouts d)\<rparr>"

definition apply_common_file ::
  "environment \<Rightarrow> toml_document \<Rightarrow> 'a common_draft_scheme \<Rightarrow> 'a common_draft_scheme load_result" where
  "apply_common_file env doc d =
     (let t = k_timeouts d;
          m = ok d;
          m = join_with m (\<lambda>v d. d\<lparr>k_token_file := v\<rparr>) (toml (apply_string doc ''token_file'' (k_token_file d)));
          m = join_with m (\<lambda>v d. d\<lparr>k_doh_url := v\<rparr>) (toml (apply_string doc ''doh_url'' (k_doh_url d)));
          m = join_with m (\<lambda>v d. d\<lparr>k_bootstrap := v\<rparr>) (toml (apply_strings doc ''doh_bootstrap'' (k_bootstrap d)));
          m = join_with m (\<lambda>v d. d\<lparr>k_allow_path := v\<rparr>) (toml (apply_string doc ''allowlist_file'' (k_allow_path d)));
          m = join_with m (\<lambda>v d. d\<lparr>k_allow_entries := v\<rparr>) (toml (apply_strings doc ''allowlist'' (k_allow_entries d)));
          m = join_with m (on_timeouts (\<lambda>v t. t\<lparr>t_dial := v\<rparr>)) (apply_timeout env doc ''timeouts.dial'' (t_dial t));
          m = join_with m (on_timeouts (\<lambda>v t. t\<lparr>t_tls_handshake := v\<rparr>))
                (apply_timeout env doc ''timeouts.tls_handshake'' (t_tls_handshake t));
          m = join_with m (on_timeouts (\<lambda>v t. t\<lparr>t_control := v\<rparr>)) (apply_timeout env doc ''timeouts.control'' (t_control t));
          m = join_with m (on_timeouts (\<lambda>v t. t\<lparr>t_idle := v\<rparr>)) (apply_timeout env doc ''timeouts.idle'' (t_idle t));
          m = join_with m (on_timeouts (\<lambda>v t. t\<lparr>t_max_lifetime := v\<rparr>))
                (apply_timeout env doc ''timeouts.max_lifetime'' (t_max_lifetime t));
          m = join_with m (on_timeouts (\<lambda>v t. t\<lparr>t_shutdown := v\<rparr>)) (apply_timeout env doc ''timeouts.shutdown'' (t_shutdown t));
          m = join_with m (\<lambda>v d. d\<lparr>k_log := v\<rparr>) (apply_log_file doc (k_log d))
      in joined m)"

definition read_config_file :: "environment \<Rightarrow> string \<Rightarrow> string list \<Rightarrow> toml_document load_result" where
  "read_config_file env path schema =
     (case env_open env path of
        Inl e \<Rightarrow> err (ConfigFile e)
      | Inr handle \<Rightarrow> bind_result (toml (parse_toml handle)) (\<lambda>doc.
          bind_result (toml (reject_unknown_keys schema doc)) (\<lambda>_. ok doc)))"

text \<open>
  The file's part of \<open>Load\<close>: a file that does not exist is passed over unless it was named
  explicitly; any other failure ends the load.
\<close>

definition with_config_file ::
  "environment \<Rightarrow> string \<Rightarrow> string \<Rightarrow> string list \<Rightarrow> (toml_document \<Rightarrow> 'd load_result) \<Rightarrow> 'd \<Rightarrow> 'd load_result" where
  "with_config_file env explicit role schema apply' d =
     bind_result (resolve_config_file env explicit role) (\<lambda>(path, required).
       if path = [] then ok d
       else case read_config_file env path schema of
         Inl Panic \<Rightarrow> panic
       | Inl (Err e) \<Rightarrow> if required \<or> e \<noteq> ConfigFile NotExist then err e else ok d
       | Inr doc \<Rightarrow> apply' doc)"

text \<open>The flags both roles share; a name that none of them handles is an error.\<close>

definition apply_common_flag ::
  "common_options \<Rightarrow> string \<Rightarrow> 'a common_draft_scheme \<Rightarrow> 'a common_draft_scheme load_result" where
  "apply_common_flag o' name d =
     (let t = o_timeouts o' in
      if name = ''config'' then ok d
      else if name = ''dial-timeout'' then ok (on_timeouts (\<lambda>v t. t\<lparr>t_dial := v\<rparr>) (t_dial t) d)
      else if name = ''tls-handshake-timeout'' then ok (on_timeouts (\<lambda>v t. t\<lparr>t_tls_handshake := v\<rparr>) (t_tls_handshake t) d)
      else if name = ''control-timeout'' then ok (on_timeouts (\<lambda>v t. t\<lparr>t_control := v\<rparr>) (t_control t) d)
      else if name = ''idle-timeout'' then ok (on_timeouts (\<lambda>v t. t\<lparr>t_idle := v\<rparr>) (t_idle t) d)
      else if name = ''max-lifetime'' then ok (on_timeouts (\<lambda>v t. t\<lparr>t_max_lifetime := v\<rparr>) (t_max_lifetime t) d)
      else if name = ''shutdown-timeout'' then ok (on_timeouts (\<lambda>v t. t\<lparr>t_shutdown := v\<rparr>) (t_shutdown t) d)
      else if name = ''log-level'' then
        bind_result (map_err Setting (parse_log_level (o_log_level o'))) (\<lambda>l. ok (d\<lparr>k_log := (k_log d)\<lparr>log_level := l\<rparr>\<rparr>))
      else if name = ''log-format'' then
        bind_result (map_err Setting (parse_log_format (o_log_format o'))) (\<lambda>f. ok (d\<lparr>k_log := (k_log d)\<lparr>log_format := f\<rparr>\<rparr>))
      else if name = ''log-targets'' then ok (d\<lparr>k_log := (k_log d)\<lparr>log_include_targets := o_log_targets o'\<rparr>\<rparr>)
      else err (FlagNotApplied name))"

text \<open>The cases of the two flag visitors that are the same in both.\<close>

definition apply_shared_flag ::
  "common_options \<Rightarrow> string \<Rightarrow> 'a common_draft_scheme \<Rightarrow> 'a common_draft_scheme load_result" where
  "apply_shared_flag o' name d =
     (if name = ''token-file'' then ok (d\<lparr>k_token_file := o_token_file o'\<rparr>)
      else if name = ''doh-url'' then ok (d\<lparr>k_doh_url := o_doh_url o'\<rparr>)
      else if name = ''doh-bootstrap'' then ok (d\<lparr>k_bootstrap := o_doh_bootstrap o'\<rparr>)
      else if name = ''allowlist-file'' then ok (d\<lparr>k_allow_path := o_allowlist_file o'\<rparr>)
      else if name = ''allow'' then ok (d\<lparr>k_allow_entries := o_allow o'\<rparr>)
      else apply_common_flag o' name d)"

text \<open>\<open>flags.Visit\<close>: every flag that was given, the errors joined.\<close>

fun visit_flags :: "(string \<Rightarrow> 'd \<Rightarrow> 'd load_result) \<Rightarrow> load_error list \<Rightarrow> 'd \<Rightarrow> string list \<Rightarrow> 'd load_result" where
  "visit_flags f es d [] = (if es = [] then ok d else err (Joined es))"
| "visit_flags f es d (n # ns) =
     (case f n d of
        Inl Panic \<Rightarrow> panic
      | Inl (Err e) \<Rightarrow> visit_flags f (es @ [e]) d ns
      | Inr d' \<Rightarrow> visit_flags f es d' ns)"

text \<open>Inline entries win over a file; with neither the list stays as it is.\<close>

definition apply_allowlist :: "environment \<Rightarrow> string list \<Rightarrow> string \<Rightarrow> allowlist \<Rightarrow> allowlist load_result" where
  "apply_allowlist env entries path into =
     (if entries \<noteq> [] then map_err AllowlistFault (parse_allowlist entries)
      else if path \<noteq> [] then
        bind_result (expand_path env path) (\<lambda>path.
          case env_open env path of
            Inl e \<Rightarrow> err (AllowlistOpen e)
          | Inr handle \<Rightarrow> map_err AllowlistFile (read_allowlist handle))
      else ok into)"

definition resolve_bootstrap :: "url \<Rightarrow> string list \<Rightarrow> addr list load_result" where
  "resolve_bootstrap endpoint entries =
     map_err Setting (if entries = [] then default_doh_bootstrap (Some endpoint) else parse_bootstrap_addresses entries)"

section \<open>The client\<close>

record client_options =
  co_common :: common_options
  co_listen :: string
  co_server :: string
  co_server_pin :: string
  co_client_identity_file :: string
  co_insecure_disable_ech :: bool
  co_flags :: "string list"

record client_draft = common_draft +
  d_listen :: string
  d_ech :: ech_mode
  d_relay_url :: string
  d_pin :: string
  d_identity :: string

definition client_keys :: "string list" where
  "client_keys = [''listen'', ''server'', ''server_pin'', ''client_identity_file'', ''ech''] @ common_keys"

definition client_defaults :: "environment \<Rightarrow> client_draft" where
  "client_defaults env =
     \<lparr>k_token_file = default_client_token_file env, k_doh_url = default_doh_url, k_bootstrap = [],
      k_allow_path = [], k_allow_entries = [], k_timeouts = default_timeouts, k_log = default_log_options,
      d_listen = default_client_listen, d_ech = ech_required, d_relay_url = [], d_pin = [], d_identity = []\<rparr>"

definition client_file :: "environment \<Rightarrow> client_draft \<Rightarrow> toml_document \<Rightarrow> client_draft load_result" where
  "client_file env d doc =
     (let m = ok d;
          m = join_with m (\<lambda>v d. d\<lparr>d_listen := v\<rparr>) (toml (apply_string doc ''listen'' (d_listen d)));
          m = join_with m (\<lambda>v d. d\<lparr>d_relay_url := v\<rparr>) (toml (apply_string doc ''server'' (d_relay_url d)));
          m = join_with m (\<lambda>v d. d\<lparr>d_pin := v\<rparr>) (toml (apply_string doc ''server_pin'' (d_pin d)));
          m = join_with m (\<lambda>v d. d\<lparr>d_identity := v\<rparr>) (toml (apply_string doc ''client_identity_file'' (d_identity d)));
          m = join_with m (\<lambda>v d. d\<lparr>d_ech := v\<rparr>) (toml (apply_string doc ''ech'' (d_ech d)));
          m = join_with m (\<lambda>v d. v\<lparr>d_listen := d_listen d, d_relay_url := d_relay_url d, d_pin := d_pin d,
                d_identity := d_identity d, d_ech := d_ech d\<rparr>) (apply_common_file env doc d)
      in bind_result (joined m) (\<lambda>d. bind_result (map_err Setting (parse_ech_mode (d_ech d))) (\<lambda>mode. ok (d\<lparr>d_ech := mode\<rparr>))))"

definition client_flag :: "client_options \<Rightarrow> string \<Rightarrow> client_draft \<Rightarrow> client_draft load_result" where
  "client_flag o' name d =
     (if name = ''listen'' then ok (d\<lparr>d_listen := co_listen o'\<rparr>)
      else if name = ''server'' then ok (d\<lparr>d_relay_url := co_server o'\<rparr>)
      else if name = ''server-pin'' then ok (d\<lparr>d_pin := co_server_pin o'\<rparr>)
      else if name = ''client-identity-file'' then ok (d\<lparr>d_identity := co_client_identity_file o'\<rparr>)
      else if name = ''insecure-disable-ech'' then
        ok (d\<lparr>d_ech := (if co_insecure_disable_ech o' then ech_insecure_disabled else ech_required)\<rparr>)
      else apply_shared_flag (co_common o') name d)"

definition finish_client :: "environment \<Rightarrow> client_draft \<Rightarrow> client_config load_result" where
  "finish_client env d =
     (if d_relay_url d = [] then err RelayURLRequired
      else case env_parse_url env (d_relay_url d) of
        None \<Rightarrow> err RelayURLSyntax
      | Some relay \<Rightarrow>
      if d_pin d = [] then err PinRequired
      else bind_result (map_err PinFault (parse_pin (d_pin d))) (\<lambda>p.
      case env_parse_url env (k_doh_url d) of
        None \<Rightarrow> err DoHURLSyntax
      | Some doh \<Rightarrow>
      bind_result (resolve_bootstrap doh (k_bootstrap d)) (\<lambda>bootstrap.
      bind_result (expand_path env (k_token_file d)) (\<lambda>token_file.
      bind_result (expand_path env (d_identity d)) (\<lambda>identity.
      bind_result (apply_allowlist env (k_allow_entries d) (k_allow_path d) allow_all) (\<lambda>allowed.
        let c = \<lparr>c_listen = d_listen d, c_relay_url = Some relay, c_server_pin = p, c_token_file = token_file,
                 c_client_identity_file = identity, c_doh_url = Some doh, c_doh_bootstrap = bootstrap,
                 c_ech = d_ech d, c_allowlist = allowed, c_timeouts = k_timeouts d, c_log = k_log d\<rparr>
        in bind_result (map_err Setting (validate_client c)) (\<lambda>_. ok c)))))))"

definition load_client :: "environment \<Rightarrow> client_options \<Rightarrow> client_config load_result" where
  "load_client env o' =
     bind_result (with_config_file env (o_config_file (co_common o')) mode_client client_keys
       (client_file env (client_defaults env)) (client_defaults env)) (\<lambda>d.
     bind_result (visit_flags (client_flag o') [] d (co_flags o')) (finish_client env))"

section \<open>The server\<close>

record server_options =
  so_common :: common_options
  so_listen :: string
  so_identity_file :: string
  so_client_pins :: "string list"
  so_max_sessions :: int
  so_max_control_message :: int
  so_flags :: "string list"

record server_draft = common_draft +
  e_listen :: string
  e_identity :: string
  e_pins :: "string list"
  e_limits :: limits

definition server_keys :: "string list" where
  "server_keys =
     [''listen'', ''identity_file'', ''client_pins'', ''limits.max_sessions'', ''limits.max_control_message_bytes'']
       @ common_keys"

definition server_defaults :: "environment \<Rightarrow> server_draft" where
  "server_defaults env =
     \<lparr>k_token_file = [], k_doh_url = default_doh_url, k_bootstrap = [],
      k_allow_path = [], k_allow_entries = [], k_timeouts = default_timeouts, k_log = default_log_options,
      e_listen = default_server_listen, e_identity = default_server_identity_file env, e_pins = [],
      e_limits = default_limits\<rparr>"

definition server_file :: "environment \<Rightarrow> server_draft \<Rightarrow> toml_document \<Rightarrow> server_draft load_result" where
  "server_file env d doc =
     (let l = e_limits d;
          m = ok d;
          m = join_with m (\<lambda>v d. d\<lparr>e_listen := v\<rparr>) (toml (apply_string doc ''listen'' (e_listen d)));
          m = join_with m (\<lambda>v d. d\<lparr>e_identity := v\<rparr>) (toml (apply_string doc ''identity_file'' (e_identity d)));
          m = join_with m (\<lambda>v d. d\<lparr>e_pins := v\<rparr>) (toml (apply_strings doc ''client_pins'' (e_pins d)));
          m = join_with m (\<lambda>v d. d\<lparr>e_limits := (e_limits d)\<lparr>max_sessions := v\<rparr>\<rparr>)
                (toml (apply_int doc ''limits.max_sessions'' (max_sessions l)));
          m = join_with m (\<lambda>v d. d\<lparr>e_limits := (e_limits d)\<lparr>max_control_message_bytes := v\<rparr>\<rparr>)
                (toml (apply_int doc ''limits.max_control_message_bytes'' (max_control_message_bytes l)));
          m = join_with m (\<lambda>v d. v\<lparr>e_listen := e_listen d, e_identity := e_identity d, e_pins := e_pins d,
                e_limits := e_limits d\<rparr>) (apply_common_file env doc d)
      in joined m)"

definition server_flag :: "server_options \<Rightarrow> string \<Rightarrow> server_draft \<Rightarrow> server_draft load_result" where
  "server_flag o' name d =
     (if name = ''listen'' then ok (d\<lparr>e_listen := so_listen o'\<rparr>)
      else if name = ''identity-file'' then ok (d\<lparr>e_identity := so_identity_file o'\<rparr>)
      else if name = ''client-pin'' then ok (d\<lparr>e_pins := so_client_pins o'\<rparr>)
      else if name = ''max-sessions'' then ok (d\<lparr>e_limits := (e_limits d)\<lparr>max_sessions := so_max_sessions o'\<rparr>\<rparr>)
      else if name = ''max-control-message'' then
        ok (d\<lparr>e_limits := (e_limits d)\<lparr>max_control_message_bytes := so_max_control_message o'\<rparr>\<rparr>)
      else apply_shared_flag (so_common o') name d)"

definition finish_server :: "environment \<Rightarrow> server_draft \<Rightarrow> server_config load_result" where
  "finish_server env d =
     (case env_parse_url env (k_doh_url d) of
        None \<Rightarrow> err DoHURLSyntax
      | Some doh \<Rightarrow>
      bind_result (resolve_bootstrap doh (k_bootstrap d)) (\<lambda>bootstrap.
      if k_token_file d = [] then err TokenFileRequired
      else bind_result (expand_path env (k_token_file d)) (\<lambda>token_file.
      bind_result (expand_path env (e_identity d)) (\<lambda>identity.
      bind_result (map_err PinSetFault (parse_pin_set (e_pins d))) (\<lambda>client_pins.
      bind_result (apply_allowlist env (k_allow_entries d) (k_allow_path d) allow_all) (\<lambda>allowed.
        let s = \<lparr>s_listen = e_listen d, s_identity_file = identity, s_token_file = token_file,
                 s_client_pins = client_pins, s_doh_url = Some doh, s_doh_bootstrap = bootstrap,
                 s_allowlist = allowed, s_timeouts = k_timeouts d, s_limits = e_limits d, s_log = k_log d\<rparr>
        in bind_result (map_err Setting (validate_server s)) (\<lambda>_. ok s)))))))"

definition load_server :: "environment \<Rightarrow> server_options \<Rightarrow> server_config load_result" where
  "load_server env o' =
     bind_result (with_config_file env (o_config_file (so_common o')) mode_server server_keys
       (server_file env (server_defaults env)) (server_defaults env)) (\<lambda>d.
     bind_result (visit_flags (server_flag o') [] d (so_flags o')) (finish_server env))"

section \<open>A configuration that loads is valid\<close>

lemma load_client_valid:
  assumes "load_client env o' = ok c"
  shows "validate_client c = ok ()"
proof -
  from assms obtain d where "finish_client env d = ok c"
    by (auto simp: load_client_def bind_result_eq_ok)
  then show ?thesis
    by (auto simp: finish_client_def bind_result_eq_ok Let_def split: option.split_asm if_split_asm)
qed

lemma load_server_valid:
  assumes "load_server env o' = ok s"
  shows "validate_server s = ok ()"
proof -
  from assms obtain d where "finish_server env d = ok s"
    by (auto simp: load_server_def bind_result_eq_ok)
  then show ?thesis
    by (auto simp: finish_server_def bind_result_eq_ok Let_def split: option.split_asm if_split_asm)
qed

section \<open>Precedence: defaults, then the file, then the flags that were given\<close>

text \<open>A joined assignment holds when every part did.\<close>

lemma join_with_ok: "join_with m update r = ok d \<longleftrightarrow> (\<exists>v d'. r = ok v \<and> m = ok d' \<and> d = update v d')"
  by (cases r; cases m) (auto simp: join_with_def split: failure.split)

lemma toml_ok [simp]: "toml m = ok x \<longleftrightarrow> m = ok x"
  by (simp add: toml_def)

lemma joined_ok [simp]: "joined m = ok x \<longleftrightarrow> m = ok x"
  by (simp add: joined_def)

text \<open>What a fold of flags does to one field: the flag that owns it, or nothing.\<close>

lemma visit_flags_ok:
  assumes "visit_flags f es d ns = ok d'"
    and "\<And>n d d'. f n d = ok d' \<Longrightarrow> g d' = (if n = name then v else g d)"
  shows "es = [] \<and> g d' = (if name \<in> set ns then v else g d)"
  using assms(1)
proof (induction ns arbitrary: d es)
  case Nil
  then show ?case by (simp split: if_split_asm)
next
  case (Cons n ns)
  show ?case
  proof (cases "f n d")
    case (Inl e)
    with Cons.prems obtain x where "visit_flags f (es @ [x]) d ns = ok d'"
      by (cases e) auto
    from Cons.IH [OF this] show ?thesis by simp
  next
    case (Inr d1)
    with Cons.prems have "visit_flags f es d1 ns = ok d'" by simp
    from Cons.IH [OF this] assms(2) [OF Inr] show ?thesis by auto
  qed
qed

text \<open>A flag nothing handles ends the load, whatever else was given.\<close>

lemma visit_flags_error: "f n d0 = err e \<Longrightarrow> (\<And>d. f n d = err e) \<Longrightarrow> n \<in> set ns \<Longrightarrow> visit_flags f es d ns \<noteq> ok d'"
proof (induction ns arbitrary: d es)
  case (Cons m ns)
  have never: "visit_flags f es d ns \<noteq> ok d'" if "es \<noteq> []" for es d ns
    using that by (induction f es d ns rule: visit_flags.induct) (auto split: sum.split failure.split)
  show ?case
  proof (cases "m = n")
    case True
    with Cons.prems(2) never show ?thesis by simp
  next
    case False
    with Cons show ?thesis by (auto split: sum.split failure.split)
  qed
qed simp

lemma apply_common_flag_fields:
  "apply_common_flag o' name d = ok d' \<Longrightarrow> k_token_file d' = k_token_file d \<and> k_doh_url d' = k_doh_url d
     \<and> k_bootstrap d' = k_bootstrap d \<and> k_allow_path d' = k_allow_path d \<and> k_allow_entries d' = k_allow_entries d
     \<and> common_draft.more d' = common_draft.more d"
  by (auto simp: apply_common_flag_def Let_def on_timeouts_def bind_result_eq_ok split: if_split_asm)

lemma apply_shared_flag_more: "apply_shared_flag o' name d = ok d' \<Longrightarrow> common_draft.more d' = common_draft.more d"
  by (auto simp: apply_shared_flag_def dest: apply_common_flag_fields split: if_split_asm)

lemma client_draft_more:
  assumes "common_draft.more d' = common_draft.more (d :: client_draft)"
  shows "d_listen d' = d_listen d" "d_ech d' = d_ech d" "d_relay_url d' = d_relay_url d" "d_pin d' = d_pin d"
    "d_identity d' = d_identity d"
  using assms by (cases d; cases d'; simp)+

lemma client_flag_ech:
  "client_flag o' n d = ok d' \<Longrightarrow> d_ech d' =
     (if n = ''insecure-disable-ech''
      then if co_insecure_disable_ech o' then ech_insecure_disabled else ech_required else d_ech d)"
  by (auto simp: client_flag_def dest: apply_shared_flag_more client_draft_more split: if_split_asm)

lemma client_flag_listen:
  "client_flag o' n d = ok d' \<Longrightarrow> d_listen d' = (if n = ''listen'' then co_listen o' else d_listen d)"
  by (auto simp: client_flag_def dest: apply_shared_flag_more client_draft_more split: if_split_asm)

lemma client_flag_pin:
  "client_flag o' n d = ok d' \<Longrightarrow> d_pin d' = (if n = ''server-pin'' then co_server_pin o' else d_pin d)"
  by (auto simp: client_flag_def dest: apply_shared_flag_more client_draft_more split: if_split_asm)

text \<open>The document a load used: none, or the one of the file it found.\<close>

definition config_document :: "environment \<Rightarrow> string \<Rightarrow> string \<Rightarrow> string list \<Rightarrow> toml_document option" where
  "config_document env explicit role schema =
     (case resolve_config_file env explicit role of
        Inl _ \<Rightarrow> None
      | Inr (path, _) \<Rightarrow> if path = [] then None
          else case read_config_file env path schema of Inl _ \<Rightarrow> None | Inr doc \<Rightarrow> Some doc)"

lemma with_config_file_ok:
  assumes "with_config_file env explicit role schema apply' d = ok d'"
  shows "(case config_document env explicit role schema of None \<Rightarrow> d' = d | Some doc \<Rightarrow> apply' doc = ok d')"
proof -
  from assms obtain path required where r: "resolve_config_file env explicit role = ok (path, required)"
    by (auto simp: with_config_file_def bind_result_eq_ok)
  show ?thesis
  proof (cases "path = []")
    case True
    with assms r show ?thesis by (simp add: with_config_file_def config_document_def)
  next
    case False
    then show ?thesis
    proof (cases "read_config_file env path schema")
      case (Inl e)
      with False assms r show ?thesis
        by (cases e) (auto simp: with_config_file_def config_document_def split: if_split_asm)
    next
      case (Inr doc)
      with False assms r show ?thesis by (simp add: with_config_file_def config_document_def)
    qed
  qed
qed

text \<open>A document that was used came from a file that parsed and holds only keys of the schema.\<close>

lemma config_document_valid:
  assumes "config_document env explicit role schema = Some doc"
  shows "valid_document doc" and "fst ` set doc \<subseteq> set schema"
proof -
  from assms obtain path where "read_config_file env path schema = ok doc"
    by (auto simp: config_document_def split: sum.split_asm if_split_asm)
  then show "valid_document doc" "fst ` set doc \<subseteq> set schema"
    by (auto simp: read_config_file_def bind_result_eq_ok reject_unknown_ok dest: parse_toml_valid
        split: sum.split_asm)
qed

lemma client_file_ok:
  assumes "client_file env d doc = ok d'"
  shows "apply_string doc ''listen'' (d_listen d) = ok (d_listen d')"
    and "apply_string doc ''server_pin'' (d_pin d) = ok (d_pin d')"
    and "apply_string doc ''ech'' (d_ech d) = ok (d_ech d')"
  using assms unfolding client_file_def Let_def bind_result_eq_ok joined_ok join_with_ok map_err_eq_ok toml_ok
    parse_ech_mode_ok by auto

text \<open>
  One setting of a load: the flag when it was given, else the file's value, else the default. The
  value of the file is read over the default.
\<close>

definition from_file :: "toml_document option \<Rightarrow> string \<Rightarrow> string \<Rightarrow> string \<Rightarrow> bool" where
  "from_file doc key old v \<longleftrightarrow> (case doc of None \<Rightarrow> v = old | Some doc \<Rightarrow> apply_string doc key old = ok v)"

lemma load_client_settings:
  assumes "load_client env o' = ok c"
  defines "doc \<equiv> config_document env (o_config_file (co_common o')) mode_client client_keys"
  shows "if ''listen'' \<in> set (co_flags o') then c_listen c = co_listen o'
      else from_file doc ''listen'' default_client_listen (c_listen c)"
    and "if ''insecure-disable-ech'' \<in> set (co_flags o')
      then c_ech c = (if co_insecure_disable_ech o' then ech_insecure_disabled else ech_required)
      else from_file doc ''ech'' ech_required (c_ech c)"
    and "\<exists>raw. parse_pin raw = ok (c_server_pin c)
      \<and> (if ''server-pin'' \<in> set (co_flags o') then raw = co_server_pin o' else from_file doc ''server_pin'' [] raw)"
proof -
  let ?d0 = "client_defaults env"
  from assms obtain d d' where loaded: "with_config_file env (o_config_file (co_common o')) mode_client client_keys
       (client_file env ?d0) ?d0 = ok d"
    and flags: "visit_flags (client_flag o') [] d (co_flags o') = ok d'" and fin: "finish_client env d' = ok c"
    by (auto simp: load_client_def bind_result_eq_ok)
  from with_config_file_ok [OF loaded] have f:
    "from_file doc ''listen'' default_client_listen (d_listen d)" "from_file doc ''ech'' ech_required (d_ech d)"
    "from_file doc ''server_pin'' [] (d_pin d)"
    unfolding doc_def [symmetric]
    by (auto simp: from_file_def client_defaults_def dest: client_file_ok split: option.split_asm)
  have c: "c_listen c = d_listen d'" "c_ech c = d_ech d'" "parse_pin (d_pin d') = ok (c_server_pin c)"
    using fin by (auto simp: finish_client_def bind_result_eq_ok Let_def split: option.split_asm if_split_asm)
  show "if ''listen'' \<in> set (co_flags o') then c_listen c = co_listen o'
      else from_file doc ''listen'' default_client_listen (c_listen c)"
    using visit_flags_ok [OF flags, of d_listen "''listen''" "co_listen o'"] client_flag_listen f(1) c(1) by fastforce
  show "if ''insecure-disable-ech'' \<in> set (co_flags o')
      then c_ech c = (if co_insecure_disable_ech o' then ech_insecure_disabled else ech_required)
      else from_file doc ''ech'' ech_required (c_ech c)"
    using visit_flags_ok [OF flags, of d_ech "''insecure-disable-ech''"
        "if co_insecure_disable_ech o' then ech_insecure_disabled else ech_required"] client_flag_ech f(2) c(2) by fastforce
  show "\<exists>raw. parse_pin raw = ok (c_server_pin c)
      \<and> (if ''server-pin'' \<in> set (co_flags o') then raw = co_server_pin o' else from_file doc ''server_pin'' [] raw)"
    using visit_flags_ok [OF flags, of d_pin "''server-pin''" "co_server_pin o'"] client_flag_pin f(3) c(3) by fastforce
qed

section \<open>Properties\<close>


definition sample_url :: "string \<Rightarrow> string \<Rightarrow> url" where
  "sample_url scheme host =
     \<lparr>url_scheme = scheme, url_has_user = False, url_host = host, url_escaped_path = ''/dns-query'', url_raw_query = [],
      url_fragment = []\<rparr>"

definition sample_environment :: environment where
  "sample_environment =
     \<lparr>env_open = (\<lambda>_. Inl NotExist), env_home = None, env_config_dir = Some ''/etc'',
      env_join = (\<lambda>a b. a @ ''/'' @ b),
      env_parse_url = (\<lambda>s. Some (if s = default_doh_url then sample_url ''https'' ''cloudflare-dns.com''
                                 else sample_url ''wss'' ''relay.example.com'')),
      env_parse_duration = (\<lambda>_. None)\<rparr>"

definition sample_options :: client_options where
  "sample_options =
     \<lparr>co_common = \<lparr>o_config_file = [], o_token_file = [], o_doh_url = [], o_doh_bootstrap = [], o_allowlist_file = [],
        o_allow = [], o_timeouts = default_timeouts, o_log_level = [], o_log_format = [], o_log_targets = False\<rparr>,
      co_listen = ''127.0.0.1:9090'', co_server = ''wss://relay.example.com/'', co_server_pin = pin_string (pin_from_spki [1]),
      co_client_identity_file = [], co_insecure_disable_ech = False,
      co_flags = [''listen'', ''server'', ''server-pin'']\<rparr>"

lemma sample_listen: "validate_loopback_address ''127.0.0.1:9090'' = ok ()"
proof -
  have h: "split_host_port ''127.0.0.1:9090'' = Some (''127.0.0.1'', ''9090'')"
    using split_host_port_plain [of "''127.0.0.1''" "''9090''"] by simp
  have "parse_addr ''127.0.0.1'' = Some (Addr4 2130706433)"
    by (simp add: parse_addr_evals octets_value_def)
  moreover have "atoi ''9090'' = Some 9090" by code_simp
  ultimately have "listen_parts ''127.0.0.1:9090'' ''127.0.0.1'' 9090 \<and> parse_addr ''127.0.0.1'' = Some (Addr4 2130706433)
      \<and> is_loopback (Addr4 2130706433)"
    using h by (simp add: listen_parts_def is_loopback_def unmap_def v4_byte_def)
  then show ?thesis unfolding validate_loopback_ok by blast
qed

lemma sample_bootstrap:
  "default_doh_bootstrap (Some (sample_url ''https'' ''cloudflare-dns.com'')) =
     ok [Addr4 0x01010101, Addr4 0x01000001, Addr6 0x26064700470000000000000000001111 [], Addr6 0x26064700470000000000000000001001 []]"
proof -
  have "replicate 8 (0 :: nat) = [0, 0, 0, 0, 0, 0, 0, 0]" by (simp add: numeral_eq_Suc)
  moreover have "to_lower ''cloudflare-dns.com'' = ''cloudflare-dns.com''"
    by (rule to_lower_id) (auto simp: in_range_def)
  ultimately show ?thesis
    by (simp add: default_doh_bootstrap_def sample_url_def url_hostname_def url_split_host_port_def cut_last_def
        known_doh_bootstrap_def parse_addr_evals octets_value_def)
qed

lemma sample_dialable:
  "dialable (Addr4 0x01010101)" "dialable (Addr4 0x01000001)" "dialable (Addr6 0x26064700470000000000000000001111 [])"
  "dialable (Addr6 0x26064700470000000000000000001001 [])"
  by (simp_all add: dialable_def is_valid_def is_unspecified_def is_multicast_def unmap_def v4_byte_def)

lemma sample_urls:
  "validate_relay_url (sample_url ''wss'' ''relay.example.com'') = ok ()"
  "validate_doh_url (Some (sample_url ''https'' ''cloudflare-dns.com'')) = ok ()"
proof -
  show "validate_relay_url (sample_url ''wss'' ''relay.example.com'') = ok ()"
    unfolding validate_relay_url_ok
    by (simp add: sample_url_def url_hostname_def url_port_def url_split_host_port_def cut_last_def parse_addr_evals)
  have "to_lower ''/dns-query'' = ''/dns-query''"
    by (rule to_lower_id) (auto simp: in_range_def)
  then show "validate_doh_url (Some (sample_url ''https'' ''cloudflare-dns.com'')) = ok ()"
    unfolding validate_doh_url_ok
    by (simp add: sample_url_def url_hostname_def url_split_host_port_def cut_last_def has_prefix_def)
qed

lemma sample_loads:
  "\<exists>c. load_client sample_environment sample_options = ok c \<and> c_listen c = ''127.0.0.1:9090'' \<and> c_ech c = ech_required
     \<and> c_doh_bootstrap c \<noteq> []"
proof -
  have flags: "visit_flags (client_flag sample_options) [] (client_defaults sample_environment) (co_flags sample_options)
      = ok ((client_defaults sample_environment)\<lparr>d_listen := ''127.0.0.1:9090'', d_relay_url := ''wss://relay.example.com/'',
            d_pin := pin_string (pin_from_spki [1])\<rparr>)"
    by (simp add: sample_options_def client_flag_def)
  have config_file: "with_config_file sample_environment (o_config_file (co_common sample_options)) mode_client client_keys apply'
      (client_defaults sample_environment) = ok (client_defaults sample_environment)" for apply'
    by (simp add: with_config_file_def resolve_config_file_def read_config_file_def sample_environment_def sample_options_def
        in_config_dir_def)
  have pin: "parse_pin (pin_string (pin_from_spki [1])) = ok (pin_from_spki [1])"
    by (rule parse_pin_string [OF pin_from_spki_valid])
  have checks: "validate_doh_bootstrap (Some (sample_url ''https'' ''cloudflare-dns.com''))
      [Addr4 0x01010101, Addr4 0x01000001, Addr6 0x26064700470000000000000000001111 [], Addr6 0x26064700470000000000000000001001 []]
        = ok ()" "parse_ech_mode ech_required = ok ech_required" "validate_timeouts default_timeouts = ok ()"
    by (simp_all add: validate_doh_bootstrap_ok sample_dialable parse_ech_mode_ok validate_timeouts_ok defaults_valid)
  have set: "pin_string (pin_from_spki [1]) \<noteq> []" "\<not> pin_is_zero (pin_from_spki [1])"
    by (simp_all add: pin_string_def pin_from_spki_def pin_is_zero_def)
  have load: "load_client sample_environment sample_options = finish_client sample_environment
      ((client_defaults sample_environment)\<lparr>d_listen := ''127.0.0.1:9090'', d_relay_url := ''wss://relay.example.com/'',
            d_pin := pin_string (pin_from_spki [1])\<rparr>)"
    by (simp only: load_client_def config_file flags bind_result_ok)
  show ?thesis
    unfolding load
    by (simp add: pin set finish_client_def client_defaults_def sample_environment_def sample_bootstrap resolve_bootstrap_def
        expand_path_def apply_allowlist_def default_client_token_file_def in_config_dir_def has_prefix_def default_doh_url_def
        validate_client_def sample_listen sample_urls checks in_field_def allow_all_def allowlist_is_empty_def defaults_valid)
qed

text \<open>
  A flag that was given decides its setting, whatever the file says; without the flag the file
  decides, and without the key in the file the default. ECH stays required unless one of them
  turned it off.
\<close>

theorem flags_override_file:
  assumes "load_client env o' = ok c"
    and "doc = config_document env (o_config_file (co_common o')) mode_client client_keys"
  shows "(if ''listen'' \<in> set (co_flags o') then c_listen c = co_listen o'
      else from_file doc ''listen'' default_client_listen (c_listen c))
    \<and> (if ''insecure-disable-ech'' \<in> set (co_flags o')
      then c_ech c = (if co_insecure_disable_ech o' then ech_insecure_disabled else ech_required)
      else from_file doc ''ech'' ech_required (c_ech c))
    \<and> (\<exists>raw. parse_pin raw = ok (c_server_pin c)
      \<and> (if ''server-pin'' \<in> set (co_flags o') then raw = co_server_pin o' else from_file doc ''server_pin'' [] raw))"
  using load_client_settings [OF assms(1)] unfolding assms(2) by simp

theorem flags_override_file_witness:
  "\<exists>c. load_client sample_environment sample_options = ok c \<and> c_listen c = co_listen sample_options
     \<and> from_file (config_document sample_environment [] mode_client client_keys) ''ech'' ech_required (c_ech c)"
proof -
  from sample_loads obtain c where c: "load_client sample_environment sample_options = ok c" by blast
  from flags_override_file [OF c refl] c show ?thesis by (auto simp: sample_options_def)
qed

end
