(* ===== verification/Relay_Limiter.thy ===== *)
theory Relay_Limiter
  imports Go_Netip "HOL-Library.AList"
begin

text \<open>
  \<open>internal/relay/limiter.go\<close>: the limiter of authentication failures. The code keeps a map
  from sources to entries that are also linked, oldest window first, into a doubly linked list;
  here the entries live in a heap of their own and a pointer is a location. The second half
  relates the heap to the queue it stands for and proves every operation against it.
\<close>

section \<open>State\<close>

definition auth_failure_limit :: nat where
  "auth_failure_limit = 10"

text \<open>Times and durations are nanoseconds.\<close>

definition auth_failure_window :: int where
  "auth_failure_window = 60000000000"

definition max_auth_sources :: nat where
  "max_auth_sources = 4096"

type_synonym loc = nat

record auth_entry =
  entry_source :: string
  entry_count :: nat
  entry_start :: int
  older :: "loc option"
  newer :: "loc option"

record limiter =
  heap :: "loc \<Rightarrow> auth_entry option"
  fresh :: loc
  entries :: "(string \<times> loc) list"
  oldest :: "loc option"
  newest :: "loc option"

definition new_limiter :: limiter where
  "new_limiter = \<lparr>heap = (\<lambda>_. None), fresh = 0, entries = [], oldest = None, newest = None\<rparr>"

section \<open>Operations\<close>

text \<open>A nil or dangling pointer panics.\<close>

definition deref :: "limiter \<Rightarrow> loc option \<Rightarrow> (unit, auth_entry) result" where
  "deref l p = (case p of None \<Rightarrow> panic | Some a \<Rightarrow> (case heap l a of None \<Rightarrow> panic | Some e \<Rightarrow> ok e))"

definition store :: "limiter \<Rightarrow> loc \<Rightarrow> auth_entry \<Rightarrow> limiter" where
  "store l a e = l\<lparr>heap := (heap l)(a \<mapsto> e)\<rparr>"

definition set_newer :: "limiter \<Rightarrow> loc \<Rightarrow> loc option \<Rightarrow> (unit, limiter) result" where
  "set_newer l a n = bind_result (deref l (Some a)) (\<lambda>e. ok (store l a (e\<lparr>newer := n\<rparr>)))"

definition set_older :: "limiter \<Rightarrow> loc \<Rightarrow> loc option \<Rightarrow> (unit, limiter) result" where
  "set_older l a n = bind_result (deref l (Some a)) (\<lambda>e. ok (store l a (e\<lparr>older := n\<rparr>)))"

definition limiter_insert :: "limiter \<Rightarrow> string \<Rightarrow> int \<Rightarrow> (unit, loc \<times> limiter) result" where
  "limiter_insert l source now =
     (let a = fresh l;
          e = \<lparr>entry_source = source, entry_count = 0, entry_start = now, older = newest l, newer = None\<rparr>;
          l = (store l a e)\<lparr>fresh := a + 1\<rparr>
      in bind_result (case newest l of
             None \<Rightarrow> ok (l\<lparr>oldest := Some a\<rparr>)
           | Some n \<Rightarrow> set_newer l n (Some a))
         (\<lambda>l. ok (a, l\<lparr>newest := Some a, entries := AList.update source a (entries l)\<rparr>)))"

text \<open>The two branches of \<open>remove\<close>: the neighbour, or the end of the list, is redirected.\<close>

definition relink_older :: "limiter \<Rightarrow> loc option \<Rightarrow> loc option \<Rightarrow> (unit, limiter) result" where
  "relink_older l o' n = (case o' of None \<Rightarrow> ok (l\<lparr>oldest := n\<rparr>) | Some a \<Rightarrow> set_newer l a n)"

definition relink_newer :: "limiter \<Rightarrow> loc option \<Rightarrow> loc option \<Rightarrow> (unit, limiter) result" where
  "relink_newer l n o' = (case n of None \<Rightarrow> ok (l\<lparr>newest := o'\<rparr>) | Some a \<Rightarrow> set_older l a o')"

definition limiter_remove :: "limiter \<Rightarrow> loc option \<Rightarrow> (unit, limiter) result" where
  "limiter_remove l p =
     bind_result (deref l p) (\<lambda>e.
     bind_result (relink_older l (older e) (newer e)) (\<lambda>l.
     bind_result (deref l p) (\<lambda>e.
     bind_result (relink_newer l (newer e) (older e)) (\<lambda>l.
     bind_result (deref l p) (\<lambda>e.
       ok ((store l (the p) (e\<lparr>older := None, newer := None\<rparr>))
             \<lparr>entries := AList.delete (entry_source e) (entries l)\<rparr>))))))"

definition limiter_blocked :: "limiter \<Rightarrow> string \<Rightarrow> int \<Rightarrow> (unit, bool \<times> limiter) result" where
  "limiter_blocked l source now =
     (case map_of (entries l) source of
        None \<Rightarrow> ok (False, l)
      | Some a \<Rightarrow>
          bind_result (deref l (Some a)) (\<lambda>e.
            if auth_failure_window \<le> now - entry_start e
            then bind_result (limiter_remove l (Some a)) (\<lambda>l. ok (False, l))
            else ok (auth_failure_limit \<le> entry_count e, l)))"

text \<open>The first half of \<open>record\<close>: the live entry of the source, an expired one dropped.\<close>

definition limiter_lookup :: "limiter \<Rightarrow> string \<Rightarrow> int \<Rightarrow> (unit, loc option \<times> limiter) result" where
  "limiter_lookup l source now =
     (case map_of (entries l) source of
        None \<Rightarrow> ok (None, l)
      | Some a \<Rightarrow>
          bind_result (deref l (Some a)) (\<lambda>e.
            if auth_failure_window \<le> now - entry_start e
            then bind_result (limiter_remove l (Some a)) (\<lambda>l. ok (None, l))
            else ok (Some a, l)))"

definition limiter_record :: "limiter \<Rightarrow> string \<Rightarrow> int \<Rightarrow> (unit, limiter) result" where
  "limiter_record l source now =
     bind_result (limiter_lookup l source now) (\<lambda>(found, l).
     bind_result (case found of
         Some a \<Rightarrow> ok (a, l)
       | None \<Rightarrow>
           bind_result (if max_auth_sources \<le> length (entries l) then limiter_remove l (oldest l) else ok l)
             (\<lambda>l. limiter_insert l source now)) (\<lambda>(a, l).
     bind_result (deref l (Some a)) (\<lambda>e. ok (store l a (e\<lparr>entry_count := entry_count e + 1\<rparr>)))))"

definition limiter_reset :: "limiter \<Rightarrow> string \<Rightarrow> (unit, limiter) result" where
  "limiter_reset l source =
     (case map_of (entries l) source of None \<Rightarrow> ok l | Some a \<Rightarrow> limiter_remove l (Some a))"

section \<open>The queue a limiter stands for\<close>

text \<open>One line per source, the oldest window first.\<close>

record failure =
  src :: string
  cnt :: nat
  since :: int

definition queue_find :: "failure list \<Rightarrow> string \<Rightarrow> failure option" where
  "queue_find q s = find (\<lambda>f. src f = s) q"

definition queue_drop :: "failure list \<Rightarrow> string \<Rightarrow> failure list" where
  "queue_drop q s = filter (\<lambda>f. src f \<noteq> s) q"

definition queue_expire :: "failure list \<Rightarrow> string \<Rightarrow> int \<Rightarrow> failure list" where
  "queue_expire q s now = filter (\<lambda>f. src f = s \<longrightarrow> now - since f < auth_failure_window) q"

definition queue_record :: "failure list \<Rightarrow> string \<Rightarrow> int \<Rightarrow> failure list" where
  "queue_record q s now =
     (let q = queue_expire q s now in
      if s \<in> src ` set q
      then map (\<lambda>f. if src f = s then f\<lparr>cnt := cnt f + 1\<rparr> else f) q
      else (if max_auth_sources \<le> length q then tl q else q) @ [\<lparr>src = s, cnt = 1, since = now\<rparr>])"

definition failures :: "failure list \<Rightarrow> string \<Rightarrow> int \<Rightarrow> nat" where
  "failures q s now =
     (case queue_find q s of None \<Rightarrow> 0 | Some f \<Rightarrow> if auth_failure_window \<le> now - since f then 0 else cnt f)"

section \<open>The representation\<close>

definition first_of :: "loc list \<Rightarrow> loc option \<Rightarrow> loc option" where
  "first_of ps d = (case ps of [] \<Rightarrow> d | p # _ \<Rightarrow> Some p)"

definition last_of :: "loc list \<Rightarrow> loc option \<Rightarrow> loc option" where
  "last_of ps d = (if ps = [] then d else Some (last ps))"

definition entry_of :: "failure \<Rightarrow> loc option \<Rightarrow> loc option \<Rightarrow> auth_entry" where
  "entry_of f o' n = \<lparr>entry_source = src f, entry_count = cnt f, entry_start = since f, older = o', newer = n\<rparr>"

text \<open>A segment of the list between the neighbours \<open>o'\<close> and \<open>n\<close>.\<close>

fun segment :: "(loc \<Rightarrow> auth_entry option) \<Rightarrow> loc option \<Rightarrow> loc list \<Rightarrow> loc option \<Rightarrow> failure list \<Rightarrow> bool" where
  "segment h o' [] n [] = True"
| "segment h o' (p # ps) n (f # fs) =
     (h p = Some (entry_of f o' (first_of ps n)) \<and> segment h (Some p) ps n fs)"
| "segment h o' _ n _ = False"

definition represents :: "limiter \<Rightarrow> loc list \<Rightarrow> failure list \<Rightarrow> bool" where
  "represents l ps q \<longleftrightarrow>
     segment (heap l) None ps None q \<and> distinct ps \<and> distinct (map src q)
     \<and> oldest l = first_of ps None \<and> newest l = last_of ps None
     \<and> (\<forall>p \<in> set ps. p < fresh l)
     \<and> distinct (map fst (entries l))
     \<and> map_of (entries l) = map_of (zip (map src q) ps)"


section \<open>Segments\<close>

lemma first_of_simps [simp]: "first_of [] d = d" "first_of (p # ps) d = Some p"
  by (simp_all add: first_of_def)

lemma last_of_simps [simp]: "last_of [] d = d" "last_of (ps @ [p]) d = Some p" "last_of (p # ps) d = last_of ps (Some p)"
  by (simp_all add: last_of_def)

lemma first_of_append: "first_of (xs @ ys) d = first_of xs (first_of ys d)"
  by (cases xs) simp_all

lemma last_of_append: "last_of (xs @ ys) d = last_of ys (last_of xs d)"
  by (simp add: last_of_def)

lemma segment_length: "segment h o' ps n fs \<Longrightarrow> length ps = length fs"
  by (induction h o' ps n fs rule: segment.induct) simp_all

lemma segment_append:
  "length xs = length as \<Longrightarrow>
     segment h o' (xs @ ys) n (as @ bs) \<longleftrightarrow> segment h o' xs (first_of ys n) as \<and> segment h (last_of xs o') ys n bs"
  by (induction xs as arbitrary: o' rule: list_induct2) (auto simp: first_of_append)

lemma segment_frame:
  "(\<And>p. p \<in> set ps \<Longrightarrow> h' p = h p) \<Longrightarrow> segment h' o' ps n fs \<longleftrightarrow> segment h o' ps n fs"
  by (induction h o' ps n fs rule: segment.induct) simp_all

lemma segment_snoc:
  assumes "length xs = length as"
  shows "segment h o' (xs @ [p]) n (as @ [f]) \<longleftrightarrow>
    segment h o' xs (Some p) as \<and> h p = Some (entry_of f (last_of xs o') n)"
  using assms by (simp add: segment_append)

text \<open>Redirecting the link of the last entry, and of the first.\<close>

lemma segment_set_newer:
  assumes "segment h o' (xs @ [p]) n as" and "p \<notin> set xs"
  shows "\<exists>e. h p = Some e \<and> segment (h(p \<mapsto> e\<lparr>newer := n'\<rparr>)) o' (xs @ [p]) n' as"
proof -
  have "as \<noteq> []" using segment_length [OF assms(1)] by auto
  then obtain bs f where as: "as = bs @ [f]" by (metis append_butlast_last_id)
  then have len: "length xs = length bs" using segment_length [OF assms(1)] by simp
  from assms(1) have "segment h o' xs (Some p) bs" "h p = Some (entry_of f (last_of xs o') n)"
    unfolding as segment_snoc [OF len] by auto
  moreover have "segment (h(p \<mapsto> e)) o' xs (Some p) bs = segment h o' xs (Some p) bs" for e
    using assms(2) by (intro segment_frame) auto
  ultimately show ?thesis
    unfolding as segment_snoc [OF len] by (simp add: entry_of_def)
qed

lemma segment_set_older:
  assumes "segment h o' (p # ys) n bs" and "p \<notin> set ys"
  shows "\<exists>e. h p = Some e \<and> segment (h(p \<mapsto> e\<lparr>older := o2\<rparr>)) o2 (p # ys) n bs"
proof (cases bs)
  case (Cons f fs)
  have "segment (h(p \<mapsto> e)) (Some p) ys n fs = segment h (Some p) ys n fs" for e
    using assms(2) by (intro segment_frame) auto
  with assms(1) Cons show ?thesis by (simp add: entry_of_def)
qed (use assms(1) in simp)

section \<open>Removal\<close>

lemma deref_simps [simp]: "heap l a = Some e \<Longrightarrow> deref l (Some a) = ok e"
  by (simp add: deref_def)

lemma set_links [simp]:
  "heap l a = Some e \<Longrightarrow> set_newer l a n = ok (store l a (e\<lparr>newer := n\<rparr>))"
  "heap l a = Some e \<Longrightarrow> set_older l a n = ok (store l a (e\<lparr>older := n\<rparr>))"
  by (simp_all add: set_newer_def set_older_def)

lemma store_simps [simp]:
  "heap (store l a e) = (heap l)(a \<mapsto> e)" "fresh (store l a e) = fresh l" "entries (store l a e) = entries l"
  "oldest (store l a e) = oldest l" "newest (store l a e) = newest l"
  by (simp_all add: store_def)

text \<open>The two links around the removed entry, one after the other.\<close>

lemma unlink_older:
  assumes "segment (heap l) None xs (Some p) as" and "distinct xs" and "oldest l = first_of xs (Some p)"
  shows "\<exists>l1. relink_older l (last_of xs None) n = ok l1
    \<and> segment (heap l1) None xs n as \<and> (\<forall>a. a \<notin> set xs \<longrightarrow> heap l1 a = heap l a)
    \<and> oldest l1 = first_of xs n \<and> newest l1 = newest l \<and> fresh l1 = fresh l \<and> entries l1 = entries l"
proof (cases xs rule: rev_cases)
  case Nil
  then show ?thesis using segment_length [OF assms(1)] by (simp add: relink_older_def)
next
  case (snoc us u)
  with assms segment_set_newer [of "heap l" None us u "Some p" as n] obtain e where
    "heap l u = Some e" "segment ((heap l)(u \<mapsto> e\<lparr>newer := n\<rparr>)) None (us @ [u]) n as" by auto
  with snoc assms(3) show ?thesis by (simp add: first_of_append relink_older_def)
qed

lemma unlink_newer:
  assumes "segment (heap l) (Some p) ys None bs" and "distinct ys" and "newest l = last_of ys (Some p)"
  shows "\<exists>l1. relink_newer l (first_of ys None) o' = ok l1
    \<and> segment (heap l1) o' ys None bs \<and> (\<forall>a. a \<notin> set ys \<longrightarrow> heap l1 a = heap l a)
    \<and> newest l1 = last_of ys o' \<and> oldest l1 = oldest l \<and> fresh l1 = fresh l \<and> entries l1 = entries l"
proof (cases ys)
  case Nil
  then show ?thesis using segment_length [OF assms(1)] by (simp add: relink_newer_def)
next
  case (Cons u us)
  with assms segment_set_older [of "heap l" "Some p" u us None bs o'] obtain e where
    "heap l u = Some e" "segment ((heap l)(u \<mapsto> e\<lparr>older := o'\<rparr>)) o' (u # us) None bs" by auto
  with Cons assms(3) show ?thesis by (simp add: relink_newer_def)
qed

lemma map_of_zip_delete:
  assumes "length xs = length as" and "length ys = length bs" and "distinct (as @ k # bs)"
  shows "map_of (zip (as @ bs) (xs @ ys)) = (map_of (zip (as @ k # bs) (xs @ p # ys)))(k := None)"
proof
  fix x
  have "map_of (zip as xs) k = None" "map_of (zip bs ys) k = None"
    using assms by (auto simp: map_of_eq_None_iff dest: set_zip_leftD)
  then show "map_of (zip (as @ bs) (xs @ ys)) x = ((map_of (zip (as @ k # bs) (xs @ p # ys)))(k := None)) x"
    by (cases "x = k") (simp_all add: zip_append [OF assms(1) [symmetric]] map_add_def split: option.splits)
qed

lemma limiter_remove_represents:
  assumes rep: "represents l (xs @ p # ys) (as @ f # bs)" and len: "length xs = length as"
  shows "\<exists>l'. limiter_remove l (Some p) = ok l' \<and> represents l' (xs @ ys) (as @ bs)"
proof -
  have seg: "segment (heap l) None (xs @ p # ys) None (as @ f # bs)" and d: "distinct (xs @ p # ys)"
    and ds: "distinct (map src (as @ f # bs))" and old: "oldest l = first_of (xs @ p # ys) None"
    and new: "newest l = last_of (xs @ p # ys) None" and fr: "\<forall>a \<in> set (xs @ p # ys). a < fresh l"
    and dk: "distinct (map fst (entries l))"
    and m: "map_of (entries l) = map_of (zip (map src (as @ f # bs)) (xs @ p # ys))"
    using rep unfolding represents_def by blast+
  from seg len have sx: "segment (heap l) None xs (Some p) as" and sy: "segment (heap l) (Some p) ys None bs"
    and hp: "heap l p = Some (entry_of f (last_of xs None) (first_of ys None))"
    by (simp_all add: segment_append)
  have leny: "length ys = length bs" by (rule segment_length [OF sy])
  from unlink_older [OF sx, of "first_of ys None"] d old obtain l1 where l1:
    "relink_older l (last_of xs None) (first_of ys None) = ok l1"
    "segment (heap l1) None xs (first_of ys None) as" "\<And>a. a \<notin> set xs \<Longrightarrow> heap l1 a = heap l a"
    "oldest l1 = first_of xs (first_of ys None)" "newest l1 = newest l" "fresh l1 = fresh l" "entries l1 = entries l"
    by (auto simp: first_of_append)
  have hp1: "heap l1 p = Some (entry_of f (last_of xs None) (first_of ys None))" using l1(3) d hp by simp
  have "segment (heap l1) (Some p) ys None bs"
    using sy l1(3) d by (subst segment_frame [where h = "heap l"]) auto
  from unlink_newer [OF this, of "last_of xs None"] d new l1(5) obtain l2 where l2:
    "relink_newer l1 (first_of ys None) (last_of xs None) = ok l2"
    "segment (heap l2) (last_of xs None) ys None bs" "\<And>a. a \<notin> set ys \<Longrightarrow> heap l2 a = heap l1 a"
    "newest l2 = last_of ys (last_of xs None)" "oldest l2 = oldest l1" "fresh l2 = fresh l1" "entries l2 = entries l1"
    by (auto simp: last_of_append)
  have hp2: "heap l2 p = Some (entry_of f (last_of xs None) (first_of ys None))" using l2(3) d hp1 by simp
  define l' where "l' = (store l2 p ((entry_of f (last_of xs None) (first_of ys None))\<lparr>older := None, newer := None\<rparr>))
    \<lparr>entries := AList.delete (src f) (entries l)\<rparr>"
  have "limiter_remove l (Some p) = ok l'"
    using hp hp1 hp2 l1(1) l2(1) l1(7) l2(7)
    by (simp add: limiter_remove_def l'_def entry_of_def)
  moreover have "represents l' (xs @ ys) (as @ bs)"
  proof -
    have "segment (heap l2) None xs (first_of ys None) as"
      using l1(2) l2(3) d by (subst segment_frame [where h = "heap l1"]) auto
    then have "segment (heap l2) None (xs @ ys) None (as @ bs)" using len l2(2) by (simp add: segment_append)
    then have "segment (heap l') None (xs @ ys) None (as @ bs)"
      using d by (subst segment_frame [where h = "heap l2"]) (auto simp: l'_def)
    moreover have "map_of (entries l') = map_of (zip (map src (as @ bs)) (xs @ ys))"
      using map_of_zip_delete [of xs "map src as" ys "map src bs" "src f" p] ds len leny
      by (simp add: l'_def m AList.delete_conv')
    ultimately show ?thesis
      using d ds fr dk l1 l2 unfolding represents_def
      by (auto simp: l'_def first_of_append last_of_append AList.distinct_delete)
  qed
  ultimately show ?thesis by blast
qed

section \<open>Insertion and counting\<close>

lemma represents_new: "represents new_limiter [] []"
  by (simp add: represents_def new_limiter_def)

lemma represents_lengths: "represents l ps q \<Longrightarrow> length ps = length q"
  by (auto simp: represents_def dest: segment_length)

lemma represents_size:
  assumes "represents l ps q"
  shows "length (entries l) = length q"
proof -
  have d: "distinct (map fst (entries l))" "distinct (map src q)"
    and m: "map_of (entries l) = map_of (zip (map src q) ps)" and len: "length ps = length q"
    using assms represents_lengths [OF assms] by (simp_all add: represents_def)
  have "length (entries l) = card (dom (map_of (entries l)))"
    using distinct_card [OF d(1)] by (simp add: dom_map_of_conv_image_fst)
  also have "dom (map_of (entries l)) = src ` set q"
    using len by (simp add: m dom_map_of_zip)
  also have "card \<dots> = length q" using distinct_card [OF d(2)] by simp
  finally show ?thesis .
qed

text \<open>A lookup in the map finds the source's place in the list, or tells that it has none.\<close>

lemma represents_lookup:
  assumes "represents l ps q" and "map_of (entries l) s = Some p"
  obtains xs ys as f bs where "ps = xs @ p # ys" "q = as @ f # bs" "length xs = length as" "src f = s"
proof -
  from assms have "map_of (zip (map src q) ps) s = Some p" by (simp add: represents_def)
  then have "(s, p) \<in> set (zip (map src q) ps)" by (rule map_of_SomeD)
  then obtain i where i: "i < length q" "i < length ps" "src (q ! i) = s" "ps ! i = p"
    by (auto simp: set_zip)
  show thesis
  proof (rule that [of "take i ps" "drop (Suc i) ps" "take i q" "q ! i" "drop (Suc i) q"])
    show "ps = take i ps @ p # drop (Suc i) ps" using id_take_nth_drop [OF i(2)] i(4) by simp
    show "q = take i q @ q ! i # drop (Suc i) q" using id_take_nth_drop [OF i(1)] by simp
  qed (use i in simp_all)
qed

lemma represents_absent:
  assumes "represents l ps q" and "map_of (entries l) s = None"
  shows "s \<notin> src ` set q"
proof -
  have "s \<notin> dom (map_of (zip (map src q) ps))" using assms by (simp add: represents_def domIff)
  then show ?thesis using represents_lengths [OF assms(1)] by (simp add: dom_map_of_zip)
qed

lemma represents_entry:
  assumes "represents l (xs @ p # ys) (as @ f # bs)" and "length xs = length as"
  shows "heap l p = Some (entry_of f (last_of xs None) (first_of ys None))"
  using assms by (simp add: represents_def segment_append)

text \<open>A change of the count of one entry is a change of its line.\<close>

lemma represents_recount:
  assumes rep: "represents l (xs @ p # ys) (as @ f # bs)" and len: "length xs = length as"
  shows "represents (store l p ((entry_of f (last_of xs None) (first_of ys None))\<lparr>entry_count := k\<rparr>))
    (xs @ p # ys) (as @ f\<lparr>cnt := k\<rparr> # bs)"
proof -
  let ?e = "(entry_of f (last_of xs None) (first_of ys None))\<lparr>entry_count := k\<rparr>"
  have d: "distinct (xs @ p # ys)" using rep by (simp add: represents_def)
  have "segment ((heap l)(p \<mapsto> ?e)) o' zs n fs = segment (heap l) o' zs n fs" if "p \<notin> set zs" for o' zs n fs
    using that by (intro segment_frame) auto
  then show ?thesis
    using rep d len by (auto simp: represents_def segment_append entry_of_def)
qed

lemma limiter_insert_represents:
  assumes rep: "represents l ps q" and s: "s \<notin> src ` set q"
  shows "\<exists>a l'. limiter_insert l s now = ok (a, l') \<and> a \<notin> set ps
    \<and> represents l' (ps @ [a]) (q @ [\<lparr>src = s, cnt = 0, since = now\<rparr>])"
proof -
  let ?a = "fresh l" and ?f = "\<lparr>src = s, cnt = 0, since = now\<rparr>"
  let ?e = "entry_of ?f (newest l) None"
  let ?l = "(store l ?a ?e)\<lparr>fresh := ?a + 1\<rparr>"
  have seg: "segment (heap l) None ps None q" and d: "distinct ps" and fr: "\<forall>p \<in> set ps. p < fresh l"
    and new: "newest l = last_of ps None" and old: "oldest l = first_of ps None"
    and m: "map_of (entries l) = map_of (zip (map src q) ps)"
    and dk: "distinct (map fst (entries l))" and dq: "distinct (map src q)"
    using rep unfolding represents_def by blast+
  have len: "length ps = length q" by (rule represents_lengths [OF rep])
  have a: "?a \<notin> set ps" using fr by auto
  have seg': "segment (heap ?l) None ps None q"
    using seg a by (subst segment_frame [where h = "heap l"]) auto
  have "\<exists>l2. (case newest ?l of None \<Rightarrow> ok (?l\<lparr>oldest := Some ?a\<rparr>) | Some n \<Rightarrow> set_newer ?l n (Some ?a)) = (ok l2 :: (unit, limiter) result)
      \<and> segment (heap l2) None ps (Some ?a) q \<and> heap l2 ?a = Some ?e \<and> oldest l2 = first_of ps (Some ?a)
      \<and> fresh l2 = ?a + 1 \<and> entries l2 = entries l"
  proof (cases ps rule: rev_cases)
    case Nil
    then show ?thesis using new len by simp
  next
    case (snoc us u)
    have "u \<notin> set us" using d snoc by simp
    with seg' snoc segment_set_newer [of "heap ?l" None us u None q "Some ?a"] obtain e where
      e: "heap ?l u = Some e" "segment ((heap ?l)(u \<mapsto> e\<lparr>newer := Some ?a\<rparr>)) None (us @ [u]) (Some ?a) q"
      by auto
    with snoc new a old show ?thesis by (simp add: first_of_append)
  qed
  then obtain l2 where l2:
    "(case newest ?l of None \<Rightarrow> ok (?l\<lparr>oldest := Some ?a\<rparr>) | Some n \<Rightarrow> set_newer ?l n (Some ?a)) = (ok l2 :: (unit, limiter) result)"
    "segment (heap l2) None ps (Some ?a) q" "heap l2 ?a = Some ?e" "oldest l2 = first_of ps (Some ?a)"
    "fresh l2 = ?a + 1" "entries l2 = entries l" by blast
  let ?l' = "l2\<lparr>newest := Some ?a, entries := AList.update s ?a (entries l2)\<rparr>"
  have ins: "limiter_insert l s now = ok (?a, ?l')"
  proof -
    have e: "?e = \<lparr>entry_source = s, entry_count = 0, entry_start = now, older = newest l, newer = None\<rparr>"
      by (simp add: entry_of_def)
    show ?thesis using l2(1) unfolding limiter_insert_def Let_def e by simp
  qed
  have "segment (heap ?l') None (ps @ [?a]) None (q @ [?f])"
    using l2(2,3) len new by (simp add: segment_append)
  moreover have "map_of (entries ?l') = map_of (zip (map src (q @ [?f])) (ps @ [?a]))"
  proof -
    have "dom (map_of (zip (map src q) ps)) = src ` set q" using len by (simp add: dom_map_of_zip)
    with s have none: "map_of (zip (map src q) ps) s = None" by (metis domIff)
    show ?thesis
      using len by (intro ext) (simp add: l2(6) AList.update_conv' m map_add_def none split: option.splits)
  qed
  ultimately have "represents ?l' (ps @ [?a]) (q @ [?f])"
    using d a dk dq s l2 fr unfolding represents_def
    by (auto simp: first_of_append AList.distinct_update less_Suc_eq)
  with ins a show ?thesis by blast
qed

section \<open>Every operation against the queue\<close>

lemma queue_split:
  assumes "distinct (map src (as @ f # bs))"
  shows "queue_find (as @ f # bs) (src f) = Some f"
    and "queue_drop (as @ f # bs) (src f) = as @ bs"
    and "queue_expire (as @ f # bs) (src f) now = as @ (if now - since f < auth_failure_window then [f] else []) @ bs"
    and "map (\<lambda>g. if src g = src f then h g else g) (as @ f # bs) = as @ h f # bs"
proof -
  have ne: "\<forall>g \<in> set as \<union> set bs. src g \<noteq> src f"
    using assms by (auto simp: image_iff)
  then have "find (\<lambda>g. src g = src f) as = None" by (auto simp: find_None_iff)
  then show "queue_find (as @ f # bs) (src f) = Some f"
    unfolding queue_find_def by (induction as) (auto split: if_splits)
  show "queue_drop (as @ f # bs) (src f) = as @ bs"
    using ne by (auto simp: queue_drop_def filter_id_conv)
  show "queue_expire (as @ f # bs) (src f) now = as @ (if now - since f < auth_failure_window then [f] else []) @ bs"
    using ne by (auto simp: queue_expire_def filter_id_conv)
  show "map (\<lambda>g. if src g = src f then h g else g) (as @ f # bs) = as @ h f # bs"
    using ne by (auto intro!: map_idI)
qed

lemma queue_absent:
  assumes "s \<notin> src ` set q"
  shows "queue_find q s = None" "queue_drop q s = q" "queue_expire q s now = q"
  using assms by (auto simp: queue_find_def find_None_iff queue_drop_def queue_expire_def filter_id_conv)

lemma limiter_lookup_represents:
  assumes "represents l ps q"
  shows "\<exists>p l' ps'. limiter_lookup l s now = ok (p, l') \<and> represents l' ps' (queue_expire q s now)
    \<and> p = map_of (entries l') s"
proof (cases "map_of (entries l) s")
  case None
  with assms show ?thesis
    by (auto simp: limiter_lookup_def queue_absent [OF represents_absent [OF assms None]])
next
  case (Some p)
  from represents_lookup [OF assms Some] obtain xs ys as f bs where
    sp: "ps = xs @ p # ys" "q = as @ f # bs" "length xs = length as" "src f = s" .
  have rep: "represents l (xs @ p # ys) (as @ f # bs)" using assms sp by simp
  note e = represents_entry [OF rep sp(3)]
  have d: "distinct (map src (as @ f # bs))" using rep by (simp add: represents_def)
  show ?thesis
  proof (cases "now - since f < auth_failure_window")
    case True
    then have "limiter_lookup l s now = ok (Some p, l)"
      by (simp add: limiter_lookup_def Some e entry_of_def)
    moreover have "queue_expire q s now = q"
      using queue_split(3) [OF d, of now] True sp by simp
    ultimately show ?thesis using assms Some by auto
  next
    case False
    from limiter_remove_represents [OF rep sp(3)] obtain l' where
      l': "limiter_remove l (Some p) = ok l'" "represents l' (xs @ ys) (as @ bs)" by blast
    have "limiter_lookup l s now = ok (None, l')"
      using False by (simp add: limiter_lookup_def Some e entry_of_def l'(1))
    moreover have "queue_expire q s now = as @ bs"
      using queue_split(3) [OF d, of now] False sp by simp
    moreover have "map_of (entries l') s = None"
    proof (rule ccontr)
      assume "map_of (entries l') s \<noteq> None"
      then obtain p' where "map_of (entries l') s = Some p'" by blast
      from represents_lookup [OF l'(2) this] obtain g where "g \<in> set (as @ bs)" "src g = s"
        by (metis in_set_conv_decomp)
      with d sp(4) show False by (auto simp: image_iff)
    qed
    ultimately show ?thesis using l'(2) by auto
  qed
qed

lemma limiter_reset_represents:
  assumes "represents l ps q"
  shows "\<exists>l' ps'. limiter_reset l s = ok l' \<and> represents l' ps' (queue_drop q s)"
proof (cases "map_of (entries l) s")
  case None
  with assms show ?thesis
    by (auto simp: limiter_reset_def queue_absent [OF represents_absent [OF assms None]])
next
  case (Some p)
  from represents_lookup [OF assms Some] obtain xs ys as f bs where
    sp: "ps = xs @ p # ys" "q = as @ f # bs" "length xs = length as" "src f = s" .
  have rep: "represents l (xs @ p # ys) (as @ f # bs)" using assms sp by simp
  have d: "distinct (map src (as @ f # bs))" using rep by (simp add: represents_def)
  from limiter_remove_represents [OF rep sp(3)] queue_split(2) [OF d] sp Some show ?thesis
    by (auto simp: limiter_reset_def)
qed

lemma limiter_blocked_represents:
  assumes "represents l ps q"
  shows "\<exists>l' ps'. limiter_blocked l s now = ok (auth_failure_limit \<le> failures q s now, l')
    \<and> represents l' ps' (queue_expire q s now)"
proof (cases "map_of (entries l) s")
  case None
  with assms show ?thesis
    by (auto simp: limiter_blocked_def failures_def auth_failure_limit_def
        queue_absent [OF represents_absent [OF assms None]])
next
  case (Some p)
  from represents_lookup [OF assms Some] obtain xs ys as f bs where
    sp: "ps = xs @ p # ys" "q = as @ f # bs" "length xs = length as" "src f = s" .
  have rep: "represents l (xs @ p # ys) (as @ f # bs)" using assms sp by simp
  note e = represents_entry [OF rep sp(3)]
  have d: "distinct (map src (as @ f # bs))" using rep by (simp add: represents_def)
  have fl: "failures q s now = (if auth_failure_window \<le> now - since f then 0 else cnt f)"
    using queue_split(1) [OF d] sp by (simp add: failures_def)
  show ?thesis
  proof (cases "now - since f < auth_failure_window")
    case True
    moreover have "queue_expire q s now = q" using queue_split(3) [OF d, of now] True sp by simp
    ultimately show ?thesis using assms
      by (auto simp: limiter_blocked_def Some e entry_of_def fl)
  next
    case False
    from limiter_remove_represents [OF rep sp(3)] obtain l' where
      l': "limiter_remove l (Some p) = ok l'" "represents l' (xs @ ys) (as @ bs)" by blast
    moreover have "queue_expire q s now = as @ bs" using queue_split(3) [OF d, of now] False sp by simp
    ultimately show ?thesis using False
      by (auto simp: limiter_blocked_def Some e entry_of_def fl auth_failure_limit_def)
  qed
qed

lemma set_tl_subset: "set (tl xs) \<subseteq> set xs"
  by (cases xs) auto

lemma limiter_record_represents:
  assumes rep: "represents l ps q"
  shows "\<exists>l' ps'. limiter_record l s now = ok l' \<and> represents l' ps' (queue_record q s now)"
proof -
  let ?q = "queue_expire q s now"
  from limiter_lookup_represents [OF rep] obtain p l1 ps1 where
    look: "limiter_lookup l s now = ok (p, l1)" and r1: "represents l1 ps1 ?q" and p: "p = map_of (entries l1) s"
    by blast
  show ?thesis
  proof (cases p)
    case (Some a)
    from represents_lookup [OF r1] p Some obtain xs ys as f bs where
      sp: "ps1 = xs @ a # ys" "?q = as @ f # bs" "length xs = length as" "src f = s" by metis
    have r2: "represents l1 (xs @ a # ys) (as @ f # bs)" using r1 sp by simp
    have d: "distinct (map src (as @ f # bs))" using r2 by (simp add: represents_def)
    note e = represents_entry [OF r2 sp(3)]
    have "queue_record q s now = as @ f\<lparr>cnt := cnt f + 1\<rparr> # bs"
      using queue_split(4) [OF d, of "\<lambda>f. f\<lparr>cnt := cnt f + 1\<rparr>"] sp by (simp add: queue_record_def Let_def)
    moreover have "limiter_record l s now
        = ok (store l1 a ((entry_of f (last_of xs None) (first_of ys None))\<lparr>entry_count := cnt f + 1\<rparr>))"
      by (simp add: limiter_record_def look Some e entry_of_def)
    ultimately show ?thesis using represents_recount [OF r2 sp(3), of "cnt f + 1"] by auto
  next
    case None
    then have s: "s \<notin> src ` set ?q" using represents_absent [OF r1] p by simp
    let ?q2 = "if max_auth_sources \<le> length ?q then tl ?q else ?q"
    have "\<exists>l2 ps2. (if max_auth_sources \<le> length (entries l1) then limiter_remove l1 (oldest l1) else ok l1) = ok l2
        \<and> represents l2 ps2 ?q2"
    proof (cases "max_auth_sources \<le> length ?q")
      case True
      then obtain f bs where q: "?q = f # bs" by (cases ?q) (auto simp: max_auth_sources_def)
      then obtain a ys where ps1: "ps1 = a # ys" using represents_lengths [OF r1] by (cases ps1) auto
      have "represents l1 ([] @ a # ys) ([] @ f # bs)" using r1 q ps1 by simp
      from limiter_remove_represents [OF this] obtain l2 where
        "limiter_remove l1 (Some a) = ok l2" "represents l2 ys bs" by auto
      moreover have "oldest l1 = Some a" using r1 ps1 by (simp add: represents_def)
      ultimately show ?thesis using True q represents_size [OF r1] by auto
    next
      case False
      with r1 represents_size [OF r1] show ?thesis by auto
    qed
    then obtain l2 ps2 where
      evict: "(if max_auth_sources \<le> length (entries l1) then limiter_remove l1 (oldest l1) else ok l1) = ok l2"
      and r2: "represents l2 ps2 ?q2" by blast
    have "set ?q2 \<subseteq> set ?q" using set_tl_subset [of ?q] by auto
    then have "s \<notin> src ` set ?q2" using s by blast
    from limiter_insert_represents [OF r2 this] obtain a l3 where
      ins: "limiter_insert l2 s now = ok (a, l3)" "a \<notin> set ps2"
        "represents l3 (ps2 @ [a]) (?q2 @ [\<lparr>src = s, cnt = 0, since = now\<rparr>])" by blast
    let ?f = "\<lparr>src = s, cnt = 0, since = now\<rparr>"
    have r3: "represents l3 (ps2 @ a # []) (?q2 @ ?f # [])" using ins(3) by simp
    have len: "length ps2 = length ?q2" by (rule represents_lengths [OF r2])
    note e = represents_entry [OF r3 len]
    have "limiter_record l s now = ok (store l3 a ((entry_of ?f (last_of ps2 None) None)\<lparr>entry_count := 1\<rparr>))"
      using e evict ins(1) by (simp add: limiter_record_def look None entry_of_def)
    moreover have "queue_record q s now = ?q2 @ [?f\<lparr>cnt := 1\<rparr>]"
      using s by (simp add: queue_record_def Let_def)
    ultimately show ?thesis using represents_recount [OF r3 len, of 1] by auto
  qed
qed

section \<open>The invariant of the queue\<close>

text \<open>
  At most \<open>max_auth_sources\<close> lines, one per source, ordered by the start of their windows,
  none of which lies in the future.
\<close>

definition queue_ok :: "failure list \<Rightarrow> int \<Rightarrow> bool" where
  "queue_ok q now \<longleftrightarrow> length q \<le> max_auth_sources \<and> distinct (map src q) \<and> sorted (map since q)
     \<and> (\<forall>f \<in> set q. since f \<le> now \<and> 1 \<le> cnt f)"

lemma sorted_map_filter: "sorted (map g q) \<Longrightarrow> sorted (map g (filter P q))"
  by (induction q) auto

lemma sorted_map_tl: "sorted (map g q) \<Longrightarrow> sorted (map g (tl q))"
  by (cases q) auto

lemma distinct_map_tl: "distinct (map g q) \<Longrightarrow> distinct (map g (tl q))"
  by (cases q) auto

lemma queue_expire_ok: "queue_ok q now \<Longrightarrow> queue_ok (queue_expire q s t) now"
  by (auto simp: queue_ok_def queue_expire_def distinct_map_filter sorted_map_filter
      intro: order_trans [OF length_filter_le])

lemma queue_drop_ok: "queue_ok q now \<Longrightarrow> queue_ok (queue_drop q s) now"
  by (auto simp: queue_ok_def queue_drop_def distinct_map_filter sorted_map_filter
      intro: order_trans [OF length_filter_le])

lemma queue_record_ok:
  assumes "queue_ok q t" and "t \<le> now"
  shows "queue_ok (queue_record q s now) now"
proof -
  let ?q = "queue_expire q s now"
  have e: "queue_ok ?q t" using queue_expire_ok assms(1) .
  show ?thesis
  proof (cases "s \<in> src ` set ?q")
    case True
    have "map src (map (\<lambda>f. if src f = s then f\<lparr>cnt := cnt f + 1\<rparr> else f) ?q) = map src ?q"
      "map since (map (\<lambda>f. if src f = s then f\<lparr>cnt := cnt f + 1\<rparr> else f) ?q) = map since ?q" by auto
    with e True assms(2) show ?thesis
      unfolding queue_record_def queue_ok_def Let_def by (auto simp del: map_map)
  next
    case False
    let ?q2 = "if max_auth_sources \<le> length ?q then tl ?q else ?q"
    have sub: "set ?q2 \<subseteq> set ?q" using set_tl_subset [of ?q] by auto
    have "length ?q2 < max_auth_sources"
      using e by (auto simp: queue_ok_def max_auth_sources_def)
    moreover have "distinct (map src ?q2)" "sorted (map since ?q2)"
      using e by (simp_all add: queue_ok_def distinct_map_tl sorted_map_tl)
    moreover have "s \<notin> src ` set ?q2" using False sub by blast
    moreover have "\<forall>f \<in> set ?q2. since f \<le> now \<and> 1 \<le> cnt f"
      using e sub assms(2) by (fastforce simp: queue_ok_def)
    moreover have "queue_record q s now = ?q2 @ [\<lparr>src = s, cnt = 1, since = now\<rparr>]"
      using False by (simp add: queue_record_def Let_def)
    ultimately show ?thesis unfolding queue_ok_def by (simp add: sorted_append)
  qed
qed

section \<open>Reachable limiters\<close>

text \<open>The calls of the server in the order of the mutex, under a clock that does not run back.\<close>

inductive limiter_reachable :: "limiter \<Rightarrow> int \<Rightarrow> bool" where
  initial: "limiter_reachable new_limiter t"
| recorded: "limiter_reachable l t \<Longrightarrow> t \<le> now \<Longrightarrow> limiter_record l s now = ok l' \<Longrightarrow> limiter_reachable l' now"
| checked: "limiter_reachable l t \<Longrightarrow> t \<le> now \<Longrightarrow> limiter_blocked l s now = ok (b, l') \<Longrightarrow> limiter_reachable l' now"
| forgotten: "limiter_reachable l t \<Longrightarrow> limiter_reset l s = ok l' \<Longrightarrow> limiter_reachable l' t"

lemma queue_ok_mono: "queue_ok q t \<Longrightarrow> t \<le> now \<Longrightarrow> queue_ok q now"
  by (fastforce simp: queue_ok_def)

lemma limiter_reachable_queue:
  "limiter_reachable l t \<Longrightarrow> \<exists>ps q. represents l ps q \<and> queue_ok q t"
proof (induction rule: limiter_reachable.induct)
  case (initial t)
  show ?case using represents_new by (auto simp: queue_ok_def intro!: exI [of _ "[]"])
next
  case (recorded l t now s l')
  then obtain ps q where "represents l ps q" "queue_ok q t" by blast
  with limiter_record_represents [of l ps q s now] queue_record_ok [of q t now s] recorded.hyps show ?case by auto
next
  case (checked l t now s b l')
  then obtain ps q where "represents l ps q" "queue_ok q t" by blast
  with limiter_blocked_represents [of l ps q s now] queue_expire_ok [of q t s now]
    queue_ok_mono [of _ t now] checked.hyps show ?case by auto
next
  case (forgotten l t s l')
  then obtain ps q where "represents l ps q" "queue_ok q t" by blast
  with limiter_reset_represents [of l ps q s] queue_drop_ok [of q t s] forgotten.hyps show ?case by auto
qed

section \<open>Counting\<close>

lemma find_filter_other:
  "(\<And>f. f \<in> set q \<Longrightarrow> Q f \<Longrightarrow> P f) \<Longrightarrow> find Q (filter P q) = find Q q"
  by (induction q) auto

lemma failures_expire:
  assumes "distinct (map src q)" and "now \<le> t"
  shows "failures (queue_expire q s now) y t = failures q y t"
proof (cases "\<exists>f \<in> set q. src f = s \<and> y = s")
  case True
  then obtain f where "f \<in> set q" "src f = s" "y = s" by blast
  then obtain as bs where q: "q = as @ f # bs" by (metis in_set_conv_decomp)
  note d = assms(1) [unfolded q]
  have "s \<notin> src ` set (as @ bs)" using d \<open>src f = s\<close> by auto
  then have "failures (as @ bs) s t = 0" by (simp add: failures_def queue_absent)
  then show ?thesis
    using queue_split(1,3) [OF d] assms(2) \<open>src f = s\<close> \<open>y = s\<close>
    by (auto simp: q failures_def)
next
  case False
  then have "queue_find (queue_expire q s now) y = queue_find q y"
    unfolding queue_find_def queue_expire_def by (intro find_filter_other) auto
  then show ?thesis by (simp add: failures_def)
qed

lemma failures_drop:
  assumes "distinct (map src q)"
  shows "failures (queue_drop q s) y t = (if y = s then 0 else failures q y t)"
proof (cases "y = s")
  case True
  then have "y \<notin> src ` set (queue_drop q s)" by (auto simp: queue_drop_def)
  then show ?thesis using True by (simp add: failures_def queue_absent)
next
  case False
  then have "queue_find (queue_drop q s) y = queue_find q y"
    unfolding queue_find_def queue_drop_def by (intro find_filter_other) auto
  then show ?thesis using False by (simp add: failures_def)
qed

lemma find_append: "find P (xs @ ys) = (case find P xs of None \<Rightarrow> find P ys | Some x \<Rightarrow> Some x)"
  by (induction xs) auto

lemma failures_record:
  assumes d: "distinct (map src q)"
  shows "failures (queue_record q s now) s now = Suc (failures q s now)"
proof -
  let ?q = "queue_expire q s now"
  have fe: "failures ?q s now = failures q s now" by (rule failures_expire [OF d order_refl])
  have de: "distinct (map src ?q)" using d by (simp add: queue_expire_def distinct_map_filter)
  show ?thesis
  proof (cases "s \<in> src ` set ?q")
    case True
    then obtain f where f: "f \<in> set ?q" "src f = s" by blast
    then have live: "now - since f < auth_failure_window" by (simp add: queue_expire_def)
    from f(1) obtain as bs where q: "?q = as @ f # bs" by (metis in_set_conv_decomp)
    note d2 = de [unfolded q]
    let ?g = "f\<lparr>cnt := cnt f + 1\<rparr>"
    have "queue_record q s now = as @ ?g # bs"
      using queue_split(4) [OF d2, of "\<lambda>f. f\<lparr>cnt := cnt f + 1\<rparr>"] f(2) q by (simp add: queue_record_def Let_def)
    moreover have "distinct (map src (as @ ?g # bs))" using d2 by simp
    from queue_split(1) [OF this] have "queue_find (as @ ?g # bs) s = Some ?g" using f(2) by simp
    moreover have "failures q s now = cnt f"
      using fe queue_split(1) [OF d2] f(2) live q by (simp add: failures_def)
    ultimately show ?thesis using live by (simp add: failures_def)
  next
    case False
    let ?q2 = "if max_auth_sources \<le> length ?q then tl ?q else ?q"
    have "set ?q2 \<subseteq> set ?q" using set_tl_subset [of ?q] by auto
    then have "queue_find ?q2 s = None" using False by (intro queue_absent) blast
    then have "queue_find (queue_record q s now) s = Some \<lparr>src = s, cnt = 1, since = now\<rparr>"
      using False unfolding queue_record_def Let_def queue_find_def if_not_P [OF False] find_append by simp
    moreover have "failures q s now = 0" using fe queue_absent(1) [OF False] by (simp add: failures_def)
    ultimately show ?thesis by (simp add: failures_def auth_failure_window_def)
  qed
qed

section \<open>The contract the server relies on\<close>

text \<open>
  What \<open>ServeHTTP\<close> needs of a limiter: it never panics, it blocks a source exactly when its
  live failures reach the limit, a recorded failure counts once for its source and a reset
  forgets one source only.
\<close>

locale failure_counter =
  fixes good :: "'s \<Rightarrow> bool"
    and failed :: "'s \<Rightarrow> string \<Rightarrow> int \<Rightarrow> nat"
    and blocked_at :: "'s \<Rightarrow> string \<Rightarrow> int \<Rightarrow> (unit, bool \<times> 's) result"
    and record_at :: "'s \<Rightarrow> string \<Rightarrow> int \<Rightarrow> (unit, 's) result"
    and forget :: "'s \<Rightarrow> string \<Rightarrow> (unit, 's) result"
    and limit :: nat
  assumes blocked_law: "good s \<Longrightarrow> \<exists>s'. blocked_at s x now = ok (limit \<le> failed s x now, s') \<and> good s'
      \<and> (\<forall>y t. now \<le> t \<longrightarrow> failed s' y t = failed s y t)"
    and record_law: "good s \<Longrightarrow> \<exists>s'. record_at s x now = ok s' \<and> good s' \<and> failed s' x now = Suc (failed s x now)"
    and forget_law: "good s \<Longrightarrow> \<exists>s'. forget s x = ok s' \<and> good s'
      \<and> (\<forall>y t. failed s' y t = (if y = x then 0 else failed s y t))"
begin

fun record_times :: "nat \<Rightarrow> 's \<Rightarrow> string \<Rightarrow> int \<Rightarrow> (unit, 's) result" where
  "record_times 0 s x now = ok s"
| "record_times (Suc n) s x now = bind_result (record_at s x now) (\<lambda>s. record_times n s x now)"

lemma record_times_counts:
  "good s \<Longrightarrow> \<exists>s'. record_times n s x now = ok s' \<and> good s' \<and> failed s' x now = n + failed s x now"
proof (induction n arbitrary: s)
  case (Suc n)
  from record_law [OF Suc.prems] obtain t where
    t: "record_at s x now = ok t" "good t" "failed t x now = Suc (failed s x now)" by blast
  with Suc.IH [OF t(2)] show ?case by auto
qed simp

lemma blocked_after_limit:
  assumes "good s" and "record_times n s x now = ok s'" and "limit \<le> n"
  shows "\<exists>s2. blocked_at s' x now = ok (True, s2) \<and> good s2"
  using record_times_counts [OF assms(1), of n x now] blocked_law [of s' x now] assms(2,3) by auto

lemma not_blocked_below_limit:
  assumes "good s" and "failed s x now < limit"
  shows "\<exists>s2. blocked_at s x now = ok (False, s2) \<and> good s2"
  using blocked_law [OF assms(1), of x now] assms(2) by auto

end

definition limiter_good :: "limiter \<Rightarrow> bool" where
  "limiter_good l \<longleftrightarrow> (\<exists>ps q. represents l ps q)"

definition limiter_failures :: "limiter \<Rightarrow> string \<Rightarrow> int \<Rightarrow> nat" where
  "limiter_failures l s now =
     (case map_of (entries l) s of
        None \<Rightarrow> 0
      | Some a \<Rightarrow> (case heap l a of
          None \<Rightarrow> 0
        | Some e \<Rightarrow> if auth_failure_window \<le> now - entry_start e then 0 else entry_count e))"

lemma limiter_failures_queue:
  assumes "represents l ps q"
  shows "limiter_failures l s now = failures q s now"
proof (cases "map_of (entries l) s")
  case None
  with queue_absent(1) [OF represents_absent [OF assms None]] show ?thesis
    by (simp add: limiter_failures_def failures_def)
next
  case (Some p)
  from represents_lookup [OF assms Some] obtain xs ys as f bs where
    sp: "ps = xs @ p # ys" "q = as @ f # bs" "length xs = length as" "src f = s" .
  have rep: "represents l (xs @ p # ys) (as @ f # bs)" using assms sp by simp
  have d: "distinct (map src (as @ f # bs))" using rep by (simp add: represents_def)
  show ?thesis
    using represents_entry [OF rep sp(3)] queue_split(1) [OF d] sp
    by (simp add: limiter_failures_def failures_def Some entry_of_def)
qed

lemma represents_distinct: "represents l ps q \<Longrightarrow> distinct (map src q)"
  by (simp add: represents_def)

interpretation auth: failure_counter limiter_good limiter_failures limiter_blocked limiter_record limiter_reset
    auth_failure_limit
proof
  fix s x now
  assume "limiter_good s"
  then obtain ps q where r: "represents s ps q" by (auto simp: limiter_good_def)
  note d = represents_distinct [OF r]
  from limiter_blocked_represents [OF r, of x now] obtain l1 ps1 where
    "limiter_blocked s x now = ok (auth_failure_limit \<le> failures q x now, l1)" "represents l1 ps1 (queue_expire q x now)"
    by blast
  then show "\<exists>s'. limiter_blocked s x now = ok (auth_failure_limit \<le> limiter_failures s x now, s') \<and> limiter_good s'
      \<and> (\<forall>y t. now \<le> t \<longrightarrow> limiter_failures s' y t = limiter_failures s y t)"
    using failures_expire [OF d, of now _ x] limiter_failures_queue [OF r]
    by (intro exI [of _ l1]) (auto simp: limiter_good_def limiter_failures_queue)
  from limiter_record_represents [OF r, of x now] obtain l2 ps2 where
    "limiter_record s x now = ok l2" "represents l2 ps2 (queue_record q x now)" by blast
  then show "\<exists>s'. limiter_record s x now = ok s' \<and> limiter_good s'
      \<and> limiter_failures s' x now = Suc (limiter_failures s x now)"
    using failures_record [OF d, of x now] limiter_failures_queue [OF r]
    by (intro exI [of _ l2]) (auto simp: limiter_good_def limiter_failures_queue)
  from limiter_reset_represents [OF r, of x] obtain l3 ps3 where
    "limiter_reset s x = ok l3" "represents l3 ps3 (queue_drop q x)" by blast
  then show "\<exists>s'. limiter_reset s x = ok s' \<and> limiter_good s'
      \<and> (\<forall>y t. limiter_failures s' y t = (if y = x then 0 else limiter_failures s y t))"
    using failures_drop [OF d, of x] limiter_failures_queue [OF r]
    by (intro exI [of _ l3]) (auto simp: limiter_good_def limiter_failures_queue)
qed

section \<open>The source of an attempt\<close>

text \<open>
  \<open>authenticationSource\<close>: the header counts only for a peer inside the private network. The
  text of an address is left to the caller: the code renders it with \<open>netip.Addr.String\<close>, which
  is injective on addresses, so the model keys by the unmapped address itself.
\<close>

definition remote_address :: "string \<Rightarrow> addr" where
  "remote_address remote = (case split_host_port remote of
     None \<Rightarrow> AddrZero
   | Some (host, _) \<Rightarrow> (case parse_addr host of None \<Rightarrow> AddrZero | Some a \<Rightarrow> a))"

definition authentication_source :: "(addr \<Rightarrow> string) \<Rightarrow> string \<Rightarrow> string \<Rightarrow> string" where
  "authentication_source render remote_addr header =
     (let peer = remote_address remote_addr;
          forwarded = (if is_valid peer \<and> (is_loopback peer \<or> is_private peer)
                       then parse_addr (trim_space header) else None)
      in case forwarded of
           Some a \<Rightarrow> render (unmap a)
         | None \<Rightarrow> if is_valid peer then render (unmap peer) else ''unknown'')"

section \<open>Histories of calls\<close>

datatype limiter_call = CallRecord string int | CallBlocked string int | CallReset string

text \<open>The calls one after the other, with the answers of the checks.\<close>

fun limiter_run :: "limiter_call list \<Rightarrow> limiter \<Rightarrow> (unit, bool list \<times> limiter) result" where
  "limiter_run [] l = ok ([], l)"
| "limiter_run (CallRecord x t # cs) l = bind_result (limiter_record l x t) (limiter_run cs)"
| "limiter_run (CallReset x # cs) l = bind_result (limiter_reset l x) (limiter_run cs)"
| "limiter_run (CallBlocked x t # cs) l =
     bind_result (limiter_blocked l x t) (\<lambda>(b, l). bind_result (limiter_run cs l) (\<lambda>(bs, l). ok (b # bs, l)))"

fun queue_run :: "limiter_call list \<Rightarrow> failure list \<Rightarrow> bool list \<times> failure list" where
  "queue_run [] q = ([], q)"
| "queue_run (CallRecord x t # cs) q = queue_run cs (queue_record q x t)"
| "queue_run (CallReset x # cs) q = queue_run cs (queue_drop q x)"
| "queue_run (CallBlocked x t # cs) q =
     (case queue_run cs (queue_expire q x t) of (bs, r) \<Rightarrow> ((auth_failure_limit \<le> failures q x t) # bs, r))"

lemma limiter_run_represents:
  "represents l ps q \<Longrightarrow> \<exists>l' ps'. limiter_run cs l = ok (fst (queue_run cs q), l') \<and> represents l' ps' (snd (queue_run cs q))"
proof (induction cs arbitrary: l ps q)
  case (Cons c cs)
  show ?case
  proof (cases c)
    case (CallRecord x t)
    with limiter_record_represents [OF Cons.prems, of x t] Cons.IH show ?thesis by fastforce
  next
    case (CallReset x)
    with limiter_reset_represents [OF Cons.prems, of x] Cons.IH show ?thesis by fastforce
  next
    case (CallBlocked x t)
    from limiter_blocked_represents [OF Cons.prems, of x t] obtain l1 ps1 where
      l1: "limiter_blocked l x t = ok (auth_failure_limit \<le> failures q x t, l1)" "represents l1 ps1 (queue_expire q x t)"
      by blast
    obtain bs r where run: "queue_run cs (queue_expire q x t) = (bs, r)" by fastforce
    from Cons.IH [OF l1(2)] run obtain l2 ps2 where
      l2: "limiter_run cs l1 = ok (bs, l2)" "represents l2 ps2 r" by auto
    have "limiter_run (c # cs) l = ok ((auth_failure_limit \<le> failures q x t) # bs, l2)"
      using CallBlocked l1(1) l2(1) by simp
    with CallBlocked run l2(2) show ?thesis by auto
  qed
qed auto

lemma queue_run_length: "length q \<le> max_auth_sources \<Longrightarrow> length (snd (queue_run cs q)) \<le> max_auth_sources"
proof (induction cs arbitrary: q)
  case (Cons c cs)
  have e: "length (queue_expire q x t) \<le> max_auth_sources" for x t
    unfolding queue_expire_def by (rule order_trans [OF length_filter_le Cons.prems])
  have "length (queue_drop q x) \<le> max_auth_sources" for x
    unfolding queue_drop_def by (rule order_trans [OF length_filter_le Cons.prems])
  moreover have "length (queue_record q x t) \<le> max_auth_sources" for x t
    using e [of x t] by (auto simp: queue_record_def Let_def max_auth_sources_def)
  ultimately show ?case
    using Cons.IH e by (cases c) (simp_all add: case_prod_beta)
qed simp

lemma limiter_run_append:
  "limiter_run cs l = ok (bs, l1) \<Longrightarrow> limiter_run ds l1 = ok (bs', l2) \<Longrightarrow> limiter_run (cs @ ds) l = ok (bs @ bs', l2)"
proof (induction cs arbitrary: l bs)
  case (Cons c cs)
  then show ?case
    by (cases c) (fastforce simp: bind_result_eq_ok)+
qed simp

lemma limiter_run_records:
  "limiter_good l \<Longrightarrow> limiter_reachable l t \<Longrightarrow> t \<le> now \<Longrightarrow>
     \<exists>l'. limiter_run (replicate n (CallRecord x now)) l = ok ([], l') \<and> limiter_good l' \<and> limiter_reachable l' now
       \<and> limiter_failures l' x now = n + limiter_failures l x now
   \<or> n = 0"
proof (induction n arbitrary: l t)
  case (Suc n)
  from auth.record_law [OF Suc.prems(1), of x now] obtain l1 where
    l1: "limiter_record l x now = ok l1" "limiter_good l1" "limiter_failures l1 x now = Suc (limiter_failures l x now)" by blast
  note r1 = limiter_reachable.recorded [OF Suc.prems(2,3) l1(1)]
  show ?case
  proof (cases n)
    case 0
    with l1 r1 show ?thesis by simp
  next
    case (Suc m)
    with Suc.IH [OF l1(2) r1 order_refl] l1 show ?thesis by auto
  qed
qed simp

lemma limiter_reachable_good: "limiter_reachable l t \<Longrightarrow> limiter_good l"
  using limiter_reachable_queue by (fastforce simp: limiter_good_def)

lemma failures_forgotten:
  assumes "limiter_reachable l now" and "now + auth_failure_window \<le> t"
  shows "limiter_failures l x t = 0"
proof -
  from limiter_reachable_queue [OF assms(1)] obtain ps q where q: "represents l ps q" "queue_ok q now" by blast
  then have "since f \<le> now" if "queue_find q x = Some f" for f
    using that by (auto simp: queue_find_def queue_ok_def find_Some_iff)
  with assms(2) show ?thesis
    unfolding limiter_failures_queue [OF q(1)] failures_def by (fastforce split: option.split)
qed

section \<open>Properties\<close>

text \<open>
  C13: on every history of calls the limiter, a heap of linked entries with a map into it, never
  fails and gives the answers of a plain queue of at most 4096 sources, the source whose window
  began first being dropped to make room; it holds exactly the entries of that queue.
\<close>

theorem limiter_refines_queue:
  "\<exists>l ps. limiter_run cs new_limiter = ok (fst (queue_run cs []), l) \<and> represents l ps (snd (queue_run cs []))
     \<and> length (entries l) = length (snd (queue_run cs [])) \<and> length (entries l) \<le> 4096"
  using limiter_run_represents [OF represents_new, of cs] represents_size queue_run_length [of "[]" cs]
  by (fastforce simp: max_auth_sources_def)

text \<open>
  Ten failures of a source, whatever happened before, block it, and the block ends with the
  window of one minute.
\<close>

theorem ten_failures_block:
  assumes "limiter_reachable l t" and "t \<le> now" and "10 \<le> n"
  shows "\<exists>l'. limiter_run (replicate n (CallRecord x now) @ [CallBlocked x now, CallBlocked x (now + auth_failure_window)]) l
    = ok ([True, False], l')"
proof -
  from limiter_run_records [OF limiter_reachable_good [OF assms(1)] assms(1,2), of n x] assms(3) obtain l1 where
    l1: "limiter_run (replicate n (CallRecord x now)) l = ok ([], l1)" "limiter_good l1" "limiter_reachable l1 now"
      "10 \<le> limiter_failures l1 x now" by auto
  from auth.blocked_law [OF l1(2), of x now] l1(4) obtain l2 where
    l2: "limiter_blocked l1 x now = ok (True, l2)" "limiter_good l2" by (auto simp: auth_failure_limit_def)
  note r2 = limiter_reachable.checked [OF l1(3) order_refl l2(1)]
  from auth.blocked_law [OF l2(2), of x "now + auth_failure_window"] failures_forgotten [OF r2, of "now + auth_failure_window" x]
  obtain l3 where "limiter_blocked l2 x (now + auth_failure_window) = ok (False, l3)" by (auto simp: auth_failure_limit_def)
  with l2(1) have "limiter_run [CallBlocked x now, CallBlocked x (now + auth_failure_window)] l1 = ok ([True, False], l3)"
    by simp
  from limiter_run_append [OF l1(1) this] show ?thesis by simp
qed

theorem ten_failures_block_witness:
  "\<exists>l'. limiter_run (replicate 10 (CallRecord ''192.0.2.1'' 5)
       @ [CallBlocked ''192.0.2.1'' 5, CallBlocked ''192.0.2.1'' (5 + auth_failure_window)]) new_limiter = ok ([True, False], l')"
  by (rule ten_failures_block [OF limiter_reachable.initial [of 0]]) simp_all


lemma sample_remote: "remote_address ''8.8.8.8:443'' = Addr4 134744072"
proof -
  have "split_host_port ''8.8.8.8:443'' = Some (''8.8.8.8'', ''443'')"
    using split_host_port_plain [of "''8.8.8.8''" "''443''"] by simp
  moreover have "parse_addr ''8.8.8.8'' = Some (Addr4 134744072)"
    by (simp add: parse_addr_def parse_ipv4_def parse_ipv4_fields_def is_digit_def in_range_def octets_value_def)
  ultimately show ?thesis by (simp add: remote_address_def)
qed


end
