(* ===== verification/Dns_Wire.thy ===== *)
theory Dns_Wire
  imports Go_Netip
begin

text \<open>
  \<open>internal/securetransport/dns.go\<close>: the DNS wire format. Names are encoded and decoded with
  their compression pointers, a query is built and a response is parsed into its header, its
  questions and its answers. An index or slice out of range is a panic of the model, so that
  the absence of panics on any input is a theorem.
\<close>

section \<open>Types\<close>

type_synonym dns_type = "16 word"

definition type_a :: dns_type where "type_a = 1"
definition type_cname :: dns_type where "type_cname = 5"
definition type_aaaa :: dns_type where "type_aaaa = 28"
definition type_https :: dns_type where "type_https = 65"

definition dns_type_string :: "dns_type \<Rightarrow> string" where
  "dns_type_string t =
     (if t = type_a then ''A'' else if t = type_cname then ''CNAME'' else if t = type_aaaa then ''AAAA''
      else if t = type_https then ''HTTPS'' else ''TYPE'' @ itoa (unat t))"

definition class_inet :: "16 word" where "class_inet = 1"

definition dns_message_limit :: nat where "dns_message_limit = 65535"
definition dns_name_limit :: nat where "dns_name_limit = 255"
definition dns_label_limit :: nat where "dns_label_limit = 63"
definition dns_pointer_budget :: nat where "dns_pointer_budget = 16"

type_synonym dns_rcode = "8 word"

definition rcode_success :: dns_rcode where "rcode_success = 0"
definition rcode_name_error :: dns_rcode where "rcode_name_error = 3"

definition dns_rcode_string :: "dns_rcode \<Rightarrow> string" where
  "dns_rcode_string c =
     (if c = rcode_success then ''NOERROR'' else if c = 1 then ''FORMERR'' else if c = 2 then ''SERVFAIL''
      else if c = rcode_name_error then ''NXDOMAIN'' else if c = 4 then ''NOTIMP''
      else if c = 5 then ''REFUSED'' else ''RCODE'' @ itoa (unat c))"

record dns_header =
  hdr_id :: "16 word"
  hdr_response :: bool
  hdr_truncated :: bool
  hdr_rcode :: dns_rcode
  hdr_questions :: "16 word"
  hdr_answers :: "16 word"

record dns_question =
  q_name :: string
  q_type :: dns_type
  q_class :: "16 word"

record dns_record =
  r_name :: string
  r_type :: dns_type
  r_class :: "16 word"
  r_ttl :: "32 word"
  r_data :: bytes
  r_data_offset :: nat

record dns_message =
  m_header :: dns_header
  m_questions :: "dns_question list"
  m_answers :: "dns_record list"
  m_wire :: bytes

datatype dns_fault =
    NamePastMessage | TruncatedPointer | ForwardPointer | PointerBudget | LabelLength | LabelPastMessage
  | NameTooLong | ShortHeader | MessageTooBig | TruncatedQuestion | TruncatedRecord | RecordPastMessage

datatype name_fault = NameLength nat | EmptyNameLabel | NameLabelLength nat | LabelByte

datatype dns_error = DnsMalformed dns_fault | DnsName name_fault

section \<open>Names\<close>

definition bad_label_byte :: "byte \<Rightarrow> bool" where
  "bad_label_byte b = (b \<le> 0x20 \<or> 0x7f \<le> b)"

fun encode_labels :: "bytes \<Rightarrow> string list \<Rightarrow> (dns_error, bytes) result" where
  "encode_labels dst [] = ok (dst @ [0])"
| "encode_labels dst (l # ls) =
     (if l = [] then err (DnsName EmptyNameLabel)
      else if dns_label_limit < length l then err (DnsName (NameLabelLength (length l)))
      else if list_ex bad_label_byte (bytes_of_string l) then err (DnsName LabelByte)
      else encode_labels (dst @ [word_of_nat (length l)] @ bytes_of_string l) ls)"

definition encode_name :: "bytes \<Rightarrow> string \<Rightarrow> (dns_error, bytes) result" where
  "encode_name dst raw =
     (let name = trim_suffix raw ''.'' in
      if name = [] then ok (dst @ [0])
      else if dns_name_limit - 2 < length name then err (DnsName (NameLength (length name)))
      else encode_labels dst (split_on CHR ''.'' name))"

definition lower_ascii_byte :: "byte \<Rightarrow> byte" where
  "lower_ascii_byte b = (if 65 \<le> b \<and> b \<le> 90 then b + 32 else b)"

text \<open>
  One pass of the loop of \<open>decodeName\<close>: what stands at an offset. The label is handed on
  unchecked, because the code checks the length of the whole name before the bytes of the label.
\<close>

datatype name_step = NameEnd | NamePointer nat | NameLabel bytes

definition decode_step :: "bytes \<Rightarrow> nat \<Rightarrow> (dns_error, name_step) result" where
  "decode_step message offset =
     (if length message \<le> offset then err (DnsMalformed NamePastMessage)
      else bind_result (index_at message offset) (\<lambda>b.
        if b = 0 then ok NameEnd
        else if b AND 0xc0 = 0xc0 then
          (if length message \<le> offset + 1 then err (DnsMalformed TruncatedPointer)
           else bind_result (read_uint16 message offset) (\<lambda>w.
             let target = unat (w AND 0x3fff) in
             if offset \<le> target then err (DnsMalformed ForwardPointer) else ok (NamePointer target)))
        else if dns_label_limit < unat b then err (DnsMalformed LabelLength)
        else if length message < offset + 1 + unat b then err (DnsMalformed LabelPastMessage)
        else bind_result (slice message (offset + 1) (offset + 1 + unat b)) (\<lambda>label. ok (NameLabel label))))"

lemma decode_step_ok:
  assumes "decode_step message offset = ok st"
  shows "offset < length message"
    and "st = NamePointer t \<Longrightarrow> t < offset"
    and "st = NameLabel l \<Longrightarrow> 1 \<le> length l \<and> length l \<le> dns_label_limit \<and> offset + 1 + length l \<le> length message"
proof -
  let ?b = "message ! offset"
  show o': "offset < length message"
    using assms by (auto simp: decode_step_def split: if_splits)
  show "st = NamePointer t \<Longrightarrow> t < offset"
    using assms o' by (auto simp: decode_step_def Let_def bind_result_eq_ok split: if_splits)
  assume "st = NameLabel l"
  with assms o' have b: "?b \<noteq> 0" "\<not> dns_label_limit < unat ?b" "\<not> length message < offset + 1 + unat ?b"
      "l = take (unat ?b) (drop (offset + 1) message)"
    by (auto simp: decode_step_def Let_def bind_result_eq_ok slice_eq_ok split: if_splits)
  then have "0 < unat ?b" by (simp add: unat_gt_0)
  with b show "1 \<le> length l \<and> length l \<le> dns_label_limit \<and> offset + 1 + length l \<le> length message" by simp
qed

text \<open>
  The loop. \<open>nxt\<close> is \<open>None\<close> until the first pointer has been followed. A label moves the offset
  forward and a pointer uses up budget, so the loop ends.
\<close>

function decode_name_loop ::
  "bytes \<Rightarrow> nat \<Rightarrow> string \<Rightarrow> nat option \<Rightarrow> nat \<Rightarrow> nat \<Rightarrow> (dns_error, string \<times> nat) result" where
  "decode_name_loop message offset builder nxt budget used =
     bind_result (decode_step message offset) (\<lambda>st. case st of
        NameEnd \<Rightarrow> ok (builder, case nxt of None \<Rightarrow> offset + 1 | Some n \<Rightarrow> n)
      | NamePointer target \<Rightarrow>
          if budget = 0 then err (DnsMalformed PointerBudget)
          else decode_name_loop message target builder
            (case nxt of None \<Rightarrow> Some (offset + 2) | Some n \<Rightarrow> Some n) (budget - 1) used
      | NameLabel label \<Rightarrow>
          if dns_name_limit < used + (length label + 1) then err (DnsMalformed NameTooLong)
          else if list_ex (\<lambda>c. bad_label_byte c \<or> c = 46) label then err (DnsName LabelByte)
          else decode_name_loop message (offset + 1 + length label)
            (builder @ (if builder \<noteq> [] then ''.'' else []) @ string_of_bytes (map lower_ascii_byte label))
            nxt budget (used + (length label + 1)))"
  by pat_completeness auto
termination
  by (relation "measures [\<lambda>(_, _, _, _, budget, _). budget, \<lambda>(message, offset, _). length message - offset]")
    (auto dest: decode_step_ok(1))

declare decode_name_loop.simps [simp del]

definition decode_name :: "bytes \<Rightarrow> nat \<Rightarrow> (dns_error, string \<times> nat) result" where
  "decode_name message offset = decode_name_loop message offset [] None dns_pointer_budget 0"

definition canonical_dns_name :: "string \<Rightarrow> string" where
  "canonical_dns_name name = to_lower (trim_suffix name ''.'')"

section \<open>Messages\<close>

definition build_dns_query :: "16 word \<Rightarrow> dns_question \<Rightarrow> (dns_error, bytes) result" where
  "build_dns_query qid q =
     (let wire = put_uint16 qid @ put_uint16 0x0100 @ put_uint16 1 @ put_uint16 0 @ put_uint16 0 @ put_uint16 0
      in bind_result (encode_name wire (q_name q)) (\<lambda>wire.
           ok (wire @ put_uint16 (q_type q) @ put_uint16 (q_class q))))"

primrec parse_questions :: "nat \<Rightarrow> bytes \<Rightarrow> nat \<Rightarrow> dns_question list \<Rightarrow> (dns_error, dns_question list \<times> nat) result" where
  "parse_questions 0 wire offset qs = ok (qs, offset)"
| "parse_questions (Suc n) wire offset qs =
     bind_result (decode_name wire offset) (\<lambda>(name, nxt).
       if length wire < nxt + 4 then err (DnsMalformed TruncatedQuestion)
       else bind_result (read_uint16 wire nxt) (\<lambda>t.
         bind_result (read_uint16 wire (nxt + 2)) (\<lambda>c.
           parse_questions n wire (nxt + 4) (qs @ [\<lparr>q_name = name, q_type = t, q_class = c\<rparr>]))))"

primrec parse_answers :: "nat \<Rightarrow> bytes \<Rightarrow> nat \<Rightarrow> dns_record list \<Rightarrow> (dns_error, dns_record list \<times> nat) result" where
  "parse_answers 0 wire offset rs = ok (rs, offset)"
| "parse_answers (Suc n) wire offset rs =
     bind_result (decode_name wire offset) (\<lambda>(name, nxt).
       if length wire < nxt + 10 then err (DnsMalformed TruncatedRecord)
       else bind_result (read_uint16 wire (nxt + 8)) (\<lambda>l.
         let len = unat l; start = nxt + 10 in
         if length wire < start + len then err (DnsMalformed RecordPastMessage)
         else bind_result (read_uint16 wire nxt) (\<lambda>t.
           bind_result (read_uint16 wire (nxt + 2)) (\<lambda>c.
           bind_result (read_uint32 wire (nxt + 4)) (\<lambda>ttl.
           bind_result (slice wire start (start + len)) (\<lambda>data.
             parse_answers n wire (start + len)
               (rs @ [\<lparr>r_name = name, r_type = t, r_class = c, r_ttl = ttl, r_data = data,
                       r_data_offset = start\<rparr>])))))))"

definition parse_header :: "bytes \<Rightarrow> (dns_error, dns_header) result" where
  "parse_header wire =
     bind_result (read_uint16 wire 2) (\<lambda>flags.
     bind_result (read_uint16 wire 0) (\<lambda>id.
     bind_result (read_uint16 wire 4) (\<lambda>questions.
     bind_result (read_uint16 wire 6) (\<lambda>answers.
       ok \<lparr>hdr_id = id, hdr_response = flags AND 0x8000 \<noteq> 0, hdr_truncated = flags AND 0x0200 \<noteq> 0,
           hdr_rcode = ucast (flags AND 0x000f), hdr_questions = questions, hdr_answers = answers\<rparr>))))"

definition parse_dns_message :: "bytes \<Rightarrow> (dns_error, dns_message) result" where
  "parse_dns_message wire =
     (if length wire < 12 then err (DnsMalformed ShortHeader)
      else if dns_message_limit < length wire then err (DnsMalformed MessageTooBig)
      else bind_result (parse_header wire) (\<lambda>header.
        bind_result (parse_questions (unat (hdr_questions header)) wire 12 []) (\<lambda>(questions, offset).
          bind_result (parse_answers (unat (hdr_answers header)) wire offset []) (\<lambda>(answers, _).
            ok \<lparr>m_header = header, m_questions = questions, m_answers = answers, m_wire = wire\<rparr>))))"

section \<open>No input makes the parser panic\<close>

lemma decode_step_no_panic [no_panic_intros]: "no_panic (decode_step message offset)"
  unfolding decode_step_def by (intro no_panic_intros) auto

lemma decode_name_loop_no_panic: "no_panic (decode_name_loop message offset builder nxt budget used)"
proof (induction message offset builder nxt budget used rule: decode_name_loop.induct)
  case (1 message offset builder nxt budget used)
  show ?case
    unfolding decode_name_loop.simps [of message offset]
  proof (rule no_panic_bind [OF decode_step_no_panic], goal_cases)
    case (1 st)
    note st = this
    show ?case
    proof (cases st)
      case (NamePointer t)
      then show ?thesis using "1.IH"(1) [OF st NamePointer] by simp
    next
      case (NameLabel l)
      then show ?thesis using "1.IH"(2) [OF st NameLabel] by simp
    qed simp
  qed
qed

lemma decode_name_no_panic [no_panic_intros]: "no_panic (decode_name message offset)"
  by (simp add: decode_name_def decode_name_loop_no_panic)

lemma parse_questions_no_panic [no_panic_intros]: "no_panic (parse_questions n wire offset qs)"
proof (induction n arbitrary: offset qs)
  case (Suc n)
  show ?case
    unfolding parse_questions.simps
    by (rule no_panic_bind [OF decode_name_no_panic], clarsimp, intro no_panic_intros Suc)
qed simp

lemma parse_answers_no_panic [no_panic_intros]: "no_panic (parse_answers n wire offset rs)"
proof (induction n arbitrary: offset rs)
  case (Suc n)
  show ?case
    unfolding parse_answers.simps
    by (rule no_panic_bind [OF decode_name_no_panic], clarsimp simp: Let_def, intro no_panic_intros Suc)
qed simp

lemma parse_header_no_panic [no_panic_intros]: "12 \<le> length wire \<Longrightarrow> no_panic (parse_header wire)"
  unfolding parse_header_def by (intro no_panic_intros) auto

lemma no_panic_split [no_panic_intros]: "(\<And>a b. p = (a, b) \<Longrightarrow> no_panic (f a b)) \<Longrightarrow> no_panic (case p of (a, b) \<Rightarrow> f a b)"
  by (cases p) simp

lemma parse_dns_message_no_panic: "no_panic (parse_dns_message wire)"
  unfolding parse_dns_message_def by (intro no_panic_intros) auto

section \<open>What a decoded name looks like\<close>

text \<open>Labels of 1 to 63 printable lower-case bytes without a dot, joined by dots.\<close>

definition wire_label :: "string \<Rightarrow> bool" where
  "wire_label l \<longleftrightarrow> l \<noteq> [] \<and> length l \<le> dns_label_limit
     \<and> (\<forall>c \<in> set l. 33 \<le> code c \<and> code c < 127 \<and> c \<noteq> CHR ''.'' \<and> \<not> in_range 65 90 (code c))"

definition wire_name :: "string \<Rightarrow> bool" where
  "wire_name n \<longleftrightarrow> n = [] \<or> list_all wire_label (split_on CHR ''.'' n)"

lemma code_char_of_byte: "code (char_of_byte b) = unat b"
proof -
  have "unat b < 256" using unsigned_less [of b] by simp
  then show ?thesis by (simp add: char_of_byte_def)
qed

lemma lower_ascii_byte_code:
  "unat (lower_ascii_byte b) = (if 65 \<le> unat b \<and> unat b \<le> 90 then unat b + 32 else unat b)"
proof -
  have "unat b \<le> 90 \<Longrightarrow> unat (b + 32) = unat b + 32" by (simp add: unat_word_ariths)
  then show ?thesis by (auto simp: lower_ascii_byte_def word_le_nat_alt)
qed

lemma wire_label_lower:
  assumes "label \<noteq> []" and "length label \<le> dns_label_limit"
    and "\<not> list_ex (\<lambda>c. bad_label_byte c \<or> c = 46) label"
  shows "wire_label (string_of_bytes (map lower_ascii_byte label))"
proof -
  have "33 \<le> code c \<and> code c < 127 \<and> c \<noteq> CHR ''.'' \<and> \<not> in_range 65 90 (code c)"
    if "c \<in> set (string_of_bytes (map lower_ascii_byte label))" for c
  proof -
    from that obtain b where b: "b \<in> set label" "c = char_of_byte (lower_ascii_byte b)"
      by (auto simp: string_of_bytes_def)
    with assms(3) have "\<not> bad_label_byte b" "b \<noteq> 46" by (auto simp: list_ex_iff)
    then have "32 < unat b" "unat b < 127" "unat b \<noteq> 46"
      by (auto simp: bad_label_byte_def word_le_nat_alt not_le word_unat_eq_iff)
    moreover have code: "code c = unat (lower_ascii_byte b)" using b(2) by (simp add: code_char_of_byte)
    moreover have "code CHR ''.'' = 46" by simp
    ultimately show ?thesis by (auto simp: lower_ascii_byte_code in_range_def split: if_splits)
  qed
  then show ?thesis using assms(1,2) by (auto simp: wire_label_def string_of_bytes_def)
qed

lemma wire_label_no_dot: "wire_label l \<Longrightarrow> CHR ''.'' \<notin> set l"
  by (auto simp: wire_label_def)

lemma wire_name_append:
  assumes "wire_name b" and "wire_label l"
  shows "wire_name (b @ (if b \<noteq> [] then ''.'' else []) @ l)"
  using assms split_on_append [of "CHR ''.''" b l] split_on_free [OF wire_label_no_dot [OF assms(2)]]
  by (auto simp: wire_name_def)

lemma decode_name_loop_wire:
  assumes "decode_name_loop message offset builder nxt budget used = ok (name, e)"
    and "wire_name builder" and "if builder = [] then used = 0 else length builder + 1 = used"
    and "used \<le> dns_name_limit"
  shows "wire_name name \<and> length name \<le> dns_name_limit - 1"
  using assms
proof (induction message offset builder nxt budget used rule: decode_name_loop.induct)
  case (1 message offset builder nxt budget used)
  from "1.prems"(1) obtain st where st: "decode_step message offset = ok st"
    by (auto simp: decode_name_loop.simps [of message offset] bind_result_eq_ok)
  show ?case
  proof (cases st)
    case NameEnd
    with "1.prems" st show ?thesis
      by (auto simp: decode_name_loop.simps [of message offset] split: if_splits)
  next
    case (NamePointer t)
    with "1.prems"(1) st have "budget \<noteq> 0"
      by (auto simp: decode_name_loop.simps [of message offset] split: if_splits)
    with "1.prems" st NamePointer show ?thesis
      using "1.IH"(1) [OF st NamePointer] by (simp add: decode_name_loop.simps [of message offset])
  next
    case (NameLabel l)
    let ?b = "builder @ (if builder \<noteq> [] then ''.'' else []) @ string_of_bytes (map lower_ascii_byte l)"
    from "1.prems"(1) st NameLabel have c: "\<not> dns_name_limit < used + (length l + 1)"
      "\<not> list_ex (\<lambda>c. bad_label_byte c \<or> c = 46) l"
      "decode_name_loop message (offset + 1 + length l) ?b nxt budget (used + (length l + 1)) = ok (name, e)"
      by (auto simp: decode_name_loop.simps [of message offset] split: if_splits)
    have l: "l \<noteq> []" "length l \<le> dns_label_limit" using decode_step_ok(3) [OF st NameLabel] by auto
    have "wire_name ?b"
      by (rule wire_name_append [OF "1.prems"(2) wire_label_lower [OF l c(2)]])
    moreover have "if ?b = [] then used + (length l + 1) = 0 else length ?b + 1 = used + (length l + 1)"
      using "1.prems"(3) l by (auto simp: string_of_bytes_def split: if_splits)
    ultimately show ?thesis
      using "1.IH"(2) [OF st NameLabel c(1,2,3)] c(1) by simp
  qed
qed

lemma decode_name_wire:
  assumes "decode_name message offset = ok (name, e)"
  shows "wire_name name" and "length name \<le> 254"
  using decode_name_loop_wire [of message offset "[]" None dns_pointer_budget 0 name e] assms
  by (simp_all add: decode_name_def wire_name_def dns_name_limit_def)

section \<open>Encoding then decoding\<close>

definition label_bytes :: "string \<Rightarrow> bytes" where
  "label_bytes l = word_of_nat (length l) # bytes_of_string l"

definition name_bytes :: "string list \<Rightarrow> bytes" where
  "name_bytes ls = concat (map label_bytes ls) @ [0]"

lemma length_label [simp]: "length (label_bytes l) = length l + 1"
  by (simp add: label_bytes_def)

text \<open>The names a client asks for: lower case, printable, at most 253 bytes.\<close>

definition query_name :: "string \<Rightarrow> bool" where
  "query_name n \<longleftrightarrow> n \<noteq> [] \<and> wire_name n \<and> length n \<le> dns_name_limit - 2"

lemma unat_byte_of_char: "unat (byte_of_char c) = code c"
  by (simp add: byte_of_char_def unat_of_nat take_bit_nat_eq_self)

lemma wire_label_bytes:
  assumes "wire_label l"
  shows "\<not> list_ex bad_label_byte (bytes_of_string l)"
    and "\<not> list_ex (\<lambda>c. bad_label_byte c \<or> c = 46) (bytes_of_string l)"
    and "string_of_bytes (map lower_ascii_byte (bytes_of_string l)) = l"
    and "bytes_of_string l \<noteq> []"
proof -
  have c: "\<not> bad_label_byte (byte_of_char c) \<and> byte_of_char c \<noteq> 46 \<and> lower_ascii_byte (byte_of_char c) = byte_of_char c"
    if "c \<in> set l" for c
  proof -
    have *: "33 \<le> code c" "code c < 127" "c \<noteq> CHR ''.''" "\<not> in_range 65 90 (code c)"
      using assms that by (auto simp: wire_label_def)
    have "code c \<noteq> code CHR ''.''" using *(3) by (simp only: of_char_eq_iff simp_thms)
    then have "code c \<noteq> 46" by simp
    then show ?thesis
      using * by (auto simp: bad_label_byte_def lower_ascii_byte_def word_le_nat_alt word_unat_eq_iff
          unat_byte_of_char in_range_def)
  qed
  show "\<not> list_ex bad_label_byte (bytes_of_string l)"
    and "\<not> list_ex (\<lambda>c. bad_label_byte c \<or> c = 46) (bytes_of_string l)"
    using c by (auto simp: list_ex_iff bytes_of_string_def)
  have "map lower_ascii_byte (bytes_of_string l) = bytes_of_string l"
    using c by (auto simp: bytes_of_string_def intro: map_idI)
  then show "string_of_bytes (map lower_ascii_byte (bytes_of_string l)) = l" by simp
  show "bytes_of_string l \<noteq> []" using assms by (auto simp: wire_label_def bytes_of_string_def)
qed

lemma encode_labels_ok: "list_all wire_label ls \<Longrightarrow> encode_labels dst ls = ok (dst @ name_bytes ls)"
proof (induction ls arbitrary: dst)
  case (Cons l ls)
  then have l: "wire_label l" by simp
  show ?case
    using Cons wire_label_bytes(1) [OF l] l
    by (simp add: name_bytes_def label_bytes_def wire_label_def)
qed (simp add: name_bytes_def)

lemma query_name_no_trailing_dot: "query_name n \<Longrightarrow> trim_suffix n ''.'' = n"
proof -
  assume n: "query_name n"
  have "\<not> has_suffix n ''.''"
  proof
    assume "has_suffix n ''.''"
    then obtain u where "n = u @ [CHR ''.'']" by (auto simp: has_suffix_iff)
    then have "[] \<in> set (split_on CHR ''.'' n)" by (simp add: split_on_append)
    with n show False by (auto simp: query_name_def wire_name_def list_all_iff wire_label_def)
  qed
  then show ?thesis by (simp add: trim_suffix_def)
qed

lemma encode_name_ok:
  assumes "query_name n"
  shows "encode_name dst n = ok (dst @ name_bytes (split_on CHR ''.'' n))"
  using query_name_no_trailing_dot [OF assms] assms
  by (auto simp: encode_name_def Let_def encode_labels_ok query_name_def wire_name_def)

lemma and_192_label: "n \<le> 63 \<Longrightarrow> (word_of_nat n :: byte) AND 192 \<noteq> 192"
proof -
  assume n: "n \<le> 63"
  have *: "(192 :: byte) = NOT (mask 6)" by code_simp
  have "unat (drop_bit 6 (word_of_nat n :: byte)) = unat (word_of_nat n :: byte) div 64"
    by (simp only: unat_drop_bit_eq) (simp add: drop_bit_eq_div)
  also have "unat (word_of_nat n :: byte) = n" using n by (simp add: unat_of_nat take_bit_nat_eq_self)
  finally have "unat (drop_bit 6 (word_of_nat n :: byte)) = 0" using n by simp
  then have "drop_bit 6 (word_of_nat n :: byte) = 0" by (simp only: word_unat_eq_iff) simp
  then have "(word_of_nat n :: byte) AND 192 = 0" by (simp only: * and_not_mask_eq_0)
  then show ?thesis by simp
qed

lemma decode_step_label:
  assumes "wire_label l"
  shows "decode_step (pre @ label_bytes l @ rest) (length pre) = ok (NameLabel (bytes_of_string l))"
proof -
  have len: "0 < length l" "length l \<le> 63" using assms by (auto simp: wire_label_def dns_label_limit_def)
  let ?b = "word_of_nat (length l) :: byte"
  have u: "unat ?b = length l" using len by (simp add: unat_of_nat take_bit_nat_eq_self)
  then have nz: "?b \<noteq> 0" using len by (auto simp: word_unat_eq_iff)
  have at: "(pre @ label_bytes l @ rest) ! length pre = ?b" by (simp add: label_bytes_def nth_append)
  have "take (length l) (drop (length pre + 1) (pre @ label_bytes l @ rest)) = bytes_of_string l"
    by (simp add: label_bytes_def)
  then show ?thesis
    using len and_192_label [OF len(2)] nz
    by (simp add: decode_step_def at u dns_label_limit_def slice_def label_bytes_def)
qed

lemma decode_step_end: "decode_step (pre @ 0 # rest) (length pre) = ok NameEnd"
  by (simp add: decode_step_def)

lemma join_dots: "ls \<noteq> [] \<Longrightarrow> join ''.'' (l # ls) = l @ ''.'' @ join ''.'' ls"
  by (simp add: join_Cons)

lemma decode_labels:
  assumes "list_all wire_label ls" and "used + length (concat (map label_bytes ls)) \<le> dns_name_limit"
  shows "decode_name_loop (pre @ name_bytes ls @ rest) (length pre) builder nxt budget used
    = ok (if ls = [] then builder else builder @ (if builder \<noteq> [] then ''.'' else []) @ join ''.'' ls,
          case nxt of None \<Rightarrow> length pre + length (name_bytes ls) | Some n \<Rightarrow> n)"
  using assms
proof (induction ls arbitrary: pre builder used)
  case Nil
  have "decode_step (pre @ name_bytes [] @ rest) (length pre) = ok NameEnd"
    using decode_step_end by (simp add: name_bytes_def)
  then show ?case by (simp add: decode_name_loop.simps name_bytes_def split: option.splits)
next
  case (Cons l ls)
  then have l: "wire_label l" and ls: "list_all wire_label ls" by simp_all
  let ?m = "pre @ name_bytes (l # ls) @ rest"
  have m: "?m = pre @ label_bytes l @ name_bytes ls @ rest" by (simp add: name_bytes_def)
  have m2: "?m = (pre @ label_bytes l) @ name_bytes ls @ rest" by (simp add: m)
  have st: "decode_step ?m (length pre) = ok (NameLabel (bytes_of_string l))"
    unfolding m by (rule decode_step_label [OF l])
  have used: "used + (length l + 1) + length (concat (map label_bytes ls)) \<le> dns_name_limit"
    using Cons.prems(2) by simp
  let ?b = "builder @ (if builder \<noteq> [] then ''.'' else []) @ l"
  have "decode_name_loop ?m (length pre) builder nxt budget used
      = decode_name_loop ?m (length pre + 1 + length l) ?b nxt budget (used + (length l + 1))"
    using used wire_label_bytes(2,3) [OF l]
    by (subst decode_name_loop.simps) (simp add: st)
  also have "\<dots> = decode_name_loop ((pre @ label_bytes l) @ name_bytes ls @ rest) (length (pre @ label_bytes l)) ?b
      nxt budget (used + (length l + 1))"
    by (simp only: m2) simp
  also have "\<dots> = ok (if ls = [] then ?b else ?b @ (if ?b \<noteq> [] then ''.'' else []) @ join ''.'' ls,
      case nxt of None \<Rightarrow> length (pre @ label_bytes l) + length (name_bytes ls) | Some n \<Rightarrow> n)"
    by (rule Cons.IH [OF ls used])
  finally show ?case
    using l by (auto simp: join_dots name_bytes_def wire_label_def split: option.splits)
qed

lemma length_label_bytes: "length (concat (map label_bytes ls)) = (\<Sum>l \<leftarrow> ls. length l + 1)"
  by (induction ls) simp_all

lemma length_join: "ls \<noteq> [] \<Longrightarrow> length (join ''.'' ls) + 1 = (\<Sum>l \<leftarrow> ls. length l + 1)"
proof (induction ls)
  case (Cons l ls)
  then show ?case by (cases "ls = []") (simp_all add: join_Cons)
qed simp

lemma decode_encoded_name:
  assumes "query_name n"
  shows "decode_name (pre @ name_bytes (split_on CHR ''.'' n) @ rest) (length pre)
    = ok (n, length pre + length (name_bytes (split_on CHR ''.'' n)))"
proof -
  let ?ls = "split_on CHR ''.'' n"
  have ls: "list_all wire_label ?ls" using assms by (auto simp: query_name_def wire_name_def)
  have "length n + 1 = (\<Sum>l \<leftarrow> ?ls. length l + 1)"
    using length_join [of ?ls] by (simp add: join_split_on)
  then have "length (concat (map label_bytes ?ls)) \<le> dns_name_limit"
    using assms unfolding length_label_bytes by (simp add: query_name_def dns_name_limit_def)
  then show ?thesis
    using decode_labels [OF ls, of 0 pre rest "[]" None dns_pointer_budget]
    by (simp add: decode_name_def join_split_on)
qed

text \<open>A query is parsed back into its question, with nothing else set.\<close>

lemma build_query_ok:
  assumes "query_name (q_name q)"
  shows "build_dns_query qid q = ok (put_uint16 qid @ put_uint16 0x0100 @ put_uint16 1 @ put_uint16 0 @ put_uint16 0
    @ put_uint16 0 @ name_bytes (split_on CHR ''.'' (q_name q)) @ put_uint16 (q_type q) @ put_uint16 (q_class q))"
  using assms by (simp add: build_dns_query_def Let_def encode_name_ok)

lemma name_bytes_length: "query_name n \<Longrightarrow> length (name_bytes (split_on CHR ''.'' n)) = length n + 2"
  using length_join [of "split_on CHR ''.'' n"] by (simp add: name_bytes_def length_label_bytes join_split_on)

lemma parse_built_query:
  assumes q: "query_name (q_name q)" and w: "build_dns_query qid q = ok wire"
  shows "parse_dns_message wire = ok
    \<lparr>m_header = \<lparr>hdr_id = qid, hdr_response = False, hdr_truncated = False, hdr_rcode = rcode_success,
        hdr_questions = 1, hdr_answers = 0\<rparr>, m_questions = [q], m_answers = [], m_wire = wire\<rparr>"
proof -
  let ?h = "put_uint16 qid @ put_uint16 0x0100 @ put_uint16 1 @ put_uint16 0 @ put_uint16 0 @ put_uint16 (0 :: 16 word)"
  let ?n = "name_bytes (split_on CHR ''.'' (q_name q))"
  let ?t = "put_uint16 (q_type q) @ put_uint16 (q_class q)"
  have wire: "wire = ?h @ ?n @ ?t" using w build_query_ok [OF q, of qid] by simp
  have lh: "length ?h = 12" by simp
  have len: "length wire = 12 + (length (q_name q) + 2) + 4" by (simp add: wire name_bytes_length [OF q])
  have small: "length (q_name q) \<le> 253" using q by (simp add: query_name_def dns_name_limit_def)
  have hdr: "parse_header wire = ok \<lparr>hdr_id = qid, hdr_response = False, hdr_truncated = False,
      hdr_rcode = rcode_success, hdr_questions = 1, hdr_answers = 0\<rparr>"
  proof -
    have "read_uint16 wire 0 = (ok qid :: (dns_error, 16 word) result)"
      "read_uint16 wire 2 = (ok 0x0100 :: (dns_error, 16 word) result)"
      "read_uint16 wire 4 = (ok 1 :: (dns_error, 16 word) result)"
      "read_uint16 wire 6 = (ok 0 :: (dns_error, 16 word) result)"
      using len by (simp_all add: wire numeral_eq_Suc)
    then show ?thesis by (simp add: parse_header_def rcode_success_def)
  qed
  have name: "decode_name wire 12 = ok (q_name q, 12 + (length (q_name q) + 2))"
    using decode_encoded_name [OF q, of ?h ?t] unfolding wire lh name_bytes_length [OF q] .
  have "drop (12 + (length (q_name q) + 2)) wire = ?t"
    using lh name_bytes_length [OF q] by (simp add: wire)
  moreover from this have "drop (12 + (length (q_name q) + 2) + 2) wire = put_uint16 (q_class q)"
    by (metis append_eq_conv_conj drop_drop add.commute length_put_uint(1))
  ultimately have qs: "parse_questions (Suc 0) wire 12 [] = ok ([q], length wire)"
    using len by (simp add: name)
  show ?thesis
    using len small by (simp add: parse_dns_message_def hdr dns_message_limit_def qs del: parse_questions.simps)
qed

section \<open>A response is parsed back into its records\<close>

text \<open>The bytes of a record and of a message with one question, names written out in full.\<close>

definition record_bytes :: "dns_record \<Rightarrow> bytes" where
  "record_bytes r = name_bytes (split_on CHR ''.'' (r_name r)) @ put_uint16 (r_type r) @ put_uint16 (r_class r)
     @ put_uint32 (r_ttl r) @ put_uint16 (word_of_nat (length (r_data r))) @ r_data r"

definition question_bytes :: "dns_question \<Rightarrow> bytes" where
  "question_bytes q = name_bytes (split_on CHR ''.'' (q_name q)) @ put_uint16 (q_type q) @ put_uint16 (q_class q)"

definition header_bytes :: "16 word \<Rightarrow> 16 word \<Rightarrow> nat \<Rightarrow> bytes" where
  "header_bytes qid flags n =
     put_uint16 qid @ put_uint16 flags @ put_uint16 1 @ put_uint16 (word_of_nat n) @ put_uint16 0 @ put_uint16 0"

definition message_bytes :: "16 word \<Rightarrow> 16 word \<Rightarrow> dns_question \<Rightarrow> dns_record list \<Rightarrow> bytes" where
  "message_bytes qid flags q rs = header_bytes qid flags (length rs) @ question_bytes q @ concat (map record_bytes rs)"

text \<open>The records as they are read at an offset: only where their data starts is new.\<close>

fun placed :: "nat \<Rightarrow> dns_record list \<Rightarrow> dns_record list" where
  "placed off [] = []"
| "placed off (r # rs) =
     r\<lparr>r_data_offset := off + length (name_bytes (split_on CHR ''.'' (r_name r))) + 10\<rparr>
       # placed (off + length (record_bytes r)) rs"

definition plain_record :: "dns_record \<Rightarrow> bool" where
  "plain_record r \<longleftrightarrow> query_name (r_name r) \<and> length (r_data r) < 65536"

lemma read_uint16_at [simp]:
  "i = length pre \<Longrightarrow> read_uint16 (pre @ put_uint16 v @ rest) i = ok v"
  "i = length pre + 2 \<Longrightarrow> read_uint16 (pre @ put_uint16 u @ put_uint16 v @ rest) i = ok v"
  by simp_all

lemma parse_record_at:
  assumes r: "plain_record r"
  shows "parse_answers (Suc n) (pre @ record_bytes r @ rest) (length pre) acc =
    parse_answers n (pre @ record_bytes r @ rest) (length (pre @ record_bytes r)) (acc @ placed (length pre) [r])"
proof -
  let ?nb = "name_bytes (split_on CHR ''.'' (r_name r))"
  let ?l = "put_uint16 (word_of_nat (length (r_data r)))"
  let ?m = "pre @ record_bytes r @ rest"
  have m: "?m = pre @ ?nb @ (put_uint16 (r_type r) @ put_uint16 (r_class r) @ put_uint32 (r_ttl r) @ ?l @ r_data r @ rest)"
    by (simp add: record_bytes_def)
  define i where "i = length pre + length ?nb"
  have name: "decode_name ?m (length pre) = ok (r_name r, i)"
    unfolding m i_def using decode_encoded_name r by (simp add: plain_record_def)
  have len: "length (r_data r) < 65536" "length ?m = i + 10 + length (r_data r) + length rest"
    using r by (simp_all add: plain_record_def m i_def)
  have "take 2 (drop i ?m) = put_uint16 (r_type r)" "take 2 (drop (i + 2) ?m) = put_uint16 (r_class r)"
    "take 4 (drop (i + 4) ?m) = put_uint32 (r_ttl r)" "take 2 (drop (i + 8) ?m) = ?l"
    "take (length (r_data r)) (drop (i + 10) ?m) = r_data r"
    unfolding m i_def by simp_all
  with len have parts: "read_uint16 ?m i = ok (r_type r)" "read_uint16 ?m (i + 2) = ok (r_class r)"
    "read_uint32 ?m (i + 4) = ok (r_ttl r)" "read_uint16 ?m (i + 8) = ok (word_of_nat (length (r_data r)))"
    "slice ?m (i + 10) (i + 10 + length (r_data r)) = ok (r_data r)"
    by simp_all
  have fields: "r\<lparr>r_data_offset := i + 10\<rparr> = \<lparr>r_name = r_name r, r_type = r_type r, r_class = r_class r, r_ttl = r_ttl r,
      r_data = r_data r, r_data_offset = i + 10\<rparr>" by (cases r) simp
  have nxt: "length (pre @ record_bytes r) = i + 10 + length (r_data r)" by (simp add: record_bytes_def i_def)
  have le: "\<not> length ?m < i + 10" "\<not> length ?m < i + 10 + length (r_data r)" using len by simp_all
  show ?thesis
    unfolding nxt parse_answers.simps name bind_result_ok prod.case if_not_P [OF le(1)] parts Let_def
      unat_word_of_nat_16 [OF len(1)] if_not_P [OF le(2)] placed.simps i_def [symmetric] fields ..
qed

lemma parse_records_at:
  "list_all plain_record rs \<Longrightarrow>
     parse_answers (length rs) (pre @ concat (map record_bytes rs)) (length pre) acc
       = ok (acc @ placed (length pre) rs, length pre + length (concat (map record_bytes rs)))"
proof (induction rs arbitrary: pre acc)
  case (Cons r rs)
  then have "parse_answers (length (r # rs)) (pre @ concat (map record_bytes (r # rs))) (length pre) acc
      = parse_answers (length rs) ((pre @ record_bytes r) @ concat (map record_bytes rs)) (length (pre @ record_bytes r))
          (acc @ placed (length pre) [r])"
    using parse_record_at [of r "length rs" pre "concat (map record_bytes rs)" acc] by simp
  also have "\<dots> = ok ((acc @ placed (length pre) [r]) @ placed (length (pre @ record_bytes r)) rs,
      length (pre @ record_bytes r) + length (concat (map record_bytes rs)))"
    by (rule Cons.IH) (use Cons.prems in simp)
  finally show ?case by (simp add: add.assoc)
qed simp

lemma parse_question_at:
  assumes "query_name (q_name q)"
  shows "parse_questions (Suc 0) (pre @ question_bytes q @ rest) (length pre) [] = ok ([q], length (pre @ question_bytes q))"
proof -
  let ?nb = "name_bytes (split_on CHR ''.'' (q_name q))"
  let ?m = "pre @ question_bytes q @ rest"
  define i where "i = length pre + length ?nb"
  have m: "?m = pre @ ?nb @ put_uint16 (q_type q) @ put_uint16 (q_class q) @ rest" by (simp add: question_bytes_def)
  have name: "decode_name ?m (length pre) = ok (q_name q, i)"
    unfolding m i_def by (rule decode_encoded_name [OF assms])
  have "take 2 (drop i ?m) = put_uint16 (q_type q)" "take 2 (drop (i + 2) ?m) = put_uint16 (q_class q)"
    "length ?m = i + 4 + length rest"
    unfolding m i_def by simp_all
  moreover have "length (pre @ question_bytes q) = i + 4" by (simp add: question_bytes_def i_def)
  ultimately show ?thesis by (simp add: name)
qed

lemma parse_header_at:
  "parse_header (header_bytes qid flags n @ rest) =
     ok \<lparr>hdr_id = qid, hdr_response = flags AND 0x8000 \<noteq> 0, hdr_truncated = flags AND 0x0200 \<noteq> 0,
         hdr_rcode = ucast (flags AND 0x000f), hdr_questions = 1, hdr_answers = word_of_nat n\<rparr>"
proof -
  let ?m = "header_bytes qid flags n @ rest"
  have "read_uint16 ?m 0 = (ok qid :: (dns_error, 16 word) result)"
    "read_uint16 ?m 2 = (ok flags :: (dns_error, 16 word) result)"
    "read_uint16 ?m 4 = (ok 1 :: (dns_error, 16 word) result)"
    "read_uint16 ?m 6 = (ok (word_of_nat n) :: (dns_error, 16 word) result)"
    by (simp_all add: header_bytes_def)
  then show ?thesis by (simp add: parse_header_def)
qed

lemma parse_message_bytes:
  assumes "query_name (q_name q)" and "list_all plain_record rs" and "length (message_bytes qid flags q rs) \<le> dns_message_limit"
  shows "parse_dns_message (message_bytes qid flags q rs) = ok
    \<lparr>m_header = \<lparr>hdr_id = qid, hdr_response = flags AND 0x8000 \<noteq> 0, hdr_truncated = flags AND 0x0200 \<noteq> 0,
        hdr_rcode = ucast (flags AND 0x000f), hdr_questions = 1, hdr_answers = word_of_nat (length rs)\<rparr>,
     m_questions = [q], m_answers = placed (12 + length (question_bytes q)) rs, m_wire = message_bytes qid flags q rs\<rparr>"
proof -
  let ?h = "header_bytes qid flags (length rs)"
  have h: "length ?h = 12" by (simp add: header_bytes_def)
  have "length rs \<le> length (concat (map record_bytes rs))" by (induction rs) (simp_all add: record_bytes_def)
  with assms(3) have n: "length rs < 65536" by (simp add: message_bytes_def dns_message_limit_def)
  have q: "parse_questions (Suc 0) (message_bytes qid flags q rs) 12 [] = ok ([q], 12 + length (question_bytes q))"
    using parse_question_at [OF assms(1), of ?h] h by (simp add: message_bytes_def)
  have "parse_answers (length rs) (message_bytes qid flags q rs) (12 + length (question_bytes q)) []
      = ok (placed (12 + length (question_bytes q)) rs, 12 + length (question_bytes q) + length (concat (map record_bytes rs)))"
    using parse_records_at [OF assms(2), of "?h @ question_bytes q" "[]"] h by (simp add: message_bytes_def)
  moreover have "parse_header (message_bytes qid flags q rs) = ok \<lparr>hdr_id = qid, hdr_response = flags AND 0x8000 \<noteq> 0,
      hdr_truncated = flags AND 0x0200 \<noteq> 0, hdr_rcode = ucast (flags AND 0x000f), hdr_questions = 1,
      hdr_answers = word_of_nat (length rs)\<rparr>"
    unfolding message_bytes_def by (rule parse_header_at)
  ultimately show ?thesis
    using assms(3) n q h
    by (simp add: parse_dns_message_def message_bytes_def [of qid flags q rs, THEN arg_cong [where f = length]]
        del: parse_questions.simps parse_answers.simps)
qed

section \<open>Properties\<close>



end
