(* ===== verification/Ech_Records.thy ===== *)
theory Ech_Records
  imports Dns_Wire
begin

text \<open>
  \<open>internal/securetransport/ech.go\<close>: HTTPS resource records, their service parameters, and the
  validation of the ECHConfigList that decides what name appears on the wire.
\<close>

definition ech_config_version :: "16 word" where "ech_config_version = 0xfe0d"

type_synonym svc_param_key = "16 word"

definition svc_param_mandatory :: svc_param_key where "svc_param_mandatory = 0"
definition svc_param_alpn :: svc_param_key where "svc_param_alpn = 1"
definition svc_param_port :: svc_param_key where "svc_param_port = 3"
definition svc_param_ech :: svc_param_key where "svc_param_ech = 5"

definition svc_param_key_string :: "svc_param_key \<Rightarrow> string" where
  "svc_param_key_string k =
     (if k = svc_param_mandatory then ''mandatory'' else if k = svc_param_alpn then ''alpn''
      else if k = 2 then ''no-default-alpn'' else if k = svc_param_port then ''port''
      else if k = 4 then ''ipv4hint'' else if k = svc_param_ech then ''ech''
      else if k = 6 then ''ipv6hint'' else ''key'' @ itoa (unat k))"

record https_record =
  h_priority :: "16 word"
  h_target :: string
  h_ech :: bytes
  h_ttl :: "32 word"

definition https_alias :: "https_record \<Rightarrow> bool" where
  "https_alias r = (h_priority r = 0)"

datatype https_error =
    RecordTooShort nat | TargetName dns_error | TargetPastRecord
  | SvcTruncated | SvcPastRecord svc_param_key | SvcOrder svc_param_key

section \<open>Service parameters\<close>

text \<open>The map of the code is the list of its entries; \<open>previous\<close> starts at -1.\<close>

function parse_svc_params_loop ::
  "bytes \<Rightarrow> int \<Rightarrow> (svc_param_key \<times> bytes) list \<Rightarrow> (https_error, (svc_param_key \<times> bytes) list) result" where
  "parse_svc_params_loop data previous params =
     (if length data = 0 then ok params
      else if length data < 4 then err SvcTruncated
      else bind_result (read_uint16 data 0) (\<lambda>key.
        bind_result (read_uint16 data 2) (\<lambda>l.
          if length data < 4 + unat l then err (SvcPastRecord key)
          else if int (unat key) \<le> previous then err (SvcOrder key)
          else bind_result (slice data 4 (4 + unat l)) (\<lambda>value.
            parse_svc_params_loop (drop (4 + unat l) data) (int (unat key)) (params @ [(key, value)])))))"
  by pat_completeness auto
termination
  by (relation "measure (\<lambda>(data, _, _). length data)") auto

declare parse_svc_params_loop.simps [simp del]

definition parse_svc_params :: "bytes \<Rightarrow> (https_error, (svc_param_key \<times> bytes) list) result" where
  "parse_svc_params data = parse_svc_params_loop data (- 1) []"

definition parse_https_record :: "bytes \<Rightarrow> dns_record \<Rightarrow> (https_error, https_record) result" where
  "parse_https_record message r =
     (if length (r_data r) < 3 then err (RecordTooShort (length (r_data r)))
      else bind_result (read_uint16 (r_data r) 0) (\<lambda>priority.
        bind_result (map_err TargetName (decode_name message (r_data_offset r + 2))) (\<lambda>(target, nxt).
          let end' = r_data_offset r + length (r_data r) in
          if end' < nxt then err TargetPastRecord
          else bind_result (slice message nxt end') (\<lambda>field.
            bind_result (parse_svc_params field) (\<lambda>params.
              ok \<lparr>h_priority = priority, h_target = target,
                  h_ech = (case map_of params svc_param_ech of None \<Rightarrow> [] | Some e \<Rightarrow> e),
                  h_ttl = r_ttl r\<rparr>)))))"

section \<open>ECH configurations\<close>

datatype public_name_error =
    HeaderTruncated | FieldLengthTruncated nat | FieldPastConfig nat | NameHeaderTruncated
  | NamePastConfig | ExtensionsTruncated | ExtensionsInconsistent

datatype ech_error =
    ListTooShort nat | OuterLength | ConfigHeader | ConfigBody | PublicName public_name_error
  | NameNotConcealed | NoConfigs | NoSupportedConfig

text \<open>One of the two vectors with a 16-bit length; \<open>i\<close> numbers it in the errors.\<close>

definition skip_vector :: "nat \<Rightarrow> bytes \<Rightarrow> nat \<Rightarrow> (public_name_error, nat) result" where
  "skip_vector i contents cursor =
     (if length contents < cursor + 2 then err (FieldLengthTruncated i)
      else bind_result (read_uint16 contents cursor) (\<lambda>size.
        if length contents < cursor + 2 + unat size then err (FieldPastConfig i)
        else ok (cursor + 2 + unat size)))"

definition ech_config_public_name :: "bytes \<Rightarrow> (public_name_error, string) result" where
  "ech_config_public_name contents =
     (if length contents < 3 then err HeaderTruncated
      else bind_result (skip_vector 0 contents 3) (\<lambda>cursor.
        bind_result (skip_vector 1 contents cursor) (\<lambda>cursor.
          if length contents < cursor + 2 then err NameHeaderTruncated
          else bind_result (index_at contents (cursor + 1)) (\<lambda>b.
            let size = unat b; cursor = cursor + 2 in
            if length contents < cursor + size then err NamePastConfig
            else bind_result (slice contents cursor (cursor + size)) (\<lambda>name.
              let cursor = cursor + size in
              if length contents < cursor + 2 then err ExtensionsTruncated
              else bind_result (read_uint16 contents cursor) (\<lambda>ext.
                if length contents \<noteq> cursor + 2 + unat ext then err ExtensionsInconsistent
                else ok (string_of_bytes name)))))))"

function validate_configs :: "string \<Rightarrow> bytes \<Rightarrow> nat \<Rightarrow> nat \<Rightarrow> (ech_error, nat \<times> nat) result" where
  "validate_configs server remaining configs supported =
     (if length remaining = 0 then ok (configs, supported)
      else if length remaining < 4 then err ConfigHeader
      else bind_result (read_uint16 remaining 2) (\<lambda>l.
        if unat l = 0 \<or> length remaining < 4 + unat l then err ConfigBody
        else bind_result (read_uint16 remaining 0) (\<lambda>v.
          if v = ech_config_version then
            bind_result (slice remaining 4 (4 + unat l)) (\<lambda>contents.
              bind_result (map_err PublicName (ech_config_public_name contents)) (\<lambda>name.
                if canonical_dns_name name = canonical_dns_name server then err NameNotConcealed
                else validate_configs server (drop (4 + unat l) remaining) (configs + 1) (supported + 1)))
          else validate_configs server (drop (4 + unat l) remaining) (configs + 1) supported)))"
  by pat_completeness auto
termination
  by (relation "measure (\<lambda>(_, remaining, _, _). length remaining)") auto

declare validate_configs.simps [simp del]

definition validate_ech_config_list :: "bytes \<Rightarrow> string \<Rightarrow> (ech_error, unit) result" where
  "validate_ech_config_list list server =
     (if length list < 6 then err (ListTooShort (length list))
      else bind_result (read_uint16 list 0) (\<lambda>outer.
        if unat outer \<noteq> length list - 2 then err OuterLength
        else bind_result (validate_configs server (drop 2 list) 0 0) (\<lambda>(configs, supported).
          if configs = 0 then err NoConfigs
          else if supported = 0 then err NoSupportedConfig
          else ok ())))"

text \<open>\<open>echPublicName\<close>; the empty string is the answer for a list that cannot be walked.\<close>

function first_public_name :: "bytes \<Rightarrow> string" where
  "first_public_name remaining =
     (if length remaining < 4 then []
      else let v = uint16_be (take 2 remaining); l = unat (uint16_be (take 2 (drop 2 remaining))) in
        if l = 0 \<or> length remaining < 4 + l then []
        else if v \<noteq> ech_config_version then first_public_name (drop (4 + l) remaining)
        else case ech_config_public_name (take l (drop 4 remaining)) of Inl _ \<Rightarrow> [] | Inr n \<Rightarrow> n)"
  by pat_completeness auto
termination
  by (relation "measure length") auto

declare first_public_name.simps [simp del]

definition ech_public_name :: "bytes \<Rightarrow> string" where
  "ech_public_name list =
     (if length list < 2 \<or> unat (uint16_be (take 2 list)) \<noteq> length list - 2 then []
      else first_public_name (drop 2 list))"

section \<open>No input makes the parsers panic\<close>

lemma parse_svc_params_loop_no_panic: "no_panic (parse_svc_params_loop data previous params)"
proof (induction data previous params rule: parse_svc_params_loop.induct)
  case (1 data previous params)
  then show ?case
    by (subst parse_svc_params_loop.simps) (auto simp: slice_def)
qed

lemma parse_svc_params_no_panic [no_panic_intros]: "no_panic (parse_svc_params data)"
  by (simp add: parse_svc_params_def parse_svc_params_loop_no_panic)

text \<open>The records a message carries lie inside it.\<close>

definition record_inside :: "bytes \<Rightarrow> dns_record \<Rightarrow> bool" where
  "record_inside wire r \<longleftrightarrow> r_data_offset r + length (r_data r) \<le> length wire
     \<and> r_data r = take (length (r_data r)) (drop (r_data_offset r) wire)"

lemma parse_answers_inside:
  "parse_answers n wire offset rs = ok (as, e) \<Longrightarrow> list_all (record_inside wire) rs \<Longrightarrow>
     list_all (record_inside wire) as"
proof (induction n arbitrary: offset rs)
  case (Suc n)
  from Suc.prems(1) obtain name nxt l t c ttl where
    "parse_answers n wire (nxt + 10 + unat (l :: 16 word))
       (rs @ [\<lparr>r_name = name, r_type = t, r_class = c, r_ttl = ttl,
               r_data = take (unat l) (drop (nxt + 10) wire), r_data_offset = nxt + 10\<rparr>]) = ok (as, e)"
    and "nxt + 10 + unat l \<le> length wire"
    by (auto simp: bind_result_eq_ok Let_def slice_eq_ok split: if_splits)
  with Suc.IH Suc.prems(2) show ?case by (auto simp: record_inside_def)
qed simp

lemma parse_dns_message_inside:
  "parse_dns_message wire = ok m \<Longrightarrow> list_all (record_inside wire) (m_answers m) \<and> m_wire m = wire"
  by (auto simp: parse_dns_message_def bind_result_eq_ok split: if_splits dest!: parse_answers_inside)

lemma parse_https_record_no_panic:
  "record_inside message r \<Longrightarrow> no_panic (parse_https_record message r)"
  unfolding parse_https_record_def record_inside_def
  by (intro no_panic_intros) (auto intro: decode_name_no_panic)

lemma skip_vector_no_panic [no_panic_intros]: "no_panic (skip_vector i contents cursor)"
  unfolding skip_vector_def by (intro no_panic_intros) auto

lemma ech_config_public_name_no_panic [no_panic_intros]: "no_panic (ech_config_public_name contents)"
  unfolding ech_config_public_name_def by (intro no_panic_intros) auto

lemma validate_configs_no_panic: "no_panic (validate_configs server remaining configs supported)"
proof (induction "length remaining" arbitrary: remaining configs supported rule: less_induct)
  case less
  show ?case
    by (subst validate_configs.simps)
      (auto intro!: no_panic_bind ech_config_public_name_no_panic less.hyps)
qed

lemma validate_ech_no_panic: "no_panic (validate_ech_config_list list server)"
  unfolding validate_ech_config_list_def
  by (intro no_panic_intros no_panic_split validate_configs_no_panic) auto

section \<open>Service parameters come in strictly increasing order\<close>

definition param_bytes :: "svc_param_key \<times> bytes \<Rightarrow> bytes" where
  "param_bytes p = put_uint16 (fst p) @ put_uint16 (word_of_nat (length (snd p))) @ snd p"

lemma take2_put: "length b = 2 \<Longrightarrow> put_uint16 (uint16_be b) = b"
proof -
  assume "length b = 2"
  then obtain x y where b: "b = [x, y]" by (auto simp: length_Suc_conv numeral_2_eq_2)
  have "ucast (drop_bit 8 (uint16_be b)) = x"
    unfolding b uint16_be_def by (rule bit_word_eqI) (auto simp: be_bits bit_simps dest: bit_imp_le_length)
  moreover have "ucast (uint16_be b) = y"
    unfolding b uint16_be_def by (rule bit_word_eqI) (auto simp: be_bits bit_simps dest: bit_imp_le_length)
  ultimately show ?thesis by (simp add: put_uint16_def b)
qed

lemma type_length_split: "d = take 2 d @ take 2 (drop 2 d) @ take l (drop 4 d) @ drop (4 + l) d"
proof -
  have "drop (4 + l) d = drop l (drop 4 d)" "drop 4 d = drop 2 (drop 2 d)" by (simp_all add: add.commute)
  then show ?thesis by (simp only: append_take_drop_id)
qed

lemma type_length_value:
  assumes "4 + l \<le> length d" and l: "l = unat (uint16_be (take 2 (drop 2 d)))"
  shows "d = (put_uint16 (uint16_be (take 2 d)) @ put_uint16 (word_of_nat (length (take l (drop 4 d))))
    @ take l (drop 4 d)) @ drop (4 + l) d"
proof -
  have "put_uint16 (uint16_be (take 2 d)) = take 2 d" using assms(1) by (simp add: take2_put)
  moreover have "word_of_nat l = uint16_be (take 2 (drop 2 d))" by (simp add: l)
  then have "put_uint16 (word_of_nat l) = take 2 (drop 2 d)" using assms(1) by (simp add: take2_put)
  moreover have "length (take l (drop 4 d)) = l" using assms(1) by simp
  ultimately show ?thesis by (simp only: append_assoc) (rule type_length_split)
qed

lemma parse_svc_params_loop_ok:
  "parse_svc_params_loop data previous params = ok ps \<Longrightarrow>
     \<exists>new. ps = params @ new \<and> data = concat (map param_bytes new)
       \<and> sorted_wrt (<) (map (\<lambda>p. unat (fst p)) new) \<and> (\<forall>p \<in> set new. previous < int (unat (fst p)))"
proof (induction "length data" arbitrary: data previous params rule: less_induct)
  case less
  show ?case
  proof (cases "data = []")
    case True
    with less.prems show ?thesis by (auto simp: parse_svc_params_loop.simps [of "[]"])
  next
    case False
    let ?key = "uint16_be (take 2 data)" and ?l = "unat (uint16_be (take 2 (drop 2 data)))"
    let ?v = "take ?l (drop 4 data)" and ?rest = "drop (4 + ?l) data"
    from less.prems False have len: "4 + ?l \<le> length data" and up: "previous < int (unat ?key)"
      and rec: "parse_svc_params_loop ?rest (int (unat ?key)) (params @ [(?key, ?v)]) = ok ps"
      by (auto simp: parse_svc_params_loop.simps [of data] slice_def split: if_splits)
    have "length ?rest < length data" using len by simp
    from less.hyps [OF this rec] obtain new where new: "ps = params @ (?key, ?v) # new"
      "?rest = concat (map param_bytes new)" "sorted_wrt (<) (map (\<lambda>p. unat (fst p)) new)"
      "\<forall>p \<in> set new. int (unat ?key) < int (unat (fst p))" by auto
    have split: "data = param_bytes (?key, ?v) @ ?rest"
      unfolding param_bytes_def fst_conv snd_conv using len by (rule type_length_value) (rule refl)
    show ?thesis
    proof (intro exI [of _ "(?key, ?v) # new"] conjI)
      show "data = concat (map param_bytes ((?key, ?v) # new))"
        unfolding list.map concat.simps new(2) [symmetric] by (rule split)
      show "sorted_wrt (<) (map (\<lambda>p. unat (fst p)) ((?key, ?v) # new))" using new(3,4) unfolding of_nat_less_iff by (simp add: list_all_iff)
      show "\<forall>p \<in> set ((?key, ?v) # new). previous < int (unat (fst p))" using new(4) up by fastforce
    qed (rule new(1))
  qed
qed

lemma parse_svc_params_ok:
  assumes "parse_svc_params data = ok ps"
  shows "data = concat (map param_bytes ps)" and "sorted_wrt (<) (map (\<lambda>p. unat (fst p)) ps)"
  using parse_svc_params_loop_ok [of data "- 1" "[]" ps] assms by (auto simp: parse_svc_params_def)

section \<open>What validation promises\<close>

text \<open>A list of configurations on the wire.\<close>

definition config_bytes :: "16 word \<times> bytes \<Rightarrow> bytes" where
  "config_bytes c = put_uint16 (fst c) @ put_uint16 (word_of_nat (length (snd c))) @ snd c"

text \<open>A supported configuration that hides the server: its public name parses and differs.\<close>

definition conceals :: "string \<Rightarrow> bytes \<Rightarrow> bool" where
  "conceals server contents \<longleftrightarrow>
     (\<exists>name. ech_config_public_name contents = ok name \<and> canonical_dns_name name \<noteq> canonical_dns_name server)"

lemma validate_configs_ok:
  "validate_configs server remaining configs supported = ok (n, k) \<Longrightarrow>
     \<exists>cs. remaining = concat (map config_bytes cs) \<and> n = configs + length cs
       \<and> k = supported + length (filter (\<lambda>c. fst c = ech_config_version) cs)
       \<and> (\<forall>c \<in> set cs. snd c \<noteq> [] \<and> length (snd c) < 65536 \<and> (fst c = ech_config_version \<longrightarrow> conceals server (snd c)))"
proof (induction "length remaining" arbitrary: remaining configs supported rule: less_induct)
  case less
  show ?case
  proof (cases "remaining = []")
    case True
    with less.prems show ?thesis by (auto simp: validate_configs.simps [of _ "[]"])
  next
    case False
    let ?v = "uint16_be (take 2 remaining)" and ?l = "unat (uint16_be (take 2 (drop 2 remaining)))"
    let ?c = "take ?l (drop 4 remaining)" and ?rest = "drop (4 + ?l) remaining"
    let ?s = "if ?v = ech_config_version then supported + 1 else supported"
    from less.prems False have len: "4 + ?l \<le> length remaining" "?l \<noteq> 0"
      and rec: "validate_configs server ?rest (configs + 1) ?s = ok (n, k)"
      and con: "?v = ech_config_version \<longrightarrow> conceals server ?c"
      by (auto simp: validate_configs.simps [of server remaining] bind_result_eq_ok slice_def conceals_def
          split: if_splits)
    have "length ?rest < length remaining" using len by simp
    from less.hyps [OF this rec] obtain cs where cs: "?rest = concat (map config_bytes cs)"
      "n = configs + 1 + length cs" "k = ?s + length (filter (\<lambda>c. fst c = ech_config_version) cs)"
      "\<forall>c \<in> set cs. snd c \<noteq> [] \<and> length (snd c) < 65536 \<and> (fst c = ech_config_version \<longrightarrow> conceals server (snd c))"
      by blast
    have lc: "length ?c = ?l" using len by simp
    have "remaining = config_bytes (?v, ?c) @ ?rest"
      unfolding config_bytes_def fst_conv snd_conv using len(1) by (rule type_length_value) (rule refl)
    moreover have "?c \<noteq> []" using lc len by (metis list.size(3))
    moreover have "length ?c < 65536" unfolding lc using unsigned_less [of "uint16_be (take 2 (drop 2 remaining))"] by simp
    ultimately show ?thesis using cs con by (intro exI [of _ "(?v, ?c) # cs"]) auto
  qed
qed

lemma validate_ech_ok:
  assumes "validate_ech_config_list list server = ok ()"
  obtains cs where "list = put_uint16 (word_of_nat (length (concat (map config_bytes cs)))) @ concat (map config_bytes cs)"
    "length (concat (map config_bytes cs)) < 65536"
    "\<forall>c \<in> set cs. snd c \<noteq> [] \<and> length (snd c) < 65536 \<and> (fst c = ech_config_version \<longrightarrow> conceals server (snd c))"
    "\<exists>c \<in> set cs. fst c = ech_config_version"
proof -
  from assms obtain n k where len: "6 \<le> length list" and outer: "unat (uint16_be (take 2 list)) = length list - 2"
    and v: "validate_configs server (drop 2 list) 0 0 = ok (n, k)" and k: "k \<noteq> 0"
    by (auto simp: validate_ech_config_list_def bind_result_eq_ok split: if_splits)
  from validate_configs_ok [OF v] k obtain cs where cs: "drop 2 list = concat (map config_bytes cs)"
    "filter (\<lambda>c. fst c = ech_config_version) cs \<noteq> []"
    "\<forall>c \<in> set cs. snd c \<noteq> [] \<and> length (snd c) < 65536 \<and> (fst c = ech_config_version \<longrightarrow> conceals server (snd c))"
    by auto
  have l: "length (concat (map config_bytes cs)) = unat (uint16_be (take 2 list))"
    using outer by (simp flip: cs(1))
  have "list = take 2 list @ drop 2 list" by simp
  also have "take 2 list = put_uint16 (word_of_nat (length (concat (map config_bytes cs))))"
    unfolding l using len by (simp add: take2_put)
  finally have "list = put_uint16 (word_of_nat (length (concat (map config_bytes cs)))) @ concat (map config_bytes cs)"
    using cs(1) by simp
  moreover have "length (concat (map config_bytes cs)) < 65536"
    unfolding l using unsigned_less [of "uint16_be (take 2 list)"] by simp
  ultimately show thesis using cs(2,3) by (intro that [of cs]) (auto simp: filter_empty_conv)
qed

text \<open>The name that is reported for the outer handshake is the one of the first supported configuration.\<close>

lemma config_bytes_parts:
  assumes "length c < 65536"
  shows "uint16_be (take 2 (config_bytes (v, c) @ r)) = v"
    and "unat (uint16_be (take 2 (drop 2 (config_bytes (v, c) @ r)))) = length c"
    and "take (length c) (drop 4 (config_bytes (v, c) @ r)) = c"
    and "drop (4 + length c) (config_bytes (v, c) @ r) = r"
    and "4 + length c \<le> length (config_bytes (v, c) @ r)"
  using assms by (simp_all add: config_bytes_def)

lemma first_public_name_conceals:
  assumes "\<forall>c \<in> set cs. snd c \<noteq> [] \<and> length (snd c) < 65536 \<and> (fst c = ech_config_version \<longrightarrow> conceals server (snd c))"
    and "\<exists>c \<in> set cs. fst c = ech_config_version"
  shows "canonical_dns_name (first_public_name (concat (map config_bytes cs))) \<noteq> canonical_dns_name server"
  using assms
proof (induction cs)
  case (Cons c cs)
  obtain v b where c: "c = (v, b)" by (cases c)
  have b: "b \<noteq> []" "length b < 65536" "v = ech_config_version \<longrightarrow> conceals server b"
    using Cons.prems(1) by (simp_all add: c)
  note parts = config_bytes_parts [OF b(2), of v "concat (map config_bytes cs)"]
  define m where "m = config_bytes (v, b) @ concat (map config_bytes cs)"
  note parts = parts [folded m_def]
  have step: "first_public_name m =
      (if v \<noteq> ech_config_version then first_public_name (concat (map config_bytes cs))
       else case ech_config_public_name b of Inl _ \<Rightarrow> [] | Inr n \<Rightarrow> n)"
    using parts b(1) by (subst first_public_name.simps) (simp add: Let_def)
  have m: "concat (map config_bytes (c # cs)) = m" by (simp add: m_def c)
  show ?case
  proof (cases "v = ech_config_version")
    case True
    with b(3) show ?thesis unfolding m by (auto simp: step conceals_def)
  next
    case False
    with Cons show ?thesis unfolding m by (simp add: c step)
  qed
qed simp

lemma ech_public_name_conceals:
  assumes "validate_ech_config_list list server = ok ()"
  shows "canonical_dns_name (ech_public_name list) \<noteq> canonical_dns_name server"
proof -
  from validate_ech_ok [OF assms] obtain cs where cs:
    "list = put_uint16 (word_of_nat (length (concat (map config_bytes cs)))) @ concat (map config_bytes cs)"
    "length (concat (map config_bytes cs)) < 65536"
    "\<forall>c \<in> set cs. snd c \<noteq> [] \<and> length (snd c) < 65536 \<and> (fst c = ech_config_version \<longrightarrow> conceals server (snd c))"
    "\<exists>c \<in> set cs. fst c = ech_config_version" .
  have "ech_public_name list = first_public_name (concat (map config_bytes cs))"
    using cs(2) by (simp add: ech_public_name_def cs(1))
  with first_public_name_conceals [OF cs(3,4)] show ?thesis by simp
qed

section \<open>Properties\<close>

text \<open>
  C28: no bytes a resolver endpoint can send make a parser panic: not the message, not any of its
  records read as an HTTPS record, not an ECH configuration list.
\<close>

theorem wire_parsers_never_panic:
  "(case parse_dns_message wire of
      Inl e \<Rightarrow> e \<noteq> Panic
    | Inr m \<Rightarrow> list_all (\<lambda>r. no_panic (parse_https_record (m_wire m) r)) (m_answers m))
   \<and> no_panic (validate_ech_config_list ech server)"
proof (cases "parse_dns_message wire")
  case (Inl e)
  with parse_dns_message_no_panic [of wire] validate_ech_no_panic show ?thesis by (auto simp: no_panic_def)
next
  case (Inr m)
  with parse_dns_message_inside [of wire m] have "list_all (record_inside (m_wire m)) (m_answers m)" by simp
  with Inr validate_ech_no_panic show ?thesis by (auto simp: list_all_iff intro: parse_https_record_no_panic)
qed

end
