(* ===== verification/Go_Netip_Order.thy ===== *)
theory Go_Netip_Order
  imports Go_Netip "HOL-Library.List_Lexorder" "HOL-Library.Product_Lexorder"
begin

text \<open>
  The order of \<open>netip.Addr.Compare\<close>: by bit length, then by value, then by zone. The strings are
  ordered by their bytes, as \<open>sort.Strings\<close> and the \<open><\<close> of Go order them.
\<close>

fun addr_key :: "addr \<Rightarrow> nat \<times> nat \<times> string" where
  "addr_key AddrZero = (0, 0, [])"
| "addr_key (Addr4 w) = (32, unat w, [])"
| "addr_key (Addr6 w z) = (128, unat w, z)"

lemma addr_key_inj: "addr_key a = addr_key b \<Longrightarrow> a = b"
  by (cases a; cases b) (auto simp: word_unat_eq_iff)

instantiation addr :: linorder
begin

definition less_eq_addr :: "addr \<Rightarrow> addr \<Rightarrow> bool" where
  "less_eq_addr a b = (addr_key a \<le> addr_key b)"

definition less_addr :: "addr \<Rightarrow> addr \<Rightarrow> bool" where
  "less_addr a b = (addr_key a < addr_key b)"

instance
  by standard (auto simp: less_eq_addr_def less_addr_def less_le_not_le addr_key_inj intro: order_trans linear)

end

text \<open>\<open>compactAddresses\<close> of \<open>internal/securetransport/doh.go\<close>: adjacent duplicates go.\<close>

fun compact_loop :: "addr list \<Rightarrow> addr list \<Rightarrow> addr list" where
  "compact_loop result [] = result"
| "compact_loop result (a # as) =
     (if a \<noteq> last result then compact_loop (result @ [a]) as else compact_loop result as)"

definition compact_addresses :: "addr list \<Rightarrow> addr list" where
  "compact_addresses as = (if length as < 2 then as else compact_loop (take 1 as) (drop 1 as))"

lemma compact_loop_sorted:
  assumes "sorted (last result # as)" and "sorted_wrt (<) result" and "result \<noteq> []"
  shows "sorted_wrt (<) (compact_loop result as) \<and> set (compact_loop result as) = set result \<union> set as"
  using assms
proof (induction result as rule: compact_loop.induct)
  case (2 result a as)
  show ?case
  proof (cases "a = last result")
    case True
    with 2 show ?thesis by (auto simp: sorted_wrt.simps)
  next
    case False
    with "2.prems" have a: "last result < a" by (auto simp: order.strict_iff_order)
    have "x < a" if "x \<in> set result" for x
    proof (cases "x = last result")
      case False
      with that "2.prems"(3) obtain us where us: "result = us @ [last result]" "x \<in> set us"
        by (metis append_butlast_last_id in_set_butlastD set_ConsD rotate1.simps(2) set_rotate1)
      then have "x < last result" using "2.prems"(2) by (metis sorted_wrt_append list.set_intros(1))
      with a show ?thesis by simp
    qed (use a in simp)
    then have "sorted_wrt (<) (result @ [a])" using "2.prems"(2) by (simp add: sorted_wrt_append)
    with 2 False show ?thesis by auto
  qed
qed simp

lemma compact_sorted:
  assumes "sorted as"
  shows "sorted_wrt (<) (compact_addresses as)" and "set (compact_addresses as) = set as"
proof -
  show "sorted_wrt (<) (compact_addresses as)" and "set (compact_addresses as) = set as"
    using assms compact_loop_sorted [of "[hd as]" "tl as"]
    by (cases as; cases "tl as"; simp add: compact_addresses_def)+
qed

end
