(* ===== verification/Transport_Errors.thy ===== *)
theory Transport_Errors
  imports Go_Prelude
begin

text \<open>
  \<open>internal/securetransport/errors.go\<close>: the transport invariants whose failure ends a tunnel,
  and the error that names one of them.
\<close>

datatype failure_reason =
    FailureNone
  | FailureDoH
  | FailureHTTPSRecord
  | FailureECHUnavailable
  | FailureECHRejected
  | FailureTLSVersion
  | FailureCertificate
  | FailureRedirect
  | FailureAddressRejected
  | FailureHandshake

fun failure_reason_string :: "failure_reason \<Rightarrow> string" where
  "failure_reason_string FailureNone = ''none''"
| "failure_reason_string FailureDoH = ''doh''"
| "failure_reason_string FailureHTTPSRecord = ''https-record''"
| "failure_reason_string FailureECHUnavailable = ''ech-unavailable''"
| "failure_reason_string FailureECHRejected = ''ech-rejected''"
| "failure_reason_string FailureTLSVersion = ''tls-version''"
| "failure_reason_string FailureCertificate = ''certificate''"
| "failure_reason_string FailureRedirect = ''redirect''"
| "failure_reason_string FailureAddressRejected = ''address-rejected''"
| "failure_reason_string FailureHandshake = ''handshake''"

text \<open>\<open>Error\<close>: a reason and its cause. A bare cause is an error that is no \<open>*Error\<close>.\<close>

record 'c transport_error =
  fail_reason :: failure_reason
  fail_cause :: 'c

definition fail :: "failure_reason \<Rightarrow> 'c \<Rightarrow> ('c transport_error, 'a) result" where
  "fail r c = err \<lparr>fail_reason = r, fail_cause = c\<rparr>"

text \<open>\<open>ReasonOf\<close> of an error that wraps a transport error, or of any other.\<close>

definition reason_of :: "'c transport_error option \<Rightarrow> failure_reason" where
  "reason_of e = (case e of Some t \<Rightarrow> fail_reason t | None \<Rightarrow> FailureNone)"

lemma fail_simps [simp]: "fail r c \<noteq> ok x" "no_panic (fail r c)" "fail r c \<noteq> panic"
  by (simp_all add: fail_def)

lemma fail_eq_err: "fail r c = err e \<longleftrightarrow> e = \<lparr>fail_reason = r, fail_cause = c\<rparr>"
  by (auto simp: fail_def)

lemma failure_reason_string_inj: "failure_reason_string r = failure_reason_string r' \<longleftrightarrow> r = r'"
  by (cases r; cases r') simp_all

end
