(* ===== verification/Doh_Resolver.thy ===== *)
theory Doh_Resolver
  imports Ech_Records Go_Netip_Order Transport_Errors
begin

text \<open>
  \<open>internal/securetransport/doh.go\<close>: the in-process resolver. The random source and the HTTPS
  exchange with the endpoint are outside the program: a \<open>world\<close> gives, for the number of the
  query, the transaction identifier or its error and the reply or its error, so a theorem over
  every world covers every resolver, a hostile one included. A state is the number of queries
  made so far.
\<close>

definition alias_hop_limit :: nat where "alias_hop_limit = 8"
definition dns_response_limit :: nat where "dns_response_limit = dns_message_limit"

text \<open>The errors of the network and of the standard library, by their text.\<close>

type_synonym go_error = string

record http_reply =
  reply_status :: nat
  reply_type :: string
  reply_body :: bytes
  reply_error :: "go_error option"

type_synonym world = "nat \<Rightarrow> (go_error + 16 word) \<times> (go_error + http_reply)"

datatype doh_cause =
    AliasChain | DnsCause dns_error | HttpsCause https_error | UnaskedName | UnexpectedRecord dns_type
  | EmptyAlias | AmbiguousAliases | AmbiguousServices | NotClassIN | BadAddressRecord dns_type
  | AmbiguousCNAME | InvalidCNAMEChain | NoAddresses | RandomFailed go_error | ExchangeFailed go_error
  | ReplyStatus nat | ReplyType string | ReplyRead go_error | ReplyTooLarge | WrongId | NotAResponse
  | TruncatedResponse | ResponseCode dns_rcode | WrongQuestion

type_synonym 'a doh = "(doh_cause transport_error, 'a) result"

definition fail_with :: "failure_reason \<Rightarrow> ('x \<Rightarrow> doh_cause) \<Rightarrow> ('x, 'a) result \<Rightarrow> 'a doh" where
  "fail_with r c m = map_err (\<lambda>x. \<lparr>fail_reason = r, fail_cause = c x\<rparr>) m"

section \<open>One exchange\<close>

text \<open>
  \<open>strings.EqualFold\<close> against an ASCII text: letters fold to lower case, and the only other
  runes whose orbit holds an ASCII letter are the Kelvin sign and the long s.
\<close>

definition fold_rune :: "nat \<Rightarrow> nat" where
  "fold_rune r = (if in_range 65 90 r then r + 32 else if r = 8490 then 107 else if r = 383 then 115 else r)"

definition equal_fold :: "string \<Rightarrow> string \<Rightarrow> bool" where
  "equal_fold s t = (map (fold_rune \<circ> fst) (runes s) = map (fold_rune \<circ> fst) (runes t))"

definition is_dns_message_type :: "string \<Rightarrow> bool" where
  "is_dns_message_type value =
     (let media = (case cut_at CHR '';'' value of None \<Rightarrow> value | Some (a, _) \<Rightarrow> a)
      in equal_fold (trim_space media) ''application/dns-message'')"

text \<open>\<open>io.ReadAll\<close> over a \<open>LimitReader\<close> of one byte more than the limit.\<close>

definition read_reply :: "http_reply \<Rightarrow> bytes doh" where
  "read_reply r =
     (if dns_response_limit < length (reply_body r) then fail FailureDoH ReplyTooLarge
      else case reply_error r of Some e \<Rightarrow> fail FailureDoH (ReplyRead e) | None \<Rightarrow> ok (reply_body r))"

definition check_response :: "16 word \<Rightarrow> dns_question \<Rightarrow> dns_message \<Rightarrow> dns_message doh" where
  "check_response tid question m =
     (if hdr_id (m_header m) \<noteq> tid then fail FailureDoH WrongId
      else if \<not> hdr_response (m_header m) then fail FailureDoH NotAResponse
      else if hdr_truncated (m_header m) then fail FailureDoH TruncatedResponse
      else if hdr_rcode (m_header m) \<noteq> rcode_success then fail FailureDoH (ResponseCode (hdr_rcode (m_header m)))
      else if length (m_questions m) \<noteq> 1 \<or> m_questions m ! 0 \<noteq> question then fail FailureDoH WrongQuestion
      else ok m)"

definition exchange :: "(go_error + 16 word) \<times> (go_error + http_reply) \<Rightarrow> string \<Rightarrow> dns_type \<Rightarrow> dns_message doh" where
  "exchange outside host qtype =
     (let question = \<lparr>q_name = host, q_type = qtype, q_class = class_inet\<rparr> in
      case fst outside of Inl e \<Rightarrow> fail FailureDoH (RandomFailed e)
      | Inr tid \<Rightarrow>
          bind_result (fail_with FailureDoH DnsCause (build_dns_query tid question)) (\<lambda>wire.
          case snd outside of Inl e \<Rightarrow> fail FailureDoH (ExchangeFailed e)
          | Inr reply \<Rightarrow>
              if reply_status reply \<noteq> 200 then
                fail (if 300 \<le> reply_status reply \<and> reply_status reply < 400 then FailureRedirect else FailureDoH)
                  (ReplyStatus (reply_status reply))
              else if \<not> is_dns_message_type (reply_type reply) then fail FailureDoH (ReplyType (reply_type reply))
              else bind_result (read_reply reply) (\<lambda>body.
                bind_result (fail_with FailureDoH DnsCause (parse_dns_message body))
                  (check_response tid question))))"

definition query :: "world \<Rightarrow> string \<Rightarrow> dns_type \<Rightarrow> nat \<Rightarrow> dns_message doh \<times> nat" where
  "query w host qtype n = (exchange (w n) host qtype, n + 1)"

section \<open>CNAME chains\<close>

fun cname_targets :: "bytes \<Rightarrow> (string \<times> string) list \<Rightarrow> dns_record list \<Rightarrow> (string \<times> string) list doh" where
  "cname_targets wire ts [] = ok ts"
| "cname_targets wire ts (r # rs) =
     (if r_type r \<noteq> type_cname then cname_targets wire ts rs
      else bind_result (fail_with FailureDoH DnsCause (decode_name wire (r_data_offset r))) (\<lambda>(target, _).
        if map_of ts (r_name r) \<noteq> None \<and> map_of ts (r_name r) \<noteq> Some target then fail FailureDoH AmbiguousCNAME
        else cname_targets wire ((r_name r, target) # ts) rs))"

text \<open>The walk: at most \<open>hops\<close> steps, refused at an empty or already visited name.\<close>

fun walk_chain :: "nat \<Rightarrow> (string \<times> string) list \<Rightarrow> string \<Rightarrow> string list \<Rightarrow> string list \<Rightarrow> (string list \<times> string list) doh" where
  "walk_chain 0 ts current names aliases = ok (names, aliases)"
| "walk_chain (Suc hops) ts current names aliases =
     (case map_of ts current of
        None \<Rightarrow> ok (names, aliases)
      | Some target \<Rightarrow>
          if target = [] \<or> target \<in> set names then fail FailureDoH InvalidCNAMEChain
          else walk_chain hops ts target (names @ [target]) (aliases @ [target]))"

definition follow_cnames :: "dns_message \<Rightarrow> string \<Rightarrow> (string list \<times> string list) doh" where
  "follow_cnames m host =
     bind_result (cname_targets (m_wire m) [] (m_answers m)) (\<lambda>ts. walk_chain alias_hop_limit ts host [host] [])"

section \<open>Addresses\<close>

definition addr_from4 :: "bytes \<Rightarrow> addr" where
  "addr_from4 b = Addr4 (word_of_nat (octets_value (map unat b)))"

definition addr_from16 :: "bytes \<Rightarrow> addr" where
  "addr_from16 b = Addr6 (word_of_nat (octets_value (map unat b))) []"

text \<open>
  The loop over the answers of one response. The smallest time to live is kept in seconds;
  \<open>0\<close> stands for none seen yet.
\<close>

definition candidate_ttl :: "nat \<Rightarrow> nat \<Rightarrow> nat" where
  "candidate_ttl ttl candidate = (if ttl = 0 \<or> candidate < ttl then candidate else ttl)"

definition collect_address :: "dns_type \<Rightarrow> addr list \<Rightarrow> dns_record \<Rightarrow> (addr list) doh" where
  "collect_address qtype as r =
     (if r_type r = type_a then
        (if qtype \<noteq> type_a \<or> length (r_data r) \<noteq> 4 then fail FailureDoH (BadAddressRecord type_a)
         else ok (as @ [addr_from4 (r_data r)]))
      else if r_type r = type_aaaa then
        (if qtype \<noteq> type_aaaa \<or> length (r_data r) \<noteq> 16 then fail FailureDoH (BadAddressRecord type_aaaa)
         else ok (as @ [addr_from16 (r_data r)]))
      else if r_type r = type_cname then ok as
      else fail FailureDoH (UnexpectedRecord (r_type r)))"

fun address_answers :: "string list \<Rightarrow> dns_type \<Rightarrow> addr list \<Rightarrow> nat \<Rightarrow> dns_record list \<Rightarrow> (addr list \<times> nat) doh" where
  "address_answers names qtype as ttl [] = ok (as, ttl)"
| "address_answers names qtype as ttl (r # rs) =
     (if r_class r \<noteq> class_inet then fail FailureDoH NotClassIN
      else if r_name r \<notin> set names then fail FailureDoH UnaskedName
      else bind_result (collect_address qtype as r) (\<lambda>as.
        address_answers names qtype as (candidate_ttl ttl (unat (r_ttl r))) rs))"

definition address_query ::
  "world \<Rightarrow> string \<Rightarrow> dns_type \<Rightarrow> addr list \<times> string list \<times> nat \<Rightarrow> nat
     \<Rightarrow> (addr list \<times> string list \<times> nat) doh \<times> nat" where
  "address_query w host qtype st n =
     (case query w host qtype n of (q, n) \<Rightarrow>
        (bind_result q (\<lambda>m.
           bind_result (follow_cnames m host) (\<lambda>(names, chain).
             case st of (as, aliases, ttl) \<Rightarrow>
               bind_result (address_answers names qtype as ttl (m_answers m)) (\<lambda>(as, ttl).
                 ok (as, aliases @ chain, ttl)))), n))"

definition address_round :: "world \<Rightarrow> string \<Rightarrow> nat \<Rightarrow> (addr list \<times> string list \<times> nat) doh \<times> nat" where
  "address_round w host n =
     (case address_query w host type_a ([], [], 0) n of
        (Inl e, n) \<Rightarrow> (Inl e, n)
      | (Inr st, n) \<Rightarrow> address_query w host type_aaaa st n)"

function resolve_addresses ::
  "world \<Rightarrow> string \<Rightarrow> nat \<Rightarrow> string list \<Rightarrow> nat \<Rightarrow> (addr list \<times> nat) doh \<times> nat" where
  "resolve_addresses w host depth seen n =
     (if alias_hop_limit \<le> depth \<or> host \<in> set seen then (fail FailureDoH AliasChain, n)
      else case address_round w host n of
        (Inl e, n) \<Rightarrow> (Inl e, n)
      | (Inr (as, aliases, ttl), n) \<Rightarrow>
          if as = [] \<and> aliases \<noteq> [] then
            (let sorted_aliases = sort aliases in
             if list_ex (\<lambda>a. a \<noteq> hd sorted_aliases) (tl sorted_aliases) then (fail FailureDoH AmbiguousCNAME, n)
             else resolve_addresses w (hd sorted_aliases) (depth + 1) (host # seen) n)
          else if as = [] then (fail FailureDoH NoAddresses, n)
          else (ok (compact_addresses (sort as), ttl), n))"
  by pat_completeness auto
termination
  by (relation "measure (\<lambda>(_, _, depth, _, _). alias_hop_limit - depth)") auto

declare resolve_addresses.simps [simp del]

definition lookup_addresses :: "world \<Rightarrow> string \<Rightarrow> nat \<Rightarrow> (addr list) doh \<times> nat" where
  "lookup_addresses w host n =
     (case resolve_addresses w (canonical_dns_name host) 0 [] n of (r, n) \<Rightarrow>
        (bind_result r (\<lambda>(as, _). ok as), n))"

section \<open>HTTPS records\<close>

text \<open>The answers of an HTTPS query, split into services and aliases.\<close>

fun https_answers ::
  "bytes \<Rightarrow> string \<Rightarrow> https_record list \<Rightarrow> string list \<Rightarrow> dns_record list
     \<Rightarrow> (https_record list \<times> string list) doh" where
  "https_answers wire host services aliases [] = ok (services, aliases)"
| "https_answers wire host services aliases (r # rs) =
     (if r_class r \<noteq> class_inet \<or> r_name r \<noteq> host then fail FailureHTTPSRecord UnaskedName
      else if r_type r = type_cname then
        bind_result (fail_with FailureHTTPSRecord DnsCause (decode_name wire (r_data_offset r))) (\<lambda>(target, _).
          https_answers wire host services (aliases @ [target]) rs)
      else if r_type r = type_https then
        bind_result (fail_with FailureHTTPSRecord HttpsCause (parse_https_record wire r)) (\<lambda>h.
          if https_alias h then https_answers wire host services (aliases @ [h_target h]) rs
          else https_answers wire host
            (services @ [if h_target h = [] then h\<lparr>h_target := host\<rparr> else h]) aliases rs)
      else fail FailureHTTPSRecord (UnexpectedRecord (r_type r)))"

text \<open>Among the services of the best priority the rest must agree with the first.\<close>

fun select_service :: "https_record \<Rightarrow> https_record list \<Rightarrow> https_record doh" where
  "select_service selected [] = ok selected"
| "select_service selected (s # ss) =
     (if h_priority s \<noteq> h_priority selected then ok selected
      else if h_target s \<noteq> h_target selected \<or> h_ech s \<noteq> h_ech selected
        then fail FailureHTTPSRecord AmbiguousServices
      else select_service (if h_ttl s < h_ttl selected then selected\<lparr>h_ttl := h_ttl s\<rparr> else selected) ss)"

function resolve_https ::
  "world \<Rightarrow> string \<Rightarrow> nat \<Rightarrow> string list \<Rightarrow> nat \<Rightarrow> (https_record option) doh \<times> nat" where
  "resolve_https w host depth seen n =
     (if alias_hop_limit \<le> depth \<or> host \<in> set seen then (fail FailureHTTPSRecord AliasChain, n)
      else case query w host type_https n of
        (Inl e, n) \<Rightarrow> (Inl e, n)
      | (Inr m, n) \<Rightarrow>
          (case https_answers (m_wire m) host [] [] (m_answers m) of
             Inl e \<Rightarrow> (Inl e, n)
           | Inr (services, aliases) \<Rightarrow>
               if services = [] then
                 (if aliases = [] then (ok None, n)
                  else let sorted_aliases = sort aliases in
                    if hd sorted_aliases = [] then (fail FailureHTTPSRecord EmptyAlias, n)
                    else if list_ex (\<lambda>a. a \<noteq> hd sorted_aliases) (tl sorted_aliases)
                      then (fail FailureHTTPSRecord AmbiguousAliases, n)
                    else resolve_https w (hd sorted_aliases) (depth + 1) (host # seen) n)
               else let ordered = sort_key (\<lambda>s. unat (h_priority s)) services in
                 (bind_result (select_service (hd ordered) (tl ordered)) (\<lambda>s. ok (Some s)), n)))"
  by pat_completeness auto
termination
  by (relation "measure (\<lambda>(_, _, depth, _, _). alias_hop_limit - depth)") auto

declare resolve_https.simps [simp del]

record resolution =
  res_addresses :: "addr list"
  res_ech :: bytes
  res_https :: bool
  res_ttl :: nat

text \<open>\<open>Resolve\<close>: the HTTPS record first, then the addresses of what it pointed at.\<close>

definition relay_target :: "string \<Rightarrow> https_record option \<Rightarrow> string" where
  "relay_target host record =
     (case record of None \<Rightarrow> host | Some r \<Rightarrow> if h_target r \<noteq> [] then h_target r else host)"

definition relay_resolution :: "https_record option \<Rightarrow> addr list \<Rightarrow> nat \<Rightarrow> resolution" where
  "relay_resolution record as ttl =
     (let ttl0 = (case record of None \<Rightarrow> 0 | Some r \<Rightarrow> unat (h_ttl r)) in
      \<lparr>res_addresses = as, res_ech = (case record of None \<Rightarrow> [] | Some r \<Rightarrow> h_ech r),
       res_https = (record \<noteq> None),
       res_ttl = (if ttl0 = 0 \<or> (ttl \<noteq> 0 \<and> ttl < ttl0) then ttl else ttl0)\<rparr>)"

definition resolve_relay :: "world \<Rightarrow> string \<Rightarrow> nat \<Rightarrow> resolution doh \<times> nat" where
  "resolve_relay w raw n =
     (let host = canonical_dns_name raw in
      case resolve_https w host 0 [] n of
        (Inl e, n) \<Rightarrow> (Inl e, n)
      | (Inr record, n) \<Rightarrow>
          (case resolve_addresses w (relay_target host record) 0 [] n of
             (Inl e, n) \<Rightarrow> (Inl e, n)
           | (Inr (as, ttl), n) \<Rightarrow> (ok (relay_resolution record as ttl), n)))"

section \<open>An accepted response answers the question that was asked\<close>

lemma fail_with_ok [simp]: "fail_with r c m = ok x \<longleftrightarrow> m = ok x"
  by (simp add: fail_with_def)

lemma check_response_ok:
  "check_response tid q m = ok m' \<longleftrightarrow> m' = m \<and> hdr_id (m_header m) = tid \<and> hdr_response (m_header m)
     \<and> \<not> hdr_truncated (m_header m) \<and> hdr_rcode (m_header m) = rcode_success \<and> m_questions m = [q]"
  by (cases "m_questions m") (auto simp: check_response_def)

lemma exchange_ok:
  assumes "exchange outside host qtype = ok m"
  shows "\<exists>tid reply wire. outside = (Inr tid, Inr reply)
    \<and> build_dns_query tid \<lparr>q_name = host, q_type = qtype, q_class = class_inet\<rparr> = ok wire
    \<and> reply_status reply = 200 \<and> length (reply_body reply) \<le> dns_response_limit
    \<and> parse_dns_message (reply_body reply) = ok m \<and> hdr_id (m_header m) = tid
    \<and> hdr_rcode (m_header m) = rcode_success
    \<and> m_questions m = [\<lparr>q_name = host, q_type = qtype, q_class = class_inet\<rparr>]"
proof (cases outside)
  case (Pair a b)
  with assms show ?thesis
    by (auto simp: exchange_def Let_def bind_result_eq_ok read_reply_def check_response_ok
        split: sum.splits if_splits option.splits)
qed

lemma query_no_panic: "no_panic (fst (query w host qtype n))"
proof -
  have b: "no_panic (build_dns_query tid q)" for tid q
  proof -
    have "no_panic (encode_labels dst ls)" for dst ls by (induction dst ls rule: encode_labels.induct) auto
    then show ?thesis by (auto simp: build_dns_query_def encode_name_def Let_def intro!: no_panic_intros)
  qed
  have c: "no_panic (check_response tid q m)" for tid q and m
    by (simp add: check_response_def)
  show ?thesis
    unfolding query_def exchange_def Let_def fail_with_def read_reply_def
    by (auto intro!: no_panic_bind parse_dns_message_no_panic c b split: sum.splits option.splits)
qed

section \<open>Bounds\<close>

lemma query_count [simp]: "snd (query w host qtype n) = n + 1"
  by (simp add: query_def)

lemma address_query_count [simp]: "snd (address_query w host qtype st n) = n + 1"
  by (simp add: address_query_def query_def)

lemma address_round_count: "snd (address_round w host n) \<le> n + 2"
proof (cases "address_query w host type_a ([], [], 0) n")
  case (Pair r n1)
  with address_query_count [of w host type_a "([], [], 0)" n] have "n1 = n + 1" by simp
  with Pair show ?thesis by (cases r) (simp_all add: address_round_def)
qed

text \<open>One level of the recursion, as an equation over its outcome.\<close>

lemma resolve_addresses_cases:
  assumes "\<not> (alias_hop_limit \<le> depth \<or> host \<in> set seen)" and "address_round w host n = (ok (as, aliases, ttl), n1)"
  shows "resolve_addresses w host depth seen n =
    (if as \<noteq> [] then (ok (compact_addresses (sort as), ttl), n1)
     else if aliases = [] then (fail FailureDoH NoAddresses, n1)
     else if list_ex (\<lambda>a. a \<noteq> hd (sort aliases)) (tl (sort aliases)) then (fail FailureDoH AmbiguousCNAME, n1)
     else resolve_addresses w (hd (sort aliases)) (depth + 1) (host # seen) n1)"
  using assms by (subst resolve_addresses.simps) (simp add: Let_def)

lemma resolve_addresses_count:
  "snd (resolve_addresses w host depth seen n) \<le> n + 2 * (alias_hop_limit - depth)"
proof (induction "alias_hop_limit - depth" arbitrary: host depth seen n rule: less_induct)
  case less
  show ?case
  proof (cases "alias_hop_limit \<le> depth \<or> host \<in> set seen")
    case True
    then show ?thesis by (simp add: resolve_addresses.simps)
  next
    case False
    then have d: "1 \<le> alias_hop_limit - depth" by linarith
    obtain r n1 where round: "address_round w host n = (r, n1)" by (cases "address_round w host n")
    then have n1: "n1 \<le> n + 2" using address_round_count [of w host n] by simp
    show ?thesis
    proof (cases r)
      case (Inl e)
      with False round have "snd (resolve_addresses w host depth seen n) = n1"
        by (subst resolve_addresses.simps) simp
      with n1 d show ?thesis by linarith
    next
      case (Inr st)
      obtain as aliases ttl where st: "st = (as, aliases, ttl)" by (cases st) auto
      have rec: "snd (resolve_addresses w h (depth + 1) (host # seen) n1) \<le> n1 + 2 * (alias_hop_limit - (depth + 1))" for h
        using d by (intro less) simp
      have "alias_hop_limit - depth = Suc (alias_hop_limit - (depth + 1))" using d by simp
      with n1 rec have "snd (resolve_addresses w h (depth + 1) (host # seen) n1) \<le> n + 2 * (alias_hop_limit - depth)" for h
        using rec [of h] by linarith
      then show ?thesis
        using n1 d by (subst resolve_addresses_cases [OF False round [unfolded Inr st]]) simp
    qed
  qed
qed

section \<open>Where the addresses come from\<close>

text \<open>
  The names a response may speak for: the queried one and the targets of CNAME records of the
  same response, followed from it.
\<close>

inductive chained :: "dns_message \<Rightarrow> string \<Rightarrow> string \<Rightarrow> bool" for m host where
  queried: "chained m host host"
| cname: "chained m host name \<Longrightarrow> r \<in> set (m_answers m) \<Longrightarrow> r_type r = type_cname \<Longrightarrow> r_name r = name \<Longrightarrow>
    decode_name (m_wire m) (r_data_offset r) = ok (target, e) \<Longrightarrow> chained m host target"

definition address_of :: "dns_record \<Rightarrow> addr" where
  "address_of r = (if r_type r = type_a then addr_from4 (r_data r) else addr_from16 (r_data r))"

text \<open>An address the world gave for a host, directly or through an alias of it.\<close>

inductive answered :: "world \<Rightarrow> string \<Rightarrow> addr \<Rightarrow> bool" for w where
  direct: "query w host qtype n = (ok m, n') \<Longrightarrow> r \<in> set (m_answers m) \<Longrightarrow> r_class r = class_inet \<Longrightarrow>
    r_type r = qtype \<Longrightarrow> qtype = type_a \<or> qtype = type_aaaa \<Longrightarrow> chained m host (r_name r) \<Longrightarrow>
    answered w host (address_of r)"
| aliased: "query w host qtype n = (ok m, n') \<Longrightarrow> chained m host target \<Longrightarrow> answered w target a \<Longrightarrow>
    answered w host a"

lemma cname_targets_chained:
  "cname_targets wire ts rs = ok ts' \<Longrightarrow> (name, target) \<in> set ts' \<Longrightarrow>
     (name, target) \<in> set ts \<or> (\<exists>r \<in> set rs. r_type r = type_cname \<and> r_name r = name
        \<and> (\<exists>e. decode_name wire (r_data_offset r) = ok (target, e)))"
  by (induction wire ts rs rule: cname_targets.induct) (auto simp: bind_result_eq_ok split: if_splits)

lemma walk_chain_chained:
  assumes "walk_chain hops ts current names aliases = ok (names', aliases')"
    and "\<And>a b. map_of ts a = Some b \<Longrightarrow> P a \<Longrightarrow> P b"
    and "P current" and "\<forall>x \<in> set names. P x" and "\<forall>x \<in> set aliases. P x"
  shows "(\<forall>x \<in> set names'. P x) \<and> (\<forall>x \<in> set aliases'. P x)"
  using assms
proof (induction hops ts current names aliases rule: walk_chain.induct)
  case (2 hops ts current names aliases)
  show ?case
  proof (cases "map_of ts current")
    case None
    with 2 show ?thesis by simp
  next
    case (Some t)
    with "2.prems" have "\<not> (t = [] \<or> t \<in> set names)"
      "walk_chain hops ts t (names @ [t]) (aliases @ [t]) = ok (names', aliases')" "P t"
      by (auto split: if_splits)
    with "2.IH" [OF Some] "2.prems" show ?thesis by auto
  qed
qed simp

lemma follow_cnames_chained:
  assumes "follow_cnames m host = ok (names, aliases)"
  shows "\<forall>x \<in> set names \<union> set aliases. chained m host x"
proof -
  from assms obtain ts where ts: "cname_targets (m_wire m) [] (m_answers m) = ok ts"
    and walk: "walk_chain alias_hop_limit ts host [host] [] = ok (names, aliases)"
    by (auto simp: follow_cnames_def bind_result_eq_ok)
  have step: "chained m host b" if "map_of ts a = Some b" and "chained m host a" for a b
  proof -
    from cname_targets_chained [OF ts map_of_SomeD [OF that(1)]] obtain r e where
      "r \<in> set (m_answers m)" "r_type r = type_cname" "r_name r = a"
      "decode_name (m_wire m) (r_data_offset r) = ok (b, e)"
      by (metis empty_iff list.set(1))
    from chained.cname [OF that(2) this] show ?thesis .
  qed
  have "(\<forall>x \<in> set names. chained m host x) \<and> (\<forall>x \<in> set aliases. chained m host x)"
    by (rule walk_chain_chained [OF walk step]) (simp_all add: chained.queried)
  then show ?thesis by blast
qed

lemma collect_address_ok:
  assumes "collect_address qtype as r = ok as'" and "a \<in> set as'"
  shows "a \<in> set as \<or> (a = address_of r \<and> r_type r = qtype \<and> (qtype = type_a \<or> qtype = type_aaaa))"
proof -
  have "type_a \<noteq> type_aaaa" by (simp add: type_a_def type_aaaa_def)
  then consider (four) "r_type r = type_a" | (six) "r_type r = type_aaaa" "r_type r \<noteq> type_a"
    | (other) "r_type r \<noteq> type_a" "r_type r \<noteq> type_aaaa" by blast
  then show ?thesis
  proof cases
    case four
    have "qtype = type_a" "as' = as @ [addr_from4 (r_data r)]"
      using assms(1) by (simp_all add: collect_address_def four del: not_None_eq split: if_split_asm)
    with assms(2) four show ?thesis by (simp add: address_of_def) blast
  next
    case six
    have "qtype = type_aaaa" "as' = as @ [addr_from16 (r_data r)]"
      using assms(1) six(2) by (simp_all add: collect_address_def six(1) split: if_split_asm)
    with assms(2) six show ?thesis by (simp add: address_of_def) blast
  next
    case other
    have "as' = as" using assms(1) other by (simp add: collect_address_def split: if_split_asm)
    with assms(2) show ?thesis by simp
  qed
qed

lemma address_answers_ok:
  "address_answers names qtype as ttl rs = ok (as', ttl') \<Longrightarrow> a \<in> set as' \<Longrightarrow>
     a \<in> set as \<or> (\<exists>r \<in> set rs. a = address_of r \<and> r_class r = class_inet \<and> r_name r \<in> set names
        \<and> r_type r = qtype \<and> (qtype = type_a \<or> qtype = type_aaaa))"
proof (induction names qtype as ttl rs rule: address_answers.induct)
  case (2 names qtype as ttl r rs)
  from "2.prems"(1) obtain as1 where c: "r_class r = class_inet" "r_name r \<in> set names"
    "collect_address qtype as r = ok as1"
    "address_answers names qtype as1 (candidate_ttl ttl (unat (r_ttl r))) rs = ok (as', ttl')"
    by (auto simp: bind_result_eq_ok split: if_splits)
  have "\<not> r_class r \<noteq> class_inet" "\<not> r_name r \<notin> set names" using c(1,2) by simp_all
  from "2.IH" [OF this c(3,4) "2.prems"(2)] c(1,2) collect_address_ok [OF c(3), of a] show ?case
    by (metis list.set_intros(1) list.set_intros(2))
qed simp

lemma address_query_ok:
  assumes "address_query w host qtype (as0, al0, t0) n = (ok (as, aliases, ttl), n')"
  shows "a \<in> set as \<Longrightarrow> a \<in> set as0 \<or> answered w host a"
    and "x \<in> set aliases \<Longrightarrow> x \<in> set al0 \<or> (\<exists>n m n'. query w host qtype n = (ok m, n') \<and> chained m host x)"
proof -
  from assms obtain m names chain where q: "query w host qtype n = (ok m, n')"
    and f: "follow_cnames m host = ok (names, chain)"
    and aa: "address_answers names qtype as0 t0 (m_answers m) = (ok (as, ttl))"
    and al: "aliases = al0 @ chain"
    by (auto simp: address_query_def bind_result_eq_ok split: prod.splits)
  note c = follow_cnames_chained [OF f]
  show "a \<in> set as \<Longrightarrow> a \<in> set as0 \<or> answered w host a"
    using address_answers_ok [OF aa, of a] c q by (auto intro: answered.direct)
  show "x \<in> set aliases \<Longrightarrow> x \<in> set al0 \<or> (\<exists>n m n'. query w host qtype n = (ok m, n') \<and> chained m host x)"
    using al c q by auto
qed

lemma address_round_ok:
  assumes "address_round w host n = (ok (as, aliases, ttl), n')"
  shows "a \<in> set as \<Longrightarrow> answered w host a"
    and "x \<in> set aliases \<Longrightarrow> \<exists>qtype n m n'. query w host qtype n = (ok m, n') \<and> chained m host x"
proof -
  from assms obtain as1 al1 t1 n1 where
    one: "address_query w host type_a ([], [], 0) n = (ok (as1, al1, t1), n1)" and
    two: "address_query w host type_aaaa (as1, al1, t1) n1 = (ok (as, aliases, ttl), n')"
    by (auto simp: address_round_def split: prod.splits sum.splits)
  show "a \<in> set as \<Longrightarrow> answered w host a"
    using address_query_ok(1) [OF two, of a] address_query_ok(1) [OF one, of a] by auto
  show "x \<in> set aliases \<Longrightarrow> \<exists>qtype n m n'. query w host qtype n = (ok m, n') \<and> chained m host x"
    using address_query_ok(2) [OF two, of x] address_query_ok(2) [OF one, of x] by fastforce
qed

lemma resolve_addresses_ok:
  "resolve_addresses w host depth seen n = (ok (as, ttl), n') \<Longrightarrow>
     as \<noteq> [] \<and> sorted_wrt (<) as \<and> (\<forall>a \<in> set as. answered w host a)"
proof (induction "alias_hop_limit - depth" arbitrary: host depth seen n rule: less_induct)
  case less
  have go: "\<not> (alias_hop_limit \<le> depth \<or> host \<in> set seen)"
    using less.prems by (auto simp: resolve_addresses.simps [of w host depth])
  then obtain as1 aliases t1 n1 where round: "address_round w host n = (ok (as1, aliases, t1), n1)"
    using less.prems by (auto simp: resolve_addresses.simps [of w host depth] split: prod.splits sum.splits)
  note prem = less.prems [unfolded resolve_addresses_cases [OF go round]]
  show ?case
  proof (cases "as1 = []")
    case False
    with prem have as: "as = compact_addresses (sort as1)" by simp
    have "set as = set as1" using compact_sorted(2) [of "sort as1"] by (simp add: as)
    moreover have "sorted_wrt (<) as" unfolding as by (rule compact_sorted) simp
    ultimately show ?thesis using False address_round_ok(1) [OF round] by auto
  next
    case True
    let ?h = "hd (sort aliases)"
    from prem True have ne: "aliases \<noteq> []"
      and rec: "resolve_addresses w ?h (depth + 1) (host # seen) n1 = (ok (as, ttl), n')"
      by (auto split: if_splits)
    have "?h \<in> set aliases" using ne by (metis hd_in_set set_sort sort_key_const set_empty)
    from address_round_ok(2) [OF round this] obtain qtype k m k' where
      "query w host qtype k = (ok m, k')" "chained m host ?h" by blast
    moreover have "alias_hop_limit - (depth + 1) < alias_hop_limit - depth" using go by linarith
    from less.hyps [OF this rec] have "as \<noteq> [] \<and> sorted_wrt (<) as \<and> (\<forall>a \<in> set as. answered w ?h a)" .
    ultimately show ?thesis by (auto intro: answered.aliased)
  qed
qed

section \<open>The relay resolution\<close>

lemma resolve_https_cases:
  assumes "\<not> (alias_hop_limit \<le> depth \<or> host \<in> set seen)" and "query w host type_https n = (ok m, n1)"
    and "https_answers (m_wire m) host [] [] (m_answers m) = ok (services, aliases)"
  shows "resolve_https w host depth seen n =
    (if services \<noteq> [] then
       (bind_result (select_service (hd (sort_key (\<lambda>s. unat (h_priority s)) services))
          (tl (sort_key (\<lambda>s. unat (h_priority s)) services))) (\<lambda>s. ok (Some s)), n1)
     else if aliases = [] then (ok None, n1)
     else if hd (sort aliases) = [] then (fail FailureHTTPSRecord EmptyAlias, n1)
     else if list_ex (\<lambda>a. a \<noteq> hd (sort aliases)) (tl (sort aliases)) then (fail FailureHTTPSRecord AmbiguousAliases, n1)
     else resolve_https w (hd (sort aliases)) (depth + 1) (host # seen) n1)"
  using assms by (subst resolve_https.simps) (simp add: Let_def)

lemma resolve_https_count: "snd (resolve_https w host depth seen n) \<le> n + (alias_hop_limit - depth)"
proof (induction "alias_hop_limit - depth" arbitrary: host depth seen n rule: less_induct)
  case less
  show ?case
  proof (cases "alias_hop_limit \<le> depth \<or> host \<in> set seen")
    case True
    then show ?thesis by (simp add: resolve_https.simps)
  next
    case go: False
    then have d: "Suc (alias_hop_limit - (depth + 1)) = alias_hop_limit - depth" by linarith
    have rec: "snd (resolve_https w h (depth + 1) (host # seen) (n + 1)) \<le> n + 1 + (alias_hop_limit - (depth + 1))" for h
      using d by (intro less) simp
    show ?thesis
    proof (cases "fst (query w host type_https n)")
      case (Inl e)
      with go d show ?thesis by (subst resolve_https.simps) (simp add: query_def)
    next
      case (Inr m)
      then have q: "query w host type_https n = (ok m, n + 1)" by (simp add: query_def)
      show ?thesis
      proof (cases "https_answers (m_wire m) host [] [] (m_answers m)")
        case (Inl e)
        with go d q show ?thesis by (subst resolve_https.simps) simp
      next
        case (Inr p)
        then obtain services aliases where "https_answers (m_wire m) host [] [] (m_answers m) = ok (services, aliases)"
          by (cases p) auto
        from resolve_https_cases [OF go q this] rec [of "hd (sort aliases)"] d show ?thesis by auto
      qed
    qed
  qed
qed

lemma resolve_relay_count: "snd (resolve_relay w raw n) \<le> n + 3 * alias_hop_limit"
proof -
  let ?h = "canonical_dns_name raw"
  obtain r n1 where https: "resolve_https w ?h 0 [] n = (r, n1)" by fastforce
  with resolve_https_count [of w ?h 0 "[]" n] have n1: "n1 \<le> n + alias_hop_limit" by simp
  show ?thesis
  proof (cases r)
    case (Inl e)
    with https n1 show ?thesis by (simp add: resolve_relay_def)
  next
    case (Inr s)
    obtain x n2 where addresses: "resolve_addresses w (relay_target ?h s) 0 [] n1 = (x, n2)" by fastforce
    with resolve_addresses_count [of w "relay_target ?h s" 0 "[]" n1] n1
    have n2: "n2 \<le> n + 3 * alias_hop_limit" by simp
    show ?thesis
    proof (cases x)
      case (Inl e)
      with https Inr addresses n2 show ?thesis by (simp add: resolve_relay_def)
    next
      case (Inr y)
      with https \<open>r = ok s\<close> addresses n2 show ?thesis by (cases y) (simp add: resolve_relay_def)
    qed
  qed
qed

text \<open>
  What one record of an accepted response may contribute for the queried name: a service, with an
  empty target standing for the name itself, or an alias.
\<close>

definition serves :: "dns_message \<Rightarrow> string \<Rightarrow> dns_record \<Rightarrow> string \<Rightarrow> bytes \<Rightarrow> bool" where
  "serves m host r target ech \<longleftrightarrow> r_class r = class_inet \<and> r_name r = host \<and> r_type r = type_https
     \<and> (\<exists>h. parse_https_record (m_wire m) r = ok h \<and> \<not> https_alias h \<and> h_ech h = ech
          \<and> target = (if h_target h = [] then host else h_target h))"

definition aliases_to :: "dns_message \<Rightarrow> string \<Rightarrow> dns_record \<Rightarrow> string \<Rightarrow> bool" where
  "aliases_to m host r a \<longleftrightarrow> r_class r = class_inet \<and> r_name r = host
     \<and> (r_type r = type_cname \<and> (\<exists>e. decode_name (m_wire m) (r_data_offset r) = ok (a, e))
        \<or> r_type r = type_https \<and> (\<exists>h. parse_https_record (m_wire m) r = ok h \<and> https_alias h \<and> h_target h = a))"

text \<open>A service that an accepted response carries for the host, or for a name it aliased the host to.\<close>

inductive served :: "world \<Rightarrow> string \<Rightarrow> string \<Rightarrow> bytes \<Rightarrow> bool" for w where
  direct: "query w host type_https n = (ok m, n') \<Longrightarrow> r \<in> set (m_answers m) \<Longrightarrow> serves m host r target ech \<Longrightarrow>
    served w host target ech"
| aliased: "query w host type_https n = (ok m, n') \<Longrightarrow> r \<in> set (m_answers m) \<Longrightarrow> aliases_to m host r a \<Longrightarrow>
    served w a target ech \<Longrightarrow> served w host target ech"

lemma https_answers_Cons:
  assumes "https_answers wire host ss as (r # rs) = ok (ss', as')"
  shows "r_class r = class_inet \<and> r_name r = host
    \<and> (r_type r = type_cname \<and> (\<exists>a e. decode_name wire (r_data_offset r) = ok (a, e)
            \<and> https_answers wire host ss (as @ [a]) rs = ok (ss', as'))
       \<or> r_type r = type_https \<and> (\<exists>h. parse_https_record wire r = ok h
            \<and> (https_alias h \<and> https_answers wire host ss (as @ [h_target h]) rs = ok (ss', as')
               \<or> \<not> https_alias h
                 \<and> https_answers wire host (ss @ [if h_target h = [] then h\<lparr>h_target := host\<rparr> else h]) as rs = ok (ss', as'))))"
  using assms by (simp add: bind_result_eq_ok split: if_split_asm) blast+

lemma https_answers_services:
  "https_answers (m_wire m) host ss as rs = ok (ss', as') \<Longrightarrow> s \<in> set ss' \<Longrightarrow>
     s \<in> set ss \<or> (\<exists>r \<in> set rs. serves m host r (h_target s) (h_ech s))"
proof (induction rs arbitrary: ss as)
  case (Cons r rs)
  from https_answers_Cons [OF Cons.prems(1)] consider
    (same) as1 where "https_answers (m_wire m) host ss as1 rs = ok (ss', as')"
  | (more) h where "r_class r = class_inet" "r_name r = host" "r_type r = type_https"
      "parse_https_record (m_wire m) r = ok h" "\<not> https_alias h"
      "https_answers (m_wire m) host (ss @ [if h_target h = [] then h\<lparr>h_target := host\<rparr> else h]) as rs = ok (ss', as')"
    by blast
  then show ?case
  proof cases
    case same
    from Cons.IH [OF this Cons.prems(2)] show ?thesis by auto
  next
    case more
    from Cons.IH [OF more(6) Cons.prems(2)] consider
      "s \<in> set ss \<or> (\<exists>r \<in> set rs. serves m host r (h_target s) (h_ech s))"
      | "s = (if h_target h = [] then h\<lparr>h_target := host\<rparr> else h)" by auto
    then show ?thesis
    proof cases
      case 2
      with more(1-5) have "serves m host r (h_target s) (h_ech s)" by (simp add: serves_def)
      then show ?thesis by simp
    qed auto
  qed
qed simp

lemma https_answers_aliases:
  "https_answers (m_wire m) host ss as rs = ok (ss', as') \<Longrightarrow> a \<in> set as' \<Longrightarrow>
     a \<in> set as \<or> (\<exists>r \<in> set rs. aliases_to m host r a)"
proof (induction rs arbitrary: ss as)
  case (Cons r rs)
  from https_answers_Cons [OF Cons.prems(1)] consider
    (same) ss1 where "https_answers (m_wire m) host ss1 as rs = ok (ss', as')"
  | (more) b where "aliases_to m host r b" "https_answers (m_wire m) host ss (as @ [b]) rs = ok (ss', as')"
    unfolding aliases_to_def by blast
  then show ?case
  proof cases
    case same
    from Cons.IH [OF this Cons.prems(2)] show ?thesis by auto
  next
    case more
    from Cons.IH [OF more(2) Cons.prems(2)] more(1) show ?thesis by auto
  qed
qed simp

lemma select_service_ok:
  "select_service s ss = ok s' \<Longrightarrow> h_target s' = h_target s \<and> h_ech s' = h_ech s"
  by (induction s ss rule: select_service.induct) (fastforce split: if_splits)+

lemma resolve_https_ok:
  "resolve_https w host depth seen n = (ok (Some s), n') \<Longrightarrow> served w host (h_target s) (h_ech s)"
proof (induction "alias_hop_limit - depth" arbitrary: host depth seen n rule: less_induct)
  case less
  have go: "\<not> (alias_hop_limit \<le> depth \<or> host \<in> set seen)"
    using less.prems by (auto simp: resolve_https.simps [of w host depth])
  then obtain m n1 where q: "query w host type_https n = (ok m, n1)"
    using less.prems by (auto simp: resolve_https.simps [of w host depth] split: prod.splits sum.splits)
  with go obtain ss as where h: "https_answers (m_wire m) host [] [] (m_answers m) = ok (ss, as)"
    using less.prems by (auto simp: resolve_https.simps [of w host depth] split: prod.splits sum.splits)
  note prem = less.prems [unfolded resolve_https_cases [OF go q h]]
  show ?case
  proof (cases "ss = []")
    case False
    let ?o = "sort_key (\<lambda>s. unat (h_priority s)) ss"
    from prem False have "select_service (hd ?o) (tl ?o) = ok s" by (simp add: bind_result_eq_ok)
    then have s: "h_target s = h_target (hd ?o)" "h_ech s = h_ech (hd ?o)"
      using select_service_ok by blast+
    have "hd ?o \<in> set ss" using False by (metis hd_in_set length_0_conv length_sort set_sort)
    with https_answers_services [OF h, of "hd ?o"] q s show ?thesis by (auto intro: served.direct)
  next
    case True
    from prem True have ne: "as \<noteq> []"
      and rec: "resolve_https w (hd (sort as)) (depth + 1) (host # seen) n1 = (ok (Some s), n')"
      by (auto split: if_splits)
    have "hd (sort as) \<in> set as" using ne by (metis hd_in_set length_0_conv length_sort set_sort)
    with https_answers_aliases [OF h] obtain r where r: "r \<in> set (m_answers m)" "aliases_to m host r (hd (sort as))"
      by fastforce
    have "alias_hop_limit - (depth + 1) < alias_hop_limit - depth" using go by linarith
    from served.aliased [OF q r less.hyps [OF this rec]] show ?thesis .
  qed
qed

lemma resolve_relay_parts:
  assumes "resolve_relay w raw n = (ok res, n')"
  obtains s n1 as ttl where "resolve_https w (canonical_dns_name raw) 0 [] n = (ok s, n1)"
    "resolve_addresses w (relay_target (canonical_dns_name raw) s) 0 [] n1 = (ok (as, ttl), n')"
    "res = relay_resolution s as ttl"
proof -
  obtain x n1 where https: "resolve_https w (canonical_dns_name raw) 0 [] n = (x, n1)" by fastforce
  with assms obtain s where x: "x = ok s" by (cases x) (simp_all add: resolve_relay_def)
  obtain y n2 where addresses: "resolve_addresses w (relay_target (canonical_dns_name raw) s) 0 [] n1 = (y, n2)"
    by fastforce
  with assms https x obtain as ttl where "y = ok (as, ttl)"
    by (cases y) (auto simp add: resolve_relay_def)
  with assms https x addresses show thesis by (intro that) (auto simp: resolve_relay_def)
qed

lemma resolve_relay_ok:
  assumes "resolve_relay w raw n = (ok res, n')"
  shows "res_addresses res \<noteq> []" and "sorted_wrt (<) (res_addresses res)"
    and "res_https res \<Longrightarrow> \<exists>target. served w (canonical_dns_name raw) target (res_ech res)
      \<and> (\<forall>a \<in> set (res_addresses res). answered w (if target \<noteq> [] then target else canonical_dns_name raw) a)"
    and "\<not> res_https res \<Longrightarrow> res_ech res = [] \<and> (\<forall>a \<in> set (res_addresses res). answered w (canonical_dns_name raw) a)"
proof -
  from assms obtain s n1 as ttl where p: "resolve_https w (canonical_dns_name raw) 0 [] n = (ok s, n1)"
    "resolve_addresses w (relay_target (canonical_dns_name raw) s) 0 [] n1 = (ok (as, ttl), n')"
    "res = relay_resolution s as ttl" by (rule resolve_relay_parts)
  have res: "res_addresses res = as" "res_https res \<longleftrightarrow> s \<noteq> None"
    "res_ech res = (case s of None \<Rightarrow> [] | Some r \<Rightarrow> h_ech r)"
    by (simp_all add: p(3) relay_resolution_def Let_def)
  note a = resolve_addresses_ok [OF p(2)]
  show "res_addresses res \<noteq> []" "sorted_wrt (<) (res_addresses res)" using a res by simp_all
  show "\<exists>target. served w (canonical_dns_name raw) target (res_ech res)
      \<and> (\<forall>a \<in> set (res_addresses res). answered w (if target \<noteq> [] then target else canonical_dns_name raw) a)"
    if "res_https res"
  proof -
    from that res obtain r where s: "s = Some r" by auto
    with p(1) have "served w (canonical_dns_name raw) (h_target r) (h_ech r)" by (simp add: resolve_https_ok)
    with a show ?thesis by (intro exI [of _ "h_target r"]) (simp add: res s relay_target_def)
  qed
  show "res_ech res = [] \<and> (\<forall>a \<in> set (res_addresses res). answered w (canonical_dns_name raw) a)" if "\<not> res_https res"
    using that a res by (cases s) (simp_all add: relay_target_def)
qed

end
