(* ===== verification/Secure_Dialer.thy ===== *)
theory Secure_Dialer
  imports Doh_Resolver Config_Settings "HOL-Library.Multiset"
begin

text \<open>
  \<open>internal/securetransport/dialer.go\<close>, \<open>tls.go\<close> and the endpoint transport of \<open>doh.go\<close>. TCP and
  the TLS implementation are outside: \<open>network\<close> answers a dial of an endpoint with an error or a
  connection, and a handshake under a configuration with its error chain or the state it reports.
  A state is the list of the actions done so far, so a theorem can say what was never done.
\<close>

section \<open>The configuration of a handshake and what it negotiated\<close>

definition version_tls13 :: "16 word" where "version_tls13 = 0x0304"
definition version_tls12 :: "16 word" where "version_tls12 = 0x0303"
definition version_tls11 :: "16 word" where "version_tls11 = 0x0302"
definition version_tls10 :: "16 word" where "version_tls10 = 0x0301"

record tls_config =
  cfg_min_version :: "16 word"
  cfg_max_version :: "16 word"
  cfg_server_name :: string
  cfg_next_protos :: "string list"
  cfg_ech_list :: bytes

definition new_tls_config :: "string \<Rightarrow> bytes \<Rightarrow> string list \<Rightarrow> tls_config" where
  "new_tls_config server ech alpn =
     \<lparr>cfg_min_version = version_tls13, cfg_max_version = version_tls13, cfg_server_name = server,
      cfg_next_protos = alpn, cfg_ech_list = ech\<rparr>"

record certificate =
  cert_issuer :: string
  cert_not_after :: int

record connection_state =
  st_version :: "16 word"
  st_cipher_suite :: "16 word"
  st_protocol :: string
  st_server_name :: string
  st_ech_accepted :: bool
  st_certificates :: "certificate list"

record transport_info =
  ti_version :: "16 word"
  ti_cipher_suite :: "16 word"
  ti_protocol :: string
  ti_server_name :: string
  ti_ech_accepted :: bool
  ti_ech_public_name :: string
  ti_issuer :: string
  ti_expiry :: "int option"

definition tls13 :: "transport_info \<Rightarrow> bool" where
  "tls13 i = (ti_version i = version_tls13)"

text \<open>The unknown versions print as \<open>%#04x\<close>: Go pads the digits to the width before the prefix.\<close>

fun hex_digits :: "nat \<Rightarrow> string" where
  "hex_digits n = (if n < 16 then [''0123456789abcdef'' ! n] else hex_digits (n div 16) @ [''0123456789abcdef'' ! (n mod 16)])"

declare hex_digits.simps [simp del]

definition hex_padded :: "nat \<Rightarrow> string" where
  "hex_padded n = (let d = hex_digits n in replicate (4 - length d) CHR ''0'' @ d)"

definition tls_version_name :: "16 word \<Rightarrow> string" where
  "tls_version_name v =
     (if v = version_tls13 then ''TLSv1.3'' else if v = version_tls12 then ''TLSv1.2''
      else if v = version_tls11 then ''TLSv1.1'' else if v = version_tls10 then ''TLSv1.0''
      else if v = 0 then ''none'' else ''TLS(0x'' @ hex_padded (unat v) @ '')'')"

definition transport_info_from :: "connection_state \<Rightarrow> bytes \<Rightarrow> transport_info" where
  "transport_info_from st ech =
     \<lparr>ti_version = st_version st, ti_cipher_suite = st_cipher_suite st, ti_protocol = st_protocol st,
      ti_server_name = st_server_name st, ti_ech_accepted = st_ech_accepted st,
      ti_ech_public_name = (if st_ech_accepted st then ech_public_name ech else []),
      ti_issuer = (case st_certificates st of [] \<Rightarrow> [] | leaf # _ \<Rightarrow> cert_issuer leaf),
      ti_expiry = (case st_certificates st of [] \<Rightarrow> None | leaf # _ \<Rightarrow> Some (cert_not_after leaf))\<rparr>"

text \<open>The errors that \<open>errors.As\<close> can find in the chain of a failed handshake.\<close>

datatype chain_error =
    EchRejection | CertificateVerification | UnknownAuthority | CertificateInvalid | HostnameMismatch | OtherError string

datatype dial_cause =
    Resolving doh_cause | NoResolver | NoHttpsRecord | NoEchConfig | EchConfig ech_error
  | RejectedAddress "address_class option" | NoEndpoints | AllDialsFailed "go_error list"
  | Negotiated string | NoFallback | NoPublicName | NotConcealed | HandshakeError "chain_error list"

type_synonym 'a dial = "(dial_cause transport_error, 'a) result"

definition verify_transport :: "transport_info \<Rightarrow> bool \<Rightarrow> unit dial" where
  "verify_transport i required =
     (if \<not> tls13 i then fail FailureTLSVersion (Negotiated (tls_version_name (ti_version i)))
      else if required \<and> \<not> ti_ech_accepted i then fail FailureECHRejected NoFallback
      else if required \<and> ti_ech_public_name i = [] then fail FailureECHUnavailable NoPublicName
      else if required \<and> canonical_dns_name (ti_ech_public_name i) = canonical_dns_name (ti_server_name i)
        then fail FailureECHUnavailable NotConcealed
      else ok ())"

definition classify_handshake_error :: "chain_error list \<Rightarrow> 'a dial" where
  "classify_handshake_error es =
     (if EchRejection \<in> set es then fail FailureECHRejected (HandshakeError es)
      else if CertificateVerification \<in> set es \<or> UnknownAuthority \<in> set es \<or> CertificateInvalid \<in> set es
        \<or> HostnameMismatch \<in> set es then fail FailureCertificate (HandshakeError es)
      else fail FailureHandshake (HandshakeError es))"

section \<open>Dialing\<close>

type_synonym endpoint = "addr \<times> 16 word"

record 'c network =
  net_dial :: "endpoint \<Rightarrow> go_error + 'c"
  net_handshake :: "'c \<Rightarrow> tls_config \<Rightarrow> chain_error list + connection_state"

datatype 'c action = Dial endpoint | Handshake 'c tls_config | Close 'c

record secure_dialer =
  sd_resolver :: "world option"
  sd_ech :: ech_mode
  sd_alpn :: "string list"

definition dialer_ech_required :: "secure_dialer \<Rightarrow> bool" where
  "dialer_ech_required d = (sd_ech d \<noteq> ech_insecure_disabled)"

text \<open>
  \<open>handshake\<close>: a result and the actions it added. A connection that fails verification is closed;
  a failed handshake leaves the closing to its caller.
\<close>

definition handshake ::
  "secure_dialer \<Rightarrow> 'c network \<Rightarrow> 'c \<Rightarrow> string \<Rightarrow> bytes \<Rightarrow> ('c \<times> transport_info) dial \<times> 'c action list" where
  "handshake d net raw server ech =
     (let cfg = new_tls_config server ech (sd_alpn d) in
      case net_handshake net raw cfg of
        Inl es \<Rightarrow> (classify_handshake_error es, [Handshake raw cfg])
      | Inr st \<Rightarrow>
          let info = transport_info_from st ech in
          (case verify_transport info (dialer_ech_required d) of
             Inl e \<Rightarrow> (Inl e, [Handshake raw cfg, Close raw])
           | Inr _ \<Rightarrow> (ok (raw, info), [Handshake raw cfg])))"

text \<open>The loop over the endpoints: a failed dial tries the next one, a failed handshake ends it.\<close>

fun connect_loop ::
  "secure_dialer \<Rightarrow> 'c network \<Rightarrow> string \<Rightarrow> bytes \<Rightarrow> go_error list \<Rightarrow> endpoint list
     \<Rightarrow> ('c \<times> transport_info) dial \<times> 'c action list" where
  "connect_loop d net server ech failures [] = (fail FailureHandshake (AllDialsFailed failures), [])"
| "connect_loop d net server ech failures (e # es) =
     (case net_dial net e of
        Inl f \<Rightarrow> (case connect_loop d net server ech (failures @ [f]) es of (r, as) \<Rightarrow> (r, Dial e # as))
      | Inr raw \<Rightarrow>
          (case handshake d net raw server ech of
             (Inl f, as) \<Rightarrow> (Inl f, Dial e # as @ [Close raw])
           | (Inr ci, as) \<Rightarrow> (ok ci, Dial e # as)))"

definition connect_all ::
  "secure_dialer \<Rightarrow> 'c network \<Rightarrow> string \<Rightarrow> endpoint list \<Rightarrow> bytes \<Rightarrow> ('c \<times> transport_info) dial \<times> 'c action list" where
  "connect_all d net server endpoints ech =
     (if endpoints = [] then (fail FailureDoH NoEndpoints, []) else connect_loop d net server ech [] endpoints)"

definition connect ::
  "secure_dialer \<Rightarrow> 'c network \<Rightarrow> string \<Rightarrow> addr list \<Rightarrow> 16 word \<Rightarrow> bytes
     \<Rightarrow> ('c \<times> transport_info) dial \<times> 'c action list" where
  "connect d net server addresses port ech = connect_all d net server (map (\<lambda>a. (a, port)) addresses) ech"

definition address_rejection :: "addr list \<Rightarrow> dial_cause" where
  "address_rejection as = RejectedAddress (map_option snd (first_non_public as))"

text \<open>The checks on a resolution when ECH is required.\<close>

definition check_ech :: "string \<Rightarrow> resolution \<Rightarrow> unit dial" where
  "check_ech host r =
     (if \<not> res_https r then fail FailureHTTPSRecord NoHttpsRecord
      else if res_ech r = [] then fail FailureECHUnavailable NoEchConfig
      else case validate_ech_config_list (res_ech r) host of
        Inl Panic \<Rightarrow> panic
      | Inl (Err e) \<Rightarrow> fail FailureECHUnavailable (EchConfig e)
      | Inr _ \<Rightarrow> ok ())"

definition lift_doh :: "'a doh \<Rightarrow> 'a dial" where
  "lift_doh m = map_err (\<lambda>e. \<lparr>fail_reason = fail_reason e, fail_cause = Resolving (fail_cause e)\<rparr>) m"

definition dial_port ::
  "secure_dialer \<Rightarrow> 'c network \<Rightarrow> string \<Rightarrow> 16 word \<Rightarrow> nat \<Rightarrow> ('c \<times> transport_info) dial \<times> 'c action list" where
  "dial_port d net host port n =
     (case sd_resolver d of
        None \<Rightarrow> (fail FailureDoH NoResolver, [])
      | Some w \<Rightarrow>
          (case lift_doh (fst (resolve_relay w host n)) of
             Inl e \<Rightarrow> (Inl e, [])
           | Inr r \<Rightarrow>
               (case (if dialer_ech_required d then check_ech host r else ok ()) of
                  Inl e \<Rightarrow> (Inl e, [])
                | Inr _ \<Rightarrow>
                    if \<not> allowed (check_addresses (res_addresses r) :: unit decision)
                    then (fail FailureAddressRejected (address_rejection (res_addresses r)), [])
                    else connect d net host (res_addresses r) port (res_ech r))))"

definition dial_https ::
  "secure_dialer \<Rightarrow> 'c network \<Rightarrow> string \<Rightarrow> nat \<Rightarrow> ('c \<times> transport_info) dial \<times> 'c action list" where
  "dial_https d net host n = dial_port d net host allowed_port n"

section \<open>The endpoint of the resolver\<close>

datatype endpoint_error = NoBootstrapFor string | NotDialable addr

text \<open>\<open>newDoHTransport\<close>: the addresses the endpoint is dialed at, and its port.\<close>

definition doh_endpoints :: "url \<Rightarrow> addr list \<Rightarrow> (endpoint_error, addr list \<times> string) result" where
  "doh_endpoints u bootstrap =
     (let host = url_hostname u;
          port = (if url_port u = [] then ''443'' else url_port u);
          addresses = (case parse_addr host of
            Some literal \<Rightarrow> if bootstrap = [] then [literal] else bootstrap
          | None \<Rightarrow> bootstrap)
      in if addresses = [] then err (NoBootstrapFor host)
         else case find (\<lambda>a. \<not> is_valid a \<or> is_unspecified a \<or> is_multicast a) addresses of
           Some a \<Rightarrow> err (NotDialable a)
         | None \<Rightarrow> ok (addresses, port))"

text \<open>
  One dial of the transport: the counter is a 32-bit word, and the addresses are tried once each,
  from where it points.
\<close>

definition dial_order :: "32 word \<Rightarrow> addr list \<Rightarrow> addr list" where
  "dial_order counter as = map (\<lambda>i. as ! ((unat counter + i) mod length as)) [0..<length as]"

fun dial_doh :: "(addr \<Rightarrow> go_error + 'c) \<Rightarrow> go_error list \<Rightarrow> addr list \<Rightarrow> go_error list + 'c" where
  "dial_doh tcp failures [] = Inl failures"
| "dial_doh tcp failures (a # as) = (case tcp a of Inr c \<Rightarrow> Inr c | Inl e \<Rightarrow> dial_doh tcp (failures @ [e]) as)"

section \<open>What an open connection means\<close>

lemma verify_transport_ok:
  "verify_transport i required = ok () \<longleftrightarrow> tls13 i \<and> (required \<longrightarrow> ti_ech_accepted i \<and> ti_ech_public_name i \<noteq> []
     \<and> canonical_dns_name (ti_ech_public_name i) \<noteq> canonical_dns_name (ti_server_name i))"
  by (auto simp: verify_transport_def)

lemma transport_info_accepted:
  "ti_ech_accepted (transport_info_from st ech) \<Longrightarrow> ti_ech_public_name (transport_info_from st ech) = ech_public_name ech"
  by (simp add: transport_info_from_def)

lemma classify_handshake_not_ok [simp]: "classify_handshake_error es \<noteq> ok x"
  by (simp add: classify_handshake_error_def)

lemma handshake_ok:
  assumes "handshake d net raw server ech = (ok ci, as)"
  shows "fst ci = raw" and "verify_transport (snd ci) (dialer_ech_required d) = ok ()"
    and "\<exists>st. net_handshake net raw (new_tls_config server ech (sd_alpn d)) = Inr st \<and> snd ci = transport_info_from st ech"
  using assms by (auto simp: handshake_def Let_def split: sum.split_asm)

text \<open>Whatever happened: one handshake at most, under the one configuration, on the connection given.\<close>

definition handshakes :: "'c action list \<Rightarrow> ('c \<times> tls_config) list" where
  "handshakes as = concat (map (\<lambda>a. case a of Handshake c cfg \<Rightarrow> [(c, cfg)] | _ \<Rightarrow> []) as)"

definition dials :: "'c action list \<Rightarrow> endpoint list" where
  "dials as = concat (map (\<lambda>a. case a of Dial e \<Rightarrow> [e] | _ \<Rightarrow> []) as)"

lemma action_lists [simp]:
  "handshakes [] = []" "handshakes (Dial e # as) = handshakes as" "handshakes (Close c # as) = handshakes as"
  "handshakes (Handshake c cfg # as) = (c, cfg) # handshakes as" "handshakes (as @ bs) = handshakes as @ handshakes bs"
  "dials [] = []" "dials (Dial e # as) = e # dials as" "dials (Close c # as) = dials as"
  "dials (Handshake c cfg # as) = dials as" "dials (as @ bs) = dials as @ dials bs"
  by (simp_all add: handshakes_def dials_def)

lemma handshake_actions:
  "handshakes (snd (handshake d net raw server ech)) = [(raw, new_tls_config server ech (sd_alpn d))]"
  "dials (snd (handshake d net raw server ech)) = []"
  by (simp_all add: handshake_def Let_def split: sum.split)

lemma connect_loop_actions:
  "connect_loop d net server ech failures es = (r, as) \<Longrightarrow>
     length (handshakes as) \<le> 1 \<and> (\<forall>h \<in> set (handshakes as). snd h = new_tls_config server ech (sd_alpn d))
     \<and> (\<exists>post. es = dials as @ post)"
proof (induction es arbitrary: failures r as)
  case (Cons e es)
  show ?case
  proof (cases "net_dial net e")
    case (Inl f)
    with Cons.prems obtain as' where "connect_loop d net server ech (failures @ [f]) es = (r, as')" "as = Dial e # as'"
      by (auto split: prod.split_asm)
    with Cons.IH [of "failures @ [f]" r as'] show ?thesis by auto
  next
    case (Inr raw)
    obtain x bs where h: "handshake d net raw server ech = (x, bs)" by fastforce
    with handshake_actions [of d net raw server ech]
    have "handshakes bs = [(raw, new_tls_config server ech (sd_alpn d))]" "dials bs = []" by simp_all
    with Cons.prems Inr h show ?thesis by (cases x) auto
  qed
qed simp

text \<open>A connection comes from the first endpoint that answered, and nothing of it was closed.\<close>

lemma connect_loop_ok:
  "connect_loop d net server ech failures es = (ok (c, info), as) \<Longrightarrow>
     (\<exists>pre e post st. es = pre @ e # post \<and> (\<forall>p \<in> set pre. \<exists>f. net_dial net p = Inl f) \<and> net_dial net e = Inr c
        \<and> net_handshake net c (new_tls_config server ech (sd_alpn d)) = Inr st \<and> info = transport_info_from st ech)
     \<and> verify_transport info (dialer_ech_required d) = ok () \<and> Close c \<notin> set as"
proof (induction es arbitrary: failures as)
  case (Cons e es)
  show ?case
  proof (cases "net_dial net e")
    case (Inl f)
    with Cons.prems obtain as' where rec: "connect_loop d net server ech (failures @ [f]) es = (ok (c, info), as')"
      and as: "as = Dial e # as'" by (auto split: prod.split_asm)
    from Cons.IH [OF rec] obtain pre e' post st where w: "es = pre @ e' # post" "\<forall>p \<in> set pre. \<exists>f. net_dial net p = Inl f"
      "net_dial net e' = Inr c" "net_handshake net c (new_tls_config server ech (sd_alpn d)) = Inr st"
      "info = transport_info_from st ech" "verify_transport info (dialer_ech_required d) = ok ()" "Close c \<notin> set as'"
      by blast
    have "e # es = (e # pre) @ e' # post" "\<forall>p \<in> set (e # pre). \<exists>f. net_dial net p = Inl f"
      using w(1,2) Inl by auto
    with w(3-7) as show ?thesis by (metis action.distinct(3) set_ConsD)
  next
    case (Inr raw)
    obtain x bs where h: "handshake d net raw server ech = (x, bs)" by fastforce
    with Cons.prems Inr have x: "x = ok (c, info)" "as = Dial e # bs" by (cases x; simp)+
    note facts = handshake_ok [OF h [unfolded x(1)]]
    from h x(1) have "Close c \<notin> set bs" by (auto simp: handshake_def Let_def split: sum.split_asm)
    with facts x Inr show ?thesis by (cases e) (auto intro!: exI [of _ "[]"])
  qed
qed simp

lemma check_ech_ok:
  "check_ech host r = ok () \<longleftrightarrow> res_https r \<and> res_ech r \<noteq> [] \<and> validate_ech_config_list (res_ech r) host = ok ()"
  by (auto simp: check_ech_def split: sum.split failure.split)

lemma lift_doh_ok [simp]: "lift_doh m = ok x \<longleftrightarrow> m = ok x"
  by (simp add: lift_doh_def)

text \<open>The resolution a dial went through, when it opened a connection or at least tried one.\<close>

lemma dial_port_resolution:
  assumes "dial_port d net host port n = (r, as)" and "as \<noteq> []"
  obtains w res n' where "sd_resolver d = Some w" "resolve_relay w host n = (ok res, n')"
    "dialer_ech_required d \<Longrightarrow> check_ech host res = ok ()"
    "res_addresses res \<noteq> []" "\<forall>a \<in> set (res_addresses res). classify_address a = AddressPublic"
    "connect_loop d net host (res_ech res) [] (map (\<lambda>a. (a, port)) (res_addresses res)) = (r, as)"
proof -
  from assms obtain w where w: "sd_resolver d = Some w" by (auto simp: dial_port_def split: option.split_asm)
  with assms obtain res where res: "lift_doh (fst (resolve_relay w host n)) = ok res"
    by (auto simp: dial_port_def split: sum.split_asm)
  have e: "(if dialer_ech_required d then check_ech host res else ok ()) = ok ()"
    using assms w res
    by (cases "if dialer_ech_required d then check_ech host res else ok ()") (simp_all add: dial_port_def)
  have a: "allowed (check_addresses (res_addresses res) :: unit decision)"
    using assms w res e by (simp add: dial_port_def split: if_split_asm)
  then have pub: "res_addresses res \<noteq> []" "\<forall>a \<in> set (res_addresses res). classify_address a = AddressPublic"
    unfolding check_addresses_allowed by simp_all
  have "connect d net host (res_addresses res) port (res_ech res) = (r, as)"
    using assms(1) w res e a by (simp add: dial_port_def)
  with pub have "connect_loop d net host (res_ech res) [] (map (\<lambda>a. (a, port)) (res_addresses res)) = (r, as)"
    by (simp add: connect_def connect_all_def)
  moreover have "dialer_ech_required d \<Longrightarrow> check_ech host res = ok ()" using e by (simp split: if_split_asm)
  moreover obtain n' where "resolve_relay w host n = (ok res, n')"
    using res by (cases "resolve_relay w host n") auto
  ultimately show thesis using w pub that by blast
qed

lemma connect_loop_nonempty: "es \<noteq> [] \<Longrightarrow> snd (connect_loop d net server ech failures es) \<noteq> []"
  by (cases es) (auto split: sum.split prod.split)

lemma dial_port_ok:
  assumes "dial_port d net host port n = (ok (c, info), as)"
  obtains w res n' a st where "sd_resolver d = Some w" "resolve_relay w host n = (ok res, n')"
    "dialer_ech_required d \<Longrightarrow> check_ech host res = ok ()"
    "\<forall>a \<in> set (res_addresses res). classify_address a = AddressPublic"
    "a \<in> set (res_addresses res)" "net_dial net (a, port) = Inr c"
    "net_handshake net c (new_tls_config host (res_ech res) (sd_alpn d)) = Inr st"
    "info = transport_info_from st (res_ech res)" "verify_transport info (dialer_ech_required d) = ok ()"
    "Close c \<notin> set as"
proof -
  have "as \<noteq> []"
  proof
    assume "as = []"
    with assms show False
      by (auto simp: dial_port_def connect_def connect_all_def split: option.split_asm sum.split_asm if_split_asm
          dest: arg_cong [where f = snd] simp: connect_loop_nonempty)
  qed
  from dial_port_resolution [OF assms this] obtain w res n' where r: "sd_resolver d = Some w"
    "resolve_relay w host n = (ok res, n')" "dialer_ech_required d \<Longrightarrow> check_ech host res = ok ()"
    "\<forall>a \<in> set (res_addresses res). classify_address a = AddressPublic"
    "connect_loop d net host (res_ech res) [] (map (\<lambda>a. (a, port)) (res_addresses res)) = (ok (c, info), as)"
    by metis
  from connect_loop_ok [OF r(5)] obtain pre e post st where
    "map (\<lambda>a. (a, port)) (res_addresses res) = pre @ e # post" "net_dial net e = Inr c"
    "net_handshake net c (new_tls_config host (res_ech res) (sd_alpn d)) = Inr st"
    "info = transport_info_from st (res_ech res)" "verify_transport info (dialer_ech_required d) = ok ()"
    "Close c \<notin> set as" by blast
  moreover from this(1) obtain a where "a \<in> set (res_addresses res)" "e = (a, port)"
    by (metis (no_types, lifting) image_iff in_set_conv_decomp list.set_map)
  ultimately show thesis using r that by blast
qed

section \<open>The endpoint of the resolver is reached without a lookup\<close>

lemma doh_endpoints_ok:
  assumes "doh_endpoints u bootstrap = ok (as, port)"
  shows "as \<noteq> [] \<and> (\<forall>a \<in> set as. dialable a)
    \<and> (as = bootstrap \<or> (bootstrap = [] \<and> (\<exists>a. parse_addr (url_hostname u) = Some a \<and> as = [a])))"
  using assms
  by (auto simp: doh_endpoints_def Let_def dialable_def find_None_iff split: if_split_asm option.split_asm)

lemma validated_doh_endpoints:
  assumes "validate_doh_bootstrap (Some u) bootstrap = ok ()" and "bootstrap \<noteq> []"
  shows "\<exists>port. doh_endpoints u bootstrap = ok (bootstrap, port)"
proof -
  have "find (\<lambda>a. \<not> is_valid a \<or> is_unspecified a \<or> is_multicast a) bootstrap = None"
    using assms by (auto simp: find_None_iff validate_doh_bootstrap_ok dialable_def)
  then show ?thesis using assms(2) by (auto simp: doh_endpoints_def Let_def split: option.split)
qed

text \<open>One round of dialing tries every address exactly once.\<close>

lemma dial_order_rotate:
  assumes "as \<noteq> []"
  shows "dial_order counter as = rotate (unat counter) as"
  using assms by (intro nth_equalityI) (simp_all add: dial_order_def nth_rotate)

lemma mset_rotate1: "mset (rotate1 xs) = mset xs"
  by (cases xs) simp_all

lemma mset_rotate: "mset (rotate k xs) = mset xs"
  by (induction k) (simp_all only: rotate0 id_apply rotate_Suc mset_rotate1)

lemma dial_order_mset: "mset (dial_order counter as) = mset as"
  by (cases "as = []") (simp_all add: dial_order_def [of _ "[]"] dial_order_rotate mset_rotate)

end
