(* ===== verification/Doh_Endpoint.thy ===== *)
theory Doh_Endpoint
  imports Secure_Dialer
begin

text \<open>
  The resolver of \<open>internal/securetransport/doh.go\<close> against an endpoint that answers well: an HTTPS
  record with an ECH configuration list for the queried name, and its addresses. The lemmas
  of the resolver say that what it returns was answered; here the answers come back.
\<close>

section \<open>An endpoint that answers\<close>

definition answer_reply :: "16 word \<Rightarrow> dns_question \<Rightarrow> dns_record list \<Rightarrow> http_reply" where
  "answer_reply tid q rs =
     \<lparr>reply_status = 200, reply_type = ''application/dns-message'', reply_body = message_bytes tid 0x8180 q rs, reply_error = None\<rparr>"

definition inet_question :: "string \<Rightarrow> dns_type \<Rightarrow> dns_question" where
  "inet_question host t = \<lparr>q_name = host, q_type = t, q_class = class_inet\<rparr>"

definition inet_record :: "string \<Rightarrow> dns_type \<Rightarrow> bytes \<Rightarrow> dns_record" where
  "inet_record host t data =
     \<lparr>r_name = host, r_type = t, r_class = class_inet, r_ttl = 300, r_data = data, r_data_offset = 0\<rparr>"

lemma inet_record_simps [simp]:
  "r_name (inet_record host t data) = host" "r_type (inet_record host t data) = t"
  "r_class (inet_record host t data) = class_inet" "r_ttl (inet_record host t data) = 300"
  "r_data (inet_record host t data) = data"
  by (simp_all add: inet_record_def)

definition https_data :: "bytes \<Rightarrow> bytes" where
  "https_data ech = put_uint16 1 @ 0 # param_bytes (svc_param_ech, ech)"

definition relay_world :: "16 word \<Rightarrow> string \<Rightarrow> bytes \<Rightarrow> bytes list \<Rightarrow> world" where
  "relay_world tid host ech ips n =
     (Inr tid, Inr (
        if n = 0 then answer_reply tid (inet_question host type_https) [inet_record host type_https (https_data ech)]
        else if n = 1 then answer_reply tid (inet_question host type_a) (map (inet_record host type_a) ips)
        else answer_reply tid (inet_question host type_aaaa) []))"

section \<open>One exchange\<close>

lemma dns_message_type: "is_dns_message_type ''application/dns-message''"
proof -
  have "cut_at CHR '';'' ''application/dns-message'' = None" by simp
  moreover have "trim_space ''application/dns-message'' = ''application/dns-message''"
    by (simp add: trim_space_ascii trim_by_id is_space_def in_range_def)
  ultimately show ?thesis by (simp add: is_dns_message_type_def equal_fold_def)
qed

definition answer_message :: "16 word \<Rightarrow> dns_question \<Rightarrow> dns_record list \<Rightarrow> dns_message" where
  "answer_message tid q rs =
    \<lparr>m_header = \<lparr>hdr_id = tid, hdr_response = True, hdr_truncated = False, hdr_rcode = rcode_success, hdr_questions = 1,
        hdr_answers = word_of_nat (length rs)\<rparr>,
     m_questions = [q], m_answers = placed (12 + length (question_bytes q)) rs, m_wire = message_bytes tid 0x8180 q rs\<rparr>"

lemma exchange_answers:
  assumes "query_name host" and "list_all plain_record rs"
    and "length (message_bytes tid 0x8180 (inet_question host t) rs) \<le> 65535"
  shows "exchange (Inr tid, Inr (answer_reply tid (inet_question host t) rs)) host t = ok (answer_message tid (inet_question host t) rs)"
proof -
  have q: "query_name (q_name (inet_question host t))" using assms(1) by (simp add: inet_question_def)
  have "parse_dns_message (message_bytes tid 0x8180 (inet_question host t) rs) = ok (answer_message tid (inet_question host t) rs)"
    using parse_message_bytes [where qid = tid and flags = "0x8180", OF q assms(2)] assms(3)
    by (simp add: answer_message_def dns_message_limit_def rcode_success_def)
  moreover have "check_response tid (inet_question host t) (answer_message tid (inet_question host t) rs)
      = ok (answer_message tid (inet_question host t) rs)"
    by (simp add: check_response_ok answer_message_def)
  ultimately show ?thesis
    using build_query_ok [where qid = tid, OF q] assms(3)
    by (simp add: exchange_def Let_def inet_question_def [symmetric] answer_reply_def dns_message_type read_reply_def
        dns_response_limit_def dns_message_limit_def fail_with_def)
qed

lemma placed_fields: "map f (placed off rs) = map f rs" if "\<And>r n. f (r\<lparr>r_data_offset := n\<rparr>) = f r"
  by (induction off rs rule: placed.induct) (simp_all add: that)

lemma message_length:
  assumes "query_name host" and "\<And>r. r \<in> set rs \<Longrightarrow> r_name r = host \<and> length (r_data r) \<le> k"
  shows "length (message_bytes tid fl (inet_question host t) rs) \<le> 18 + length host + length rs * (length host + 12 + k)"
proof -
  have "length (concat (map record_bytes rs)) \<le> length rs * (length host + 12 + k)"
    using assms(2)
  proof (induction rs)
    case (Cons r rs)
    have "length (record_bytes r) \<le> length host + 12 + k"
      using Cons.prems [of r] by (simp add: record_bytes_def name_bytes_length [OF assms(1)])
    moreover have "length (concat (map record_bytes rs)) \<le> length rs * (length host + 12 + k)"
      by (rule Cons.IH) (use Cons.prems in simp)
    ultimately show ?case by simp
  qed simp
  then show ?thesis
    by (simp add: message_bytes_def header_bytes_def question_bytes_def inet_question_def name_bytes_length [OF assms(1)])
qed

section \<open>The records\<close>

lemma svc_params_one:
  assumes "length v < 65536"
  shows "parse_svc_params (param_bytes (k, v)) = ok [(k, v)]"
proof -
  have "\<not> uint k \<le> - 1" using uint_nonnegative [of k] by linarith
  then show ?thesis
    unfolding parse_svc_params_def
    by (subst parse_svc_params_loop.simps) (use assms in \<open>simp add: param_bytes_def parse_svc_params_loop.simps [of "[]"]\<close>)
qed

text \<open>A service at the root name stands for the name itself.\<close>

lemma parse_https_root:
  assumes "record_inside m r" and "r_data r = put_uint16 p @ 0 # ps"
  shows "parse_https_record m r = bind_result (parse_svc_params ps) (\<lambda>params.
    ok \<lparr>h_priority = p, h_target = [], h_ech = (case map_of params svc_param_ech of None \<Rightarrow> [] | Some e \<Rightarrow> e), h_ttl = r_ttl r\<rparr>)"
proof -
  let ?o = "r_data_offset r"
  obtain pre post where m: "m = pre @ r_data r @ post" "length pre = ?o"
  proof
    show "m = take ?o m @ r_data r @ drop (?o + length (r_data r)) m"
      using assms(1) by (metis add.commute append_take_drop_id drop_drop record_inside_def)
    show "length (take ?o m) = ?o" using assms(1) by (simp add: record_inside_def)
  qed
  have "decode_step ((pre @ put_uint16 p) @ 0 # ps @ post) (length (pre @ put_uint16 p)) = ok NameEnd"
    by (rule decode_step_end)
  then have "decode_step m (?o + 2) = ok NameEnd" by (simp add: m(1) assms(2) flip: m(2))
  then have name: "decode_name m (?o + 2) = ok ([], ?o + 3)"
    by (simp add: decode_name_def decode_name_loop.simps)
  have "drop (?o + 3) m = ps @ post" "length (r_data r) = length ps + 3" "?o + length ps + 3 \<le> length m"
    by (simp_all add: m(1) assms(2) flip: m(2))
  then have "slice m (?o + 3) (?o + length (r_data r)) = (ok ps :: (https_error, bytes) result)"
    by simp
  then show ?thesis using name assms(2) by (simp add: parse_https_record_def Let_def)
qed

lemma answers_inside:
  assumes "query_name host" and "list_all plain_record rs"
    and "length (message_bytes tid 0x8180 (inet_question host t) rs) \<le> 65535"
  shows "list_all (record_inside (m_wire (answer_message tid (inet_question host t) rs)))
    (m_answers (answer_message tid (inet_question host t) rs))"
proof -
  have "query_name (q_name (inet_question host t))" using assms(1) by (simp add: inet_question_def)
  from parse_message_bytes [where qid = tid and flags = "0x8180", OF this assms(2)] assms(3)
  have "parse_dns_message (message_bytes tid 0x8180 (inet_question host t) rs) = ok (answer_message tid (inet_question host t) rs)"
    by (simp add: answer_message_def dns_message_limit_def rcode_success_def)
  from parse_dns_message_inside [OF this] show ?thesis by (simp add: answer_message_def)
qed

definition good_answers :: "string \<Rightarrow> bytes \<Rightarrow> bytes list \<Rightarrow> bool" where
  "good_answers host ech ips \<longleftrightarrow> query_name host \<and> canonical_dns_name host = host \<and> length ech \<le> 60000
     \<and> ips \<noteq> [] \<and> length ips \<le> 200 \<and> list_all (\<lambda>d. length d = 4) ips"

lemma relay_queries:
  assumes "good_answers host ech ips"
  shows "query (relay_world tid host ech ips) host type_https 0
      = (ok (answer_message tid (inet_question host type_https) [inet_record host type_https (https_data ech)]), 1)"
    and "query (relay_world tid host ech ips) host type_a 1
      = (ok (answer_message tid (inet_question host type_a) (map (inet_record host type_a) ips)), 2)"
    and "query (relay_world tid host ech ips) host type_aaaa 2
      = (ok (answer_message tid (inet_question host type_aaaa) []), 3)"
proof -
  have h: "query_name host" "length host \<le> 253" using assms by (simp_all add: good_answers_def query_name_def dns_name_limit_def)
  have "length (https_data ech) = 7 + length ech" by (simp add: https_data_def param_bytes_def)
  with message_length [OF h(1), of "[inet_record host type_https (https_data ech)]" "7 + length ech" tid "0x8180" type_https] h assms
  have l1: "length (message_bytes tid 0x8180 (inet_question host type_https) [inet_record host type_https (https_data ech)]) \<le> 65535"
    and p1: "list_all plain_record [inet_record host type_https (https_data ech)]"
    by (simp_all add: inet_record_def plain_record_def good_answers_def)
  have "length (message_bytes tid 0x8180 (inet_question host type_a) (map (inet_record host type_a) ips))
      \<le> 18 + length host + length (map (inet_record host type_a) ips) * (length host + 12 + 4)"
    by (rule message_length [OF h(1)]) (use assms in \<open>auto simp: good_answers_def inet_record_def list_all_iff\<close>)
  moreover have "length ips * (length host + 12 + 4) \<le> 200 * (253 + 12 + 4)"
    by (rule mult_le_mono) (use assms h in \<open>simp_all add: good_answers_def\<close>)
  ultimately have l2: "length (message_bytes tid 0x8180 (inet_question host type_a) (map (inet_record host type_a) ips)) \<le> 65535"
    using h(2) unfolding length_map by (auto elim!: order_trans)
  have p2: "list_all plain_record (map (inet_record host type_a) ips)"
    using assms by (auto simp: plain_record_def inet_record_def good_answers_def list_all_iff)
  have l3: "length (message_bytes tid 0x8180 (inet_question host type_aaaa) []) \<le> 65535"
    using message_length [OF h(1), of "[]" 0 tid "0x8180" type_aaaa] h by simp
  show "query (relay_world tid host ech ips) host type_https 0
      = (ok (answer_message tid (inet_question host type_https) [inet_record host type_https (https_data ech)]), 1)"
    using exchange_answers [OF h(1) p1 l1] by (simp add: query_def relay_world_def)
  show "query (relay_world tid host ech ips) host type_a 1
      = (ok (answer_message tid (inet_question host type_a) (map (inet_record host type_a) ips)), 2)"
    using exchange_answers [OF h(1) p2 l2] by (simp add: query_def relay_world_def)
  show "query (relay_world tid host ech ips) host type_aaaa 2
      = (ok (answer_message tid (inet_question host type_aaaa) []), 3)"
    using exchange_answers [OF h(1) _ l3] by (simp add: query_def relay_world_def)
qed

section \<open>The resolver returns what was answered\<close>

lemma type_values: "type_a \<noteq> type_aaaa" "type_a \<noteq> type_cname" "type_https \<noteq> type_cname" "type_aaaa \<noteq> type_cname"
  by (simp_all add: type_a_def type_aaaa_def type_cname_def type_https_def)

lemma https_step:
  assumes g: "good_answers host ech ips"
  shows "resolve_https (relay_world tid host ech ips) host 0 [] 0 =
    (ok (Some \<lparr>h_priority = 1, h_target = host, h_ech = ech, h_ttl = 300\<rparr>), 1)"
proof -
  let ?rs = "[inet_record host type_https (https_data ech)]"
  let ?m = "answer_message tid (inet_question host type_https) ?rs"
  obtain o' where placed: "m_answers ?m = [(inet_record host type_https (https_data ech))\<lparr>r_data_offset := o'\<rparr>]"
    by (simp add: answer_message_def)
  let ?r = "(inet_record host type_https (https_data ech))\<lparr>r_data_offset := o'\<rparr>"
  have h: "query_name host" "length host \<le> 253" using g by (simp_all add: good_answers_def query_name_def dns_name_limit_def)
  have len: "length (https_data ech) = 7 + length ech" by (simp add: https_data_def param_bytes_def)
  have p: "list_all plain_record ?rs" using h g len by (simp add: plain_record_def inet_record_def good_answers_def)
  have "length (message_bytes tid 0x8180 (inet_question host type_https) ?rs) \<le> 65535"
    using message_length [OF h(1), of ?rs "7 + length ech" tid "0x8180" type_https] h g len
    by (simp add: inet_record_def good_answers_def)
  from answers_inside [OF h(1) p this] placed have inside: "record_inside (m_wire ?m) ?r" by simp
  have "parse_https_record (m_wire ?m) ?r = ok \<lparr>h_priority = 1, h_target = [], h_ech = ech, h_ttl = 300\<rparr>"
    using parse_https_root [OF inside, of 1 "param_bytes (svc_param_ech, ech)"] svc_params_one [of ech svc_param_ech] g
    by (simp add: inet_record_def https_data_def good_answers_def)
  then have "https_answers (m_wire ?m) host [] [] (m_answers ?m)
      = ok ([\<lparr>h_priority = 1, h_target = host, h_ech = ech, h_ttl = 300\<rparr>], [])"
    unfolding placed using type_values by (simp add: inet_record_def fail_with_def https_alias_def)
  from resolve_https_cases [OF _ relay_queries(1) [OF g] this, of 0 "[]"] show ?thesis
    by (simp add: alias_hop_limit_def)
qed

lemma address_answers_four:
  assumes "list_all (\<lambda>d. length d = 4) ips"
  shows "\<exists>ttl'. address_answers [host] type_a as ttl (placed off (map (inet_record host type_a) ips))
    = ok (as @ map addr_from4 ips, ttl')"
  using assms
proof (induction ips arbitrary: as ttl off)
  case (Cons d ips)
  let ?r = "(inet_record host type_a d)\<lparr>r_data_offset := off + length (name_bytes (split_on CHR ''.'' host)) + 10\<rparr>"
  have "collect_address type_a as ?r = ok (as @ [addr_from4 d])"
    using Cons.prems by (simp add: collect_address_def inet_record_def)
  moreover obtain t where "address_answers [host] type_a (as @ [addr_from4 d]) (candidate_ttl ttl 300)
      (placed (off + length (record_bytes (inet_record host type_a d))) (map (inet_record host type_a) ips))
    = ok ((as @ [addr_from4 d]) @ map addr_from4 ips, t)"
    using Cons.IH [of "as @ [addr_from4 d]" "candidate_ttl ttl 300" "off + length (record_bytes (inet_record host type_a d))"]
      Cons.prems by auto
  ultimately show ?case by simp
qed simp

lemma no_cnames:
  assumes "\<And>r. r \<in> set (m_answers m) \<Longrightarrow> r_type r \<noteq> type_cname"
  shows "follow_cnames m host = ok ([host], [])"
proof -
  have "cname_targets wire [] rs = ok []" if "\<And>r. r \<in> set rs \<Longrightarrow> r_type r \<noteq> type_cname" for wire rs
    using that by (induction rs) simp_all
  with assms show ?thesis by (simp add: follow_cnames_def alias_hop_limit_def numeral_eq_Suc)
qed

lemma address_step:
  assumes g: "good_answers host ech ips"
  shows "\<exists>ttl. resolve_addresses (relay_world tid host ech ips) host 0 [] 1
    = (ok (compact_addresses (sort (map addr_from4 ips)), ttl), 3)"
proof -
  let ?w = "relay_world tid host ech ips"
  let ?a = "answer_message tid (inet_question host type_a) (map (inet_record host type_a) ips)"
  let ?b = "answer_message tid (inet_question host type_aaaa) []"
  have "map r_type (m_answers ?a) = map (\<lambda>_. type_a) ips"
    by (simp add: answer_message_def placed_fields inet_record_def comp_def)
  then have "set (map r_type (m_answers ?a)) \<subseteq> {type_a}" by (simp only:) auto
  then have fa: "follow_cnames ?a host = ok ([host], [])" using type_values by (intro no_cnames) auto
  obtain t1 where t1: "address_answers [host] type_a [] 0 (m_answers ?a) = ok (map addr_from4 ips, t1)"
    using address_answers_four [of ips host "[]" 0] g by (auto simp: answer_message_def good_answers_def)
  have a: "address_query ?w host type_a ([], [], 0) 1 = (ok (map addr_from4 ips, [], t1), 2)"
    using relay_queries(2) [OF g, of tid] fa t1 by (simp add: address_query_def)
  have fb: "follow_cnames ?b host = ok ([host], [])" by (intro no_cnames) (simp add: answer_message_def)
  have b: "address_query ?w host type_aaaa (map addr_from4 ips, [], t1) 2 = (ok (map addr_from4 ips, [], t1), 3)"
    using relay_queries(3) [OF g, of tid] fb by (simp add: address_query_def answer_message_def)
  have "address_round ?w host 1 = (ok (map addr_from4 ips, [], t1), 3)" using a b by (simp add: address_round_def)
  from resolve_addresses_cases [OF _ this, of 0 "[]"] g show ?thesis
    by (auto simp: alias_hop_limit_def good_answers_def)
qed

lemma relay_step_resolves:
  assumes "good_answers host ech ips"
  shows "\<exists>ttl. resolve_relay (relay_world tid host ech ips) host 0 =
    (ok \<lparr>res_addresses = compact_addresses (sort (map addr_from4 ips)), res_ech = ech, res_https = True, res_ttl = ttl\<rparr>, 3)"
proof -
  have "host \<noteq> []" "canonical_dns_name host = host" using assms by (simp_all add: good_answers_def query_name_def)
  with https_step [OF assms, of tid] address_step [OF assms, of tid] show ?thesis
    by (auto simp: resolve_relay_def relay_target_def relay_resolution_def Let_def)
qed

section \<open>A relay behind an encrypted client hello\<close>

text \<open>One supported configuration: identifier, KEM, a key of one byte, one cipher suite and the public name.\<close>

definition sample_contents :: bytes where
  "sample_contents = [1, 0, 32] @ [0, 1, 9] @ [0, 4, 0, 1, 0, 1] @ [0, 5] @ bytes_of_string ''f.net'' @ [0, 0]"

definition sample_ech :: bytes where
  "sample_ech = put_uint16 (word_of_nat (length (config_bytes (ech_config_version, sample_contents))))
     @ config_bytes (ech_config_version, sample_contents)"

definition sample_host :: string where "sample_host = ''r.example''"

definition sample_world :: world where
  "sample_world = relay_world 7 sample_host sample_ech [[8, 8, 8, 8]]"

lemma sample_names:
  "canonical_dns_name ''f.net'' = ''f.net''" "canonical_dns_name sample_host = sample_host" "query_name sample_host"
proof -
  have "to_lower ''f.net'' = ''f.net''" "to_lower ''r.example'' = ''r.example''"
    by (rule to_lower_id; auto simp: in_range_def)+
  then show "canonical_dns_name ''f.net'' = ''f.net''" "canonical_dns_name sample_host = sample_host"
    by (simp_all add: canonical_dns_name_def trim_suffix_def has_suffix_def sample_host_def)
  show "query_name sample_host"
    by (simp add: query_name_def sample_host_def wire_name_def wire_label_def dns_label_limit_def in_range_def dns_name_limit_def)
qed

lemma sample_good: "good_answers sample_host sample_ech [[8, 8, 8, 8]]"
  using sample_names by (simp add: good_answers_def sample_ech_def config_bytes_def sample_contents_def bytes_of_string_def)

lemma sample_public_name: "ech_config_public_name sample_contents = ok ''f.net''"
proof -
  have "length sample_contents = 21" by (simp add: sample_contents_def bytes_of_string_def)
  moreover have "uint16_be (take 2 (drop 3 sample_contents)) = 1" "uint16_be (take 2 (drop 6 sample_contents)) = 4"
    "sample_contents ! 13 = 5" "take 5 (drop 14 sample_contents) = bytes_of_string ''f.net''"
    "uint16_be (take 2 (drop 19 sample_contents)) = 0"
    by (simp_all add: sample_contents_def bytes_of_string_def uint16_be_def)
  ultimately show ?thesis
    by (simp add: ech_config_public_name_def skip_vector_def Let_def)
qed

lemma sample_ech_valid: "validate_ech_config_list sample_ech sample_host = ok ()"
proof -
  let ?c = "config_bytes (ech_config_version, sample_contents)"
  have len: "length sample_contents = 21" by (simp add: sample_contents_def bytes_of_string_def)
  note parts = config_bytes_parts [of sample_contents ech_config_version "[]", unfolded append_Nil2 len]
  have "canonical_dns_name ''f.net'' \<noteq> canonical_dns_name sample_host"
    using sample_names by (simp add: sample_host_def)
  with sample_public_name parts len have "validate_configs sample_host ?c 0 0 = ok (1, 1)"
    by (subst validate_configs.simps) (simp add: slice_def validate_configs.simps [of _ "[]"])
  moreover have "drop 2 sample_ech = ?c" "length sample_ech = 27" "uint16_be (take 2 sample_ech) = 25"
    using len by (simp_all add: sample_ech_def config_bytes_def)
  ultimately show ?thesis by (simp add: validate_ech_config_list_def)
qed

lemma sample_resolves:
  "\<exists>ttl. resolve_relay sample_world sample_host 0 =
    (ok \<lparr>res_addresses = [addr_from4 [8, 8, 8, 8]], res_ech = sample_ech, res_https = True, res_ttl = ttl\<rparr>, 3)"
  using relay_step_resolves [OF sample_good, of 7] by (simp add: sample_world_def compact_addresses_def)

definition sample_dialer :: secure_dialer where
  "sample_dialer = \<lparr>sd_resolver = Some sample_world, sd_ech = ech_required, sd_alpn = [''http/1.1'']\<rparr>"

definition sample_state :: connection_state where
  "sample_state =
     \<lparr>st_version = version_tls13, st_cipher_suite = 0x1301, st_protocol = ''http/1.1'', st_server_name = sample_host,
      st_ech_accepted = True, st_certificates = []\<rparr>"

definition sample_network :: "nat network" where
  "sample_network = \<lparr>net_dial = (\<lambda>_. Inr 1), net_handshake = (\<lambda>_ _. Inr sample_state)\<rparr>"

lemma sample_required: "dialer_ech_required sample_dialer"
  by (simp add: sample_dialer_def dialer_ech_required_def ech_required_def ech_insecure_disabled_def)

lemma sample_address: "public_address (addr_from4 [8, 8, 8, 8])"
  by (simp add: addr_from4_def octets_value_def public_address_def special_blocks4_def in_block_def)

lemma sample_transport: "verify_transport (transport_info_from sample_state sample_ech) True = ok ()"
proof -
  have "ech_public_name sample_ech = ''f.net''"
  proof -
    let ?c = "config_bytes (ech_config_version, sample_contents)"
    have len: "length sample_contents = 21" by (simp add: sample_contents_def bytes_of_string_def)
    have "first_public_name ?c = ''f.net''"
      using config_bytes_parts [of sample_contents ech_config_version "[]", unfolded append_Nil2 len] sample_public_name len
      by (subst first_public_name.simps) simp
    moreover have "drop 2 sample_ech = ?c" "length sample_ech = 27" "uint16_be (take 2 sample_ech) = 25"
      using len by (simp_all add: sample_ech_def config_bytes_def)
    ultimately show ?thesis by (simp add: ech_public_name_def)
  qed
  with sample_names show ?thesis
    by (simp add: verify_transport_ok transport_info_from_def sample_state_def tls13_def) (simp add: sample_host_def)
qed

lemma sample_dials:
  "dial_port sample_dialer sample_network sample_host 443 0 =
    (ok (1, transport_info_from sample_state sample_ech),
     [Dial (addr_from4 [8, 8, 8, 8], 443), Handshake 1 (new_tls_config sample_host sample_ech [''http/1.1''])])"
proof -
  obtain ttl where r: "resolve_relay sample_world sample_host 0 =
    (ok \<lparr>res_addresses = [addr_from4 [8, 8, 8, 8]], res_ech = sample_ech, res_https = True, res_ttl = ttl\<rparr>, 3)"
    using sample_resolves by blast
  have e: "check_ech sample_host \<lparr>res_addresses = [addr_from4 [8, 8, 8, 8]], res_ech = sample_ech, res_https = True, res_ttl = ttl\<rparr> = ok ()"
    using sample_ech_valid by (auto simp: check_ech_ok validate_ech_config_list_def)
  have a: "allowed (check_addresses [addr_from4 [8, 8, 8, 8]] :: unit decision)"
    using sample_address by (simp add: check_addresses_allowed classify_address_public)
  have "sd_resolver sample_dialer = Some sample_world" "sd_alpn sample_dialer = [''http/1.1'']" by (simp_all add: sample_dialer_def)
  then show ?thesis
    using sample_required sample_transport
    by (simp add: dial_port_def r e a connect_def connect_all_def handshake_def sample_network_def lift_doh_def Let_def)
qed

section \<open>Properties\<close>

text \<open>
  C11: whatever the network answers, a resolution that succeeds rests on the answers to its own
  questions: its addresses, each once and in order, were answered for the target of an HTTPS service
  of the name, or for the name itself when it has none, and its ECH list is the one of that service.
\<close>

theorem resolver_returns_only_answers:
  assumes "resolve_relay w raw n = (ok res, n')"
  shows "res_addresses res \<noteq> [] \<and> sorted_wrt (<) (res_addresses res)
    \<and> (if res_https res
       then \<exists>target. served w (canonical_dns_name raw) target (res_ech res)
         \<and> (\<forall>a \<in> set (res_addresses res). answered w (if target \<noteq> [] then target else canonical_dns_name raw) a)
       else res_ech res = [] \<and> (\<forall>a \<in> set (res_addresses res). answered w (canonical_dns_name raw) a))"
  using resolve_relay_ok [OF assms] by simp

theorem resolver_returns_only_answers_witness:
  "\<exists>res target. resolve_relay sample_world sample_host 0 = (ok res, 3) \<and> res_addresses res = [addr_from4 [8, 8, 8, 8]]
     \<and> served sample_world sample_host target sample_ech"
proof -
  from sample_resolves obtain ttl where r: "resolve_relay sample_world sample_host 0 =
    (ok \<lparr>res_addresses = [addr_from4 [8, 8, 8, 8]], res_ech = sample_ech, res_https = True, res_ttl = ttl\<rparr>, 3)" by blast
  from resolver_returns_only_answers [OF r] r sample_names show ?thesis by auto
qed



text \<open>
  C30: a resolution ends, with an address or an error, after at most 24 queries, however long the
  chains of aliases the answers contain, loops included.
\<close>

theorem resolver_queries_are_bounded:
  "snd (resolve_relay w raw n) \<le> n + 24"
  using resolve_relay_count [of w raw n] by (simp add: alias_hop_limit_def)

text \<open>
  C9: a connection the dialer returns speaks TLS 1.3 and goes to a public address that the resolution
  gave; with ECH required the peer accepted it, under an outer name that is not the server's; and
  the dialer did not close it.
\<close>

theorem secure_connection:
  assumes "dial_port d net host port n = (ok (c, info), as)"
  shows "ti_version info = version_tls13
    \<and> (dialer_ech_required d \<longrightarrow> ti_ech_accepted info
         \<and> canonical_dns_name (ti_ech_public_name info) \<noteq> canonical_dns_name (ti_server_name info))
    \<and> (\<exists>w res k a. sd_resolver d = Some w \<and> resolve_relay w host n = (ok res, k) \<and> a \<in> set (res_addresses res)
         \<and> public_address a \<and> net_dial net (a, port) = Inr c)
    \<and> Close c \<notin> set as"
proof -
  from dial_port_ok [OF assms] obtain w res k a where p: "sd_resolver d = Some w" "resolve_relay w host n = (ok res, k)"
    "\<forall>a \<in> set (res_addresses res). classify_address a = AddressPublic" "a \<in> set (res_addresses res)"
    "net_dial net (a, port) = Inr c" "verify_transport info (dialer_ech_required d) = ok ()" "Close c \<notin> set as"
    by metis
  then show ?thesis unfolding verify_transport_ok tls13_def by (auto simp: classify_address_public)
qed

theorem secure_connection_witness:
  "\<exists>info as a. dial_port sample_dialer sample_network sample_host 443 0 = (ok (1, info), as)
     \<and> ti_ech_accepted info \<and> public_address a \<and> net_dial sample_network (a, 443) = Inr 1"
  using secure_connection [OF sample_dials] sample_dials sample_required by auto

text \<open>
  C10: whatever the dialer meets, it makes at most one handshake, for TLS 1.3 only and for the name it
  was asked for; with ECH required the configuration it offers is one that hides that name. It dials
  public addresses on the port only.
\<close>

theorem dialer_never_falls_back:
  assumes "dial_port d net host port n = (r, as)"
  shows "length (handshakes as) \<le> 1
    \<and> (\<forall>(c, cfg) \<in> set (handshakes as). cfg_min_version cfg = version_tls13 \<and> cfg_max_version cfg = version_tls13
         \<and> cfg_server_name cfg = host \<and> (dialer_ech_required d \<longrightarrow> validate_ech_config_list (cfg_ech_list cfg) host = ok ()))
    \<and> (\<forall>(a, p) \<in> set (dials as). public_address a \<and> p = port)"
proof (cases "as = []")
  case False
  from dial_port_resolution [OF assms this] obtain res where
    res: "dialer_ech_required d \<Longrightarrow> check_ech host res = ok ()" "\<forall>a \<in> set (res_addresses res). classify_address a = AddressPublic"
    "connect_loop d net host (res_ech res) [] (map (\<lambda>a. (a, port)) (res_addresses res)) = (r, as)" by metis
  from connect_loop_actions [OF res(3)] obtain post where act: "length (handshakes as) \<le> 1"
    "\<forall>h \<in> set (handshakes as). snd h = new_tls_config host (res_ech res) (sd_alpn d)"
    "map (\<lambda>a. (a, port)) (res_addresses res) = dials as @ post" by blast
  have "set (dials as) \<subseteq> (\<lambda>a. (a, port)) ` set (res_addresses res)"
    using arg_cong [OF act(3), of set] by auto
  with act(1,2) res(1,2) show ?thesis
    by (fastforce simp: new_tls_config_def check_ech_ok classify_address_public)
qed simp

theorem dialer_never_falls_back_witness:
  "\<exists>r as cfg. dial_port sample_dialer sample_network sample_host 443 0 = (r, as) \<and> handshakes as = [(1, cfg)]
     \<and> cfg_min_version cfg = version_tls13 \<and> validate_ech_config_list (cfg_ech_list cfg) sample_host = ok ()"
  using dialer_never_falls_back [OF sample_dials] sample_dials sample_required by auto

end
