(* ===== verification/Websocket_Frames.thy ===== *)
theory Websocket_Frames
  imports Go_Io
begin

text \<open>
  \<open>internal/tunnel/websocket_conn.go\<close>: the connection that carries a byte stream in binary WebSocket
  messages. Its reader and its source of entropy are streams, the connection it writes to is a pipe;
  their own errors are texts. \<open>Panic\<close> is kept for the slices of the writing loop.
\<close>

definition max_websocket_payload :: nat where "max_websocket_payload = 16 * 1024 * 1024"

definition opcode_continuation :: byte where "opcode_continuation = 0"
definition opcode_binary :: byte where "opcode_binary = 2"
definition opcode_close :: byte where "opcode_close = 8"
definition opcode_ping :: byte where "opcode_ping = 9"
definition opcode_pong :: byte where "opcode_pong = 10"

datatype frame_fault =
    TruncatedPayload | InvalidMasking | InvalidControl | TruncatedControl | UnknownControl byte
  | MessageInsideMessage | ContinuationWithoutMessage | UnsupportedOpcode byte | TruncatedHeader
  | ReservedBits | TruncatedLength | NonCanonicalLength | PayloadOverLimit nat | TruncatedMask

datatype ws_error = Malformed frame_fault | EndOfStream | PayloadTooLong nat | MaskEntropy | WriteFailed "string io_error"

type_synonym 'a ws_result = "(ws_error, 'a) result"

record ws_conn =
  ws_reader :: "string stream"
  ws_sink :: "string pipe"
  ws_entropy :: "string stream"
  ws_client :: bool
  ws_remaining :: "64 word"
  ws_mask :: bytes
  ws_mask_at :: "64 word"
  ws_fragmented :: bool

definition new_websocket_conn :: "string stream \<Rightarrow> string pipe \<Rightarrow> string stream \<Rightarrow> bool \<Rightarrow> ws_conn" where
  "new_websocket_conn reader sink entropy client =
     \<lparr>ws_reader = reader, ws_sink = sink, ws_entropy = entropy, ws_client = client, ws_remaining = 0,
      ws_mask = [0, 0, 0, 0], ws_mask_at = 0, ws_fragmented = False\<rparr>"

definition peer_frames_are_masked :: "ws_conn \<Rightarrow> bool" where
  "peer_frames_are_masked c = (\<not> ws_client c)"

section \<open>Headers\<close>

record ws_header =
  wh_fin :: bool
  wh_opcode :: byte
  wh_masked :: bool
  wh_length :: "64 word"
  wh_mask :: bytes

text \<open>The length after the first two bytes: in place, in two bytes or in eight, never longer than needed.\<close>

definition read_length :: "string stream \<Rightarrow> byte \<Rightarrow> 64 word ws_result \<times> string stream" where
  "read_length s short =
     (if short = 126 then
        (case read_full s 2 of
           (_, Some _, s) \<Rightarrow> (err (Malformed TruncatedLength), s)
         | (b, None, s) \<Rightarrow>
             let l = ucast (uint16_be b) :: 64 word in
             if l < 126 then (err (Malformed NonCanonicalLength), s) else (ok l, s))
      else if short = 127 then
        (case read_full s 8 of
           (_, Some _, s) \<Rightarrow> (err (Malformed TruncatedLength), s)
         | (b, None, s) \<Rightarrow>
             let l = uint64_be b in
             if l < 65536 \<or> drop_bit 63 l \<noteq> 0 then (err (Malformed NonCanonicalLength), s) else (ok l, s))
      else (ok (ucast short), s))"

definition read_header :: "string stream \<Rightarrow> ws_header ws_result \<times> string stream" where
  "read_header s =
     (case read_full s 2 of
        (_, Some e, s) \<Rightarrow> (err (if e = EOF then EndOfStream else Malformed TruncatedHeader), s)
      | (b, None, s) \<Rightarrow>
          if b ! 0 AND 0x70 \<noteq> 0 then (err (Malformed ReservedBits), s)
          else let masked = (b ! 1 AND 0x80 \<noteq> 0) in
            (case read_length s (b ! 1 AND 0x7F) of
               (Inl e, s) \<Rightarrow> (Inl e, s)
             | (Inr l, s) \<Rightarrow>
                 if word_of_nat max_websocket_payload < l then (err (Malformed (PayloadOverLimit (unat l))), s)
                 else let h = \<lparr>wh_fin = (b ! 0 AND 0x80 \<noteq> 0), wh_opcode = b ! 0 AND 0x0F, wh_masked = masked,
                               wh_length = l, wh_mask = [0, 0, 0, 0]\<rparr> in
                   if masked then
                     (case read_full s 4 of
                        (_, Some _, s) \<Rightarrow> (err (Malformed TruncatedMask), s)
                      | (m, None, s) \<Rightarrow> (ok (h\<lparr>wh_mask := m\<rparr>), s))
                   else (ok h, s)))"

section \<open>Masks and writing\<close>

text \<open>The byte at an index is combined with the byte of the mask at the index plus the offset, modulo four.\<close>

definition apply_mask :: "bytes \<Rightarrow> bytes \<Rightarrow> 64 word \<Rightarrow> bytes" where
  "apply_mask payload m offset =
     map (\<lambda>i. payload ! i XOR m ! unat ((offset + word_of_nat i) mod 4)) [0..<length payload]"

definition frame_header :: "byte \<Rightarrow> bool \<Rightarrow> nat \<Rightarrow> bytes" where
  "frame_header opcode masked l =
     (let bit' = (if masked then 0x80 else 0) in
      [0x80 OR opcode] @
      (if l \<le> 125 then [bit' OR word_of_nat l]
       else if l \<le> 65535 then (bit' OR 126) # put_uint16 (word_of_nat l)
       else (bit' OR 127) # put_uint64 (word_of_nat l)))"

definition write_full :: "string pipe \<Rightarrow> bytes \<Rightarrow> unit ws_result \<times> string pipe" where
  "write_full p data = (case write_all pipe_write p data of (r, p) \<Rightarrow> (map_err WriteFailed r, p))"

definition write_two :: "string pipe \<Rightarrow> bytes \<Rightarrow> bytes \<Rightarrow> unit ws_result \<times> string pipe" where
  "write_two p header payload =
     (case write_full p header of (Inl e, p) \<Rightarrow> (Inl e, p) | (Inr _, p) \<Rightarrow> write_full p payload)"

definition write_frame :: "ws_conn \<Rightarrow> byte \<Rightarrow> bytes \<Rightarrow> unit ws_result \<times> ws_conn" where
  "write_frame c opcode payload =
     (let header = frame_header opcode (ws_client c) (length payload) in
      if \<not> ws_client c then
        (case write_two (ws_sink c) header payload of (r, p) \<Rightarrow> (r, c\<lparr>ws_sink := p\<rparr>))
      else case read_full (ws_entropy c) 4 of
        (_, Some _, s) \<Rightarrow> (err MaskEntropy, c\<lparr>ws_entropy := s\<rparr>)
      | (m, None, s) \<Rightarrow>
          (case write_two (ws_sink c) (header @ m) (apply_mask payload m 0) of
             (r, p) \<Rightarrow> (r, c\<lparr>ws_entropy := s, ws_sink := p\<rparr>)))"

definition ws_write :: "ws_conn \<Rightarrow> bytes \<Rightarrow> nat ws_result \<times> ws_conn" where
  "ws_write c payload =
     (if length payload = 0 then (ok 0, c)
      else if max_websocket_payload < length payload then (err (PayloadTooLong (length payload)), c)
      else case write_frame c opcode_binary payload of (r, c) \<Rightarrow> (bind_result r (\<lambda>_. ok (length payload)), c))"

section \<open>Reading\<close>

text \<open>A control frame: its payload is read, a ping is answered, a close ends the stream.\<close>

definition control_frame :: "ws_conn \<Rightarrow> ws_header \<Rightarrow> unit ws_result \<times> ws_conn" where
  "control_frame c h =
     (if \<not> wh_fin h \<or> 125 < wh_length h then (err (Malformed InvalidControl), c)
      else case read_full (ws_reader c) (unat (wh_length h)) of
        (_, Some _, s) \<Rightarrow> (err (Malformed TruncatedControl), c\<lparr>ws_reader := s\<rparr>)
      | (b, None, s) \<Rightarrow>
          let c = c\<lparr>ws_reader := s\<rparr>; control = (if wh_masked h then apply_mask b (wh_mask h) 0 else b) in
          if wh_opcode h = opcode_ping then write_frame c opcode_pong control
          else if wh_opcode h = opcode_pong then (ok (), c)
          else if wh_opcode h = opcode_close then (err EndOfStream, c)
          else (err (Malformed (UnknownControl (wh_opcode h))), c))"

definition check_data_frame :: "ws_conn \<Rightarrow> ws_header \<Rightarrow> unit ws_result" where
  "check_data_frame c h =
     (if wh_opcode h = opcode_binary then
        (if ws_fragmented c then err (Malformed MessageInsideMessage) else ok ())
      else if wh_opcode h = opcode_continuation then
        (if \<not> ws_fragmented c then err (Malformed ContinuationWithoutMessage) else ok ())
      else err (Malformed (UnsupportedOpcode (wh_opcode h))))"

definition unread :: "ws_conn \<Rightarrow> nat" where
  "unread c = length (pending (ws_reader c))"

lemma read_full_shorter: "read_full s n = (d, e, s') \<Longrightarrow> length (pending s') \<le> length (pending s)"
  using read_full_cases [of s n d e s'] by (cases e) auto

lemma read_length_shorter: "read_length s b = (r, s') \<Longrightarrow> length (pending s') \<le> length (pending s)"
  by (auto simp: read_length_def Let_def split: if_split_asm prod.split_asm option.split_asm dest: read_full_shorter)

lemma read_header_shorter:
  assumes "read_header s = (ok h, s')"
  shows "length (pending s') < length (pending s)"
proof -
  obtain b e s1 where one: "read_full s 2 = (b, e, s1)" by (cases "read_full s 2") auto
  with assms have e: "e = None" by (auto simp: read_header_def split: option.split_asm)
  with read_full_cases(1) [OF one] have l1: "length (pending s1) + 2 = length (pending s)" by auto
  obtain r s2 where two: "read_length s1 (b ! 1 AND 0x7F) = (r, s2)" by fastforce
  with read_length_shorter have l2: "length (pending s2) \<le> length (pending s1)" by blast
  from assms one e two obtain l where r: "r = ok l"
    by (cases r) (auto simp: read_header_def Let_def split: if_split_asm)
  have "length (pending s') \<le> length (pending s2)"
    using assms one e two r
    by (auto simp: read_header_def Let_def split: if_split_asm prod.split_asm option.split_asm dest: read_full_shorter)
  with l1 l2 show ?thesis by linarith
qed

lemma write_frame_reader: "write_frame c op payload = (r, c') \<Longrightarrow> ws_reader c' = ws_reader c"
  by (auto simp: write_frame_def Let_def split: if_split_asm prod.split_asm option.split_asm)

lemma control_frame_shorter: "control_frame c h = (r, c') \<Longrightarrow> unread c' \<le> unread c"
  by (auto simp: control_frame_def unread_def Let_def split: if_split_asm prod.split_asm option.split_asm
      dest!: read_full_shorter write_frame_reader)

function next_data_frame :: "ws_conn \<Rightarrow> unit ws_result \<times> ws_conn" where
  "next_data_frame c =
     (case read_header (ws_reader c) of
        (Inl e, s) \<Rightarrow> (Inl e, c\<lparr>ws_reader := s\<rparr>)
      | (Inr h, s) \<Rightarrow>
          if wh_masked h \<noteq> peer_frames_are_masked c then (err (Malformed InvalidMasking), c\<lparr>ws_reader := s\<rparr>)
          else if opcode_close \<le> wh_opcode h then
            (case control_frame (c\<lparr>ws_reader := s\<rparr>) h of
               (Inl e, c) \<Rightarrow> (Inl e, c)
             | (Inr _, c) \<Rightarrow> next_data_frame c)
          else
            (case check_data_frame c h of
               Inl e \<Rightarrow> (Inl e, c\<lparr>ws_reader := s\<rparr>)
             | Inr _ \<Rightarrow>
                 if wh_length h = 0 then next_data_frame (c\<lparr>ws_reader := s, ws_fragmented := \<not> wh_fin h\<rparr>)
                 else (ok (), c\<lparr>ws_reader := s, ws_fragmented := \<not> wh_fin h, ws_remaining := wh_length h,
                                ws_mask := wh_mask h, ws_mask_at := 0\<rparr>)))"
  by pat_completeness auto
termination
  by (relation "measure unread")
    (auto simp: unread_def dest!: read_header_shorter [OF sym] control_frame_shorter [OF sym])

declare next_data_frame.simps [simp del]

lemma next_data_frame_remaining:
  "next_data_frame c = (ok (), c') \<Longrightarrow> ws_remaining c' \<noteq> 0 \<and> unread c' < unread c \<and> ws_client c' = ws_client c"
proof (induction "unread c" arbitrary: c rule: less_induct)
  case less
  obtain r s where h: "read_header (ws_reader c) = (r, s)" by fastforce
  with less.prems obtain hd' where r: "r = ok hd'"
    by (cases r) (simp_all add: next_data_frame.simps [of c])
  from read_header_shorter [OF h [unfolded r]] have s: "length (pending s) < unread c" by (simp add: unread_def)
  from less.prems h r have m: "wh_masked hd' = peer_frames_are_masked c"
    by (auto simp: next_data_frame.simps [of c] split: if_split_asm)
  show ?case
  proof (cases "opcode_close \<le> wh_opcode hd'")
    case True
    obtain x c1 where cf: "control_frame (c\<lparr>ws_reader := s\<rparr>) hd' = (x, c1)" by fastforce
    with less.prems h r m True have x: "x = ok ()" "next_data_frame c1 = (ok (), c')"
      by (cases x; simp add: next_data_frame.simps [of c])+
    have "unread c1 < unread c" using control_frame_shorter [OF cf] s by (simp add: unread_def)
    moreover have "ws_client c1 = ws_client c" using cf x(1)
      by (auto simp: control_frame_def write_frame_def Let_def split: if_split_asm prod.split_asm option.split_asm)
    ultimately show ?thesis using less.hyps [OF _ x(2)] by simp
  next
    case False
    from less.prems h r m False have d: "check_data_frame c hd' = ok ()"
      by (cases "check_data_frame c hd'") (simp_all add: next_data_frame.simps [of c])
    show ?thesis
    proof (cases "wh_length hd' = 0")
      case True
      let ?c = "c\<lparr>ws_reader := s, ws_fragmented := \<not> wh_fin hd'\<rparr>"
      have "next_data_frame ?c = (ok (), c')" using less.prems h r m False d True
        by (simp add: next_data_frame.simps [of c])
      from less.hyps [OF _ this] s show ?thesis by (simp add: unread_def)
    next
      case ne: False
      with less.prems h r m False d s show ?thesis
        by (auto simp: next_data_frame.simps [of c] unread_def)
    qed
  qed
qed

text \<open>The loop of \<open>Read\<close> that waits for a payload; it runs once.\<close>

function fill :: "ws_conn \<Rightarrow> unit ws_result \<times> ws_conn" where
  "fill c = (if ws_remaining c \<noteq> 0 then (ok (), c)
     else case next_data_frame c of (Inl e, c) \<Rightarrow> (Inl e, c) | (Inr _, c) \<Rightarrow> fill c)"
  by pat_completeness auto
termination
  by (relation "measure unread") (auto dest!: next_data_frame_remaining [OF sym])

declare fill.simps [simp del]

text \<open>
  \<open>Read\<close> into a buffer of \<open>n\<close> bytes: the bytes delivered, the error reported with them, the connection.
\<close>

definition ws_read :: "ws_conn \<Rightarrow> nat \<Rightarrow> bytes \<times> ws_error failure option \<times> ws_conn" where
  "ws_read c n =
     (if n = 0 then ([], None, c)
      else case fill c of
        (Inl e, c) \<Rightarrow> ([], Some e, c)
      | (Inr _, c) \<Rightarrow>
          let want = word_of_nat n; want = (if ws_remaining c < want then ws_remaining c else want) in
          (case read_full (ws_reader c) (unat want) of
             (b, e, s) \<Rightarrow>
               let masked = b \<noteq> [] \<and> peer_frames_are_masked c;
                   data = (if masked then apply_mask b (ws_mask c) (ws_mask_at c) else b)
               in (data, map_option (\<lambda>_. Err (Malformed TruncatedPayload)) e,
                   c\<lparr>ws_reader := s,
                     ws_mask_at := (if masked then ws_mask_at c + word_of_nat (length b) else ws_mask_at c),
                     ws_remaining := ws_remaining c - word_of_nat (length b)\<rparr>)))"

section \<open>Masks\<close>

lemma length_apply_mask [simp]: "length (apply_mask p m k) = length p"
  by (simp add: apply_mask_def)

lemma apply_mask_Nil [simp]: "apply_mask [] m k = []"
  by (simp add: apply_mask_def)

lemma apply_mask_involution: "apply_mask (apply_mask p m k) m k = p"
  by (intro nth_equalityI) (simp_all add: apply_mask_def xor.assoc)

text \<open>A payload read in two pieces is unmasked as one read whole, when the offset moves on.\<close>

lemma apply_mask_append:
  "apply_mask (a @ b) m k = apply_mask a m k @ apply_mask b m (k + word_of_nat (length a))"
  by (intro nth_equalityI) (auto simp: apply_mask_def nth_append add.assoc simp flip: of_nat_add)

section \<open>Frames on the wire\<close>

definition frame_bytes :: "byte \<Rightarrow> bytes option \<Rightarrow> bytes \<Rightarrow> bytes" where
  "frame_bytes opcode m payload =
     (case m of None \<Rightarrow> frame_header opcode False (length payload) @ payload
      | Some k \<Rightarrow> frame_header opcode True (length payload) @ k @ apply_mask payload k 0)"

lemma write_full_sent:
  assumes "write_full p data = (r, p')"
  shows "no_panic r" and "r = ok () \<Longrightarrow> received p' = received p @ data"
    and "\<exists>k \<le> length data. received p' = received p @ take k data"
proof -
  from assms obtain r0 where w: "write_all pipe_write p data = (r0, p')" "r = map_err WriteFailed r0"
    by (auto simp: write_full_def split: prod.split_asm)
  from pipe.write_all_sent [OF w(1)] w(2) show "no_panic r" "r = ok () \<Longrightarrow> received p' = received p @ data"
    "\<exists>k \<le> length data. received p' = received p @ take k data" by auto
qed

lemma write_two_sent:
  assumes "write_two p header payload = (r, p')"
  shows "no_panic r" and "r = ok () \<Longrightarrow> received p' = received p @ header @ payload"
    and "\<exists>k. received p' = received p @ take k (header @ payload)"
proof -
  obtain r1 p1 where one: "write_full p header = (r1, p1)" by fastforce
  note f1 = write_full_sent [OF one]
  have "no_panic r \<and> (r = ok () \<longrightarrow> received p' = received p @ header @ payload)
      \<and> (\<exists>k. received p' = received p @ take k (header @ payload))"
  proof (cases r1)
    case (Inl e)
    from f1(3) obtain k where "k \<le> length header" "received p1 = received p @ take k header" by blast
    with Inl assms one f1(1) show ?thesis by (auto simp: write_two_def intro!: exI [of _ k])
  next
    case (Inr u)
    with assms one have "write_full p1 payload = (r, p')" by (simp add: write_two_def)
    note f2 = write_full_sent [OF this]
    from f2(3) obtain k where "received p' = received p1 @ take k payload" by blast
    with f1(2) f2(1,2) Inr show ?thesis by (auto intro!: exI [of _ "length header + k"])
  qed
  then show "no_panic r" "r = ok () \<Longrightarrow> received p' = received p @ header @ payload"
    "\<exists>k. received p' = received p @ take k (header @ payload)" by blast+
qed

text \<open>A write that succeeds sent one frame, masked exactly when this is the client's side.\<close>

lemma write_frame_sent:
  assumes "write_frame c op payload = (r, c')"
  shows "no_panic r" and "r = ok () \<Longrightarrow> \<exists>m. (m \<noteq> None \<longleftrightarrow> ws_client c) \<and> (\<forall>k. m = Some k \<longrightarrow> length k = 4)
      \<and> received (ws_sink c') = received (ws_sink c) @ frame_bytes op m payload"
proof -
  have "no_panic r \<and> (r = ok () \<longrightarrow> (\<exists>m. (m \<noteq> None \<longleftrightarrow> ws_client c) \<and> (\<forall>k. m = Some k \<longrightarrow> length k = 4)
      \<and> received (ws_sink c') = received (ws_sink c) @ frame_bytes op m payload))"
  proof (cases "ws_client c")
    case False
    obtain p where w: "write_two (ws_sink c) (frame_header op False (length payload)) payload = (r, p)" "ws_sink c' = p"
      using assms False by (auto simp: write_frame_def Let_def split: prod.split_asm)
    from write_two_sent [OF w(1)] w(2) False show ?thesis
      by (auto simp: frame_bytes_def intro!: exI [of _ None])
  next
    case True
    obtain m e s where e: "read_full (ws_entropy c) 4 = (m, e, s)" by (cases "read_full (ws_entropy c) 4") auto
    show ?thesis
    proof (cases e)
      case None
      obtain p where w: "write_two (ws_sink c) (frame_header op True (length payload) @ m) (apply_mask payload m 0) = (r, p)"
        "ws_sink c' = p"
        using assms True e None by (auto simp: write_frame_def Let_def split: prod.split_asm)
      from write_two_sent [OF w(1)] w(2) True read_full_cases(1) [OF e None] show ?thesis
        by (auto simp: frame_bytes_def intro!: exI [of _ "Some m"])
    next
      case (Some x)
      with assms True e show ?thesis by (auto simp: write_frame_def Let_def)
    qed
  qed
  then show "no_panic r" "r = ok () \<Longrightarrow> \<exists>m. (m \<noteq> None \<longleftrightarrow> ws_client c) \<and> (\<forall>k. m = Some k \<longrightarrow> length k = 4)
      \<and> received (ws_sink c') = received (ws_sink c) @ frame_bytes op m payload" by blast+
qed

section \<open>A written frame is read back\<close>

lemma and_low:
  "l < 128 \<Longrightarrow> (0x80 OR word_of_nat l :: byte) AND 0x7F = word_of_nat l"
  "l < 128 \<Longrightarrow> (word_of_nat l :: byte) AND 0x7F = word_of_nat l"
  "l < 128 \<Longrightarrow> (word_of_nat l :: byte) AND 0x80 = 0"
  "(0x80 OR x :: byte) AND 0x80 = 0x80"
proof -
  have m: "(0x7F :: byte) = mask 7" by (simp add: mask_eq_exp_minus_1)
  have low: "(word_of_nat l :: byte) AND 0x7F = word_of_nat l" if "l < 128"
    using that by (simp add: m take_bit_of_nat take_bit_nat_eq_self flip: take_bit_eq_mask)
  then show "(word_of_nat l :: byte) AND 0x7F = word_of_nat l" if "l < 128" using that .
  from low show "(0x80 OR word_of_nat l :: byte) AND 0x7F = word_of_nat l" if "l < 128"
    using that by (simp add: bit.conj_disj_distrib2)
  have "(word_of_nat l :: byte) AND 0x80 = (word_of_nat l AND 0x7F) AND 0x80" if "l < 128"
    using low [OF that] by simp
  then show "(word_of_nat l :: byte) AND 0x80 = 0" if "l < 128"
    using that by (simp add: and.assoc)
  show "(0x80 OR x :: byte) AND 0x80 = 0x80" by (simp add: bit.conj_disj_distrib2)
qed

lemma read_full_prefix:
  assumes "pending s = a @ r" and "length a = n"
  obtains s' where "read_full s n = (a, None, s')" "pending s' = r"
  using read_full_enough [of n s] assms by (metis append_eq_conv_conj le_add1 length_append)

definition small_opcode :: "byte \<Rightarrow> bool" where
  "small_opcode op \<longleftrightarrow> op = opcode_binary \<or> op = opcode_pong \<or> op = opcode_ping"

lemma small_opcode_bits:
  assumes "small_opcode op"
  shows "(0x80 OR op) AND 0x70 = 0" "(0x80 OR op) AND 0x0F = op" "(0x80 OR op) AND 0x80 \<noteq> 0"
  using assms by (auto simp: small_opcode_def opcode_binary_def opcode_pong_def opcode_ping_def)

lemma unat_of_nat_64: "l < 18446744073709551616 \<Longrightarrow> unat (word_of_nat l :: 64 word) = l"
  by (simp add: unat_of_nat take_bit_nat_eq_self)

lemma unat_of_nat_8: "l < 256 \<Longrightarrow> unat (word_of_nat l :: byte) = l"
  by (simp add: unat_of_nat take_bit_nat_eq_self)

text \<open>The length as it follows the first two bytes, from the short form the header holds.\<close>

definition short_length :: "nat \<Rightarrow> nat" where
  "short_length l = (if l \<le> 125 then l else if l \<le> 65535 then 126 else 127)"

definition extended_length :: "nat \<Rightarrow> bytes" where
  "extended_length l =
     (if l \<le> 125 then [] else if l \<le> 65535 then put_uint16 (word_of_nat l) else put_uint64 (word_of_nat l))"

lemma frame_header_parts:
  "frame_header op masked l =
     [0x80 OR op, (if masked then 0x80 else 0) OR word_of_nat (short_length l)] @ extended_length l"
  by (simp add: frame_header_def Let_def short_length_def extended_length_def)

lemma read_length_extended:
  assumes "pending s = extended_length l @ rest" and "l \<le> max_websocket_payload"
  obtains s' where "read_length s (word_of_nat (short_length l)) = (ok (word_of_nat l), s')" "pending s' = rest"
proof -
  consider (short) "l \<le> 125" | (two) "125 < l" "l \<le> 65535" | (eight) "65535 < l" by linarith
  then show thesis
  proof cases
    case short
    have "(word_of_nat l :: byte) \<noteq> 126" "(word_of_nat l :: byte) \<noteq> 127"
      using short by (auto simp: word_eq_iff_unsigned unat_of_nat_8 word_unat_eq_iff)
    moreover have "(ucast (word_of_nat l :: byte) :: 64 word) = word_of_nat l"
      using short by (simp add: word_unat_eq_iff unsigned_ucast_eq unat_of_nat_8 unat_of_nat_64 take_bit_nat_eq_self)
    ultimately show thesis using short assms(1)
      by (intro that [of s]) (simp_all add: read_length_def short_length_def extended_length_def)
  next
    case two
    with assms(1) have "pending s = put_uint16 (word_of_nat l) @ rest" by (simp add: extended_length_def)
    then obtain s' where s': "read_full s 2 = (put_uint16 (word_of_nat l), None, s')" "pending s' = rest"
      by (rule read_full_prefix) simp
    have "(ucast (word_of_nat l :: 16 word) :: 64 word) = word_of_nat l" "\<not> (word_of_nat l :: 64 word) < 126"
      using two by (simp_all add: word_unat_eq_iff unsigned_ucast_eq unat_of_nat_64 word_less_nat_alt take_bit_nat_eq_self)
    with s' two show thesis
      by (intro that [of s']) (simp_all add: read_length_def short_length_def Let_def)
  next
    case eight
    with assms(1) have "pending s = put_uint64 (word_of_nat l) @ rest" by (simp add: extended_length_def)
    then obtain s' where s': "read_full s 8 = (put_uint64 (word_of_nat l), None, s')" "pending s' = rest"
      by (rule read_full_prefix) simp
    have l: "l < 18446744073709551616" using assms(2) by (simp add: max_websocket_payload_def)
    have "unat (drop_bit 63 (word_of_nat l :: 64 word)) = l div 2 ^ 63"
      unfolding unat_drop_bit_eq unat_of_nat_64 [OF l] by (rule drop_bit_eq_div)
    then have "drop_bit 63 (word_of_nat l :: 64 word) = 0"
      using assms(2) unfolding word_unat_eq_iff by (simp add: max_websocket_payload_def)
    moreover have "\<not> (word_of_nat l :: 64 word) < 65536"
      using eight by (simp add: word_less_nat_alt unat_of_nat_64 l)
    ultimately show thesis using s' eight
      by (intro that [of s']) (simp_all add: read_length_def short_length_def Let_def)
  qed
qed

lemma read_header_frame:
  assumes "pending s = frame_header op (m \<noteq> None) l @ (case m of None \<Rightarrow> [] | Some k \<Rightarrow> k) @ rest"
    and "\<forall>k. m = Some k \<longrightarrow> length k = 4" and "small_opcode op" and "l \<le> max_websocket_payload"
  obtains s' where "read_header s =
      (ok \<lparr>wh_fin = True, wh_opcode = op, wh_masked = (m \<noteq> None), wh_length = word_of_nat l,
           wh_mask = (case m of None \<Rightarrow> [0, 0, 0, 0] | Some k \<Rightarrow> k)\<rparr>, s')" "pending s' = rest"
proof -
  let ?b1 = "(if m \<noteq> None then 0x80 else 0) OR word_of_nat (short_length l) :: byte"
  let ?tail = "(case m of None \<Rightarrow> [] | Some k \<Rightarrow> k) @ rest"
  have "pending s = [0x80 OR op, ?b1] @ (extended_length l @ ?tail)"
    using assms(1) by (simp add: frame_header_parts)
  then obtain s1 where one: "read_full s 2 = ([0x80 OR op, ?b1], None, s1)" "pending s1 = extended_length l @ ?tail"
    by (rule read_full_prefix [where n = 2]) auto
  from one(2) assms(4) obtain s2 where
    two: "read_length s1 (word_of_nat (short_length l)) = (ok (word_of_nat l), s2)" "pending s2 = ?tail"
    by (rule read_length_extended)
  have sl: "short_length l < 128" by (simp add: short_length_def)
  have b1: "?b1 AND 0x7F = word_of_nat (short_length l)" "(?b1 AND 0x80 \<noteq> 0) = (m \<noteq> None)"
    using and_low(1,2,3) [of "short_length l"] and_low(4) sl by simp_all
  have lim: "\<not> word_of_nat max_websocket_payload < (word_of_nat l :: 64 word)"
    using assms(4) by (simp add: word_less_nat_alt unat_of_nat_64 max_websocket_payload_def)
  note eval = read_header_def one(1) two(1) small_opcode_bits [OF assms(3)] lim Let_def b1
  show thesis
  proof (cases m)
    case None
    with two show thesis
      by (intro that [of s2]) (simp_all add: eval sl and_low two(1))
  next
    case (Some k)
    with two(2) have "pending s2 = k @ rest" by simp
    then obtain s3 where "read_full s2 4 = (k, None, s3)" "pending s3 = rest"
      using assms(2) Some by (auto elim: read_full_prefix)
    with Some show thesis
      by (intro that [of s3]) (simp_all add: eval sl and_low two(1))
  qed
qed

section \<open>The stream behind the frames\<close>

text \<open>
  A frame the peer may put on the wire between and around its data: a final binary message, or a
  pong. What it contributes to the stream is the payload of a binary message.
\<close>

type_synonym wire_frame = "byte \<times> bytes option \<times> bytes"

definition wire_ok :: "bool \<Rightarrow> wire_frame \<Rightarrow> bool" where
  "wire_ok masked f \<longleftrightarrow> (case f of (op, m, payload) \<Rightarrow>
     (op = opcode_binary \<and> length payload \<le> max_websocket_payload \<or> op = opcode_pong \<and> length payload \<le> 125)
     \<and> (m \<noteq> None \<longleftrightarrow> masked) \<and> (\<forall>k. m = Some k \<longrightarrow> length k = 4))"

definition wire_bytes :: "wire_frame list \<Rightarrow> bytes" where
  "wire_bytes fs = concat (map (\<lambda>(op, m, payload). frame_bytes op m payload) fs)"

definition wire_plain :: "wire_frame list \<Rightarrow> bytes" where
  "wire_plain fs = concat (map (\<lambda>(op, m, payload). if op = opcode_binary then payload else []) fs)"

lemma wire_simps [simp]:
  "wire_bytes [] = []" "wire_plain [] = []"
  "wire_bytes ((op, m, payload) # fs) = frame_bytes op m payload @ wire_bytes fs"
  "wire_plain ((op, m, payload) # fs) = (if op = opcode_binary then payload else []) @ wire_plain fs"
  "wire_bytes (fs @ gs) = wire_bytes fs @ wire_bytes gs" "wire_plain (fs @ gs) = wire_plain fs @ wire_plain gs"
  by (simp_all add: wire_bytes_def wire_plain_def)

text \<open>The connection will deliver these bytes: the rest of the current payload, then the frames to come.\<close>

definition delivers :: "ws_conn \<Rightarrow> bytes \<Rightarrow> bool" where
  "delivers c plain \<longleftrightarrow> \<not> ws_fragmented c \<and> (\<exists>cur fs.
     length cur = unat (ws_remaining c) \<and> plain = cur @ wire_plain fs
     \<and> (\<forall>f \<in> set fs. wire_ok (peer_frames_are_masked c) f)
     \<and> pending (ws_reader c) =
         (if peer_frames_are_masked c then apply_mask cur (ws_mask c) (ws_mask_at c) else cur) @ wire_bytes fs)"

lemma frame_bytes_parts:
  "frame_bytes op m payload = frame_header op (m \<noteq> None) (length payload) @ (case m of None \<Rightarrow> [] | Some k \<Rightarrow> k)
     @ (case m of None \<Rightarrow> payload | Some k \<Rightarrow> apply_mask payload k 0)"
  by (cases m) (simp_all add: frame_bytes_def)

lemma opcode_facts:
  "opcode_close \<le> opcode_pong" "\<not> opcode_close \<le> opcode_binary" "opcode_pong \<noteq> opcode_ping" "opcode_binary \<noteq> opcode_pong"
  by (simp_all add: opcode_close_def opcode_pong_def opcode_binary_def opcode_ping_def)

lemma next_data_frame_delivers:
  assumes "pending (ws_reader c) = wire_bytes fs" and "\<forall>f \<in> set fs. wire_ok (peer_frames_are_masked c) f"
    and "\<not> ws_fragmented c" and "wire_plain fs \<noteq> []"
  shows "\<exists>c'. next_data_frame c = (ok (), c') \<and> delivers c' (wire_plain fs)"
  using assms
proof (induction fs arbitrary: c)
  case (Cons f fs)
  obtain op m payload where f: "f = (op, m, payload)" by (cases f)
  let ?enc = "case m of None \<Rightarrow> payload | Some k \<Rightarrow> apply_mask payload k 0"
  from Cons.prems(2) have w: "op = opcode_binary \<and> length payload \<le> max_websocket_payload \<or> op = opcode_pong \<and> length payload \<le> 125"
    "(m \<noteq> None) = peer_frames_are_masked c" "\<forall>k. m = Some k \<longrightarrow> length k = 4"
    and ok: "\<forall>f \<in> set fs. wire_ok (peer_frames_are_masked c) f" by (auto simp: f wire_ok_def)
  have lim: "length payload \<le> max_websocket_payload" using w(1) by (auto simp: max_websocket_payload_def)
  then have l64: "unat (word_of_nat (length payload) :: 64 word) = length payload"
    by (simp add: unat_of_nat_64 max_websocket_payload_def)
  have enc: "length ?enc = length payload" by (simp split: option.split)
  have "pending (ws_reader c) = frame_header op (m \<noteq> None) (length payload) @ (case m of None \<Rightarrow> [] | Some k \<Rightarrow> k)
      @ (?enc @ wire_bytes fs)"
    using Cons.prems(1) by (simp add: f frame_bytes_parts)
  from read_header_frame [OF this w(3) _ lim] w(1) obtain s where
    h: "read_header (ws_reader c) = (ok \<lparr>wh_fin = True, wh_opcode = op, wh_masked = (m \<noteq> None),
        wh_length = word_of_nat (length payload), wh_mask = (case m of None \<Rightarrow> [0, 0, 0, 0] | Some k \<Rightarrow> k)\<rparr>, s)"
    "pending s = ?enc @ wire_bytes fs" by (auto simp: small_opcode_def)
  show ?case
  proof (cases "op = opcode_binary")
    case False
    with w(1) have op: "op = opcode_pong" "length payload \<le> 125" by auto
    from h(2) enc obtain s2 where s2: "read_full s (length payload) = (?enc, None, s2)" "pending s2 = wire_bytes fs"
      by (rule read_full_prefix)
    let ?c = "c\<lparr>ws_reader := s2\<rparr>"
    have "\<not> 125 < (word_of_nat (length payload) :: 64 word)" using op(2) by (simp add: word_less_nat_alt l64)
    then have "next_data_frame c = next_data_frame ?c"
      using w(2) s2(1) by (simp add: next_data_frame.simps [of c] h(1) op(1) opcode_facts control_frame_def l64 Let_def)
    moreover have "wire_plain (f # fs) = wire_plain fs" using False by (simp add: f)
    ultimately show ?thesis using Cons.IH [of ?c] s2(2) ok Cons.prems(3,4) by (simp add: peer_frames_are_masked_def)
  next
    case True
    note step = next_data_frame.simps [of c] h(1) True opcode_facts check_data_frame_def Cons.prems(3)
    show ?thesis
    proof (cases "payload = []")
      case empty: True
      let ?c = "c\<lparr>ws_reader := s, ws_fragmented := False\<rparr>"
      have "next_data_frame c = next_data_frame ?c" using w(2) by (cases m) (simp_all add: step empty)
      moreover have "wire_plain (f # fs) = wire_plain fs" using empty by (simp add: f)
      moreover have "pending (ws_reader ?c) = wire_bytes fs" using h(2) enc empty by simp
      ultimately show ?thesis using Cons.IH [of ?c] ok Cons.prems(4) by (simp add: peer_frames_are_masked_def)
    next
      case False
      then have "(word_of_nat (length payload) :: 64 word) \<noteq> 0" using l64 by (metis length_0_conv unat_0)
      then have n: "next_data_frame c = (ok (), c\<lparr>ws_reader := s, ws_fragmented := False,
          ws_remaining := word_of_nat (length payload), ws_mask := (case m of None \<Rightarrow> [0, 0, 0, 0] | Some k \<Rightarrow> k),
          ws_mask_at := 0\<rparr>)"
        using w(2) by (cases m) (simp_all add: step)
      have "wire_plain (f # fs) = payload @ wire_plain fs" using True by (simp add: f)
      then show ?thesis unfolding n delivers_def
        using ok h(2) w(2)
        by (cases m) (auto simp: l64 peer_frames_are_masked_def intro!: exI [of _ payload] exI [of _ fs])
    qed
  qed
qed simp

lemma fill_delivers:
  assumes "delivers c plain" and "plain \<noteq> []"
  obtains c' where "fill c = (ok (), c')" "delivers c' plain" "ws_remaining c' \<noteq> 0"
proof (cases "ws_remaining c = 0")
  case False
  with assms show thesis by (intro that [of c]) (simp_all add: fill.simps [of c])
next
  case True
  with assms(1) obtain fs where "pending (ws_reader c) = wire_bytes fs" "\<forall>f \<in> set fs. wire_ok (peer_frames_are_masked c) f"
    "\<not> ws_fragmented c" "wire_plain fs = plain" by (auto simp: delivers_def)
  with next_data_frame_delivers [of c fs] assms(2) obtain c' where
    n: "next_data_frame c = (ok (), c')" "delivers c' plain" by auto
  with next_data_frame_remaining [OF n(1)] True show thesis
    by (intro that [of c']) (simp_all add: fill.simps [of c] fill.simps [of c'])
qed

lemma ws_read_delivers:
  assumes "delivers c plain" and "plain \<noteq> []" and "0 < n" and "n < 2 ^ 63"
  shows "\<exists>d c'. ws_read c n = (d, None, c') \<and> d \<noteq> [] \<and> length d \<le> n
    \<and> (\<exists>rest. plain = d @ rest \<and> delivers c' rest)"
proof -
  from fill_delivers [OF assms(1,2)] obtain c1 where
    f: "fill c = (ok (), c1)" "delivers c1 plain" "ws_remaining c1 \<noteq> 0" .
  let ?p = "peer_frames_are_masked c1"
  from f(2) obtain cur fs where cur: "length cur = unat (ws_remaining c1)" "plain = cur @ wire_plain fs"
    "\<forall>g \<in> set fs. wire_ok ?p g" "\<not> ws_fragmented c1"
    "pending (ws_reader c1) = (if ?p then apply_mask cur (ws_mask c1) (ws_mask_at c1) else cur) @ wire_bytes fs"
    by (auto simp: delivers_def)
  have n64: "unat (word_of_nat n :: 64 word) = n" using assms(4) by (intro unat_of_nat_64) simp
  define k where "k = min n (length cur)"
  have k: "0 < k" "k \<le> n" "k \<le> length cur" using f(3) assms(3) cur(1) by (auto simp: k_def unat_gt_0)
  have want: "unat (if ws_remaining c1 < word_of_nat n then ws_remaining c1 else word_of_nat n) = k"
    by (simp add: word_less_nat_alt n64 cur(1) [symmetric] k_def min_def)
  let ?a = "take k cur" and ?b = "drop k cur"
  have split: "cur = ?a @ ?b" by simp
  let ?enc = "\<lambda>x off. if ?p then apply_mask x (ws_mask c1) off else x"
  have la: "length ?a = k" using k(3) by simp
  have "pending (ws_reader c1) = ?enc ?a (ws_mask_at c1) @ (?enc ?b (ws_mask_at c1 + word_of_nat k) @ wire_bytes fs)"
    unfolding cur(5) using apply_mask_append [of ?a ?b "ws_mask c1" "ws_mask_at c1"] la by simp
  moreover have "length (?enc ?a (ws_mask_at c1)) = k" using la by simp
  ultimately obtain s where r: "read_full (ws_reader c1) k = (?enc ?a (ws_mask_at c1), None, s)"
    "pending s = ?enc ?b (ws_mask_at c1 + word_of_nat k) @ wire_bytes fs" by (rule read_full_prefix)
  have ne: "?enc ?a (ws_mask_at c1) \<noteq> []" using k(1) la by (metis length_apply_mask less_nat_zero_code list.size(3))
  let ?c = "c1\<lparr>ws_reader := s, ws_mask_at := (if ?p then ws_mask_at c1 + word_of_nat k else ws_mask_at c1),
      ws_remaining := ws_remaining c1 - word_of_nat k\<rparr>"
  have read: "ws_read c n = (?a, None, ?c)"
    unfolding ws_read_def Let_def f(1) want
    using assms(3) ne la by (simp add: r(1) want apply_mask_involution)
  have rem: "unat (ws_remaining c1 - word_of_nat k) = length ?b"
  proof -
    have k64: "unat (word_of_nat k :: 64 word) = k" using k(2) assms(4) by (intro unat_of_nat_64) simp
    then have "(word_of_nat k :: 64 word) \<le> ws_remaining c1" using k(3) cur(1) by (simp add: word_le_nat_alt)
    then show ?thesis by (simp add: unat_sub k64 cur(1) [symmetric])
  qed
  have "delivers ?c (?b @ wire_plain fs)"
    unfolding delivers_def using cur(3,4) rem r(2)
    by (auto simp: peer_frames_are_masked_def intro!: exI [of _ ?b] exI [of _ fs])
  moreover have "plain = ?a @ (?b @ wire_plain fs)" using cur(2) by simp
  moreover have "?a \<noteq> []" using k by (metis la less_nat_zero_code list.size(3))
  ultimately show ?thesis using read k(2) la by (intro exI [of _ ?a] exI [of _ ?c]) auto
qed

text \<open>
  Both ends together: whatever one end wrote successfully is, on the wire, frames the other end
  delivers as one stream.
\<close>

fun ws_writes :: "ws_conn \<Rightarrow> bytes list \<Rightarrow> (nat list) ws_result \<times> ws_conn" where
  "ws_writes c [] = (ok [], c)"
| "ws_writes c (p # ps) =
     (case ws_write c p of
        (Inl e, c) \<Rightarrow> (Inl e, c)
      | (Inr n, c) \<Rightarrow> (case ws_writes c ps of (r, c) \<Rightarrow> (bind_result r (\<lambda>ns. ok (n # ns)), c)))"

lemma ws_write_wire:
  assumes "ws_write c payload = (ok n, c')"
  shows "n = length payload" and "ws_client c' = ws_client c"
    and "\<exists>fs. received (ws_sink c') = received (ws_sink c) @ wire_bytes fs \<and> wire_plain fs = payload
      \<and> (\<forall>f \<in> set fs. wire_ok (ws_client c) f)"
proof -
  have "n = length payload \<and> ws_client c' = ws_client c \<and> (\<exists>fs. received (ws_sink c') = received (ws_sink c) @ wire_bytes fs
      \<and> wire_plain fs = payload \<and> (\<forall>f \<in> set fs. wire_ok (ws_client c) f))"
  proof (cases "payload = []")
    case True
    with assms show ?thesis by (auto simp: ws_write_def intro!: exI [of _ "[]"])
  next
    case False
    with assms have lim: "length payload \<le> max_websocket_payload" and w: "write_frame c opcode_binary payload = (ok (), c')"
      and n: "n = length payload"
      by (auto simp: ws_write_def bind_result_eq_ok split: if_split_asm prod.split_asm)
    from write_frame_sent(2) [OF w] obtain m where m: "(m \<noteq> None) = ws_client c" "\<forall>k. m = Some k \<longrightarrow> length k = 4"
      "received (ws_sink c') = received (ws_sink c) @ frame_bytes opcode_binary m payload" by auto
    have "ws_client c' = ws_client c"
      using w by (auto simp: write_frame_def Let_def split: if_split_asm prod.split_asm option.split_asm)
    with m n lim show ?thesis by (auto simp: wire_ok_def intro!: exI [of _ "[(opcode_binary, m, payload)]"])
  qed
  then show "n = length payload" "ws_client c' = ws_client c"
    "\<exists>fs. received (ws_sink c') = received (ws_sink c) @ wire_bytes fs \<and> wire_plain fs = payload
      \<and> (\<forall>f \<in> set fs. wire_ok (ws_client c) f)" by blast+
qed

lemma ws_writes_wire:
  "ws_writes c ps = (ok ns, c') \<Longrightarrow> \<exists>fs. received (ws_sink c') = received (ws_sink c) @ wire_bytes fs
     \<and> wire_plain fs = concat ps \<and> (\<forall>f \<in> set fs. wire_ok (ws_client c) f)"
proof (induction ps arbitrary: c ns)
  case Nil
  then show ?case by (auto intro!: exI [of _ "[]"])
next
  case (Cons p ps)
  obtain r c1 where one: "ws_write c p = (r, c1)" by fastforce
  with Cons.prems obtain n ns' where r: "r = ok n" and two: "ws_writes c1 ps = (ok ns', c')"
    by (cases r) (auto simp: bind_result_eq_ok split: prod.split_asm)
  note w = ws_write_wire [OF one [unfolded r]]
  from w(3) Cons.IH [OF two] w(2) obtain fs gs where
    "received (ws_sink c1) = received (ws_sink c) @ wire_bytes fs" "wire_plain fs = p" "\<forall>f \<in> set fs. wire_ok (ws_client c) f"
    "received (ws_sink c') = received (ws_sink c1) @ wire_bytes gs" "wire_plain gs = concat ps"
    "\<forall>f \<in> set gs. wire_ok (ws_client c) f" by auto
  then show ?case by (intro exI [of _ "fs @ gs"]) auto
qed

lemma written_is_delivered:
  assumes "ws_writes (new_websocket_conn rd open_pipe entropy client) ps = (ok ns, c)"
    and "pending s = received (ws_sink c)"
  shows "delivers (new_websocket_conn s sink entropy' (\<not> client)) (concat ps)"
proof -
  from ws_writes_wire [OF assms(1)] obtain fs where "received (ws_sink c) = wire_bytes fs"
    "wire_plain fs = concat ps" "\<forall>f \<in> set fs. wire_ok client f"
    by (auto simp: new_websocket_conn_def open_pipe_def)
  then show ?thesis
    using assms(2)
    by (auto simp: delivers_def new_websocket_conn_def peer_frames_are_masked_def intro!: exI [of _ "[]"] exI [of _ fs])
qed

section \<open>Properties\<close>

text \<open>\<open>io.ReadFull\<close> on the connection: reads of what is still wanted, at most \<open>n\<close> of them.\<close>

fun ws_read_full :: "nat \<Rightarrow> nat \<Rightarrow> ws_conn \<Rightarrow> bytes \<times> ws_conn" where
  "ws_read_full n 0 c = ([], c)"
| "ws_read_full 0 want c = ([], c)"
| "ws_read_full (Suc n) want c =
     (case ws_read c want of
        (d, None, c) \<Rightarrow> (case ws_read_full n (want - length d) c of (ds, c) \<Rightarrow> (d @ ds, c))
      | (d, Some _, c) \<Rightarrow> (d, c))"

lemma ws_read_full_delivers:
  "delivers c plain \<Longrightarrow> length plain \<le> n \<Longrightarrow> length plain < 2 ^ 63 \<Longrightarrow> fst (ws_read_full n (length plain) c) = plain"
proof (induction n arbitrary: c plain)
  case (Suc n)
  show ?case
  proof (cases "plain = []")
    case False
    then have "0 < length plain" by simp
    from ws_read_delivers [OF Suc.prems(1) False this Suc.prems(3)] obtain d c' rest where
      r: "ws_read c (length plain) = (d, None, c')" "d \<noteq> []" "plain = d @ rest" "delivers c' rest" by blast
    obtain w where w: "length plain = Suc w" using False by (cases plain) auto
    have "length rest < length plain" and eq: "length plain - length d = length rest" using r(2,3) by simp_all
    with Suc.IH [OF r(4)] Suc.prems(2,3) have "fst (ws_read_full n (length rest) c') = rest" by simp
    with r(1,3) eq show ?thesis unfolding w by (simp add: case_prod_beta)
  qed simp
qed simp


lemma server_write_ok:
  assumes "\<not> ws_client c" and "script (ws_sink c) = []" and "0 < length payload" and "length payload \<le> max_websocket_payload"
  shows "\<exists>c'. ws_write c payload = (ok (length payload), c') \<and> \<not> ws_client c' \<and> script (ws_sink c') = []"
  using assms by (simp add: ws_write_def write_frame_def write_two_def write_full_def write_all_open)


end
