(* ===== verification/Tunnel_Identity.thy ===== *)
theory Tunnel_Identity
  imports Config_Token Config_Pin
begin

text \<open>
  \<open>internal/tunnel/identity.go\<close>: loading and creating the inner TLS identity. The file system and
  the key and certificate functions of the standard library answer through an environment; what
  the code does to the file system is the list of its actions, in order.
\<close>

section \<open>Identities\<close>

definition max_identity_file_bytes :: nat where "max_identity_file_bytes = 65536"

definition identity_validity :: int where "identity_validity = 10 * 365 * 24 * 3600 * 1000000000"

datatype identity_role = RoleServer | RoleClient

record identity =
  id_certificates :: "bytes list"
  id_pin :: pin

datatype os_error = NotExist | AlreadyExists | OtherOs string

datatype identity_error =
    IdentityNotConfigured
  | IdentityOpen os_error
  | IdentityStat os_error
  | IdentityIsDirectory
  | IdentityPermission os_error
  | IdentityTooLarge
  | IdentityRead os_error
  | IdentityParse string
  | IdentityChain nat
  | IdentityLeaf string
  | IdentityKeyKind
  | DirectoryStat os_error
  | DirectoryCreate os_error
  | DirectoryProtect os_error
  | IdentityGenerate string
  | IdentityCreate os_error
  | IdentityProtect os_error
  | IdentityWrite os_error
  | IdentityClose os_error

text \<open>\<open>errors.Is(err, os.ErrNotExist)\<close>, through the wrapping.\<close>

fun reports_missing :: "identity_error \<Rightarrow> bool" where
  "reports_missing (IdentityOpen e) \<longleftrightarrow> e = NotExist"
| "reports_missing (IdentityStat e) \<longleftrightarrow> e = NotExist"
| "reports_missing (IdentityPermission e) \<longleftrightarrow> e = NotExist"
| "reports_missing (IdentityRead e) \<longleftrightarrow> e = NotExist"
| "reports_missing _ = False"

text \<open>
  What the standard library makes of PEM and DER: \<open>X509KeyPair\<close> of the file with itself, and the
  key kind and SPKI of a certificate.
\<close>

record parsed_certificate =
  pc_ed25519 :: bool
  pc_spki :: bytes

record x509_tools =
  key_pair :: "bytes \<Rightarrow> string + bytes list"
  parse_certificate :: "bytes \<Rightarrow> string + parsed_certificate"

record identity_file =
  if_stat :: "os_error + nat"
  if_directory :: bool
  if_permission :: "os_error option"
  if_data :: "os_error + bytes"

type_synonym opened = "os_error + identity_file"

definition load_identity :: "x509_tools \<Rightarrow> opened \<Rightarrow> (identity_error, identity) result" where
  "load_identity x opened =
     (case opened of Inl e \<Rightarrow> err (IdentityOpen e)
      | Inr f \<Rightarrow>
     (case if_stat f of Inl e \<Rightarrow> err (IdentityStat e)
      | Inr n \<Rightarrow>
          if if_directory f then err IdentityIsDirectory
          else case if_permission f of Some e \<Rightarrow> err (IdentityPermission e)
      | None \<Rightarrow>
          if max_identity_file_bytes < n then err IdentityTooLarge
          else case if_data f of Inl e \<Rightarrow> err (IdentityRead e)
      | Inr whole \<Rightarrow>
     (case key_pair x (take (max_identity_file_bytes + 1) whole) of Inl e \<Rightarrow> err (IdentityParse e)
      | Inr chain \<Rightarrow>
          if length chain \<noteq> 1 then err (IdentityChain (length chain))
          else bind_result (index_at chain 0) (\<lambda>der.
            case parse_certificate x der of Inl e \<Rightarrow> err (IdentityLeaf e)
            | Inr leaf \<Rightarrow>
                if \<not> pc_ed25519 leaf then err IdentityKeyKind
                else ok \<lparr>id_certificates = chain, id_pin = pin_from_spki (pc_spki leaf)\<rparr>))))"

section \<open>Generating\<close>

record certificate_template =
  ct_serial :: nat
  ct_common_name :: string
  ct_not_before :: int
  ct_not_after :: int
  ct_server_auth :: bool
  ct_client_auth :: bool

record key_tools =
  kt_generate :: "string + (bytes \<times> bytes)"
  kt_serial :: "nat \<Rightarrow> string + nat"
  kt_create :: "certificate_template \<Rightarrow> bytes \<Rightarrow> bytes \<Rightarrow> string + bytes"
  kt_marshal :: "bytes \<Rightarrow> string + bytes"
  kt_pem :: "string \<Rightarrow> bytes \<Rightarrow> bytes"

definition generate_identity_pem :: "key_tools \<Rightarrow> int \<Rightarrow> identity_role \<Rightarrow> (identity_error, bytes) result" where
  "generate_identity_pem k now role =
     (case kt_generate k of Inl e \<Rightarrow> err (IdentityGenerate e)
      | Inr (public, private) \<Rightarrow>
     (case kt_serial k (2 ^ 128) of Inl e \<Rightarrow> err (IdentityGenerate e)
      | Inr serial \<Rightarrow>
     (case kt_create k
        \<lparr>ct_serial = serial, ct_common_name = ''dproxy inner TLS'', ct_not_before = now - 5 * 60 * 1000000000,
         ct_not_after = now + identity_validity, ct_server_auth = (role \<noteq> RoleClient),
         ct_client_auth = (role = RoleClient)\<rparr> public private of Inl e \<Rightarrow> err (IdentityGenerate e)
      | Inr certificate_der \<Rightarrow>
     (case kt_marshal k private of Inl e \<Rightarrow> err (IdentityGenerate e)
      | Inr private_der \<Rightarrow>
          ok (kt_pem k ''CERTIFICATE'' certificate_der @ kt_pem k ''PRIVATE KEY'' private_der)))))"

section \<open>Loading or creating\<close>

datatype fs_action =
    MkdirPrivate string | RestrictPath string bool | CreateExclusive string | WriteBytes string bytes
  | RemovePath string

text \<open>
  The answers of the file system, in the order they are asked for: the first load, the parent
  directory, the creation and the steps on the new file, and the load that follows.
\<close>

record identity_env =
  ie_first :: opened
  ie_parent :: string
  ie_stat_parent :: "os_error option"
  ie_mkdir :: "os_error option"
  ie_restrict_parent :: "os_error option"
  ie_create :: "os_error option"
  ie_restrict_file :: "os_error option"
  ie_write :: "os_error option"
  ie_sync :: "os_error option"
  ie_close :: "os_error option"
  ie_last :: opened

definition write_identity ::
  "x509_tools \<Rightarrow> identity_env \<Rightarrow> string \<Rightarrow> bytes \<Rightarrow> (identity_error, identity) result \<times> fs_action list" where
  "write_identity x e path encoded =
     (case ie_create e of
        Some AlreadyExists \<Rightarrow> (load_identity x (ie_last e), [CreateExclusive path])
      | Some f \<Rightarrow> (err (IdentityCreate f), [CreateExclusive path])
      | None \<Rightarrow>
          (case ie_restrict_file e of
             Some f \<Rightarrow> (err (IdentityProtect f), [CreateExclusive path, RestrictPath path False, RemovePath path])
           | None \<Rightarrow>
               let calls = [CreateExclusive path, RestrictPath path False, WriteBytes path encoded];
                   write_error = (case ie_write e of None \<Rightarrow> ie_sync e | Some f \<Rightarrow> Some f)
               in (case write_error of Some f \<Rightarrow> (err (IdentityWrite f), calls)
                   | None \<Rightarrow>
                  (case ie_close e of Some f \<Rightarrow> (err (IdentityClose f), calls)
                   | None \<Rightarrow> (load_identity x (ie_last e), calls)))))"

definition create_identity ::
  "x509_tools \<Rightarrow> key_tools \<Rightarrow> identity_env \<Rightarrow> int \<Rightarrow> identity_role \<Rightarrow> string
     \<Rightarrow> (identity_error, identity) result \<times> fs_action list" where
  "create_identity x k e now role path =
     (let parent_missing = (ie_stat_parent e = Some NotExist) in
      case (if parent_missing then None else ie_stat_parent e) of
        Some f \<Rightarrow> (err (DirectoryStat f), [])
      | None \<Rightarrow>
     (case ie_mkdir e of
        Some f \<Rightarrow> (err (DirectoryCreate f), [MkdirPrivate (ie_parent e)])
      | None \<Rightarrow>
          let made = MkdirPrivate (ie_parent e) # (if parent_missing then [RestrictPath (ie_parent e) True] else []) in
          (case (if parent_missing then ie_restrict_parent e else None) of
             Some f \<Rightarrow> (err (DirectoryProtect f), made)
           | None \<Rightarrow>
          (case generate_identity_pem k now role of
             Inl f \<Rightarrow> (Inl f, made)
           | Inr encoded \<Rightarrow>
               (case write_identity x e path encoded of (r, calls) \<Rightarrow> (r, made @ calls))))))"

definition load_or_create_identity ::
  "x509_tools \<Rightarrow> key_tools \<Rightarrow> identity_env \<Rightarrow> int \<Rightarrow> identity_role \<Rightarrow> string
     \<Rightarrow> (identity_error, identity) result \<times> fs_action list" where
  "load_or_create_identity x k e now role path =
     (if path = [] then (err IdentityNotConfigured, [])
      else case load_identity x (ie_first e) of
        Inr i \<Rightarrow> (ok i, [])
      | Inl Panic \<Rightarrow> (panic, [])
      | Inl (Err f) \<Rightarrow> if \<not> reports_missing f then (err f, []) else create_identity x k e now role path)"

section \<open>What a loaded identity is, and what is written when\<close>

lemma load_identity_no_panic [no_panic_intros]: "no_panic (load_identity x opened)"
  by (auto simp: load_identity_def index_at_def split: sum.splits option.splits)

lemma load_identity_ok:
  assumes "load_identity x opened = ok i"
  shows "\<exists>f leaf der. opened = Inr f \<and> \<not> if_directory f \<and> if_permission f = None
      \<and> id_certificates i = [der] \<and> parse_certificate x der = Inr leaf \<and> pc_ed25519 leaf
      \<and> id_pin i = pin_from_spki (pc_spki leaf)"
proof -
  from assms obtain f chain leaf where
    f: "opened = Inr f" "\<not> if_directory f" "if_permission f = None" "length chain = 1"
    "parse_certificate x (chain ! 0) = Inr leaf" "pc_ed25519 leaf"
    "i = \<lparr>id_certificates = chain, id_pin = pin_from_spki (pc_spki leaf)\<rparr>"
    by (auto simp: load_identity_def index_at_def bind_result_eq_ok
        split: sum.split_asm option.split_asm if_split_asm)
  moreover from f(4) obtain der where "chain = [der]" by (cases chain) auto
  ultimately show ?thesis by auto
qed

lemma load_identity_pin: "load_identity x opened = ok i \<Longrightarrow> valid_pin (id_pin i)"
  using pin_from_spki_valid by (fastforce dest: load_identity_ok)

lemma generate_no_panic [no_panic_intros]: "no_panic (generate_identity_pem k now role)"
  by (simp add: generate_identity_pem_def split: sum.splits)

lemma load_or_create_no_panic: "no_panic (fst (load_or_create_identity x k e now role path))"
  using load_identity_no_panic [of x "ie_first e"] load_identity_no_panic [of x "ie_last e"]
    generate_no_panic [of k now role]
  by (auto simp: load_or_create_identity_def create_identity_def write_identity_def Let_def no_panic_def
      split: sum.splits failure.splits option.splits os_error.splits)

text \<open>
  The bytes of a private key reach the file system only in a file this call created itself and
  already restricted to its owner, and a directory this call created is restricted before that.
\<close>

lemma written_keys_are_private:
  assumes "load_or_create_identity x k e now role path = (r, calls)" and "WriteBytes p data \<in> set calls"
  shows "p = path" and "\<exists>before. calls = before @ [CreateExclusive path, RestrictPath path False, WriteBytes path data]
      \<and> ie_create e = None \<and> ie_restrict_file e = None
      \<and> (ie_stat_parent e = Some NotExist \<longrightarrow> RestrictPath (ie_parent e) True \<in> set before)"
  using assms
  by (auto simp: load_or_create_identity_def create_identity_def write_identity_def Let_def
      split: sum.split_asm failure.split_asm option.split_asm os_error.split_asm if_split_asm prod.split_asm)

text \<open>An identity that is there, whatever is wrong with it, is never replaced.\<close>

lemma present_identity_untouched:
  assumes "load_identity x (ie_first e) = ok i \<or> (\<exists>f. load_identity x (ie_first e) = err f \<and> \<not> reports_missing f)"
  shows "snd (load_or_create_identity x k e now role path) = []"
  using assms by (auto simp: load_or_create_identity_def)

lemma load_or_create_pin:
  assumes "load_or_create_identity x k e now role path = (ok i, calls)"
  shows "valid_pin (id_pin i)" and "length (id_certificates i) = 1"
proof -
  from assms have "load_identity x (ie_first e) = ok i \<or> load_identity x (ie_last e) = ok i"
    by (auto simp: load_or_create_identity_def create_identity_def write_identity_def Let_def
        split: sum.split_asm failure.split_asm option.split_asm os_error.split_asm if_split_asm prod.split_asm)
  then show "valid_pin (id_pin i)" "length (id_certificates i) = 1"
    by (auto dest: load_identity_pin load_identity_ok)
qed

section \<open>Properties\<close>

text \<open>
  C37: the bytes of a generated key reach the file system once at most, last, and only in a file that
  this call created exclusively and has already restricted to its owner; a directory it created is
  restricted before. An identity that is present, valid or not, is never touched.
\<close>

theorem written_keys_are_protected:
  assumes "load_or_create_identity x k e now role path = (r, calls)"
  shows "(\<forall>p data. WriteBytes p data \<in> set calls \<longrightarrow> p = path
      \<and> (\<exists>before. calls = before @ [CreateExclusive path, RestrictPath path False, WriteBytes path data]
          \<and> ie_create e = None \<and> ie_restrict_file e = None
          \<and> (ie_stat_parent e = Some NotExist \<longrightarrow> RestrictPath (ie_parent e) True \<in> set before)))
    \<and> (calls \<noteq> [] \<longrightarrow> (\<exists>f. load_identity x (ie_first e) = err f \<and> reports_missing f))"
proof -
  have "\<exists>f. load_identity x (ie_first e) = err f \<and> reports_missing f" if "calls \<noteq> []"
    using assms that by (auto simp: load_or_create_identity_def split: if_split_asm sum.split_asm failure.split_asm)
  with written_keys_are_private [OF assms] show ?thesis by blast
qed

definition sample_creation :: identity_env where
  "sample_creation =
     \<lparr>ie_first = Inl NotExist, ie_parent = ''/etc/dproxy'', ie_stat_parent = Some NotExist, ie_mkdir = None,
      ie_restrict_parent = None, ie_create = None, ie_restrict_file = None, ie_write = None, ie_sync = None,
      ie_close = None, ie_last = Inl (OtherOs ''interrupted'')\<rparr>"

definition sample_keys :: key_tools where
  "sample_keys =
     \<lparr>kt_generate = Inr ([1], [2]), kt_serial = (\<lambda>_. Inr 1), kt_create = (\<lambda>_ _ _. Inr [3]), kt_marshal = (\<lambda>_. Inr [4]),
      kt_pem = (\<lambda>_ b. b)\<rparr>"

theorem written_keys_are_protected_witness:
  "\<exists>r calls. load_or_create_identity \<lparr>key_pair = (\<lambda>_. Inl []), parse_certificate = (\<lambda>_. Inl [])\<rparr> sample_keys sample_creation 0
      RoleServer ''/etc/dproxy/id.pem'' = (r, calls)
    \<and> WriteBytes ''/etc/dproxy/id.pem'' [3, 4] \<in> set calls \<and> RestrictPath ''/etc/dproxy'' True \<in> set calls"
proof -
  let ?x = "\<lparr>key_pair = (\<lambda>_. Inl []), parse_certificate = (\<lambda>_. Inl [])\<rparr>" and ?p = "''/etc/dproxy/id.pem''"
  have g: "generate_identity_pem sample_keys 0 RoleServer = ok [3, 4]"
    by (simp add: generate_identity_pem_def sample_keys_def)
  have f: "load_identity ?x (ie_first sample_creation) = err (IdentityOpen NotExist)"
    by (simp add: load_identity_def sample_creation_def)
  have e: "ie_stat_parent sample_creation = Some NotExist" "ie_parent sample_creation = ''/etc/dproxy''"
    "ie_mkdir sample_creation = None" "ie_restrict_parent sample_creation = None"
    by (simp_all add: sample_creation_def)
  obtain r w where w: "write_identity ?x sample_creation ?p [3, 4] = (r, w)" "WriteBytes ?p [3, 4] \<in> set w"
    by (simp add: write_identity_def sample_creation_def)
  obtain calls where calls: "calls = [MkdirPrivate ''/etc/dproxy'', RestrictPath ''/etc/dproxy'' True] @ w" by blast
  have run: "load_or_create_identity ?x sample_keys sample_creation 0 RoleServer ?p = (r, calls)"
    using w(1) by (simp add: load_or_create_identity_def f create_identity_def g e Let_def calls)
  have wrote: "WriteBytes ?p [3, 4] \<in> set calls" using w(2) by (simp add: calls)
  from written_keys_are_protected [OF run, THEN conjunct1, rule_format, OF wrote] e(1,2) obtain before post where
    "calls = before @ post" "RestrictPath ''/etc/dproxy'' True \<in> set before" by auto
  then have "RestrictPath ''/etc/dproxy'' True \<in> set calls" by simp
  with run wrote show ?thesis by blast
qed

end
