(* ===== verification/Inner_Tls.thy ===== *)
theory Inner_Tls
  imports Tunnel_Identity
begin

text \<open>
  \<open>internal/tunnel/innertls.go\<close>: both ends of the inner handshake and the pin checks around it.
  The TLS implementation is outside: under a configuration it fails, or it reaches the point where
  it hands what it negotiated to the callback of the configuration. What the code relies on is the
  documented contract of that callback, that its error is the error of the handshake. Each
  configuration is made for one connection, so no session is resumed and the callback runs.
\<close>

section \<open>Configurations and failures\<close>

text \<open>
  The errors of a connection as \<open>errors.Is\<close> and \<open>errors.As\<close> see them: the sentinels in the chain,
  and the operation and inner text of a \<open>net.OpError\<close>.
\<close>

datatype sentinel =
    IsClientPinMismatch | IsClientCertificateRejected | IsErrno string | IsCanceled | IsDeadlineExceeded

record net_error =
  ne_sentinels :: "sentinel list"
  ne_operation :: "(string \<times> string option) option"
  ne_timeout :: bool

definition tls13_version :: "16 word" where "tls13_version = 0x0304"

definition alpn :: string where "alpn = ''dproxy/1''"

record inner_config =
  ic_min_version :: "16 word"
  ic_max_version :: "16 word"
  ic_protocols :: "string list"
  ic_skip_chain :: bool
  ic_own_chain :: "bytes list"
  ic_offer_chain :: "bytes list option"
  ic_require_client :: bool

record negotiated =
  ng_version :: "16 word"
  ng_protocol :: string
  ng_raw_certificates :: "bytes list"

datatype handshake_fault =
    TlsFault net_error | UnparsedCertificate | NoClientCertificate | ServerVersion "16 word" | ServerAlpn string | ServerPinMismatch | ClientPinMismatch

datatype inner_error =
    NoServerPin | NoServerIdentity | HandshakeTimeout int | HandshakeDeadline | InnerHandshake handshake_fault
  | InnerVersion "16 word" | InnerAlpn string

record inner_info =
  ii_version :: "16 word"
  ii_protocol :: string
  ii_server_pin :: pin
  ii_client_pin :: pin

text \<open>
  A peer and the connection to it: the outcome of the handshake under a configuration, and
  whether the deadline could be set.
\<close>

record tls_peer =
  tp_handshake :: "inner_config \<Rightarrow> net_error + negotiated"
  tp_set_deadline :: bool

text \<open>\<open>x509.ParseCertificate\<close> and the SPKI of its result, for every certificate the peer sent.\<close>

definition spki_of :: "x509_tools \<Rightarrow> bytes \<Rightarrow> bytes option" where
  "spki_of x der = (case parse_certificate x der of Inl _ \<Rightarrow> None | Inr c \<Rightarrow> Some (pc_spki c))"

text \<open>
  \<open>handshakeInnerTLS\<close>. A chain the library cannot parse fails the handshake before the callback;
  so does an absent client certificate where one is required.
\<close>

definition handshake_inner_tls ::
  "x509_tools \<Rightarrow> tls_peer \<Rightarrow> inner_config \<Rightarrow> (negotiated \<Rightarrow> handshake_fault option) \<Rightarrow> int
     \<Rightarrow> (inner_error, negotiated) result" where
  "handshake_inner_tls x peer cfg verify timeout =
     (if timeout \<le> 0 then err (HandshakeTimeout timeout)
      else if \<not> tp_set_deadline peer then err HandshakeDeadline
      else case tp_handshake peer cfg of
        Inl e \<Rightarrow> err (InnerHandshake (TlsFault e))
      | Inr st \<Rightarrow>
          if list_ex (\<lambda>der. spki_of x der = None) (ng_raw_certificates st)
          then err (InnerHandshake UnparsedCertificate)
          else if ic_require_client cfg \<and> ng_raw_certificates st = []
          then err (InnerHandshake NoClientCertificate)
          else (case verify st of Some f \<Rightarrow> err (InnerHandshake f) | None \<Rightarrow> ok st))"

section \<open>The client\<close>

definition verify_server :: "x509_tools \<Rightarrow> pin \<Rightarrow> negotiated \<Rightarrow> handshake_fault option" where
  "verify_server x p st =
     (if ng_version st \<noteq> tls13_version then Some (ServerVersion (ng_version st))
      else if ng_protocol st \<noteq> alpn then Some (ServerAlpn (ng_protocol st))
      else case ng_raw_certificates st of
        [der] \<Rightarrow> (case spki_of x der of
            Some spki \<Rightarrow> if pin_matches_spki p spki then None else Some ServerPinMismatch
          | None \<Rightarrow> Some ServerPinMismatch)
      | _ \<Rightarrow> Some ServerPinMismatch)"

definition client_inner_config :: "identity option \<Rightarrow> inner_config" where
  "client_inner_config identity =
     \<lparr>ic_min_version = tls13_version, ic_max_version = tls13_version, ic_protocols = [alpn],
      ic_skip_chain = True, ic_own_chain = [],
      ic_offer_chain = (case identity of None \<Rightarrow> None
        | Some i \<Rightarrow> if 0 < length (id_certificates i) then Some (id_certificates i) else None),
      ic_require_client = False\<rparr>"

text \<open>\<open>DialInnerTLS\<close>: the outcome, and whether the connection was closed.\<close>

definition dial_inner_tls ::
  "x509_tools \<Rightarrow> tls_peer \<Rightarrow> pin \<Rightarrow> identity option \<Rightarrow> int \<Rightarrow> (inner_error, inner_info) result \<times> bool" where
  "dial_inner_tls x peer p identity timeout =
     (if pin_is_zero p then (err NoServerPin, False)
      else
        let client_pin = (case identity of None \<Rightarrow> zero_pin
              | Some i \<Rightarrow> if 0 < length (id_certificates i) then id_pin i else zero_pin)
        in (case handshake_inner_tls x peer (client_inner_config identity) (verify_server x p) timeout of
              Inl e \<Rightarrow> (Inl e, True)
            | Inr st \<Rightarrow> (ok \<lparr>ii_version = ng_version st, ii_protocol = ng_protocol st, ii_server_pin = p,
                            ii_client_pin = client_pin\<rparr>, False)))"

section \<open>The server\<close>

definition verify_client :: "x509_tools \<Rightarrow> pin_set \<Rightarrow> negotiated \<Rightarrow> handshake_fault option" where
  "verify_client x clients st =
     (if length (ng_raw_certificates st) \<noteq> 1 then Some ClientPinMismatch
      else case spki_of x (hd (ng_raw_certificates st)) of
        None \<Rightarrow> Some ClientPinMismatch
      | Some spki \<Rightarrow> if \<not> pin_set_contains_spki clients spki then Some ClientPinMismatch else None)"

definition server_inner_config :: "identity \<Rightarrow> pin_set \<Rightarrow> inner_config" where
  "server_inner_config identity clients =
     \<lparr>ic_min_version = tls13_version, ic_max_version = tls13_version, ic_protocols = [alpn],
      ic_skip_chain = False, ic_own_chain = id_certificates identity, ic_offer_chain = None,
      ic_require_client = (0 < length (pins clients))\<rparr>"

definition accept_inner_tls ::
  "x509_tools \<Rightarrow> tls_peer \<Rightarrow> identity option \<Rightarrow> pin_set \<Rightarrow> int \<Rightarrow> (inner_error, inner_info) result \<times> bool" where
  "accept_inner_tls x peer identity clients timeout =
     (case identity of
        None \<Rightarrow> (err NoServerIdentity, False)
      | Some i \<Rightarrow>
          if length (id_certificates i) = 0 then (err NoServerIdentity, False)
          else
            let required = 0 < length (pins clients) in
            (case handshake_inner_tls x peer (server_inner_config i clients)
                    (if required then verify_client x clients else (\<lambda>_. None)) timeout of
               Inl e \<Rightarrow> (Inl e, True)
             | Inr st \<Rightarrow>
                 if ng_version st \<noteq> tls13_version then (err (InnerVersion (ng_version st)), True)
                 else if ng_protocol st \<noteq> alpn then (err (InnerAlpn (ng_protocol st)), True)
                 else
                   (ok \<lparr>ii_version = ng_version st, ii_protocol = ng_protocol st, ii_server_pin = id_pin i,
                        ii_client_pin =
                          (if length (ng_raw_certificates st) = 1
                           then (case spki_of x (hd (ng_raw_certificates st)) of
                                   Some spki \<Rightarrow> pin_from_spki spki | None \<Rightarrow> zero_pin)
                           else zero_pin)\<rparr>, False)))"

text \<open>\<open>errors.Is(err, ErrClientPinMismatch)\<close>.\<close>

definition is_client_pin_mismatch :: "inner_error \<Rightarrow> bool" where
  "is_client_pin_mismatch e = (e = InnerHandshake ClientPinMismatch)"

section \<open>A refused client certificate\<close>

definition rejected_certificate_alerts :: "string list" where
  "rejected_certificate_alerts =
     [''tls: bad certificate'', ''tls: certificate required'', ''tls: unknown certificate authority'']"

datatype platform = Unix | Windows

fun connection_reset_errors :: "platform \<Rightarrow> string list" where
  "connection_reset_errors Unix = [''ECONNRESET'']"
| "connection_reset_errors Windows = [''WSAECONNRESET'', ''WSAECONNABORTED'']"

definition connection_reset :: "platform \<Rightarrow> net_error \<Rightarrow> bool" where
  "connection_reset os e = list_ex (\<lambda>n. IsErrno n \<in> set (ne_sentinels e)) (connection_reset_errors os)"

definition client_certificate_rejected :: "platform \<Rightarrow> net_error option \<Rightarrow> bool" where
  "client_certificate_rejected os e =
     (case e of None \<Rightarrow> False
      | Some e \<Rightarrow>
          if IsClientPinMismatch \<in> set (ne_sentinels e) \<or> IsClientCertificateRejected \<in> set (ne_sentinels e) then True
          else if connection_reset os e then True
          else (case ne_operation e of
                  Some (operation, Some inner) \<Rightarrow>
                    operation = ''remote error'' \<and> inner \<in> set rejected_certificate_alerts
                | _ \<Rightarrow> False))"

section \<open>What an inner connection proves\<close>

lemma handshake_inner_ok:
  "handshake_inner_tls x peer cfg verify timeout = ok st \<Longrightarrow>
     0 < timeout \<and> tp_handshake peer cfg = Inr st \<and> verify st = None
       \<and> (ic_require_client cfg \<longrightarrow> ng_raw_certificates st \<noteq> [])"
  by (auto simp: handshake_inner_tls_def split: if_split_asm sum.split_asm option.split_asm)

lemma verify_server_None:
  "verify_server x p st = None \<longleftrightarrow>
     ng_version st = tls13_version \<and> ng_protocol st = alpn
       \<and> (\<exists>der spki. ng_raw_certificates st = [der] \<and> spki_of x der = Some spki \<and> pin_matches_spki p spki)"
  by (auto simp: verify_server_def split: list.splits option.splits)

lemma verify_client_None:
  "verify_client x clients st = None \<longleftrightarrow>
     (\<exists>der spki. ng_raw_certificates st = [der] \<and> spki_of x der = Some spki \<and> pin_set_contains_spki clients spki)"
proof (cases "ng_raw_certificates st")
  case (Cons der ders)
  then show ?thesis by (cases ders) (auto simp: verify_client_def split: option.splits)
qed (simp add: verify_client_def)

lemma dial_inner_tls_ok:
  assumes "dial_inner_tls x peer p identity timeout = (ok info, closed)"
  shows "\<not> closed" and "ii_version info = tls13_version" and "ii_protocol info = alpn"
    and "\<exists>st der spki. tp_handshake peer (client_inner_config identity) = Inr st \<and> ng_raw_certificates st = [der]
          \<and> spki_of x der = Some spki \<and> pin_set p \<and> sha256 spki = pin_digest p"
proof -
  from assms obtain st where
    st: "handshake_inner_tls x peer (client_inner_config identity) (verify_server x p) timeout = ok st"
    and info: "ii_version info = ng_version st" "ii_protocol info = ng_protocol st" "\<not> closed"
    by (auto simp: dial_inner_tls_def Let_def split: if_split_asm sum.split_asm)
  from handshake_inner_ok [OF st] have "verify_server x p st = None"
    "tp_handshake peer (client_inner_config identity) = Inr st" by auto
  with info show "\<not> closed" "ii_version info = tls13_version" "ii_protocol info = alpn"
    "\<exists>st der spki. tp_handshake peer (client_inner_config identity) = Inr st \<and> ng_raw_certificates st = [der]
          \<and> spki_of x der = Some spki \<and> pin_set p \<and> sha256 spki = pin_digest p"
    by (auto simp: verify_server_None pin_matches_spki_iff)
qed

lemma accept_inner_tls_ok:
  assumes "accept_inner_tls x peer identity clients timeout = (ok info, closed)"
  shows "\<not> closed" and "ii_version info = tls13_version" and "ii_protocol info = alpn"
    and "pins clients \<noteq> [] \<Longrightarrow> \<exists>spki. pin_set_contains_spki clients spki \<and> ii_client_pin info = pin_from_spki spki"
proof -
  let ?verify = "if 0 < length (pins clients) then verify_client x clients else (\<lambda>_. None)"
  from assms obtain i st where
    st: "handshake_inner_tls x peer (server_inner_config i clients) ?verify timeout = ok st"
    and info: "ng_version st = tls13_version" "ng_protocol st = alpn" "\<not> closed"
      "ii_version info = ng_version st" "ii_protocol info = ng_protocol st"
      "ii_client_pin info = (if length (ng_raw_certificates st) = 1
         then (case spki_of x (hd (ng_raw_certificates st)) of Some spki \<Rightarrow> pin_from_spki spki | None \<Rightarrow> zero_pin)
         else zero_pin)"
    by (auto simp: accept_inner_tls_def Let_def split: if_split_asm sum.split_asm option.split_asm)
  from info show "\<not> closed" "ii_version info = tls13_version" "ii_protocol info = alpn" by auto
  show "\<exists>spki. pin_set_contains_spki clients spki \<and> ii_client_pin info = pin_from_spki spki" if "pins clients \<noteq> []"
    using handshake_inner_ok [OF st] info that by (auto simp: verify_client_None)
qed

text \<open>A pinned client's connection reports a pin of the set, not just some pin.\<close>

lemma accepted_client_pin:
  assumes "accept_inner_tls x peer identity clients timeout = (ok info, closed)" and "pins clients \<noteq> []"
    and "\<forall>p \<in> set (pins clients). valid_pin p"
  shows "ii_client_pin info \<in> set (pins clients)"
proof -
  from accept_inner_tls_ok(4) [OF assms(1,2)] obtain spki p where
    "ii_client_pin info = pin_from_spki spki" "p \<in> set (pins clients)" "pin_matches_spki p spki"
    by (auto simp: pin_set_contains_spki_iff)
  moreover from this assms(3) have "pin_from_spki spki = p"
    by (cases p) (auto simp: pin_from_spki_def valid_pin_def pin_matches_spki_iff)
  ultimately show ?thesis by simp
qed

lemma inner_tls_no_panic:
  "no_panic (fst (dial_inner_tls x peer p identity timeout))"
  "no_panic (fst (accept_inner_tls x peer i clients timeout))"
  by (auto simp: dial_inner_tls_def accept_inner_tls_def handshake_inner_tls_def Let_def
      split: sum.splits option.splits)

end
