(* ===== verification/Doh_Client.thy ===== *)
theory Doh_Client
  imports Secure_Dialer Config_Load
begin

text \<open>
  \<open>internal/securetransport/doh.go\<close>: the construction of the resolver and of the HTTP transport that reaches
  its endpoint. What \<open>net/http\<close> does with a transport is outside; what it may do, the fields say.
\<close>

section \<open>The transport of the resolver\<close>

record doh_transport =
  dt_proxied :: bool
  dt_addresses :: "addr list"
  dt_port :: string
  dt_next :: "32 word"
  dt_dial_timeout :: int
  dt_tls :: tls_config
  dt_http2 :: bool
  dt_tls_timeout :: int
  dt_header_timeout :: int
  dt_idle_timeout :: int
  dt_idle_conns :: nat

definition transport_timeouts :: "timeouts \<Rightarrow> timeouts" where
  "transport_timeouts t = (if t_dial t \<le> 0 \<or> t_tls_handshake t \<le> 0 then default_timeouts else t)"

text \<open>\<open>newDoHTransport\<close>. Thirty seconds, in nanoseconds, is the idle timeout of a connection.\<close>

definition new_doh_transport :: "url \<Rightarrow> addr list \<Rightarrow> timeouts \<Rightarrow> (endpoint_error, doh_transport) result" where
  "new_doh_transport u bootstrap given =
     bind_result (doh_endpoints u bootstrap) (\<lambda>(addresses, port).
       let t = transport_timeouts given in
       ok \<lparr>dt_proxied = False, dt_addresses = addresses, dt_port = port, dt_next = 0, dt_dial_timeout = t_dial t,
           dt_tls = new_tls_config (url_hostname u) [] [], dt_http2 = True, dt_tls_timeout = t_tls_handshake t,
           dt_header_timeout = t_control t, dt_idle_timeout = 30000000000, dt_idle_conns = 2\<rparr>)"

text \<open>
  \<open>DialContext\<close> of the transport: the address \<open>net/http\<close> computed is not even an argument. Each dial advances
  the counter and starts at the address it pointed at.
\<close>

definition transport_dial ::
  "(addr \<times> string \<Rightarrow> go_error + 'c) \<Rightarrow> doh_transport \<Rightarrow> (go_error list + 'c) \<times> doh_transport" where
  "transport_dial tcp t =
     (let advanced = dt_next t + 1 in
      (dial_doh (\<lambda>a. tcp (a, dt_port t)) [] (dial_order (advanced - 1) (dt_addresses t)), t\<lparr>dt_next := advanced\<rparr>))"

section \<open>The resolver\<close>

datatype resolver_fault = DoHURLRequired | EndpointUnusable endpoint_error

text \<open>The HTTP client of a resolver: a transport it was given, or its own; redirects are answers, not followed.\<close>

record doh_client =
  rc_endpoint :: string
  rc_timeout :: int
  rc_alias_hops :: nat
  rc_transport :: "doh_transport option"
  rc_redirects :: bool

definition resolver_timeout :: "timeouts \<Rightarrow> int" where
  "resolver_timeout t = (if t_control t \<le> 0 then t_control default_timeouts else t_control t)"

definition new_resolver ::
  "(url \<Rightarrow> string) \<Rightarrow> bool \<Rightarrow> url option \<Rightarrow> addr list \<Rightarrow> timeouts \<Rightarrow> (resolver_fault, doh_client) result" where
  "new_resolver url_string has_round_tripper endpoint bootstrap t =
     (case endpoint of
        None \<Rightarrow> err DoHURLRequired
      | Some u \<Rightarrow>
          let r = \<lparr>rc_endpoint = url_string u, rc_timeout = resolver_timeout t, rc_alias_hops = alias_hop_limit,
                   rc_transport = None, rc_redirects = False\<rparr>
          in if has_round_tripper then ok r
             else bind_result (map_err EndpointUnusable (new_doh_transport u bootstrap t)) (\<lambda>transport.
               ok (r\<lparr>rc_transport := Some transport\<rparr>)))"

section \<open>A dial of the transport\<close>

lemma dial_doh_failures:
  "dial_doh tcp fs as = Inl es \<Longrightarrow> length es = length fs + length as \<and> (\<forall>a \<in> set as. \<exists>e. tcp a = Inl e)"
  by (induction as arbitrary: fs) (auto split: sum.split_asm)

lemma dial_doh_connects:
  "dial_doh tcp fs as = Inr c \<Longrightarrow> \<exists>xs a ys. as = xs @ a # ys \<and> tcp a = Inr c \<and> (\<forall>x \<in> set xs. \<exists>e. tcp x = Inl e)"
proof (induction as arbitrary: fs)
  case (Cons a as)
  show ?case
  proof (cases "tcp a")
    case (Inl e)
    with Cons.prems have "dial_doh tcp (fs @ [e]) as = Inr c" by simp
    from Cons.IH [OF this] obtain xs b ys where "as = xs @ b # ys" "tcp b = Inr c" "\<forall>x \<in> set xs. \<exists>e. tcp x = Inl e" by blast
    with Inl show ?thesis by (intro exI [of _ "a # xs"] exI [of _ b] exI [of _ ys]) simp
  next
    case (Inr d)
    with Cons.prems show ?thesis by (intro exI [of _ "[]"]) simp
  qed
qed simp

lemma set_dial_order: "set (dial_order counter as) = set as"
  by (metis dial_order_mset set_mset_mset)

text \<open>
  A dial connects to one of the configured addresses at the port of the endpoint, and fails only when
  each of them refused.
\<close>

lemma transport_dial_outcome:
  assumes "transport_dial tcp t = (r, t')"
  shows "t' = t\<lparr>dt_next := dt_next t + 1\<rparr>"
    and "r = Inr c \<Longrightarrow> \<exists>a \<in> set (dt_addresses t). tcp (a, dt_port t) = Inr c"
    and "r = Inl es \<Longrightarrow> length es = length (dt_addresses t) \<and> (\<forall>a \<in> set (dt_addresses t). \<exists>e. tcp (a, dt_port t) = Inl e)"
proof -
  let ?d = "dial_doh (\<lambda>a. tcp (a, dt_port t)) [] (dial_order (dt_next t) (dt_addresses t))"
  from assms have r: "r = ?d" and t': "t' = t\<lparr>dt_next := dt_next t + 1\<rparr>" by (simp_all add: transport_dial_def Let_def)
  show "t' = t\<lparr>dt_next := dt_next t + 1\<rparr>" by (rule t')
  show "\<exists>a \<in> set (dt_addresses t). tcp (a, dt_port t) = Inr c" if "r = Inr c"
  proof -
    from dial_doh_connects [OF r [symmetric, unfolded that]] obtain xs a ys where
      a: "dial_order (dt_next t) (dt_addresses t) = xs @ a # ys" "tcp (a, dt_port t) = Inr c" by blast
    have "a \<in> set (dial_order (dt_next t) (dt_addresses t))" unfolding a(1) by simp
    with a(2) show ?thesis unfolding set_dial_order by blast
  qed
  show "length es = length (dt_addresses t) \<and> (\<forall>a \<in> set (dt_addresses t). \<exists>e. tcp (a, dt_port t) = Inl e)" if "r = Inl es"
    using dial_doh_failures [OF r [symmetric, unfolded that]] unfolding set_dial_order by (simp add: dial_order_def)
qed

text \<open>The dials take turns: each starts one address after the one before.\<close>

lemma transport_dial_rotates:
  assumes "dt_addresses t \<noteq> []" and "tcp (dt_addresses t ! (unat (dt_next t) mod length (dt_addresses t)), dt_port t) = Inr c"
  shows "fst (transport_dial tcp t) = Inr c"
proof -
  let ?as = "dt_addresses t"
  have "dial_order (dt_next t) ?as \<noteq> []" "hd (dial_order (dt_next t) ?as) = ?as ! (unat (dt_next t) mod length ?as)"
    using assms(1) by (simp_all add: dial_order_rotate hd_rotate_conv_nth)
  then obtain xs where "dial_order (dt_next t) ?as = (?as ! (unat (dt_next t) mod length ?as)) # xs"
    by (metis list.collapse)
  with assms(2) show ?thesis by (simp add: transport_dial_def Let_def)
qed

section \<open>A valid configuration reaches its resolver without a lookup\<close>

definition pinned_transport :: "url \<Rightarrow> addr list \<Rightarrow> doh_transport \<Rightarrow> bool" where
  "pinned_transport u bootstrap t \<longleftrightarrow>
     \<not> dt_proxied t \<and> cfg_min_version (dt_tls t) = version_tls13 \<and> cfg_max_version (dt_tls t) = version_tls13
     \<and> cfg_server_name (dt_tls t) = url_hostname u \<and> 0 < dt_dial_timeout t \<and> 0 < dt_tls_timeout t
     \<and> dt_addresses t \<noteq> [] \<and> (\<forall>a \<in> set (dt_addresses t). dialable a)
     \<and> (dt_addresses t = bootstrap \<or> (bootstrap = [] \<and> (\<exists>a. parse_addr (url_hostname u) = Some a \<and> dt_addresses t = [a])))"

lemma new_doh_transport_pinned:
  assumes "new_doh_transport u bootstrap given = ok t"
  shows "pinned_transport u bootstrap t"
proof -
  have "0 < t_dial (transport_timeouts given)" "0 < t_tls_handshake (transport_timeouts given)"
    using defaults_valid by (auto simp: transport_timeouts_def valid_timeouts_def)
  moreover from assms obtain as port where "doh_endpoints u bootstrap = ok (as, port)"
    and "dt_addresses t = as" "\<not> dt_proxied t" "dt_tls t = new_tls_config (url_hostname u) [] []"
      "dt_dial_timeout t = t_dial (transport_timeouts given)" "dt_tls_timeout t = t_tls_handshake (transport_timeouts given)"
    by (auto simp: new_doh_transport_def bind_result_eq_ok Let_def)
  ultimately show ?thesis
    using doh_endpoints_ok [of u bootstrap as port] by (simp add: pinned_transport_def new_tls_config_def)
qed

lemma new_resolver_pinned:
  assumes "new_resolver url_string False (Some u) bootstrap t = ok r"
  shows "\<exists>tr. rc_transport r = Some tr \<and> pinned_transport u bootstrap tr" and "\<not> rc_redirects r" and "0 < rc_timeout r"
proof -
  show "\<exists>tr. rc_transport r = Some tr \<and> pinned_transport u bootstrap tr"
    using assms new_doh_transport_pinned by (auto simp: new_resolver_def Let_def bind_result_eq_ok)
  have "0 < resolver_timeout t"
    using defaults_valid by (auto simp: resolver_timeout_def valid_timeouts_def)
  then show "\<not> rc_redirects r" "0 < rc_timeout r"
    using assms by (auto simp: new_resolver_def Let_def bind_result_eq_ok)
qed

text \<open>
  A resolver is built for every valid configuration but one kind: an endpoint by address without bootstrap
  addresses, whose address validation does not look at and the transport refuses.
\<close>

lemma new_resolver_of_valid:
  assumes "validate_doh_bootstrap (Some u) bootstrap = ok ()"
  shows "(\<exists>r. new_resolver url_string False (Some u) bootstrap t = ok r) \<longleftrightarrow>
    bootstrap \<noteq> [] \<or> (\<forall>a. parse_addr (url_hostname u) = Some a \<longrightarrow> dialable a)"
proof (cases "bootstrap = []")
  case True
  with assms obtain a where a: "parse_addr (url_hostname u) = Some a" by (auto simp: validate_doh_bootstrap_ok)
  with True show ?thesis
    by (auto simp: new_resolver_def new_doh_transport_def doh_endpoints_def Let_def dialable_def)
next
  case False
  with validated_doh_endpoints [OF assms] show ?thesis
    by (auto simp: new_resolver_def new_doh_transport_def Let_def)
qed

lemma undialable_endpoint_passes_validation:
  "\<exists>u. validate_doh_url (Some u) = ok () \<and> validate_doh_bootstrap (Some u) [] = ok ()
     \<and> new_resolver url_string False (Some u) [] t = err (EndpointUnusable (NotDialable (Addr4 0)))"
proof -
  let ?u = "sample_url ''https'' ''0.0.0.0''"
  have h: "url_hostname ?u = ''0.0.0.0''"
    by (simp add: sample_url_def url_hostname_def url_split_host_port_def cut_last_def has_prefix_def)
  have a: "parse_addr ''0.0.0.0'' = Some (Addr4 0)" by (simp add: parse_addr_evals octets_value_def)
  have "to_lower ''/dns-query'' = ''/dns-query''" by (rule to_lower_id) (auto simp: in_range_def)
  then have "validate_doh_url (Some ?u) = ok ()"
    unfolding validate_doh_url_ok using h by (simp add: sample_url_def has_prefix_def)
  moreover have "validate_doh_bootstrap (Some ?u) [] = ok ()" by (simp add: validate_doh_bootstrap_ok h a)
  moreover have "new_resolver url_string False (Some ?u) [] t = err (EndpointUnusable (NotDialable (Addr4 0)))"
    by (simp add: new_resolver_def new_doh_transport_def doh_endpoints_def Let_def h a is_unspecified_def is_valid_def
        bind_result_def map_err_def)
  ultimately show ?thesis by blast
qed

end
