(* ===== verification/Tunnel_Client.thy ===== *)
theory Tunnel_Client
  imports Inner_Tls Protocol_Codec Policy_Checker Doh_Client
begin

text \<open>
  \<open>internal/tunnel/client.go\<close>: tunnel_result one tunnel. The front stream is what the dialer of the
  client returns; the inner connection is a stream to read and a pipe to write. The context is
  asked at the points where the code asks it, so it is a function of the point.
\<close>

section \<open>State and environment\<close>

record client =
  cl_config :: client_config
  cl_token :: token
  cl_identity :: "identity option"

datatype context_error = ContextCanceled | ContextDeadline

datatype context_point =
    AfterHelloSendError | AfterHelloReceiveError | AfterHelloReceived
  | AfterOpenSendError | AfterOpenReceiveError | AfterOpenReceived | AfterAccepted

record open_env =
  oe_platform :: platform
  oe_x509 :: x509_tools
  oe_stream :: "net_error + tls_peer"
  oe_set_deadline :: "net_error option"
  oe_clear_deadline :: "net_error option"
  oe_context :: "context_point \<Rightarrow> context_error option"

datatype open_error =
    ClientNotConfigured
  | RemoteOpenError error_code
  | StreamFailed net_error
  | InnerTlsFailed inner_error
  | DeadlineNotSet net_error
  | ContextEnded context_error
  | CertificateRejected "net_error option"
  | AuthenticationFailed
  | HelloSendFailed "net_error encode_error"
  | HelloReceiveFailed proto_error "net_error option"
  | UnexpectedHelloReply message_type
  | OpenSendFailed "net_error encode_error"
  | OpenReceiveFailed proto_error "net_error option"
  | UnexpectedOpenReply message_type
  | ClearDeadlineFailed net_error

type_synonym tunnel_result = "(open_error, unit) result"

text \<open>
  The inner connection, whether a stream was dialed and whether everything dialed was closed.
\<close>

record tunnel =
  tn_reader :: "net_error stream"
  tn_pipe :: "net_error pipe"
  tn_dialed :: bool
  tn_closed :: bool

section \<open>Messages over the inner connection\<close>

text \<open>The error of the connection that a decoding error wraps, and the one an encoding error wraps.\<close>

definition io_cause :: "net_error io_error \<Rightarrow> net_error option" where
  "io_cause e = (case e of IoError x \<Rightarrow> Some x | _ \<Rightarrow> None)"

definition decode_cause :: "proto_error \<Rightarrow> net_error stream \<Rightarrow> net_error option" where
  "decode_cause e rd =
     (if e = Malformed TruncatedPrefix \<or> e = Malformed TruncatedBody then io_cause (stream_end rd) else None)"

definition encode_cause :: "net_error encode_error \<Rightarrow> net_error option" where
  "encode_cause e = (case e of WriteLength x \<Rightarrow> io_cause x | WriteBody x \<Rightarrow> io_cause x | _ \<Rightarrow> None)"

definition tunnel_send :: "message \<Rightarrow> tunnel \<Rightarrow> (net_error encode_error, unit) result \<times> tunnel" where
  "tunnel_send m t =
     (case encode (Some pipe_write) (max_control_message_bytes default_limits) (tn_pipe t) (Struct m) of
        (r, p) \<Rightarrow> (r, t\<lparr>tn_pipe := p\<rparr>))"

definition tunnel_receive :: "tunnel \<Rightarrow> (proto_error, message) result \<times> tunnel" where
  "tunnel_receive t =
     (case decode (max_control_message_bytes default_limits) (tn_reader t) of (r, rd) \<Rightarrow> (r, t\<lparr>tn_reader := rd\<rparr>))"

text \<open>A context that ended takes precedence over any other error.\<close>

definition or_context :: "open_env \<Rightarrow> context_point \<Rightarrow> open_error \<Rightarrow> tunnel_result" where
  "or_context env point e = (case oe_context env point of Some c \<Rightarrow> err (ContextEnded c) | None \<Rightarrow> err e)"

section \<open>Opening\<close>

definition open_reply :: "open_env \<Rightarrow> message \<Rightarrow> tunnel_result" where
  "open_reply env m =
     (case m of
        OpenOK \<Rightarrow>
          (case oe_context env AfterAccepted of Some c \<Rightarrow> err (ContextEnded c)
           | None \<Rightarrow> (case oe_clear_deadline env of Some e \<Rightarrow> err (ClearDeadlineFailed e) | None \<Rightarrow> ok ()))
      | OpenError c \<Rightarrow> err (RemoteOpenError c)
      | _ \<Rightarrow> err (UnexpectedOpenReply (type_of m)))"

definition send_open :: "open_env \<Rightarrow> destination \<Rightarrow> tunnel \<Rightarrow> tunnel_result \<times> tunnel" where
  "send_open env d t =
     (case tunnel_send (Open d) t of
        (Inl Panic, t) \<Rightarrow> (panic, t)
      | (Inl (Err e), t) \<Rightarrow> (or_context env AfterOpenSendError (OpenSendFailed e), t)
      | (Inr _, t) \<Rightarrow>
     (case tunnel_receive t of
        (Inl Panic, t) \<Rightarrow> (panic, t)
      | (Inl (Err e), t) \<Rightarrow>
          (or_context env AfterOpenReceiveError (OpenReceiveFailed e (decode_cause e (tn_reader t))), t)
      | (Inr m, t) \<Rightarrow>
          (case oe_context env AfterOpenReceived of Some c \<Rightarrow> (err (ContextEnded c), t)
           | None \<Rightarrow> (open_reply env m, t))))"

definition send_hello :: "open_env \<Rightarrow> token \<Rightarrow> destination \<Rightarrow> tunnel \<Rightarrow> tunnel_result \<times> tunnel" where
  "send_hello env tok d t =
     (case tunnel_send (Hello version1 tok) t of
        (Inl Panic, t) \<Rightarrow> (panic, t)
      | (Inl (Err e), t) \<Rightarrow>
          (or_context env AfterHelloSendError
             (if client_certificate_rejected (oe_platform env) (encode_cause e) then CertificateRejected (encode_cause e)
              else HelloSendFailed e), t)
      | (Inr _, t) \<Rightarrow>
     (case tunnel_receive t of
        (Inl Panic, t) \<Rightarrow> (panic, t)
      | (Inl (Err e), t) \<Rightarrow>
          let cause = decode_cause e (tn_reader t) in
          (or_context env AfterHelloReceiveError
             (if client_certificate_rejected (oe_platform env) cause then CertificateRejected cause
              else if e = CleanEOF then AuthenticationFailed
              else HelloReceiveFailed e cause), t)
      | (Inr m, t) \<Rightarrow>
          (case oe_context env AfterHelloReceived of Some c \<Rightarrow> (err (ContextEnded c), t)
           | None \<Rightarrow>
               if m \<noteq> HelloOK version1 then (err (UnexpectedHelloReply (type_of m)), t)
               else send_open env d t)))"

text \<open>
  \<open>Client.Open\<close>; \<open>None\<close> is the nil client. A failure after the inner handshake closes the inner
  connection and the stream, a failed inner handshake the stream.
\<close>

definition client_open :: "client option \<Rightarrow> open_env \<Rightarrow> destination \<Rightarrow> tunnel \<Rightarrow> tunnel_result \<times> tunnel" where
  "client_open client env d t =
     (case client of None \<Rightarrow> (err ClientNotConfigured, t)
      | Some c \<Rightarrow>
          let decision = (check_destination (client_checker (cl_config c)) d :: unit lookup_error decision) in
          if \<not> allowed decision then (err (RemoteOpenError (error_code_for (reason decision))), t)
          else case oe_stream env of
            Inl e \<Rightarrow> (err (StreamFailed e), t)
          | Inr peer \<Rightarrow>
              let t = t\<lparr>tn_dialed := True\<rparr> in
              (case dial_inner_tls (oe_x509 env) peer (c_server_pin (cl_config c)) (cl_identity c)
                      (t_tls_handshake (c_timeouts (cl_config c))) of
                 (Inl Panic, _) \<Rightarrow> (panic, t)
               | (Inl (Err e), _) \<Rightarrow> (err (InnerTlsFailed e), t\<lparr>tn_closed := True\<rparr>)
               | (Inr _, _) \<Rightarrow>
                   (case oe_set_deadline env of
                      Some e \<Rightarrow> (err (DeadlineNotSet e), t\<lparr>tn_closed := True\<rparr>)
                    | None \<Rightarrow>
                        (case send_hello env (cl_token c) d t of
                           (Inr u, t) \<Rightarrow> (ok u, t)
                         | (Inl f, t) \<Rightarrow> (Inl f, t\<lparr>tn_closed := True\<rparr>)))))"

section \<open>A client from its configuration\<close>

datatype client_fault =
    ClientConfigMissing | ClientConfigInvalid config_error | ClientTokenUnreadable "string token_file_error"
  | ClientIdentityUnavailable identity_error | ClientResolverUnavailable resolver_fault

text \<open>
  \<open>NewClient\<close>: the token and the identity come from the options or from their files, and the
  resolver of the stream dialer is built unless a dialer is given. The files and \<open>URL.String\<close> are
  arguments.
\<close>

definition new_client ::
  "client_config option \<Rightarrow> token \<Rightarrow> identity option \<Rightarrow> bool \<Rightarrow> (string \<Rightarrow> string + string file_info)
     \<Rightarrow> (string \<Rightarrow> (identity_error, identity) result) \<Rightarrow> (url \<Rightarrow> string) \<Rightarrow> (client_fault, client) result" where
  "new_client config tok identity has_dialer files load_identity_file url_string =
     (case config of None \<Rightarrow> err ClientConfigMissing
      | Some c \<Rightarrow>
          bind_result (map_err ClientConfigInvalid (validate_client c)) (\<lambda>_.
          bind_result (if token_is_zero tok
                       then map_err ClientTokenUnreadable (read_token (c_token_file c) (files (c_token_file c)))
                       else ok tok) (\<lambda>tok.
          bind_result (if identity = None \<and> c_client_identity_file c \<noteq> []
                       then bind_result (map_err ClientIdentityUnavailable (load_identity_file (c_client_identity_file c))) (\<lambda>i. ok (Some i))
                       else ok identity) (\<lambda>identity.
          bind_result (if has_dialer then ok None
                       else bind_result (map_err ClientResolverUnavailable
                         (new_resolver url_string False (c_doh_url c) (c_doh_bootstrap c) (c_timeouts c))) (\<lambda>r. ok (Some r))) (\<lambda>_.
          ok \<lparr>cl_config = c, cl_token = tok, cl_identity = identity\<rparr>)))))"

lemma new_client_ok:
  assumes "new_client config tok identity has_dialer files load_id url_string = ok cl"
  shows "\<exists>c. config = Some c \<and> cl_config cl = c \<and> validate_client c = ok ()"
    and "token_is_zero tok \<Longrightarrow> valid_token (cl_token cl)"
    and "\<not> token_is_zero tok \<Longrightarrow> cl_token cl = tok"
  using assms
  by (auto simp: new_client_def bind_result_eq_ok read_token_def new_token_ok
      split: option.split_asm if_split_asm)

section \<open>What the steps change\<close>

lemma tunnel_send_state:
  "tunnel_send m t = (r, t') \<Longrightarrow> tn_reader t' = tn_reader t \<and> tn_dialed t' = tn_dialed t \<and> tn_closed t' = tn_closed t
     \<and> encode (Some pipe_write) 4096 (tn_pipe t) (Struct m) = (r, tn_pipe t')"
  by (auto simp: tunnel_send_def default_limits_def split: prod.splits)

lemma tunnel_receive_state:
  "tunnel_receive t = (r, t') \<Longrightarrow> tn_pipe t' = tn_pipe t \<and> tn_dialed t' = tn_dialed t \<and> tn_closed t' = tn_closed t
     \<and> decode 4096 (tn_reader t) = (r, tn_reader t') \<and> no_panic r"
  using decode_no_panic [of 4096 "tn_reader t"]
  by (auto simp: tunnel_receive_def default_limits_def split: prod.splits)

lemma encode_no_panic: "encode (Some pipe_write) n p (Struct m) = (r, p') \<Longrightarrow> no_panic r"
  using validate_message_no_panic [of m] pipe.write_all_sent
  by (fastforce simp: encode_def encode_message_def no_panic_def Let_def split: sum.split_asm prod.split_asm if_split_asm
      elim: marshal_message.elims)


lemma tunnel_send_no_panic: "tunnel_send m t = (r, t') \<Longrightarrow> no_panic r"
  using encode_no_panic tunnel_send_state by blast

lemma or_context_no_panic [simp]: "no_panic (or_context env p e)" "or_context env p e \<noteq> ok u" "or_context env p e \<noteq> panic"
  by (simp_all add: or_context_def split: option.splits)

lemma open_reply_ok: "open_reply env m = ok u \<longleftrightarrow> m = OpenOK \<and> oe_context env AfterAccepted = None \<and> oe_clear_deadline env = None"
  by (auto simp: open_reply_def split: message.splits option.splits)

lemma open_reply_no_panic: "no_panic (open_reply env m)"
  by (simp add: open_reply_def split: message.splits option.splits)

lemma send_open_state:
  assumes "send_open env d t = (r, t')"
  shows "tn_dialed t' = tn_dialed t" and "tn_closed t' = tn_closed t" and "no_panic r"
  using assms
  by (auto simp: send_open_def open_reply_no_panic split: prod.split_asm sum.split_asm failure.split_asm option.split_asm
      dest!: tunnel_send_state tunnel_receive_state dest: encode_no_panic)

lemma send_hello_state:
  assumes "send_hello env tok d t = (r, t')"
  shows "tn_dialed t' = tn_dialed t" and "tn_closed t' = tn_closed t" and "no_panic r"
  using assms
  by (auto simp: send_hello_def Let_def split: prod.split_asm sum.split_asm failure.split_asm option.split_asm if_split_asm
      dest!: tunnel_send_state tunnel_receive_state dest: encode_no_panic send_open_state)

section \<open>What an opened tunnel means\<close>

text \<open>
  Nothing is written before the handshake pinned the server, so the token reaches no other peer;
  an undialed client stays silent.
\<close>

lemma client_open_pinned_first:
  assumes "client_open (Some c) env d t = (r, t')" and "tn_pipe t' \<noteq> tn_pipe t"
  shows "\<exists>peer info. oe_stream env = Inr peer
    \<and> fst (dial_inner_tls (oe_x509 env) peer (c_server_pin (cl_config c)) (cl_identity c)
              (t_tls_handshake (c_timeouts (cl_config c)))) = ok info
    \<and> allowed (check_destination (client_checker (cl_config c)) d :: unit lookup_error decision)"
  using assms
  by (auto simp: client_open_def Let_def split: prod.split_asm sum.split_asm failure.split_asm option.split_asm if_split_asm)

lemma client_open_cases:
  assumes "client_open cl env d t = (r, t')"
  obtains (quiet) e where "r = err e" "t' = t"
    | (failed) e where "r = err e" "t' = t\<lparr>tn_dialed := True, tn_closed := True\<rparr>"
    | (hello) c t1 where "cl = Some c" "send_hello env (cl_token c) d (t\<lparr>tn_dialed := True\<rparr>) = (r, t1)"
        "t' = (if isl r then t1\<lparr>tn_closed := True\<rparr> else t1)"
proof (cases cl)
  case None
  with assms quiet show ?thesis by (auto simp: client_open_def)
next
  case (Some c)
  note run = assms [unfolded client_open_def Some option.case Let_def]
  show ?thesis
  proof (cases "allowed (check_destination (client_checker (cl_config c)) d :: unit lookup_error decision)")
    case False
    with run quiet show ?thesis by auto
  next
    case True
    show ?thesis
    proof (cases "oe_stream env")
      case (Inl e)
      with True run quiet show ?thesis by auto
    next
      case (Inr peer)
      obtain q k where dl: "dial_inner_tls (oe_x509 env) peer (c_server_pin (cl_config c)) (cl_identity c)
          (t_tls_handshake (c_timeouts (cl_config c))) = (q, k)" by fastforce
      with inner_tls_no_panic(1) have "no_panic q" by (metis fst_conv)
      show ?thesis
      proof (cases q)
        case (Inl f)
        with \<open>no_panic q\<close> True Inr run dl failed show ?thesis by (cases f) auto
      next
        case (Inr info)
        obtain p t1 where sh: "send_hello env (cl_token c) d (t\<lparr>tn_dialed := True\<rparr>) = (p, t1)" by fastforce
        note run2 = run [unfolded if_not_P [OF iffD2 [OF not_not True]] \<open>oe_stream env = Inr peer\<close> sum.case dl Inr prod.case]
        then show ?thesis
        proof (cases "oe_set_deadline env")
          case (Some e)
          with run2 show ?thesis by (intro failed [of "DeadlineNotSet e"]) simp_all
        next
          case None
          with run2 sh have "r = p \<and> t' = (if isl p then t1\<lparr>tn_closed := True\<rparr> else t1)"
            by (cases p) auto
          with sh show ?thesis by (intro hello [OF \<open>cl = Some c\<close>]) simp_all
        qed
      qed
    qed
  qed
qed

lemma client_open_closes:
  assumes "client_open cl env d t = (r, t')" and "\<not> tn_dialed t" and "\<not> tn_closed t"
  shows "no_panic r" and "r = ok () \<Longrightarrow> tn_dialed t' \<and> \<not> tn_closed t'" and "r \<noteq> ok () \<Longrightarrow> tn_closed t' = tn_dialed t'"
proof -
  have "no_panic r \<and> (r = ok () \<longrightarrow> tn_dialed t' \<and> \<not> tn_closed t') \<and> (r \<noteq> ok () \<longrightarrow> tn_closed t' = tn_dialed t')"
    using assms(1)
  proof (cases rule: client_open_cases)
    case (hello c t1)
    with send_hello_state [OF hello(2)] assms(2,3) show ?thesis by (cases r) auto
  qed (use assms(2,3) in auto)
  then show "no_panic r" and "r = ok () \<Longrightarrow> tn_dialed t' \<and> \<not> tn_closed t'" and "r \<noteq> ok () \<Longrightarrow> tn_closed t' = tn_dialed t'"
    by auto
qed

lemma tunnel_send_frame:
  assumes "tunnel_send m t = (ok u, t')" and "valid_message m"
  shows "received (tn_pipe t') = received (tn_pipe t) @ frame m"
  using pipe.encode_sends_frame [of 4096 "tn_pipe t" m "tn_pipe t'"] tunnel_send_state [OF assms(1)] assms(2) by auto

lemma send_open_ok:
  assumes "send_open env d t = (ok u, t')" and "valid_destination d"
  shows "received (tn_pipe t') = received (tn_pipe t) @ frame (Open d)"
    and "decode 4096 (tn_reader t) = (ok OpenOK, tn_reader t')"
proof -
  from assms(1) obtain x t1 m where
    s: "tunnel_send (Open d) t = (ok x, t1)" and rc: "tunnel_receive t1 = (ok m, t')" and m: "open_reply env m = ok u"
    by (auto simp: send_open_def split: prod.split_asm sum.split_asm failure.split_asm option.split_asm)
  from tunnel_send_frame [OF s] tunnel_send_state [OF s] tunnel_receive_state [OF rc] m assms(2)
  show "received (tn_pipe t') = received (tn_pipe t) @ frame (Open d)"
    and "decode 4096 (tn_reader t) = (ok OpenOK, tn_reader t')"
    by (auto simp: open_reply_ok)
qed

lemma send_hello_ok:
  assumes "send_hello env tok d t = (ok u, t')" and "valid_token tok" and "valid_destination d"
  shows "received (tn_pipe t') = received (tn_pipe t) @ frame (Hello version1 tok) @ frame (Open d)"
    and "\<exists>rd. decode 4096 (tn_reader t) = (ok (HelloOK version1), rd) \<and> decode 4096 rd = (ok OpenOK, tn_reader t')"
proof -
  from assms(1) obtain x t1 t2 where
    s: "tunnel_send (Hello version1 tok) t = (ok x, t1)" and rc: "tunnel_receive t1 = (ok (HelloOK version1), t2)"
    and op: "send_open env d t2 = (ok u, t')"
    by (auto simp: send_hello_def Let_def split: prod.split_asm sum.split_asm failure.split_asm option.split_asm if_split_asm)
  from tunnel_send_frame [OF s] tunnel_send_state [OF s] tunnel_receive_state [OF rc] send_open_ok [OF op assms(3)] assms(2)
  show "received (tn_pipe t') = received (tn_pipe t) @ frame (Hello version1 tok) @ frame (Open d)"
    and "\<exists>rd. decode 4096 (tn_reader t) = (ok (HelloOK version1), rd) \<and> decode 4096 rd = (ok OpenOK, tn_reader t')"
    by auto
qed

lemma client_open_ok:
  assumes "client_open (Some c) env d t = (ok u, t')"
  shows "\<exists>peer info t1. oe_stream env = Inr peer
      \<and> fst (dial_inner_tls (oe_x509 env) peer (c_server_pin (cl_config c)) (cl_identity c)
              (t_tls_handshake (c_timeouts (cl_config c)))) = ok info
      \<and> send_hello env (cl_token c) d (t\<lparr>tn_dialed := True\<rparr>) = (ok u, t')"
    and "allowed (check_destination (client_checker (cl_config c)) d :: unit lookup_error decision)"
  using assms
  by (auto simp: client_open_def Let_def split: prod.split_asm sum.split_asm failure.split_asm option.split_asm if_split_asm)

end
