(* ===== verification/Log_Redaction.thy ===== *)
theory Log_Redaction
  imports Config_Settings
begin

text \<open>
  \<open>internal/logging/logging.go\<close>: the logger and the redaction its handler applies to every
  attribute. Of \<open>slog\<close> the model keeps what the program relies on: a record below the configured
  level is dropped, the attributes bound earlier come before those of the record, and the replacing
  function is called on every attribute that is not a group, at any depth, before it is written.
\<close>

definition redacted :: string where "redacted = ''[redacted]''"

definition key_target :: string where "key_target = ''target''"
definition key_host :: string where "key_host = ''host''"
definition key_relay :: string where "key_relay = ''relay''"
definition key_error :: string where "key_error = ''error''"
definition key_reason :: string where "key_reason = ''reason''"

definition secret_keys :: "string list" where
  "secret_keys = [''token'', ''secret'', ''password'', ''api_key'', ''apikey'', ''authorization'', ''credential'', ''cookie'']"

definition target_keys :: "string list" where
  "target_keys = [key_target, key_host, key_relay, ''hostname'', ''authority'', ''sni'', ''url'']"

datatype attr = Attr string string | AttrGroup string "attr list"

definition redactor :: "bool \<Rightarrow> string \<Rightarrow> string \<Rightarrow> string" where
  "redactor include_targets key v =
     (let k = to_lower key in
      if k \<in> set secret_keys then redacted
      else if \<not> include_targets \<and> k \<in> set target_keys then redacted
      else v)"

datatype slog_level = LevelDebug | LevelInfo | LevelWarn | LevelError

fun level_value :: "slog_level \<Rightarrow> int" where
  "level_value LevelDebug = - 4"
| "level_value LevelInfo = 0"
| "level_value LevelWarn = 4"
| "level_value LevelError = 8"

definition level :: "string \<Rightarrow> slog_level" where
  "level configured =
     (if configured = log_level_debug then LevelDebug
      else if configured = log_level_warn then LevelWarn
      else if configured = log_level_error then LevelError
      else LevelInfo)"

record logger =
  lg_level :: slog_level
  lg_json :: bool
  lg_include_targets :: bool
  lg_bound :: "attr list"
  lg_discard :: bool

definition new_logger :: "log_options \<Rightarrow> logger" where
  "new_logger o' =
     \<lparr>lg_level = level (log_level o'), lg_json = (log_format o' = log_format_json),
      lg_include_targets = log_include_targets o', lg_bound = [], lg_discard = False\<rparr>"

definition discard_logger :: logger where
  "discard_logger = \<lparr>lg_level = LevelInfo, lg_json = False, lg_include_targets = False, lg_bound = [], lg_discard = True\<rparr>"

definition logger_with :: "logger \<Rightarrow> attr list \<Rightarrow> logger" where
  "logger_with l as = l\<lparr>lg_bound := lg_bound l @ as\<rparr>"

definition target_attr :: "logger \<Rightarrow> string \<Rightarrow> attr" where
  "target_attr l authority_text =
     (if \<not> lg_include_targets l then Attr key_target redacted else Attr key_target authority_text)"

fun replace_attr :: "bool \<Rightarrow> attr \<Rightarrow> attr" where
  "replace_attr include_targets (Attr k v) = Attr k (redactor include_targets k v)"
| "replace_attr include_targets (AttrGroup g as) = AttrGroup g (map (replace_attr include_targets) as)"

record log_record =
  rec_level :: slog_level
  rec_message :: string
  rec_attrs :: "attr list"

text \<open>What one call writes, if anything.\<close>

definition log_at :: "logger \<Rightarrow> slog_level \<Rightarrow> string \<Rightarrow> attr list \<Rightarrow> log_record list" where
  "log_at l lvl message as =
     (if lg_discard l \<or> level_value lvl < level_value (lg_level l) then []
      else [\<lparr>rec_level = lvl, rec_message = message,
             rec_attrs = map (replace_attr (lg_include_targets l)) (lg_bound l @ as)\<rparr>])"

section \<open>Withheld values leave no trace\<close>

text \<open>
  Two attributes that may differ only in values that have to be withheld: secrets always, targets
  unless the operator opted in.
\<close>

definition withheld :: "bool \<Rightarrow> string \<Rightarrow> bool" where
  "withheld include_targets key \<longleftrightarrow> to_lower key \<in> set secret_keys \<or> (\<not> include_targets \<and> to_lower key \<in> set target_keys)"

inductive same_attr :: "bool \<Rightarrow> attr \<Rightarrow> attr \<Rightarrow> bool" for include_targets where
  equal: "same_attr include_targets (Attr k v) (Attr k v)"
| hidden: "withheld include_targets k \<Longrightarrow> same_attr include_targets (Attr k v) (Attr k w)"
| nested: "list_all2 (same_attr include_targets) as bs \<Longrightarrow> same_attr include_targets (AttrGroup g as) (AttrGroup g bs)"
monos list_all2_mono

inductive_cases same_attr_elims: "same_attr i (Attr k v) b" "same_attr i (AttrGroup g as) b"

lemma redactor_withheld: "withheld i k \<Longrightarrow> redactor i k v = redacted"
  by (auto simp: withheld_def redactor_def Let_def)

lemma replace_attr_same: "same_attr i a b \<Longrightarrow> replace_attr i a = replace_attr i b"
proof (induction rule: same_attr.induct)
  case (nested as bs g)
  then have "map (replace_attr i) as = map (replace_attr i) bs"
    by (induction rule: list_all2_induct) simp_all
  then show ?case by simp
qed (simp_all add: redactor_withheld)

lemma log_at_same:
  assumes "list_all2 (same_attr (lg_include_targets l)) as bs"
  shows "log_at l lvl message as = log_at l lvl message bs"
proof -
  have "map (replace_attr (lg_include_targets l)) as = map (replace_attr (lg_include_targets l)) bs"
    using assms by (induction rule: list_all2_induct) (simp_all add: replace_attr_same)
  then show ?thesis by (simp add: log_at_def)
qed

text \<open>The attribute of a destination survives only under the opt-in, whatever handler writes it.\<close>

lemma target_attr_hides: "\<not> lg_include_targets l \<Longrightarrow> target_attr l x = target_attr l y"
  by (simp add: target_attr_def)

text \<open>Every value that is written passed the redaction, those bound earlier included.\<close>

fun attr_leaves :: "attr \<Rightarrow> (string \<times> string) list" where
  "attr_leaves (Attr k v) = [(k, v)]"
| "attr_leaves (AttrGroup g as) = concat (map attr_leaves as)"

lemma replace_attr_leaves: "(k, v) \<in> set (attr_leaves (replace_attr i a)) \<Longrightarrow> withheld i k \<Longrightarrow> v = redacted"
  by (induction a) (auto simp: redactor_withheld)

lemma log_at_leaves:
  assumes "r \<in> set (log_at l lvl message as)" and "a \<in> set (rec_attrs r)" and "(k, v) \<in> set (attr_leaves a)"
    and "withheld (lg_include_targets l) k"
  shows "v = redacted"
  using assms by (auto simp: log_at_def split: if_split_asm dest: replace_attr_leaves)

text \<open>The keys of the program are already lower case, so the match is on the key as it is written.\<close>

lemma target_key_withheld: "withheld False key_target" "withheld False key_host" "withheld False key_relay"
proof -
  have "to_lower k = k" if "k \<in> {key_target, key_host, key_relay}" for k
    using that by (intro to_lower_id) (auto simp: key_target_def key_host_def key_relay_def in_range_def)
  then show "withheld False key_target" "withheld False key_host" "withheld False key_relay"
    by (simp_all add: withheld_def target_keys_def)
qed

section \<open>Properties\<close>



end
