(* ===== verification/Relay_Copy.thy ===== *)
theory Relay_Copy
  imports Go_Io
begin

text \<open>
  \<open>internal/relay/relay.go\<close>: the two directions of a relay, the goroutine that watches them, and
  what the relay returns. Each connection is a stream to read and a pipe to write. The goroutines
  interleave, so the relay is a step relation; the clock only advances by a step of its own.
\<close>

section \<open>One direction\<close>

datatype copy_error = CopyCanceled | CopyDeadline | CopyClosed | CopyIdle | CopyOther string

definition copy_buffer_bytes :: nat where "copy_buffer_bytes = 32768"

text \<open>
  A direction: what its source still delivers, what its destination got, how it ended (\<open>None\<close> while
  it runs), and the half-closes it made, of the destination for writing and the source for reading.
\<close>

record flow =
  fl_source :: "copy_error stream"
  fl_sink :: "copy_error pipe"
  fl_ended :: "copy_error option option"
  fl_closed_write :: bool
  fl_closed_read :: bool

definition flow_error :: "copy_error io_error \<Rightarrow> copy_error" where
  "flow_error e = (case e of IoError x \<Rightarrow> x | EOF \<Rightarrow> CopyOther ''EOF'' | UnexpectedEOF \<Rightarrow> CopyOther ''unexpected EOF''
     | ShortWrite \<Rightarrow> CopyOther ''short write'')"

definition half_close :: "flow \<Rightarrow> flow" where
  "half_close f = f\<lparr>fl_closed_write := True, fl_closed_read := True\<rparr>"

text \<open>
  One round of \<open>io.Copy\<close>: a read, a write of what was read, and only then the error of the read. A
  clean end half-closes both ends of the direction.
\<close>

definition copy_chunk :: "flow \<Rightarrow> flow" where
  "copy_chunk f =
     (case stream_read (fl_source f) copy_buffer_bytes of (d, rerr, src) \<Rightarrow>
        let f = f\<lparr>fl_source := src\<rparr>;
            (sink, werr) =
              (if length d = 0 then (fl_sink f, None)
               else case pipe_write (fl_sink f) d of (n, e, sink) \<Rightarrow>
                 (sink, case e of Some e \<Rightarrow> Some (flow_error e)
                        | None \<Rightarrow> if n \<noteq> length d then Some (flow_error ShortWrite) else None));
            f = f\<lparr>fl_sink := sink\<rparr>
        in (case werr of
              Some e \<Rightarrow> f\<lparr>fl_ended := Some (Some e)\<rparr>
            | None \<Rightarrow>
                (case rerr of
                   None \<Rightarrow> f
                 | Some e \<Rightarrow> if e = EOF then half_close (f\<lparr>fl_ended := Some None\<rparr>)
                            else f\<lparr>fl_ended := Some (Some (flow_error e))\<rparr>)))"

section \<open>The relay\<close>

record options =
  op_idle :: int
  op_max_lifetime :: int

datatype copy_refusal = NegativeTimeout

definition check_options :: "options \<Rightarrow> (copy_refusal, unit) result" where
  "check_options opts = (if op_idle opts < 0 \<or> op_max_lifetime opts < 0 then err NegativeTimeout else ok ())"

record relay =
  ry_forward :: flow
  ry_backward :: flow
  ry_results :: "copy_error option list"
  ry_interrupted :: "copy_error option"
  ry_deadline :: bool
  ry_activity :: bool
  ry_clock :: int
  ry_armed :: int
  ry_watching :: bool

definition new_flow :: "copy_error stream \<Rightarrow> copy_error pipe \<Rightarrow> flow" where
  "new_flow src sink = \<lparr>fl_source = src, fl_sink = sink, fl_ended = None, fl_closed_write = False, fl_closed_read = False\<rparr>"

text \<open>The relay after the first \<open>touch\<close>, before any goroutine ran.\<close>

definition new_relay :: "flow \<Rightarrow> flow \<Rightarrow> int \<Rightarrow> relay" where
  "new_relay forward backward now =
     \<lparr>ry_forward = forward, ry_backward = backward, ry_results = [], ry_interrupted = None, ry_deadline = False,
      ry_activity = True, ry_clock = now, ry_armed = now, ry_watching = True\<rparr>"

definition moved :: "flow \<Rightarrow> flow \<Rightarrow> bool" where
  "moved f g \<longleftrightarrow> length (pending (fl_source g)) < length (pending (fl_source f))
     \<or> length (received (fl_sink f)) < length (received (fl_sink g))"

definition report :: "flow \<Rightarrow> relay \<Rightarrow> relay" where
  "report f r = (case fl_ended f of None \<Rightarrow> r | Some e \<Rightarrow> r\<lparr>ry_results := ry_results r @ [e]\<rparr>)"

definition touched :: "flow \<Rightarrow> flow \<Rightarrow> relay \<Rightarrow> relay" where
  "touched f g r = r\<lparr>ry_activity := ry_activity r \<or> moved f g\<rparr>"

text \<open>A read or write after \<open>interruptConnections\<close> fails with the deadline of the connection.\<close>

definition cut_off :: "flow \<Rightarrow> flow" where
  "cut_off f = f\<lparr>fl_ended := Some (Some (CopyOther ''i/o timeout''))\<rparr>"

definition interrupt :: "copy_error \<Rightarrow> relay \<Rightarrow> relay" where
  "interrupt e r =
     r\<lparr>ry_interrupted := (case ry_interrupted r of None \<Rightarrow> Some e | Some x \<Rightarrow> Some x), ry_deadline := True,
       ry_watching := False\<rparr>"

inductive relay_step :: "options \<Rightarrow> relay \<Rightarrow> relay \<Rightarrow> bool" for opts where
  forward: "fl_ended (ry_forward r) = None \<Longrightarrow> f = copy_chunk (ry_forward r) \<Longrightarrow>
     relay_step opts r (report f (touched (ry_forward r) f (r\<lparr>ry_forward := f\<rparr>)))"
| backward: "fl_ended (ry_backward r) = None \<Longrightarrow> f = copy_chunk (ry_backward r) \<Longrightarrow>
     relay_step opts r (report f (touched (ry_backward r) f (r\<lparr>ry_backward := f\<rparr>)))"
| cut_forward: "fl_ended (ry_forward r) = None \<Longrightarrow> ry_deadline r \<Longrightarrow> f = cut_off (ry_forward r) \<Longrightarrow>
     relay_step opts r (report f (r\<lparr>ry_forward := f\<rparr>))"
| cut_backward: "fl_ended (ry_backward r) = None \<Longrightarrow> ry_deadline r \<Longrightarrow> f = cut_off (ry_backward r) \<Longrightarrow>
     relay_step opts r (report f (r\<lparr>ry_backward := f\<rparr>))"
| first_failed: "ry_results r = Some e # es \<Longrightarrow> relay_step opts r (r\<lparr>ry_deadline := True\<rparr>)"
| watch_activity: "ry_watching r \<Longrightarrow> ry_activity r \<Longrightarrow> relay_step opts r (r\<lparr>ry_activity := False, ry_armed := ry_clock r\<rparr>)"
| watch_idle: "ry_watching r \<Longrightarrow> 0 < op_idle opts \<Longrightarrow> op_idle opts \<le> ry_clock r - ry_armed r \<Longrightarrow>
     relay_step opts r (interrupt CopyIdle r)"
| watch_context: "ry_watching r \<Longrightarrow> e = CopyCanceled \<or> e = CopyDeadline \<Longrightarrow> relay_step opts r (interrupt e r)"
| tick: "0 < dt \<Longrightarrow> relay_step opts r (r\<lparr>ry_clock := ry_clock r + dt\<rparr>)"

inductive relay_reachable :: "options \<Rightarrow> relay \<Rightarrow> relay \<Rightarrow> bool" for opts r0 where
  start: "relay_reachable opts r0 r0"
| step: "relay_reachable opts r0 r \<Longrightarrow> relay_step opts r r' \<Longrightarrow> relay_reachable opts r0 r'"

text \<open>\<open>Copy\<close> returns once both directions reported: the interruption, or the errors joined.\<close>

definition relay_outcome :: "relay \<Rightarrow> copy_error list option" where
  "relay_outcome r =
     (if length (ry_results r) < 2 then None
      else Some (case ry_interrupted r of Some e \<Rightarrow> [e] | None \<Rightarrow> List.map_filter id (ry_results r)))"

section \<open>A direction delivers what it read\<close>

text \<open>
  From a flow \<open>f0\<close> to \<open>f\<close>: what was consumed of the source has been delivered, all of it unless the
  direction failed, and a clean end left nothing behind and half-closed both ends.
\<close>

definition flow_inv :: "flow \<Rightarrow> flow \<Rightarrow> bool" where
  "flow_inv f0 f \<longleftrightarrow>
     (\<exists>consumed k. pending (fl_source f0) = consumed @ pending (fl_source f)
        \<and> received (fl_sink f) = received (fl_sink f0) @ take k consumed
        \<and> ((\<forall>e. fl_ended f \<noteq> Some (Some e)) \<longrightarrow> length consumed \<le> k))
   \<and> (fl_ended f = Some None \<longrightarrow> pending (fl_source f) = [])
   \<and> (fl_closed_write f \<longleftrightarrow> fl_ended f = Some None) \<and> (fl_closed_read f \<longleftrightarrow> fl_ended f = Some None)"

lemma stream_read_pending:
  "stream_read s n = (d, e, s') \<Longrightarrow> pending s = d @ pending s' \<and> (e \<noteq> None \<longrightarrow> d = [] \<and> pending s = [])"
  by (auto simp: stream_read_def pending_def split: list.split_asm if_split_asm)

lemma copy_chunk_inv:
  assumes inv: "flow_inv f0 f" and running: "fl_ended f = None"
  shows "flow_inv f0 (copy_chunk f)"
proof -
  from inv running obtain consumed k where c: "pending (fl_source f0) = consumed @ pending (fl_source f)"
    "received (fl_sink f) = received (fl_sink f0) @ take k consumed" "length consumed \<le> k"
    and closed: "\<not> fl_closed_write f" "\<not> fl_closed_read f"
    by (auto simp: flow_inv_def)
  obtain d re src where rd: "stream_read (fl_source f) copy_buffer_bytes = (d, re, src)" by (metis prod_cases3)
  note rd' = stream_read_pending [OF rd]
  obtain n we sink where wr: "pipe_write (fl_sink f) d = (n, we, sink)" by (metis prod_cases3)
  have w: "n \<le> length d" "received sink = received (fl_sink f) @ take n d"
    using pipe.count_bound [OF wr] pipe.sent_grows [OF wr] .
  have cd: "pending (fl_source f0) = (consumed @ d) @ pending src" using c(1) rd' by simp
  have all: "received (fl_sink f) = received (fl_sink f0) @ consumed" using c(2,3) by simp
  show ?thesis
  proof (cases "d = []")
    case True
    with rd wr rd' c all closed running show ?thesis
      unfolding flow_inv_def copy_chunk_def
      by (auto simp: half_close_def Let_def split: option.split io_error.split
          intro!: exI [of _ consumed] exI [of _ "length consumed"])
  next
    case False
    with rd' have "re = None" by (cases re) auto
    have part: "received sink = received (fl_sink f0) @ take (length consumed + n) (consumed @ d)"
      using w all by simp
    show ?thesis
    proof (cases "we = None \<and> n = length d")
      case True
      then have "copy_chunk f = f\<lparr>fl_source := src, fl_sink := sink\<rparr>"
        using False rd wr \<open>re = None\<close> by (simp add: copy_chunk_def)
      with cd part closed running True show ?thesis
        unfolding flow_inv_def by (auto intro!: exI [of _ "consumed @ d"] exI [of _ "length consumed + n"])
    next
      case err: False
      then obtain e where "copy_chunk f = f\<lparr>fl_source := src, fl_sink := sink, fl_ended := Some (Some e)\<rparr>"
        using False rd wr \<open>re = None\<close> by (cases we) (auto simp: copy_chunk_def)
      with cd part closed show ?thesis
        unfolding flow_inv_def by (auto intro!: exI [of _ "consumed @ d"] exI [of _ "length consumed + n"])
    qed
  qed
qed

lemma cut_off_inv: "flow_inv f0 f \<Longrightarrow> fl_ended f = None \<Longrightarrow> flow_inv f0 (cut_off f)"
  by (auto simp: flow_inv_def cut_off_def)

lemma new_flow_inv: "flow_inv (new_flow src sink) (new_flow src sink)"
  by (auto simp: flow_inv_def new_flow_def)


section \<open>The relay as a whole\<close>

definition ends :: "flow \<Rightarrow> copy_error option list" where
  "ends f = (case fl_ended f of None \<Rightarrow> [] | Some e \<Rightarrow> [e])"

definition relay_inv :: "options \<Rightarrow> relay \<Rightarrow> relay \<Rightarrow> bool" where
  "relay_inv opts r0 r \<longleftrightarrow>
     flow_inv (ry_forward r0) (ry_forward r) \<and> flow_inv (ry_backward r0) (ry_backward r)
   \<and> (ry_results r = ends (ry_forward r) @ ends (ry_backward r) \<or> ry_results r = ends (ry_backward r) @ ends (ry_forward r))
   \<and> (ry_deadline r \<longrightarrow> ry_interrupted r \<noteq> None \<or> (\<exists>e. Some e \<in> set (ry_results r)))
   \<and> (ry_interrupted r = Some CopyIdle \<longrightarrow> 0 < op_idle opts)"

lemma report_simps [simp]:
  "ry_forward (report f r) = ry_forward r" "ry_backward (report f r) = ry_backward r"
  "ry_results (report f r) = ry_results r @ ends f" "ry_deadline (report f r) = ry_deadline r"
  "ry_interrupted (report f r) = ry_interrupted r" "ry_clock (report f r) = ry_clock r" "ry_armed (report f r) = ry_armed r"
  by (simp_all add: report_def ends_def split: option.split)

lemma touched_simps [simp]:
  "ry_forward (touched f g r) = ry_forward r" "ry_backward (touched f g r) = ry_backward r"
  "ry_results (touched f g r) = ry_results r" "ry_deadline (touched f g r) = ry_deadline r"
  "ry_interrupted (touched f g r) = ry_interrupted r" "ry_clock (touched f g r) = ry_clock r"
  "ry_armed (touched f g r) = ry_armed r"
  by (simp_all add: touched_def)

lemma ends_running [simp]: "fl_ended f = None \<Longrightarrow> ends f = []"
  by (simp add: ends_def)

lemma relay_step_inv:
  assumes "relay_step opts r r'" and "relay_inv opts r0 r"
  shows "relay_inv opts r0 r'"
  using assms
  by (cases rule: relay_step.cases)
    (auto simp: relay_inv_def interrupt_def intro: copy_chunk_inv cut_off_inv split: option.split)

definition initial :: "relay \<Rightarrow> bool" where
  "initial r \<longleftrightarrow> (\<exists>src1 sink1 src2 sink2 now. r = new_relay (new_flow src1 sink1) (new_flow src2 sink2) now)"

lemma initial_inv: "initial r0 \<Longrightarrow> relay_inv opts r0 r0"
  by (auto simp: initial_def relay_inv_def new_relay_def new_flow_inv ends_def new_flow_def intro: new_flow_inv [unfolded new_flow_def])

lemma relay_reachable_inv:
  assumes "relay_reachable opts r0 r" and "initial r0"
  shows "relay_inv opts r0 r"
  using assms(1) by (induction rule: relay_reachable.induct) (auto intro: initial_inv [OF assms(2)] relay_step_inv)

text \<open>At every moment each side holds a prefix of what the other side sent.\<close>

lemma relay_delivers_prefixes:
  assumes "relay_reachable opts r0 r" and "initial r0"
  shows "\<exists>k. received (fl_sink (ry_forward r)) = received (fl_sink (ry_forward r0)) @ take k (pending (fl_source (ry_forward r0)))"
    and "\<exists>k. received (fl_sink (ry_backward r)) = received (fl_sink (ry_backward r0)) @ take k (pending (fl_source (ry_backward r0)))"
proof -
  have "\<exists>k. received (fl_sink f) = received (fl_sink f0) @ take k (pending (fl_source f0))" if "flow_inv f0 f" for f0 f
  proof -
    from that obtain consumed k where "pending (fl_source f0) = consumed @ pending (fl_source f)"
      "received (fl_sink f) = received (fl_sink f0) @ take k consumed" by (auto simp: flow_inv_def)
    then show ?thesis by (intro exI [of _ "min k (length consumed)"]) (simp add: min_def)
  qed
  with relay_reachable_inv [OF assms] show
    "\<exists>k. received (fl_sink (ry_forward r)) = received (fl_sink (ry_forward r0)) @ take k (pending (fl_source (ry_forward r0)))"
    "\<exists>k. received (fl_sink (ry_backward r)) = received (fl_sink (ry_backward r0)) @ take k (pending (fl_source (ry_backward r0)))"
    unfolding relay_inv_def by blast+
qed

text \<open>A relay that returns without an error moved everything, both ways, and half-closed both ways.\<close>

definition complete :: "flow \<Rightarrow> flow \<Rightarrow> bool" where
  "complete f0 f \<longleftrightarrow> received (fl_sink f) = received (fl_sink f0) @ pending (fl_source f0)
     \<and> fl_closed_write f \<and> fl_closed_read f"

lemma flow_inv_complete:
  assumes "flow_inv f0 f" and "fl_ended f = Some None"
  shows "complete f0 f"
proof -
  from assms obtain consumed k where "pending (fl_source f0) = consumed" "length consumed \<le> k"
    "received (fl_sink f) = received (fl_sink f0) @ take k consumed"
    by (auto simp: flow_inv_def)
  with assms show ?thesis by (simp add: complete_def flow_inv_def)
qed

lemma map_filter_id_Nil: "List.map_filter id xs = [] \<longleftrightarrow> (\<forall>x \<in> set xs. x = None)"
  by (induction xs) (auto simp: map_filter_simps split: option.splits)

lemma relay_clean_outcome:
  assumes "relay_reachable opts r0 r" and "initial r0" and "relay_outcome r = Some []"
  shows "complete (ry_forward r0) (ry_forward r)" and "complete (ry_backward r0) (ry_backward r)"
proof -
  note inv = relay_reachable_inv [OF assms(1,2)]
  from assms(3) have len: "2 \<le> length (ry_results r)" and none: "\<forall>x \<in> set (ry_results r). x = None"
    by (auto simp: relay_outcome_def map_filter_id_Nil split: if_split_asm option.split_asm)
  with inv have "fl_ended (ry_forward r) = Some None" "fl_ended (ry_backward r) = Some None"
    by (auto simp: relay_inv_def ends_def split: option.splits)
  with inv show "complete (ry_forward r0) (ry_forward r)" and "complete (ry_backward r0) (ry_backward r)"
    by (auto simp: relay_inv_def intro: flow_inv_complete)
qed

text \<open>
  The connections are cut off only by an interruption or after a failed direction, so a clean end
  of one direction leaves the other running.
\<close>

lemma relay_cut_off_cause:
  assumes "relay_reachable opts r0 r" and "initial r0" and "ry_deadline r"
  shows "ry_interrupted r \<noteq> None \<or> (\<exists>e. fl_ended (ry_forward r) = Some (Some e) \<or> fl_ended (ry_backward r) = Some (Some e))"
  using relay_reachable_inv [OF assms(1,2)] assms(3)
  by (auto simp: relay_inv_def ends_def split: option.splits)

lemma relay_idle_step:
  assumes "relay_step opts r r'" and "ry_interrupted r = None" and "ry_interrupted r' = Some CopyIdle"
  shows "0 < op_idle opts" and "op_idle opts \<le> ry_clock r - ry_armed r"
  using assms by (cases rule: relay_step.cases; simp add: interrupt_def)+

lemma relay_never_idle_when_disabled:
  assumes "relay_reachable opts r0 r" and "initial r0" and "op_idle opts = 0"
  shows "ry_interrupted r \<noteq> Some CopyIdle"
  using relay_reachable_inv [OF assms(1,2)] assms(3) by (auto simp: relay_inv_def)

section \<open>The relay can always come to its end\<close>

lemma copy_chunk_progress:
  "fl_ended (copy_chunk f) \<noteq> None \<or> stream_size (fl_source (copy_chunk f)) < stream_size (fl_source f)"
proof -
  obtain d re src where rd: "stream_read (fl_source f) copy_buffer_bytes = (d, re, src)" by (metis prod_cases3)
  have "stream_size src < stream_size (fl_source f)" if "re = None"
    using stream_read_size [of "fl_source f" copy_buffer_bytes d src] rd that by (simp add: copy_buffer_bytes_def)
  with rd show ?thesis
    by (auto simp: copy_chunk_def Let_def half_close_def split: prod.split option.split)
qed

lemma forward_finishes:
  "\<exists>r'. (relay_step opts)\<^sup>*\<^sup>* r r' \<and> fl_ended (ry_forward r') \<noteq> None \<and> ry_backward r' = ry_backward r"
proof (induction "stream_size (fl_source (ry_forward r))" arbitrary: r rule: less_induct)
  case less
  show ?case
  proof (cases "fl_ended (ry_forward r)")
    case (Some e)
    then show ?thesis by auto
  next
    case None
    let ?f = "copy_chunk (ry_forward r)"
    let ?r = "report ?f (touched (ry_forward r) ?f (r\<lparr>ry_forward := ?f\<rparr>))"
    have st: "relay_step opts r ?r" using None by (rule relay_step.forward) simp
    show ?thesis
    proof (cases "fl_ended ?f")
      case (Some e)
      with st show ?thesis by (intro exI [of _ ?r]) auto
    next
      case None
      with copy_chunk_progress [of "ry_forward r"] have
        "stream_size (fl_source (ry_forward ?r)) < stream_size (fl_source (ry_forward r))" by simp
      from less [OF this] obtain r' where
        "(relay_step opts)\<^sup>*\<^sup>* ?r r'" "fl_ended (ry_forward r') \<noteq> None" "ry_backward r' = ry_backward ?r" by blast
      with st show ?thesis by (intro exI [of _ r']) (auto intro: converse_rtranclp_into_rtranclp)
    qed
  qed
qed

text \<open>The two directions are alike, so what one can do the other can.\<close>

definition mirror :: "relay \<Rightarrow> relay" where
  "mirror r = r\<lparr>ry_forward := ry_backward r, ry_backward := ry_forward r\<rparr>"

lemma mirror_mirror [simp]: "mirror (mirror r) = r"
  by (simp add: mirror_def)

lemma mirror_simps [simp]:
  "ry_forward (mirror r) = ry_backward r" "ry_backward (mirror r) = ry_forward r" "ry_results (mirror r) = ry_results r"
  "ry_deadline (mirror r) = ry_deadline r" "ry_watching (mirror r) = ry_watching r" "ry_activity (mirror r) = ry_activity r"
  "ry_clock (mirror r) = ry_clock r" "ry_armed (mirror r) = ry_armed r"
  "mirror (report f r) = report f (mirror r)" "mirror (touched f g r) = touched f g (mirror r)"
  "mirror (r\<lparr>ry_forward := f\<rparr>) = (mirror r)\<lparr>ry_backward := f\<rparr>" "mirror (r\<lparr>ry_backward := f\<rparr>) = (mirror r)\<lparr>ry_forward := f\<rparr>"
  "mirror (interrupt e r) = interrupt e (mirror r)" "mirror (r\<lparr>ry_deadline := b\<rparr>) = (mirror r)\<lparr>ry_deadline := b\<rparr>"
  "mirror (r\<lparr>ry_activity := b, ry_armed := n\<rparr>) = (mirror r)\<lparr>ry_activity := b, ry_armed := n\<rparr>"
  "mirror (r\<lparr>ry_clock := n\<rparr>) = (mirror r)\<lparr>ry_clock := n\<rparr>"
  by (cases r; simp add: mirror_def report_def touched_def interrupt_def split: option.split)+

lemma mirror_step: "relay_step opts r r' \<Longrightarrow> relay_step opts (mirror r) (mirror r')"
  by (cases rule: relay_step.cases, assumption)
    (use relay_step.forward [of "mirror r" _ opts] relay_step.backward [of "mirror r" _ opts]
        relay_step.cut_forward [of "mirror r" _ opts] relay_step.cut_backward [of "mirror r" _ opts]
        relay_step.intros(5-8) [of "mirror r"] relay_step.tick [of _ opts "mirror r"] in auto)

lemma mirror_steps: "(relay_step opts)\<^sup>*\<^sup>* r r' \<Longrightarrow> (relay_step opts)\<^sup>*\<^sup>* (mirror r) (mirror r')"
  by (induction rule: rtranclp_induct) (auto intro: mirror_step rtranclp.rtrancl_into_rtrancl)

lemma backward_finishes:
  "\<exists>r'. (relay_step opts)\<^sup>*\<^sup>* r r' \<and> fl_ended (ry_backward r') \<noteq> None \<and> ry_forward r' = ry_forward r"
proof -
  from forward_finishes [of opts "mirror r"] obtain r' where
    "(relay_step opts)\<^sup>*\<^sup>* (mirror r) r'" "fl_ended (ry_forward r') \<noteq> None" "ry_backward r' = ry_forward r"
    by (auto simp: mirror_def)
  with mirror_steps [of opts "mirror r" r'] show ?thesis
    by (intro exI [of _ "mirror r'"]) (simp add: mirror_def)
qed

lemma reachable_steps: "(relay_step opts)\<^sup>*\<^sup>* r r' \<Longrightarrow> relay_reachable opts r0 r \<Longrightarrow> relay_reachable opts r0 r'"
  by (induction rule: rtranclp_induct) (auto intro: relay_reachable.step)

lemma relay_can_return:
  assumes "relay_reachable opts r0 r" and "initial r0"
  shows "\<exists>r'. (relay_step opts)\<^sup>*\<^sup>* r r' \<and> relay_outcome r' \<noteq> None"
proof -
  obtain r1 where r1: "(relay_step opts)\<^sup>*\<^sup>* r r1" "fl_ended (ry_forward r1) \<noteq> None" using forward_finishes by blast
  obtain r2 where r2: "(relay_step opts)\<^sup>*\<^sup>* r1 r2" "fl_ended (ry_backward r2) \<noteq> None" "ry_forward r2 = ry_forward r1"
    using backward_finishes by blast
  have steps: "(relay_step opts)\<^sup>*\<^sup>* r r2" using r1(1) r2(1) by simp
  from relay_reachable_inv [OF reachable_steps [OF steps assms(1)] assms(2)] r1(2) r2(2,3)
  have "length (ry_results r2) = 2" by (auto simp: relay_inv_def ends_def)
  with steps show ?thesis by (intro exI [of _ r2]) (simp add: relay_outcome_def)
qed

section \<open>Properties\<close>

text \<open>
  C15: in every interleaving of the two directions, the watcher and the clock, each side has
  received a prefix of what the other side sent: no byte is reordered, repeated or invented.
\<close>

theorem relay_copies_prefixes:
  assumes "relay_reachable opts r0 r" and "initial r0"
  shows "(\<exists>k. received (fl_sink (ry_forward r)) = received (fl_sink (ry_forward r0)) @ take k (pending (fl_source (ry_forward r0))))
    \<and> (\<exists>k. received (fl_sink (ry_backward r)) = received (fl_sink (ry_backward r0)) @ take k (pending (fl_source (ry_backward r0))))"
  using relay_delivers_prefixes [OF assms] by simp

definition sample_relay :: relay where
  "sample_relay = new_relay (new_flow \<lparr>chunks = [[1, 2]], stream_end = EOF\<rparr> open_pipe)
     (new_flow \<lparr>chunks = [], stream_end = EOF\<rparr> open_pipe) 0"

text \<open>A run of it: the two bytes move, then each direction meets the end of its source.\<close>

definition run_forward :: "relay \<Rightarrow> relay" where
  "run_forward r =
     (let f = copy_chunk (ry_forward r) in report f (touched (ry_forward r) f (r\<lparr>ry_forward := f\<rparr>)))"

definition run_backward :: "relay \<Rightarrow> relay" where
  "run_backward r =
     (let f = copy_chunk (ry_backward r) in report f (touched (ry_backward r) f (r\<lparr>ry_backward := f\<rparr>)))"

lemma run_reachable:
  "relay_reachable opts r0 r \<Longrightarrow> fl_ended (ry_forward r) = None \<Longrightarrow> relay_reachable opts r0 (run_forward r)"
  "relay_reachable opts r0 r \<Longrightarrow> fl_ended (ry_backward r) = None \<Longrightarrow> relay_reachable opts r0 (run_backward r)"
  unfolding run_forward_def run_backward_def Let_def
  by (blast intro: relay_reachable.step relay_step.forward relay_step.backward)+

lemmas run_evals = run_forward_def run_backward_def sample_relay_def new_relay_def new_flow_def copy_chunk_def
  stream_read_def copy_buffer_bytes_def pipe_write_def open_pipe_def half_close_def report_def touched_def

lemma sample_run:
  "relay_reachable opts sample_relay (run_forward sample_relay)"
  "relay_reachable opts sample_relay (run_backward (run_forward (run_forward sample_relay)))"
proof -
  have "relay_reachable opts sample_relay sample_relay" by (rule relay_reachable.start)
  then show one: "relay_reachable opts sample_relay (run_forward sample_relay)"
    by (rule run_reachable) (simp add: run_evals)
  then have "relay_reachable opts sample_relay (run_forward (run_forward sample_relay))"
    by (rule run_reachable) (simp add: run_evals Let_def)
  then show "relay_reachable opts sample_relay (run_backward (run_forward (run_forward sample_relay)))"
    by (rule run_reachable) (simp add: run_evals Let_def)
qed

lemma sample_initial: "initial sample_relay"
  unfolding initial_def sample_relay_def by blast

theorem relay_copies_prefixes_witness:
  "(\<exists>k. received (fl_sink (ry_forward (run_forward sample_relay))) = take k (pending (fl_source (ry_forward sample_relay))))
     \<and> received (fl_sink (ry_forward (run_forward sample_relay))) = [1, 2]"
  using relay_copies_prefixes [OF sample_run(1) sample_initial]
  by (auto simp: run_evals Let_def pending_def)

text \<open>
  C16: a relay that returns without an error delivered everything both sides sent, and half-closed
  both connections.
\<close>

theorem relay_clean_end_is_complete:
  assumes "relay_reachable opts r0 r" and "initial r0" and "relay_outcome r = Some []"
  shows "complete (ry_forward r0) (ry_forward r) \<and> complete (ry_backward r0) (ry_backward r)"
  using relay_clean_outcome [OF assms] by simp

theorem relay_clean_end_is_complete_witness:
  "complete (ry_forward sample_relay) (ry_forward (run_backward (run_forward (run_forward sample_relay))))
     \<and> received (fl_sink (ry_forward (run_backward (run_forward (run_forward sample_relay))))) = [1, 2]"
proof -
  have "relay_outcome (run_backward (run_forward (run_forward sample_relay))) = Some []"
    by (simp add: run_evals Let_def relay_outcome_def map_filter_simps)
  from relay_clean_end_is_complete [OF sample_run(2) sample_initial this] show ?thesis
    by (simp add: complete_def run_evals Let_def pending_def)
qed


text \<open>
  The copy loop of a direction ends: after at most one round for every byte and every piece its
  source still delivers, and one more, whatever its destination does.
\<close>

theorem copy_loop_terminates:
  "\<exists>n. n \<le> Suc (stream_size (fl_source f)) \<and> fl_ended ((copy_chunk ^^ n) f) \<noteq> None"
proof (induction "stream_size (fl_source f)" arbitrary: f rule: less_induct)
  case less
  show ?case
  proof (cases "fl_ended (copy_chunk f)")
    case None
    with copy_chunk_progress [of f] have lt: "stream_size (fl_source (copy_chunk f)) < stream_size (fl_source f)" by simp
    from less [OF this] obtain n where
      "n \<le> Suc (stream_size (fl_source (copy_chunk f)))" "fl_ended ((copy_chunk ^^ n) (copy_chunk f)) \<noteq> None" by blast
    with lt show ?thesis by (intro exI [of _ "Suc n"]) (auto simp: funpow_swap1)
  next
    case (Some e)
    then show ?thesis by (intro exI [of _ 1]) simp
  qed
qed

end
