(* ===== verification/Relay_Session.thy ===== *)
theory Relay_Session
  imports Relay_Limiter Protocol_Codec Policy_Checker Log_Redaction Inner_Tls Relay_Copy
begin

text \<open>
  \<open>internal/relay/dialer.go\<close> and the session of \<open>internal/relay/server.go\<close>: what the remote does
  with one accepted WebSocket. Inner TLS, deadlines, TCP and the copying of the relay are outside:
  an environment says how each of them turns out. The session is a state that keeps the limiter,
  both directions of the inner connection, what was done to the outside, and the log.
\<close>

section \<open>Dialing a target\<close>

type_synonym target_endpoint = "addr \<times> 16 word"

datatype target_error =
    TargetsNotPublic | TargetPort "16 word" | TargetTimeout int | NoTargetAnswered "string list"

fun tcp_dial_loop ::
  "(target_endpoint \<Rightarrow> string + nat) \<Rightarrow> 16 word \<Rightarrow> string list \<Rightarrow> addr list
     \<Rightarrow> (target_error, nat) result \<times> target_endpoint list" where
  "tcp_dial_loop tcp port faults [] = (err (NoTargetAnswered faults), [])"
| "tcp_dial_loop tcp port faults (a # as) =
     (case tcp (a, port) of
        Inr c \<Rightarrow> (ok c, [(a, port)])
      | Inl e \<Rightarrow> (case tcp_dial_loop tcp port (faults @ [e]) as of (r, es) \<Rightarrow> (r, (a, port) # es)))"

text \<open>\<open>TCPDialer.Dial\<close>: the connection, and the endpoints it tried.\<close>

definition tcp_dial ::
  "(target_endpoint \<Rightarrow> string + nat) \<Rightarrow> addr list \<Rightarrow> 16 word \<Rightarrow> int
     \<Rightarrow> (target_error, nat) result \<times> target_endpoint list" where
  "tcp_dial tcp addresses port timeout =
     (if \<not> allowed (check_addresses addresses :: unit decision) then (err TargetsNotPublic, [])
      else if port \<noteq> allowed_port then (err (TargetPort port), [])
      else if timeout \<le> 0 then (err (TargetTimeout timeout), [])
      else tcp_dial_loop tcp port [] addresses)"

section \<open>The session\<close>

record session_env =
  se_x509 :: x509_tools
  se_peer :: tls_peer
  se_set_deadline :: bool
  se_clear_deadline :: bool
  se_tcp :: "target_endpoint \<Rightarrow> string + nat"
  se_copy :: "copy_error list"
  se_now :: int

record relay_settings =
  rl_identity :: "identity option"
  rl_tls_timeout :: int
  rl_tokens :: token_set
  rl_checker :: "string checker"
  rl_max_control :: int
  rl_client_pins :: pin_set
  rl_dial_timeout :: int
  rl_logger :: logger

datatype session_event = ResolveTarget destination | DialTarget target_endpoint | OpenRelay nat | CloseTarget nat

record session =
  sn_limiter :: limiter
  sn_reader :: "string stream"
  sn_pipe :: "string pipe"
  sn_events :: "session_event list"
  sn_log :: "log_record list"

datatype session_end =
    InnerRejected | NoDeadline | MalformedHello | InvalidToken | HelloNotSent | MalformedOpen
  | DestinationRefused deny_reason | DialFailed | OpenNotSent | DeadlineNotCleared | Relayed

type_synonym session_result = "(unit, session \<times> session_end) result"

definition relay_end_reason :: "copy_error list \<Rightarrow> string" where
  "relay_end_reason e = (if CopyIdle \<in> set e then ''idle-timeout'' else ''io-error'')"

definition session_log :: "relay_settings \<Rightarrow> slog_level \<Rightarrow> string \<Rightarrow> attr list \<Rightarrow> session \<Rightarrow> session" where
  "session_log r lvl message as s = s\<lparr>sn_log := sn_log s @ log_at (rl_logger r) lvl message as\<rparr>"

definition authentication_failed ::
  "relay_settings \<Rightarrow> session_env \<Rightarrow> string \<Rightarrow> string \<Rightarrow> session \<Rightarrow> (unit, session) result" where
  "authentication_failed r env source why s =
     bind_result (limiter_record (sn_limiter s) source (se_now env)) (\<lambda>l.
       ok (session_log r LevelWarn ''authentication failed'' [Attr key_reason why] (s\<lparr>sn_limiter := l\<rparr>)))"

definition receive :: "relay_settings \<Rightarrow> session \<Rightarrow> (proto_error, message) result \<times> session" where
  "receive r s = (case decode (rl_max_control r) (sn_reader s) of (m, rd) \<Rightarrow> (m, s\<lparr>sn_reader := rd\<rparr>))"

definition send :: "relay_settings \<Rightarrow> message \<Rightarrow> session \<Rightarrow> (string encode_error, unit) result \<times> session" where
  "send r m s =
     (case encode (Some pipe_write) (rl_max_control r) (sn_pipe s) (Struct m) of (e, p) \<Rightarrow> (e, s\<lparr>sn_pipe := p\<rparr>))"

text \<open>An error reply whose own failure is ignored.\<close>

definition refuse :: "relay_settings \<Rightarrow> error_code \<Rightarrow> session \<Rightarrow> session" where
  "refuse r c s = snd (send r (OpenError c) s)"

definition relay_stage :: "relay_settings \<Rightarrow> session_env \<Rightarrow> destination \<Rightarrow> nat \<Rightarrow> session \<Rightarrow> session \<times> session_end" where
  "relay_stage r env d target s =
     (case send r OpenOK s of
        (Inl _, s) \<Rightarrow> (s, OpenNotSent)
      | (Inr _, s) \<Rightarrow>
          if \<not> se_clear_deadline env then (s, DeadlineNotCleared)
          else
            let s = session_log r LevelInfo ''relay opened'' [target_attr (rl_logger r) (authority d)] s;
                s = s\<lparr>sn_events := sn_events s @ [OpenRelay target]\<rparr>
            in (if se_copy env \<noteq> [] \<and> CopyCanceled \<notin> set (se_copy env) \<and> CopyDeadline \<notin> set (se_copy env)
                   \<and> CopyClosed \<notin> set (se_copy env)
                then session_log r LevelDebug ''relay ended'' [Attr key_reason (relay_end_reason (se_copy env))] s
                else s, Relayed))"

definition dial_stage ::
  "relay_settings \<Rightarrow> session_env \<Rightarrow> destination \<Rightarrow> addr list \<Rightarrow> session \<Rightarrow> session \<times> session_end" where
  "dial_stage r env d addresses s =
     (case tcp_dial (se_tcp env) addresses (dest_port d) (rl_dial_timeout r) of
        (target, tried) \<Rightarrow>
          let s = s\<lparr>sn_events := sn_events s @ map DialTarget tried\<rparr> in
          (case target of
             Inl _ \<Rightarrow>
               (session_log r LevelInfo ''target dial failed''
                  [Attr key_reason ''dial-failed'', target_attr (rl_logger r) (authority d)]
                  (refuse r error_dial_failed s), DialFailed)
           | Inr c \<Rightarrow>
               (case relay_stage r env d c s of
                  (s, e) \<Rightarrow> (s\<lparr>sn_events := sn_events s @ [CloseTarget c]\<rparr>, e))))"

definition open_stage :: "relay_settings \<Rightarrow> session_env \<Rightarrow> session \<Rightarrow> session_result" where
  "open_stage r env s =
     (case receive r s of
        (Inl Panic, s) \<Rightarrow> panic
      | (Inl (Err _), s) \<Rightarrow> ok (refuse r error_malformed s, MalformedOpen)
      | (Inr m, s) \<Rightarrow>
          (case m of
             Open d \<Rightarrow>
               let s = s\<lparr>sn_events := sn_events s @ [ResolveTarget d]\<rparr> in
               (case resolve (rl_checker r) d of
                  (addresses, decision) \<Rightarrow>
                    if \<not> allowed decision then
                      ok (session_log r LevelInfo ''destination refused''
                            [Attr key_reason (deny_reason_string (reason decision)), target_attr (rl_logger r) (authority d)]
                            (refuse r (error_code_for (reason decision)) s), DestinationRefused (reason decision))
                    else ok (dial_stage r env d (case addresses of None \<Rightarrow> [] | Some as \<Rightarrow> as) s))
           | _ \<Rightarrow> ok (refuse r error_malformed s, MalformedOpen)))"

definition hello_token :: "message \<Rightarrow> token option" where
  "hello_token m = (case m of Hello _ t \<Rightarrow> Some t | _ \<Rightarrow> None)"

definition hello_stage :: "relay_settings \<Rightarrow> session_env \<Rightarrow> string \<Rightarrow> session \<Rightarrow> session_result" where
  "hello_stage r env source s =
     (case receive r s of
        (Inl Panic, s) \<Rightarrow> panic
      | (Inl (Err _), s) \<Rightarrow>
          bind_result (authentication_failed r env source ''malformed-hello'' s) (\<lambda>s. ok (s, MalformedHello))
      | (Inr m, s) \<Rightarrow>
          (case hello_token m of
             Some t \<Rightarrow>
               if \<not> token_set_contains (rl_tokens r) t then
                 bind_result (authentication_failed r env source ''invalid-token'' s) (\<lambda>s. ok (s, InvalidToken))
               else
                 bind_result (limiter_reset (sn_limiter s) source) (\<lambda>l.
                   case send r (HelloOK version1) (s\<lparr>sn_limiter := l\<rparr>) of
                     (Inl _, s) \<Rightarrow> ok (s, HelloNotSent)
                   | (Inr _, s) \<Rightarrow> open_stage r env s)
           | None \<Rightarrow>
               bind_result (authentication_failed r env source ''invalid-token'' s) (\<lambda>s. ok (s, InvalidToken))))"

definition session_inner :: "relay_settings \<Rightarrow> session_env \<Rightarrow> (inner_error, inner_info) result" where
  "session_inner r env =
     fst (accept_inner_tls (se_x509 env) (se_peer env) (rl_identity r) (rl_client_pins r) (rl_tls_timeout r))"

definition handle_session :: "relay_settings \<Rightarrow> session_env \<Rightarrow> string \<Rightarrow> session \<Rightarrow> session_result" where
  "handle_session r env source s =
     (case session_inner r env of
        Inl Panic \<Rightarrow> panic
      | Inl (Err e) \<Rightarrow>
          let why = (if is_client_pin_mismatch e then ''client-pin'' else ''inner-tls'') in
          if 0 < length (pins (rl_client_pins r)) then
            bind_result (authentication_failed r env source why s) (\<lambda>s. ok (s, InnerRejected))
          else ok (session_log r LevelDebug ''inner TLS rejected'' [Attr key_reason why] s, InnerRejected)
      | Inr info \<Rightarrow>
          let s = (if \<not> pin_is_zero (ii_client_pin info)
                   then session_log r LevelDebug ''client identity accepted''
                          [Attr ''client_pin'' (pin_string (ii_client_pin info))] s
                   else s) in
          if \<not> se_set_deadline env then ok (s, NoDeadline)
          else hello_stage r env source s)"


section \<open>Dialing stays on the resolved public addresses\<close>

lemma tcp_dial_loop_tried:
  "tcp_dial_loop tcp port es as = (r, tried) \<Longrightarrow>
     (\<exists>k. tried = map (\<lambda>a. (a, port)) (take k as)) \<and>
     (\<forall>c. r = ok c \<longrightarrow> tried \<noteq> [] \<and> tcp (last tried) = Inr c \<and> (\<forall>ep \<in> set (butlast tried). isl (tcp ep))) \<and> no_panic r"
proof (induction as arbitrary: es r tried)
  case (Cons a as)
  show ?case
  proof (cases "tcp (a, port)")
    case (Inl e)
    obtain q ts where loop: "tcp_dial_loop tcp port (es @ [e]) as = (q, ts)" by fastforce
    with Cons.prems Inl have r: "r = q" "tried = (a, port) # ts" by auto
    from Cons.IH [OF loop] obtain k where "ts = map (\<lambda>a. (a, port)) (take k as)" by blast
    then have "tried = map (\<lambda>a. (a, port)) (take (Suc k) (a # as))" using r by simp
    moreover have "(\<forall>c. r = ok c \<longrightarrow> tried \<noteq> [] \<and> tcp (last tried) = Inr c \<and> (\<forall>ep \<in> set (butlast tried). isl (tcp ep)))
        \<and> no_panic r"
      using Cons.IH [OF loop] r Inl by auto
    ultimately show ?thesis by blast
  next
    case (Inr c)
    with Cons.prems have "r = ok c" "tried = map (\<lambda>a. (a, port)) (take 1 (a # as))" by auto
    with Inr show ?thesis by (intro conjI exI [of _ 1]) auto
  qed
qed auto

lemma tcp_dial_tried:
  assumes "tcp_dial tcp as port timeout = (r, tried)" and "ep \<in> set tried"
  shows "fst ep \<in> set as" and "public_address (fst ep)" and "snd ep = port" and "port = allowed_port"
proof -
  from assms have allowed: "allowed (check_addresses as :: unit decision)" and port: "port = allowed_port"
    and "tcp_dial_loop tcp port [] as = (r, tried)"
    by (auto simp: tcp_dial_def split: if_split_asm)
  with tcp_dial_loop_tried [of tcp port "[]" as r tried] obtain k where
    "tried = map (\<lambda>a. (a, port)) (take k as)" by blast
  with assms(2) have "fst ep \<in> set as" "snd ep = port" by (auto dest: in_set_takeD)
  with allowed port show "fst ep \<in> set as" "public_address (fst ep)" "snd ep = port" "port = allowed_port"
    by (auto simp: check_addresses_allowed classify_address_public)
qed

lemma tcp_dial_ok:
  assumes "tcp_dial tcp as port timeout = (ok c, tried)"
  shows "tried \<noteq> []" and "tcp (last tried) = Inr c"
  using assms tcp_dial_loop_tried [of tcp port "[]" as "ok c" tried]
  by (auto simp: tcp_dial_def split: if_split_asm)

section \<open>What the steps of a session change\<close>

lemma session_log_simps [simp]:
  "sn_limiter (session_log r v m as s) = sn_limiter s" "sn_reader (session_log r v m as s) = sn_reader s"
  "sn_pipe (session_log r v m as s) = sn_pipe s" "sn_events (session_log r v m as s) = sn_events s"
  by (simp_all add: session_log_def)

lemma send_state:
  "send r m s = (q, s') \<Longrightarrow> sn_limiter s' = sn_limiter s \<and> sn_reader s' = sn_reader s \<and> sn_events s' = sn_events s
     \<and> encode (Some pipe_write) (rl_max_control r) (sn_pipe s) (Struct m) = (q, sn_pipe s')"
  by (auto simp: send_def split: prod.splits)

lemma refuse_simps [simp]:
  "sn_limiter (refuse r c s) = sn_limiter s" "sn_reader (refuse r c s) = sn_reader s"
  "sn_events (refuse r c s) = sn_events s"
  by (simp_all add: refuse_def send_def split: prod.splits)

lemma receive_state:
  "receive r s = (m, s') \<Longrightarrow> sn_limiter s' = sn_limiter s \<and> sn_pipe s' = sn_pipe s \<and> sn_events s' = sn_events s
     \<and> decode (rl_max_control r) (sn_reader s) = (m, sn_reader s') \<and> no_panic m"
  using decode_no_panic [of "rl_max_control r" "sn_reader s"] by (auto simp: receive_def split: prod.splits)


section \<open>What a session does to the outside\<close>

text \<open>
  The traces a session may leave: nothing; one resolution; or one resolution, dials of addresses
  of its answer, and, when one answers, that connection closed again, with the relay opened on it
  in between or not.
\<close>

inductive session_trace :: "relay_settings \<Rightarrow> session_env \<Rightarrow> session_event list \<Rightarrow> bool" for r env where
  quiet: "session_trace r env []"
| refused: "session_trace r env [ResolveTarget d]"
| dialed: "resolve (rl_checker r) d = (Some as, allow) \<Longrightarrow>
     tcp_dial (se_tcp env) as (dest_port d) (rl_dial_timeout r) = (Inl f, tried) \<Longrightarrow>
     session_trace r env (ResolveTarget d # map DialTarget tried)"
| connected: "resolve (rl_checker r) d = (Some as, allow) \<Longrightarrow>
     tcp_dial (se_tcp env) as (dest_port d) (rl_dial_timeout r) = (ok c, tried) \<Longrightarrow>
     session_trace r env (ResolveTarget d # map DialTarget tried @ [CloseTarget c])"
| relayed: "resolve (rl_checker r) d = (Some as, allow) \<Longrightarrow>
     tcp_dial (se_tcp env) as (dest_port d) (rl_dial_timeout r) = (ok c, tried) \<Longrightarrow>
     session_trace r env (ResolveTarget d # map DialTarget tried @ [OpenRelay c, CloseTarget c])"

lemma trace_dial:
  assumes "session_trace r env es" and "DialTarget ep \<in> set es"
  shows "public_address (fst ep)" and "snd ep = 443"
    and "\<exists>d. ResolveTarget d \<in> set es \<and> allowed (check_destination (rl_checker r) d)
          \<and> (\<exists>f as. chk_resolver (rl_checker r) = Some f \<and> f (dest_host d) = Inr as \<and> fst ep \<in> set as)"
proof -
  obtain d as q tried where d: "resolve (rl_checker r) d = (Some as, allow)" "ResolveTarget d \<in> set es"
    and t: "tcp_dial (se_tcp env) as (dest_port d) (rl_dial_timeout r) = (q, tried)" "ep \<in> set tried"
    using assms by cases auto
  from tcp_dial_tried [OF t] show "public_address (fst ep)" "snd ep = 443"
    by (simp_all add: allowed_port_def)
  from resolve_addresses [OF d(1)] d(2) tcp_dial_tried(1) [OF t]
  show "\<exists>d. ResolveTarget d \<in> set es \<and> allowed (check_destination (rl_checker r) d)
          \<and> (\<exists>f as. chk_resolver (rl_checker r) = Some f \<and> f (dest_host d) = Inr as \<and> fst ep \<in> set as)"
    by blast
qed

lemma trace_relay:
  assumes "session_trace r env es" and "OpenRelay c \<in> set es"
  shows "last es = CloseTarget c" and "\<exists>ep. DialTarget ep \<in> set es \<and> se_tcp env ep = Inr c"
proof -
  obtain d as tried where es: "es = ResolveTarget d # map DialTarget tried @ [OpenRelay c, CloseTarget c]"
    and t: "tcp_dial (se_tcp env) as (dest_port d) (rl_dial_timeout r) = (ok c, tried)"
    using assms by cases auto
  show "last es = CloseTarget c" using es by simp
  from tcp_dial_ok [OF t] es show "\<exists>ep. DialTarget ep \<in> set es \<and> se_tcp env ep = Inr c"
    by (intro exI [of _ "last tried"]) auto
qed

lemma relay_stage_events:
  assumes "relay_stage r env d c s = (s', e)"
  shows "sn_limiter s' = sn_limiter s"
    and "sn_events s' = sn_events s @ (if e \<in> {OpenNotSent, DeadlineNotCleared} then [] else [OpenRelay c])"
    and "e \<in> {OpenNotSent, DeadlineNotCleared, Relayed}"
  using assms by (auto simp: relay_stage_def Let_def split: prod.splits sum.splits if_split_asm dest!: send_state)

lemma dial_stage_events:
  assumes "dial_stage r env d as s = (s', e)" and "resolve (rl_checker r) d = (Some as, allow)"
    and "sn_events s = old @ [ResolveTarget d]"
  shows "\<exists>es. sn_events s' = old @ es \<and> session_trace r env es" and "sn_limiter s' = sn_limiter s"
proof -
  obtain q tried where t: "tcp_dial (se_tcp env) as (dest_port d) (rl_dial_timeout r) = (q, tried)" by fastforce
  have "(\<exists>es. sn_events s' = old @ es \<and> session_trace r env es) \<and> sn_limiter s' = sn_limiter s"
  proof (cases q)
    case (Inl f)
    with assms(1,3) t have "sn_events s' = old @ ResolveTarget d # map DialTarget tried" "sn_limiter s' = sn_limiter s"
      by (auto simp: dial_stage_def Let_def)
    with session_trace.dialed [OF assms(2)] t Inl show ?thesis by blast
  next
    case (Inr c)
    let ?s = "s\<lparr>sn_events := sn_events s @ map DialTarget tried\<rparr>"
    obtain s1 e1 where st: "relay_stage r env d c ?s = (s1, e1)" by fastforce
    with assms(1) t Inr have s': "s' = s1\<lparr>sn_events := sn_events s1 @ [CloseTarget c]\<rparr>"
      by (auto simp: dial_stage_def Let_def)
    show ?thesis
      using relay_stage_events [OF st] s' assms(3) session_trace.connected [OF assms(2) t [unfolded Inr]]
        session_trace.relayed [OF assms(2) t [unfolded Inr]]
      by (auto split: if_split_asm)
  qed
  then show "\<exists>es. sn_events s' = old @ es \<and> session_trace r env es" and "sn_limiter s' = sn_limiter s" by auto
qed

lemma open_stage_events:
  assumes "open_stage r env s = ok (s', e)"
  shows "\<exists>es. sn_events s' = sn_events s @ es \<and> session_trace r env es" and "sn_limiter s' = sn_limiter s"
proof -
  obtain m s1 where rc: "receive r s = (m, s1)" by fastforce
  note st = receive_state [OF rc]
  have "(\<exists>es. sn_events s' = sn_events s @ es \<and> session_trace r env es) \<and> sn_limiter s' = sn_limiter s"
  proof (cases "\<exists>d. m = ok (Open d)")
    case False
    with assms rc have "s' = refuse r error_malformed s1"
      by (auto simp: open_stage_def split: sum.splits Go_Prelude.failure.splits message.splits)
    with st session_trace.quiet show ?thesis by auto
  next
    case True
    then obtain d where m: "m = ok (Open d)" by blast
    let ?s = "s1\<lparr>sn_events := sn_events s1 @ [ResolveTarget d]\<rparr>"
    obtain oas dec where rs: "resolve (rl_checker r) d = (oas, dec)" by fastforce
    show ?thesis
    proof (cases "allowed dec")
      case False
      with assms rc m rs have "sn_events s' = sn_events s1 @ [ResolveTarget d]" "sn_limiter s' = sn_limiter s1"
        by (auto simp: open_stage_def Let_def)
      with st session_trace.refused show ?thesis by auto
    next
      case True
      with resolve_refuses(1) rs obtain as where as: "oas = Some as" by (cases oas) blast
      from resolve_addresses(1) rs as have "dec = allow" by blast
      with assms rc m rs as have "dial_stage r env d as ?s = (s', e)" by (auto simp: open_stage_def Let_def)
      moreover have "resolve (rl_checker r) d = (Some as, allow)" using rs as \<open>dec = allow\<close> by simp
      moreover have "sn_events ?s = sn_events s @ [ResolveTarget d]" using st by simp
      ultimately show ?thesis using dial_stage_events st by fastforce
    qed
  qed
  then show "\<exists>es. sn_events s' = sn_events s @ es \<and> session_trace r env es" and "sn_limiter s' = sn_limiter s" by auto
qed


section \<open>Authentication comes first, and is counted\<close>

text \<open>The ends reached without an accepted token, and those of them that count as a failure.\<close>

fun unauthenticated :: "session_end \<Rightarrow> bool" where
  "unauthenticated InnerRejected = True"
| "unauthenticated NoDeadline = True"
| "unauthenticated MalformedHello = True"
| "unauthenticated InvalidToken = True"
| "unauthenticated _ = False"

fun counted :: "relay_settings \<Rightarrow> session_end \<Rightarrow> bool" where
  "counted r InnerRejected \<longleftrightarrow> pins (rl_client_pins r) \<noteq> []"
| "counted r MalformedHello = True"
| "counted r InvalidToken = True"
| "counted r _ = False"

definition authenticated :: "relay_settings \<Rightarrow> session_env \<Rightarrow> string stream \<Rightarrow> bool" where
  "authenticated r env rd =
     (\<not> isl (session_inner r env) \<and> se_set_deadline env
        \<and> (case fst (decode (rl_max_control r) rd) of
             Inr (Hello v t) \<Rightarrow> token_set_contains (rl_tokens r) t
           | _ \<Rightarrow> False))"

definition new_failures :: "relay_settings \<Rightarrow> session_end \<Rightarrow> nat \<Rightarrow> nat" where
  "new_failures r e n = (if counted r e then Suc n else if unauthenticated e then n else 0)"

lemma authentication_failed_counts:
  assumes "limiter_good (sn_limiter s)"
  shows "\<exists>l. authentication_failed r env x why s =
      ok (session_log r LevelWarn ''authentication failed'' [Attr key_reason why] (s\<lparr>sn_limiter := l\<rparr>))
    \<and> limiter_good l \<and> limiter_failures l x (se_now env) = Suc (limiter_failures (sn_limiter s) x (se_now env))"
  using auth.record_law [OF assms, of x "se_now env"] by (auto simp: authentication_failed_def)

lemma unauthenticated_not_mem: "\<not> unauthenticated e \<longleftrightarrow> e \<notin> {InnerRejected, NoDeadline, MalformedHello, InvalidToken}"
  by (cases e) simp_all

lemma relay_stage_end: "relay_stage r env d c s = (s', e) \<Longrightarrow> \<not> unauthenticated e"
  using relay_stage_events(3) [of r env d c s s' e] by auto

lemma open_stage_end: "open_stage r env s = ok (s', e) \<Longrightarrow> \<not> unauthenticated e"
  by (auto simp: open_stage_def dial_stage_def Let_def split: sum.splits Go_Prelude.failure.splits
      message.splits prod.splits if_split_asm dest: relay_stage_end)

lemma open_stage_returns: "\<exists>s' e. open_stage r env s = ok (s', e)"
proof -
  obtain m s1 where rc: "receive r s = (m, s1)" by fastforce
  with receive_state [OF rc] show ?thesis
    by (auto simp: open_stage_def Let_def split: sum.splits Go_Prelude.failure.splits message.splits prod.splits)
qed


text \<open>What is true of a session that ended: how it began decides what it was allowed to do.\<close>

definition session_outcome :: "relay_settings \<Rightarrow> session_env \<Rightarrow> string \<Rightarrow> bool \<Rightarrow> session \<Rightarrow> session \<Rightarrow> session_end \<Rightarrow> bool" where
  "session_outcome r env x accepted s s' e \<longleftrightarrow>
     limiter_good (sn_limiter s')
   \<and> limiter_failures (sn_limiter s') x (se_now env) = new_failures r e (limiter_failures (sn_limiter s) x (se_now env))
   \<and> unauthenticated e = (\<not> accepted)
   \<and> (unauthenticated e \<longrightarrow> sn_events s' = sn_events s \<and> sn_pipe s' = sn_pipe s)
   \<and> (\<exists>es. sn_events s' = sn_events s @ es \<and> session_trace r env es)"

lemma session_outcome_failed:
  assumes "authentication_failed r env x why s1 = ok s2" and "limiter_good (sn_limiter s)"
    and "sn_limiter s1 = sn_limiter s" "sn_pipe s1 = sn_pipe s" "sn_events s1 = sn_events s"
    and "counted r e" and "unauthenticated e"
  shows "session_outcome r env x False s s2 e"
  using assms authentication_failed_counts [of s1 r env x why] session_trace.quiet
  by (auto simp: session_outcome_def new_failures_def)

lemma authentication_failed_returns:
  "limiter_good (sn_limiter s) \<Longrightarrow> \<exists>s2. authentication_failed r env x why s = ok s2"
  using authentication_failed_counts by blast

lemma session_outcome_authenticated:
  assumes "limiter_good l" and "limiter_failures l x (se_now env) = 0" and "sn_limiter s' = l"
    and "\<not> unauthenticated e" and "sn_events s' = sn_events s @ es" and "session_trace r env es"
  shows "session_outcome r env x True s s' e"
  using assms by (cases e) (auto simp: session_outcome_def new_failures_def)

lemma hello_cases:
  assumes "no_panic m"
  obtains e where "m = err e" | g where "m = ok g" "hello_token g = None" | v t where "m = ok (Hello v t)"
proof (cases m)
  case (Inl f)
  with assms that(1) show ?thesis by (cases f) auto
next
  case (Inr g)
  with that(2,3) show ?thesis by (cases g) (auto simp: hello_token_def)
qed

lemma hello_accepted_outcome:
  assumes good: "limiter_good (sn_limiter s)" and rc: "receive r s = (ok (Hello v t), s1)"
    and token: "token_set_contains (rl_tokens r) t"
  shows "\<exists>s' e. hello_stage r env x s = ok (s', e) \<and> session_outcome r env x True s s' e"
proof -
  note st = receive_state [OF rc]
  obtain l where l: "limiter_reset (sn_limiter s1) x = ok l" "limiter_good l" "limiter_failures l x (se_now env) = 0"
    using auth.forget_law [of "sn_limiter s1" x] good st by auto
  obtain q s2 where sd: "send r (HelloOK version1) (s1\<lparr>sn_limiter := l\<rparr>) = (q, s2)" by fastforce
  note sd' = send_state [OF sd]
  show ?thesis
  proof (cases q)
    case (Inl y)
    have "session_outcome r env x True s s2 HelloNotSent"
      by (rule session_outcome_authenticated [OF l(2,3), of _ _ _ "[]"]) (use sd' st session_trace.quiet in auto)
    with Inl rc token l sd show ?thesis by (auto simp: hello_stage_def hello_token_def)
  next
    case (Inr y)
    obtain s3 e where op: "open_stage r env s2 = ok (s3, e)" using open_stage_returns by blast
    from open_stage_events [OF op] obtain es where es: "sn_events s3 = sn_events s2 @ es" "session_trace r env es"
      by blast
    have "session_outcome r env x True s s3 e"
      by (rule session_outcome_authenticated [OF l(2,3), of _ _ _ es])
        (use sd' st es open_stage_events(2) [OF op] open_stage_end [OF op] in auto)
    with Inr rc token l sd op show ?thesis by (auto simp: hello_stage_def hello_token_def)
  qed
qed

lemma hello_stage_outcome:
  assumes good: "limiter_good (sn_limiter s)"
  shows "\<exists>s' e. hello_stage r env x s = ok (s', e) \<and>
     session_outcome r env x (case fst (decode (rl_max_control r) (sn_reader s)) of
        Inr (Hello v t) \<Rightarrow> token_set_contains (rl_tokens r) t | _ \<Rightarrow> False) s s' e"
proof -
  obtain m s1 where rc: "receive r s = (m, s1)" by fastforce
  note st = receive_state [OF rc]
  then have good1: "limiter_good (sn_limiter s1)" and dec: "fst (decode (rl_max_control r) (sn_reader s)) = m"
    using good by auto
  obtain f1 where f1: "authentication_failed r env x ''malformed-hello'' s1 = ok f1"
    using authentication_failed_returns [OF good1] by blast
  obtain f2 where f2: "authentication_failed r env x ''invalid-token'' s1 = ok f2"
    using authentication_failed_returns [OF good1] by blast
  consider (failed) e where "m = err e" | (other) g where "m = ok g" "hello_token g = None"
    | (hello) v t where "m = ok (Hello v t)"
    using st by (elim conjE hello_cases) auto
  then show ?thesis
  proof cases
    case failed
    with rc f1 have "hello_stage r env x s = ok (f1, MalformedHello)" by (simp add: hello_stage_def)
    moreover have "session_outcome r env x False s f1 MalformedHello"
      by (rule session_outcome_failed [OF f1 good]) (use st in auto)
    ultimately show ?thesis using failed dec by auto
  next
    case other
    with rc f2 have "hello_stage r env x s = ok (f2, InvalidToken)" by (simp add: hello_stage_def)
    moreover have "session_outcome r env x False s f2 InvalidToken"
      by (rule session_outcome_failed [OF f2 good]) (use st in auto)
    ultimately show ?thesis using other dec by (auto simp: hello_token_def split: message.splits)
  next
    case hello
    show ?thesis
    proof (cases "token_set_contains (rl_tokens r) t")
      case False
      with rc f2 hello have "hello_stage r env x s = ok (f2, InvalidToken)"
        by (simp add: hello_stage_def hello_token_def)
      moreover have "session_outcome r env x False s f2 InvalidToken"
        by (rule session_outcome_failed [OF f2 good]) (use st in auto)
      ultimately show ?thesis using hello dec False by auto
    next
      case True
      from hello_accepted_outcome [OF good rc [unfolded hello] True] hello dec True show ?thesis by simp
    qed
  qed
qed

lemma inner_cases:
  obtains e where "session_inner r env = err e" | info where "session_inner r env = ok info"
proof (cases "session_inner r env")
  case (Inl f)
  with inner_tls_no_panic(2) [of "se_x509 env" "se_peer env" "rl_identity r" "rl_client_pins r" "rl_tls_timeout r"] that(1)
  show ?thesis by (cases f) (auto simp: session_inner_def)
qed (rule that(2))

lemma handle_session_outcome:
  assumes good: "limiter_good (sn_limiter s)"
  shows "\<exists>s' e. handle_session r env x s = ok (s', e) \<and> session_outcome r env x (authenticated r env (sn_reader s)) s s' e"
proof (cases rule: inner_cases [of r env])
  case (1 e)
  let ?why = "if is_client_pin_mismatch e then ''client-pin'' else ''inner-tls''"
  obtain f where f: "authentication_failed r env x ?why s = ok f"
    using authentication_failed_returns [OF good] by blast
  show ?thesis
  proof (cases "pins (rl_client_pins r) = []")
    case True
    with 1 show ?thesis
      using good session_trace.quiet
      by (auto simp: handle_session_def authenticated_def Let_def session_outcome_def new_failures_def)
  next
    case False
    with 1 f have "handle_session r env x s = ok (f, InnerRejected)" by (simp add: handle_session_def Let_def)
    moreover have "session_outcome r env x False s f InnerRejected"
      by (rule session_outcome_failed [OF f good]) (use False in auto)
    ultimately show ?thesis using 1 by (auto simp: authenticated_def)
  qed
next
  case (2 info)
  let ?s = "if \<not> pin_is_zero (ii_client_pin info)
            then session_log r LevelDebug ''client identity accepted'' [Attr ''client_pin'' (pin_string (ii_client_pin info))] s else s"
  show ?thesis
  proof (cases "se_set_deadline env")
    case False
    with 2 good session_trace.quiet show ?thesis
      by (auto simp: handle_session_def authenticated_def Let_def session_outcome_def new_failures_def)
  next
    case True
    have eqs: "sn_limiter ?s = sn_limiter s" "sn_reader ?s = sn_reader s" "sn_pipe ?s = sn_pipe s" "sn_events ?s = sn_events s"
      by auto
    from hello_stage_outcome [of ?s r env x] good eqs True 2 show ?thesis
      by (simp add: handle_session_def authenticated_def Let_def session_outcome_def)
  qed
qed


section \<open>What the client hears\<close>

fun replies :: "session_end \<Rightarrow> message list" where
  "replies MalformedOpen = [HelloOK version1, OpenError error_malformed]"
| "replies (DestinationRefused w) = [HelloOK version1, OpenError (error_code_for w)]"
| "replies DialFailed = [HelloOK version1, OpenError error_dial_failed]"
| "replies DeadlineNotCleared = [HelloOK version1, OpenOK]"
| "replies Relayed = [HelloOK version1, OpenOK]"
| "replies OpenNotSent = [HelloOK version1]"
| "replies _ = []"

definition sent_frames :: "message list \<Rightarrow> bytes" where
  "sent_frames ms = concat (map frame ms)"

definition said :: "session \<Rightarrow> session \<Rightarrow> message list \<Rightarrow> bool" where
  "said s s' ms \<longleftrightarrow> sn_pipe s' = (sn_pipe s)\<lparr>received := received (sn_pipe s) @ sent_frames ms\<rparr>"

lemma said_pipe:
  "said s s' ms \<Longrightarrow> script (sn_pipe s') = script (sn_pipe s)"
  "said s s' ms \<Longrightarrow> received (sn_pipe s') = received (sn_pipe s) @ sent_frames ms"
  by (simp_all add: said_def)

lemma said_nothing: "sn_pipe s' = sn_pipe s \<Longrightarrow> said s s' []"
  by (simp add: said_def sent_frames_def)

lemma said_trans: "said s s1 ms \<Longrightarrow> said s1 s' ms' \<Longrightarrow> said s s' (ms @ ms')"
  by (simp add: said_def sent_frames_def)

lemma said_log [simp]: "said s (session_log r v m as s') ms \<longleftrightarrow> said s s' ms"
  by (simp add: said_def)

lemma said_events [simp]:
  "said s (s'\<lparr>sn_events := es\<rparr>) ms \<longleftrightarrow> said s s' ms" "said (s\<lparr>sn_events := es\<rparr>) s' ms \<longleftrightarrow> said s s' ms"
  "said (s\<lparr>sn_limiter := l\<rparr>) s' ms \<longleftrightarrow> said s s' ms" "said s (s'\<lparr>sn_limiter := l\<rparr>) ms \<longleftrightarrow> said s s' ms"
  by (simp_all add: said_def)

text \<open>A control limit that fits the server's replies, and a connection that takes every byte.\<close>

definition wired :: "relay_settings \<Rightarrow> session \<Rightarrow> bool" where
  "wired r s \<longleftrightarrow> 3 \<le> rl_max_control r \<and> script (sn_pipe s) = []"

lemma wired_said: "wired r s \<Longrightarrow> said s s' ms \<Longrightarrow> wired r s'"
  by (simp add: wired_def said_pipe)

lemma wired_events [simp]:
  "wired r (s\<lparr>sn_events := es\<rparr>) = wired r s" "wired r (session_log r' v m as s) = wired r s"
  "wired r (s\<lparr>sn_limiter := l\<rparr>) = wired r s"
  by (simp_all add: wired_def)

lemma send_wired:
  assumes "wired r s" and "valid_message m" and "length (body_of m) \<le> 3"
  shows "\<exists>s'. send r m s = (ok (), s') \<and> said s s' [m]"
  using encode_open_pipe [OF assms(2), of "rl_max_control r" "sn_pipe s"] assms
  by (simp add: wired_def send_def said_def sent_frames_def)

lemma valid_replies:
  "valid_message (HelloOK version1)" "valid_message OpenOK" "valid_message (OpenError (error_code_for w))"
  "valid_message (OpenError error_malformed)" "valid_message (OpenError error_dial_failed)"
  using error_code_for_valid by (auto simp: version_supported_def error_code_valid_def error_code_defs)

lemma refuse_wired: "wired r s \<Longrightarrow> error_code_valid c \<Longrightarrow> said s (refuse r c s) [OpenError c]"
  using send_wired [of r s "OpenError c"] by (auto simp: refuse_def)

lemma relay_stage_said:
  assumes "wired r s" and "relay_stage r env d c s = (s', e)"
  shows "said s s' [OpenOK]" and "e = (if se_clear_deadline env then Relayed else DeadlineNotCleared)"
  using assms send_wired [OF assms(1) valid_replies(2)]
  by (auto simp: relay_stage_def Let_def split: if_split_asm)

lemma dial_stage_said:
  assumes w: "wired r s" and st: "dial_stage r env d as s = (s', e)"
  shows "said s s' (tl (replies e))"
proof -
  obtain q tried where t: "tcp_dial (se_tcp env) as (dest_port d) (rl_dial_timeout r) = (q, tried)" by fastforce
  let ?s = "s\<lparr>sn_events := sn_events s @ map DialTarget tried\<rparr>"
  show ?thesis
  proof (cases q)
    case (Inl f)
    with st t refuse_wired [of r ?s error_dial_failed] w valid_replies show ?thesis
      by (auto simp: dial_stage_def Let_def)
  next
    case (Inr c)
    obtain s1 e1 where rs: "relay_stage r env d c ?s = (s1, e1)" by fastforce
    with st t Inr relay_stage_said [OF _ rs] w show ?thesis
      by (auto simp: dial_stage_def Let_def split: if_split_asm)
  qed
qed

lemma open_stage_said:
  assumes w: "wired r s" and st: "open_stage r env s = ok (s', e)"
  shows "said s s' (tl (replies e))"
proof -
  obtain m s1 where rc: "receive r s = (m, s1)" by fastforce
  with receive_state [OF rc] w have w1: "wired r s1" and s1: "said s s1 []"
    by (auto simp: wired_def said_nothing)
  show ?thesis
  proof (cases "\<exists>d. m = ok (Open d)")
    case False
    with st rc have "s' = refuse r error_malformed s1" "e = MalformedOpen"
      by (auto simp: open_stage_def split: sum.splits Go_Prelude.failure.splits message.splits)
    with said_trans [OF s1 refuse_wired [OF w1]] valid_replies show ?thesis by simp
  next
    case True
    then obtain d where m: "m = ok (Open d)" by blast
    let ?s = "s1\<lparr>sn_events := sn_events s1 @ [ResolveTarget d]\<rparr>"
    obtain oas dec where rs: "resolve (rl_checker r) d = (oas, dec)" by fastforce
    show ?thesis
    proof (cases "allowed dec")
      case False
      with st rc m rs refuse_wired [of r ?s "error_code_for (reason dec)"] w1 valid_replies s1
      show ?thesis by (auto simp: open_stage_def Let_def dest: said_trans)
    next
      case True
      with st rc m rs have "dial_stage r env d (case oas of None \<Rightarrow> [] | Some as \<Rightarrow> as) ?s = (s', e)"
        by (auto simp: open_stage_def Let_def)
      from dial_stage_said [OF _ this] w1 s1 show ?thesis by (auto dest: said_trans)
    qed
  qed
qed


lemma open_stage_replies:
  assumes "wired r s" and "open_stage r env s = ok (s', e)"
  shows "replies e = HelloOK version1 # tl (replies e)"
  using open_stage_end [OF assms(2)] assms(2)
  by (cases e)
    (auto simp: open_stage_def dial_stage_def relay_stage_def Let_def
      split: sum.split_asm Go_Prelude.failure.split_asm message.split_asm prod.split_asm if_split_asm)

lemma hello_stage_said:
  assumes w: "wired r s" and st: "hello_stage r env x s = ok (s', e)"
  shows "said s s' (replies e)"
proof -
  obtain m s1 where rc: "receive r s = (m, s1)" by fastforce
  note st1 = receive_state [OF rc]
  have quiet: "said s s' []" if "authentication_failed r env x why s1 = ok s'" for why
    using that st1 by (auto simp: authentication_failed_def bind_result_eq_ok said_nothing)
  from st1 consider (failed) f where "m = err f" | (other) g where "m = ok g" "hello_token g = None"
    | (hello) v t where "m = ok (Hello v t)" by (elim conjE hello_cases) auto
  then show ?thesis
  proof cases
    case failed
    with st rc show ?thesis by (auto simp: hello_stage_def bind_result_eq_ok intro: quiet)
  next
    case other
    with st rc show ?thesis by (auto simp: hello_stage_def bind_result_eq_ok intro: quiet)
  next
    case hello
    show ?thesis
    proof (cases "token_set_contains (rl_tokens r) t")
      case False
      with hello st rc show ?thesis
        by (auto simp: hello_stage_def hello_token_def bind_result_eq_ok intro: quiet)
    next
      case True
      from hello True st rc obtain l where l: "limiter_reset (sn_limiter s1) x = ok l"
        by (auto simp: hello_stage_def hello_token_def bind_result_eq_ok)
      let ?s = "s1\<lparr>sn_limiter := l\<rparr>"
      have "wired r ?s" and "said s ?s []" using w st1 by (auto simp: wired_def said_nothing)
      from send_wired [OF this(1) valid_replies(1)] obtain s2 where
        s2: "send r (HelloOK version1) ?s = (ok (), s2)" "said ?s s2 [HelloOK version1]" by auto
      with hello True st rc l have op: "open_stage r env s2 = ok (s', e)"
        by (simp add: hello_stage_def hello_token_def)
      have w2: "wired r s2" using wired_said [OF \<open>wired r ?s\<close> s2(2)] .
      from said_trans [OF said_trans [OF \<open>said s ?s []\<close> s2(2)] open_stage_said [OF w2 op]]
        open_stage_replies [OF w2 op] show ?thesis by simp
    qed
  qed
qed

lemma handle_session_said:
  assumes w: "wired r s" and st: "handle_session r env x s = ok (s', e)"
  shows "said s s' (replies e)"
proof (cases rule: inner_cases [of r env])
  case (1 e)
  with st show ?thesis
    by (auto simp: handle_session_def Let_def bind_result_eq_ok authentication_failed_def said_nothing split: if_split_asm)
next
  case (2 info)
  show ?thesis
  proof (cases "se_set_deadline env")
    case False
    with 2 st show ?thesis by (auto simp: handle_session_def Let_def said_nothing split: if_split_asm)
  next
    case True
    let ?s = "if \<not> pin_is_zero (ii_client_pin info)
            then session_log r LevelDebug ''client identity accepted'' [Attr ''client_pin'' (pin_string (ii_client_pin info))] s else s"
    have "wired r ?s" and "said s ?s []" using w by (auto simp: said_nothing)
    with hello_stage_said [of r ?s env x s' e] st 2 True said_trans [of s ?s "[]" s'] show ?thesis
      by (simp add: handle_session_def)
  qed
qed

section \<open>A well-behaved client reaches its destination\<close>

lemma tcp_dial_reaches:
  assumes "resolve c d = (Some as, dec)" and "0 < timeout" and "a \<in> set as" and "\<not> isl (tcp (a, dest_port d))"
  shows "\<exists>conn tried. tcp_dial tcp as (dest_port d) timeout = (ok conn, tried)"
proof -
  have "\<exists>conn tried. tcp_dial_loop tcp port es as = (ok conn, tried)" if "\<not> isl (tcp (a, port))" for es port
    using assms(3) that
    by (induction as arbitrary: es) (auto split: sum.splits prod.splits, (metis prod.inject)+)
  from this [OF assms(4)] resolve_addresses(2,3,5) [OF assms(1)] assms(2) show ?thesis
    by (auto simp: tcp_dial_def check_addresses_allowed classify_address_public)
qed

lemma receive_frame:
  assumes "valid_message m" and "int (length (body_of m)) \<le> rl_max_control r" and "pending (sn_reader s) = frame m @ rest"
  shows "\<exists>s'. receive r s = (ok m, s') \<and> pending (sn_reader s') = rest"
proof -
  from decode_frame [OF assms] obtain rd where
    "decode (rl_max_control r) (sn_reader s) = (ok m, rd)" "pending rd = rest" by blast
  then show ?thesis by (simp add: receive_def)
qed

lemma open_stage_relays:
  assumes w: "wired r s" and d: "valid_destination d" "int (length (body_of (Open d))) \<le> rl_max_control r"
    and p: "pending (sn_reader s) = frame (Open d) @ rest"
    and rs: "resolve (rl_checker r) d = (Some as, dec)"
    and tcp: "0 < rl_dial_timeout r" "a \<in> set as" "\<not> isl (se_tcp env (a, dest_port d))" and cd: "se_clear_deadline env"
  shows "\<exists>s'. open_stage r env s = ok (s', Relayed)"
proof -
  from receive_frame [of "Open d" r s rest] d p obtain s1 where rc: "receive r s = (ok (Open d), s1)" by auto
  let ?s = "s1\<lparr>sn_events := sn_events s1 @ [ResolveTarget d]\<rparr>"
  from tcp_dial_reaches [OF rs tcp(1,2), of "se_tcp env"] tcp(3) obtain conn tried where
    t: "tcp_dial (se_tcp env) as (dest_port d) (rl_dial_timeout r) = (ok conn, tried)" by blast
  let ?t = "?s\<lparr>sn_events := sn_events ?s @ map DialTarget tried\<rparr>"
  obtain s2 e where st: "relay_stage r env d conn ?t = (s2, e)" by fastforce
  have "wired r ?t" using w receive_state [OF rc] by (simp add: wired_def)
  with relay_stage_said(2) [OF _ st] cd have "e = Relayed" by simp
  with rc rs resolve_addresses(1) [OF rs] t st show ?thesis
    by (simp add: open_stage_def dial_stage_def Let_def)
qed


lemma hello_stage_relays:
  assumes good: "limiter_good (sn_limiter s)" and w: "wired r s"
    and t: "token_set_contains (rl_tokens r) t" "valid_message (Hello v t)"
      "int (length (body_of (Hello v t))) \<le> rl_max_control r"
    and d: "valid_destination d" "int (length (body_of (Open d))) \<le> rl_max_control r"
    and p: "pending (sn_reader s) = frame (Hello v t) @ frame (Open d) @ rest"
    and rs: "resolve (rl_checker r) d = (Some as, dec)"
    and tcp: "0 < rl_dial_timeout r" "a \<in> set as" "\<not> isl (se_tcp env (a, dest_port d))" and cd: "se_clear_deadline env"
  shows "\<exists>s'. hello_stage r env x s = ok (s', Relayed)"
proof -
  from receive_frame [OF t(2,3) p] obtain s1 where
    rc: "receive r s = (ok (Hello v t), s1)" "pending (sn_reader s1) = frame (Open d) @ rest" by blast
  note st = receive_state [OF rc(1)]
  obtain l where l: "limiter_reset (sn_limiter s1) x = ok l"
    using auth.forget_law [of "sn_limiter s1" x] good st by auto
  let ?s = "s1\<lparr>sn_limiter := l\<rparr>"
  have w1: "wired r ?s" using w st by (simp add: wired_def)
  from send_wired [OF w1 valid_replies(1)] obtain s2 where
    s2: "send r (HelloOK version1) ?s = (ok (), s2)" "said ?s s2 [HelloOK version1]" by auto
  have "wired r s2" "pending (sn_reader s2) = frame (Open d) @ rest"
    using wired_said [OF w1 s2(2)] send_state [OF s2(1)] rc(2) by auto
  from open_stage_relays [OF this(1) d this(2) rs tcp cd] obtain s3 where "open_stage r env s2 = ok (s3, Relayed)" by blast
  with rc(1) t(1) l s2(1) show ?thesis by (simp add: hello_stage_def hello_token_def)
qed

lemma handle_session_relays:
  assumes "limiter_good (sn_limiter s)" and "wired r s"
    and "token_set_contains (rl_tokens r) t" "valid_message (Hello v t)"
      "int (length (body_of (Hello v t))) \<le> rl_max_control r"
    and "valid_destination d" "int (length (body_of (Open d))) \<le> rl_max_control r"
    and "pending (sn_reader s) = frame (Hello v t) @ frame (Open d) @ rest"
    and "resolve (rl_checker r) d = (Some as, dec)"
    and "0 < rl_dial_timeout r" "a \<in> set as" "\<not> isl (se_tcp env (a, dest_port d))"
    and env: "session_inner r env = Inr info" "se_set_deadline env" "se_clear_deadline env"
  shows "\<exists>s'. handle_session r env x s = ok (s', Relayed) \<and> said s s' [HelloOK version1, OpenOK]"
proof -
  let ?s = "if \<not> pin_is_zero (ii_client_pin info)
            then session_log r LevelDebug ''client identity accepted'' [Attr ''client_pin'' (pin_string (ii_client_pin info))] s else s"
  have "\<exists>s'. hello_stage r env x ?s = ok (s', Relayed)"
    by (rule hello_stage_relays [OF _ _ assms(3-7) _ assms(9-12) env(3)]) (use assms(1,2,8) in auto)
  then obtain s' where "handle_session r env x s = ok (s', Relayed)"
    using env by (auto simp: handle_session_def)
  with handle_session_said [OF assms(2) this] show ?thesis by auto
qed

end
