(* ===== verification/Tunnel_Session.thy ===== *)
theory Tunnel_Session
  imports Tunnel_Client Relay_Session
begin

text \<open>
  The two ends of one tunnel together: \<open>Client.Open\<close> of \<open>internal/tunnel/client.go\<close> against the
  session of \<open>internal/relay/server.go\<close>. Each end reads what the other end wrote; the two results
  have to fit together.
\<close>

section \<open>The server after a hello and an open\<close>

lemma relay_stage_reader: "relay_stage r env d c s = (s', e) \<Longrightarrow> sn_reader s' = sn_reader s"
  by (auto simp: relay_stage_def Let_def split: prod.split_asm sum.split_asm if_split_asm dest: send_state)

lemma dial_stage_reader: "dial_stage r env d as s = (s', e) \<Longrightarrow> sn_reader s' = sn_reader s"
  by (auto simp: dial_stage_def Let_def split: prod.split_asm sum.split_asm dest: relay_stage_reader)

text \<open>The ends of a session whose open was understood.\<close>

inductive answered_end :: "session_end \<Rightarrow> message \<Rightarrow> bool" where
  "answered_end (DestinationRefused w) (OpenError (error_code_for w))"
| "answered_end DialFailed (OpenError error_dial_failed)"
| "answered_end DeadlineNotCleared OpenOK"
| "answered_end Relayed OpenOK"

inductive_simps answered_end_simps: "answered_end e m"

lemma answered_end_replies: "answered_end e m \<Longrightarrow> replies e = [HelloOK version1, m]"
  by (auto simp: answered_end_simps)

lemma dial_stage_answered:
  assumes "wired r s" and "dial_stage r env d as s = (s', e)"
  shows "\<exists>m. answered_end e m"
proof -
  obtain q tried where t: "tcp_dial (se_tcp env) as (dest_port d) (rl_dial_timeout r) = (q, tried)" by fastforce
  let ?s = "s\<lparr>sn_events := sn_events s @ map DialTarget tried\<rparr>"
  show ?thesis
  proof (cases q)
    case (Inr c)
    obtain s1 e1 where rs: "relay_stage r env d c ?s = (s1, e1)" by fastforce
    with assms t Inr relay_stage_said(2) [OF _ rs] show ?thesis
      by (auto simp: dial_stage_def Let_def answered_end_simps split: if_split_asm)
  qed (use assms t in \<open>auto simp: dial_stage_def Let_def answered_end_simps\<close>)
qed

lemma open_stage_answered:
  assumes w: "wired r s" and rc: "receive r s = (ok (Open d), s1)" and st: "open_stage r env s = ok (s', e)"
  shows "\<exists>m. answered_end e m" and "sn_reader s' = sn_reader s1"
proof -
  let ?s = "s1\<lparr>sn_events := sn_events s1 @ [ResolveTarget d]\<rparr>"
  have w1: "wired r ?s" using w receive_state [OF rc] by (simp add: wired_def)
  obtain oas dec where rs: "resolve (rl_checker r) d = (oas, dec)" by fastforce
  have "(\<exists>m. answered_end e m) \<and> sn_reader s' = sn_reader s1"
  proof (cases "allowed dec")
    case False
    with st rc rs show ?thesis by (auto simp: open_stage_def Let_def answered_end_simps)
  next
    case True
    with st rc rs have "dial_stage r env d (case oas of None \<Rightarrow> [] | Some as \<Rightarrow> as) ?s = (s', e)"
      by (auto simp: open_stage_def Let_def)
    from dial_stage_answered [OF w1 this] dial_stage_reader [OF this] show ?thesis by simp
  qed
  then show "\<exists>m. answered_end e m" and "sn_reader s' = sn_reader s1" by auto
qed


section \<open>The client against each answer\<close>

text \<open>A client that is not interrupted, on a connection that takes every byte.\<close>

definition calm :: "open_env \<Rightarrow> bool" where
  "calm env \<longleftrightarrow> oe_context env = (\<lambda>_. None) \<and> oe_clear_deadline env = None"

lemma calm_simps:
  assumes "calm env"
  shows "oe_context env p = None" and "oe_clear_deadline env = None" and "or_context env p e = err e"
  using assms by (simp_all add: calm_def or_context_def)

lemma tunnel_send_open:
  assumes "valid_message m" and "script (tn_pipe t) = []"
  shows "tunnel_send m t = (ok (), t\<lparr>tn_pipe := (tn_pipe t)\<lparr>received := received (tn_pipe t) @ frame m\<rparr>\<rparr>)"
  using encode_open_pipe [OF assms(1), of 4096 "tn_pipe t"] length_body_of [OF assms(1)] assms(2)
  by (simp add: tunnel_send_def default_limits_def)

lemma tunnel_receive_frame:
  assumes "valid_message m" and "pending (tn_reader t) = frame m @ rest"
  shows "\<exists>t'. tunnel_receive t = (ok m, t') \<and> pending (tn_reader t') = rest \<and> tn_pipe t' = tn_pipe t
    \<and> stream_end (tn_reader t') = stream_end (tn_reader t)"
proof -
  have "int (length (body_of m)) \<le> 4096" using length_body_of [OF assms(1)] by linarith
  from decode_frame [OF assms(1) this assms(2)] obtain rd where
    "decode 4096 (tn_reader t) = (ok m, rd)" "pending rd = rest" "stream_end rd = stream_end (tn_reader t)" by blast
  then show ?thesis by (simp add: tunnel_receive_def default_limits_def)
qed

lemma decode_at_end:
  assumes "pending s = []" and "stream_end s = EOF"
  shows "\<exists>s'. decode max_bytes s = (err CleanEOF, s')"
proof -
  have "length (pending s) < frame_prefix_bytes" using assms(1) by (simp add: frame_prefix_bytes_def)
  then obtain s' where "read_full s frame_prefix_bytes = ([], Some EOF, s')"
    by (rule read_full_short) (use assms in simp)
  then show ?thesis by (simp add: decode_def)
qed

lemma tunnel_receive_end:
  assumes "pending (tn_reader t) = []" and "stream_end (tn_reader t) = EOF"
  shows "\<exists>t'. tunnel_receive t = (err CleanEOF, t') \<and> tn_pipe t' = tn_pipe t"
  using decode_at_end [OF assms, of 4096] by (auto simp: tunnel_receive_def default_limits_def)

text \<open>What the client makes of the server's second message.\<close>

definition verdict :: "message \<Rightarrow> tunnel_result" where
  "verdict m = (case m of OpenOK \<Rightarrow> ok () | OpenError c \<Rightarrow> err (RemoteOpenError c) | _ \<Rightarrow> err (UnexpectedOpenReply (type_of m)))"

lemma send_hello_sends:
  assumes "valid_token tok" and "script (tn_pipe t) = []" and "send_hello env tok d t = (r, t')" and "calm env"
    and "valid_destination d"
  shows "\<exists>more. received (tn_pipe t') = received (tn_pipe t) @ frame (Hello version1 tok) @ more"
proof -
  have v: "valid_message (Hello version1 tok)" using assms(1) by simp
  let ?t = "t\<lparr>tn_pipe := (tn_pipe t)\<lparr>received := received (tn_pipe t) @ frame (Hello version1 tok)\<rparr>\<rparr>"
  obtain m t1 where rc: "tunnel_receive ?t = (m, t1)" by fastforce
  note st = tunnel_receive_state [OF rc]
  show ?thesis
  proof (cases "m = ok (HelloOK version1)")
    case False
    with assms(3) tunnel_send_open [OF v assms(2)] rc have "tn_pipe t' = tn_pipe t1"
      by (auto simp: send_hello_def Let_def split: sum.split_asm Go_Prelude.failure.split_asm option.split_asm if_split_asm)
    with st show ?thesis by simp
  next
    case True
    with assms(3,4) tunnel_send_open [OF v assms(2)] rc have op: "send_open env d t1 = (r, t')"
      by (simp add: send_hello_def calm_simps)
    have sc: "script (tn_pipe t1) = []" using st assms(2) by simp
    from tunnel_send_open [of "Open d", OF _ sc] assms(5) obtain t2 where
      s: "tunnel_send (Open d) t1 = (ok (), t2)" "received (tn_pipe t2) = received (tn_pipe t1) @ frame (Open d)" by auto
    obtain m2 t3 where rc2: "tunnel_receive t2 = (m2, t3)" by fastforce
    with op s have "tn_pipe t' = tn_pipe t3"
      by (auto simp: send_open_def split: sum.split_asm Go_Prelude.failure.split_asm option.split_asm)
    with tunnel_receive_state [OF rc2] s(2) st show ?thesis by simp
  qed
qed

lemma send_hello_sends_open:
  assumes tok: "valid_token tok" and d: "valid_destination d" and sc: "script (tn_pipe t) = []" and env: "calm env"
    and p: "pending (tn_reader t) = frame (HelloOK version1) @ rest" and run: "send_hello env tok d t = (r, t')"
  shows "received (tn_pipe t') = received (tn_pipe t) @ frame (Hello version1 tok) @ frame (Open d)"
proof -
  have v: "valid_message (Hello version1 tok)" "valid_message (Open d)" "valid_message (HelloOK version1)"
    using tok d by simp_all
  let ?t1 = "t\<lparr>tn_pipe := (tn_pipe t)\<lparr>received := received (tn_pipe t) @ frame (Hello version1 tok)\<rparr>\<rparr>"
  obtain t2 where t2: "tunnel_receive ?t1 = (ok (HelloOK version1), t2)" "tn_pipe t2 = tn_pipe ?t1"
    using tunnel_receive_frame [OF v(3), of ?t1 rest] p by auto
  then have sc2: "script (tn_pipe t2) = []" using sc by simp
  let ?t3 = "t2\<lparr>tn_pipe := (tn_pipe t2)\<lparr>received := received (tn_pipe t2) @ frame (Open d)\<rparr>\<rparr>"
  obtain m t4 where rc: "tunnel_receive ?t3 = (m, t4)" by fastforce
  have "send_open env d t2 = (r, t')"
    using run tunnel_send_open [OF v(1) sc] t2(1) calm_simps [OF env] by (simp add: send_hello_def)
  with tunnel_send_open [OF v(2) sc2] rc have "tn_pipe t' = tn_pipe t4"
    by (auto simp: send_open_def split: sum.split_asm Go_Prelude.failure.split_asm option.split_asm)
  with tunnel_receive_state [OF rc] t2(2) show ?thesis by simp
qed

lemma send_hello_accepted:
  assumes tok: "valid_token tok" and d: "valid_destination d" and sc: "script (tn_pipe t) = []" and env: "calm env"
    and p: "pending (tn_reader t) = frame (HelloOK version1) @ frame m @ rest" and m: "valid_message m"
  shows "\<exists>t'. send_hello env tok d t = (verdict m, t') \<and> pending (tn_reader t') = rest
    \<and> received (tn_pipe t') = received (tn_pipe t) @ frame (Hello version1 tok) @ frame (Open d)"
proof -
  have v: "valid_message (Hello version1 tok)" "valid_message (Open d)" "valid_message (HelloOK version1)"
    using tok d by simp_all
  let ?t1 = "t\<lparr>tn_pipe := (tn_pipe t)\<lparr>received := received (tn_pipe t) @ frame (Hello version1 tok)\<rparr>\<rparr>"
  obtain t2 where t2: "tunnel_receive ?t1 = (ok (HelloOK version1), t2)" "pending (tn_reader t2) = frame m @ rest"
    "tn_pipe t2 = tn_pipe ?t1"
    using tunnel_receive_frame [OF v(3), of ?t1 "frame m @ rest"] p by auto
  then have sc2: "script (tn_pipe t2) = []" using sc by simp
  let ?t3 = "t2\<lparr>tn_pipe := (tn_pipe t2)\<lparr>received := received (tn_pipe t2) @ frame (Open d)\<rparr>\<rparr>"
  obtain t4 where t4: "tunnel_receive ?t3 = (ok m, t4)" "pending (tn_reader t4) = rest" "tn_pipe t4 = tn_pipe ?t3"
    using tunnel_receive_frame [OF m, of ?t3 rest] t2(2) by auto
  have "open_reply env m = verdict m" using calm_simps [OF env] by (simp add: open_reply_def verdict_def split: message.split)
  then have "send_open env d t2 = (verdict m, t4)"
    using tunnel_send_open [OF v(2) sc2] t4(1) calm_simps [OF env] by (simp add: send_open_def)
  then have "send_hello env tok d t = (verdict m, t4)"
    using tunnel_send_open [OF v(1) sc] t2(1) calm_simps [OF env] by (simp add: send_hello_def)
  with t4 t2(3) show ?thesis by simp
qed

lemma send_hello_rejected:
  assumes tok: "valid_token tok" and sc: "script (tn_pipe t) = []" and env: "calm env"
    and p: "pending (tn_reader t) = []" "stream_end (tn_reader t) = EOF"
  shows "\<exists>t'. send_hello env tok d t = (err AuthenticationFailed, t')
    \<and> received (tn_pipe t') = received (tn_pipe t) @ frame (Hello version1 tok)"
proof -
  have v: "valid_message (Hello version1 tok)" using tok by simp
  let ?t1 = "t\<lparr>tn_pipe := (tn_pipe t)\<lparr>received := received (tn_pipe t) @ frame (Hello version1 tok)\<rparr>\<rparr>"
  obtain t2 where t2: "tunnel_receive ?t1 = (err CleanEOF, t2)" "tn_pipe t2 = tn_pipe ?t1"
    using tunnel_receive_end [of ?t1] p by auto
  then have "send_hello env tok d t = (err AuthenticationFailed, t2)"
    using tunnel_send_open [OF v sc] calm_simps [OF env]
    by (simp add: send_hello_def decode_cause_def client_certificate_rejected_def)
  with t2 show ?thesis by simp
qed


section \<open>The two ends agree\<close>

lemma hello_stage_rejects:
  assumes good: "limiter_good (sn_limiter s)" and rc: "receive rs s = (ok (Hello v tok), s1)"
    and no: "\<not> token_set_contains (rl_tokens rs) tok" and st: "hello_stage rs senv x s = ok (s', e)"
  shows "e = InvalidToken" and "sn_pipe s' = sn_pipe s"
  using st rc no receive_state [OF rc]
  by (auto simp: hello_stage_def hello_token_def bind_result_eq_ok authentication_failed_def)

lemma hello_stage_accepts:
  assumes w: "wired rs s" and rc: "receive rs s = (ok (Hello v tok), s1)"
    and yes: "token_set_contains (rl_tokens rs) tok" and st: "hello_stage rs senv x s = ok (s', e)"
  shows "\<exists>s2. open_stage rs senv s2 = ok (s', e) \<and> wired rs s2 \<and> sn_reader s2 = sn_reader s1"
proof -
  from st rc yes obtain l where l: "limiter_reset (sn_limiter s1) x = ok l"
    by (auto simp: hello_stage_def hello_token_def bind_result_eq_ok)
  let ?s = "s1\<lparr>sn_limiter := l\<rparr>"
  have w1: "wired rs ?s" using w receive_state [OF rc] by (simp add: wired_def)
  from send_wired [OF w1 valid_replies(1)] obtain s2 where
    s2: "send rs (HelloOK version1) ?s = (ok (), s2)" "said ?s s2 [HelloOK version1]" by auto
  with st rc yes l have "open_stage rs senv s2 = ok (s', e)" by (simp add: hello_stage_def hello_token_def)
  moreover have "sn_reader s2 = sn_reader s1" using send_state [OF s2(1)] by simp
  ultimately show ?thesis using wired_said [OF w1 s2(2)] by blast
qed

lemma sent_frames_simps [simp]: "sent_frames [] = []" "sent_frames (m # ms) = frame m @ sent_frames ms"
  by (simp_all add: sent_frames_def)

definition fits :: "relay_settings \<Rightarrow> message \<Rightarrow> bool" where
  "fits rs m \<longleftrightarrow> valid_message m \<and> int (length (body_of m)) \<le> rl_max_control rs"

lemma answered_valid: "answered_end e m \<Longrightarrow> valid_message m"
  using valid_replies by (auto simp: answered_end_simps)

lemma sessions_agree:
  assumes client: "send_hello env tok d t = (r, t')" "script (tn_pipe t) = []" "received (tn_pipe t) = []" "calm env"
    and server: "hello_stage rs senv x s = ok (s', e)" "wired rs s" "received (sn_pipe s) = []" "limiter_good (sn_limiter s)"
    and msgs: "fits rs (Hello version1 tok)" "fits rs (Open d)"
    and up: "pending (sn_reader s) = received (tn_pipe t') @ up"
    and down: "pending (tn_reader t) = received (sn_pipe s') @ down" "stream_end (tn_reader t) = EOF"
      "e \<noteq> Relayed \<longrightarrow> down = []"
  shows "if token_set_contains (rl_tokens rs) tok
    then \<exists>m. answered_end e m \<and> r = verdict m \<and> pending (tn_reader t') = down \<and> pending (sn_reader s') = up
    else e = InvalidToken \<and> r = err AuthenticationFailed"
proof -
  have v: "valid_token tok" "valid_destination d" using msgs by (simp_all add: fits_def)
  from send_hello_sends [OF v(1) client(2,1,4) v(2)] obtain more where
    "received (tn_pipe t') = frame (Hello version1 tok) @ more" using client(3) by auto
  with up have p1: "pending (sn_reader s) = frame (Hello version1 tok) @ more @ up" by simp
  from receive_frame [OF _ _ p1] msgs(1) obtain s1 where
    rc: "receive rs s = (ok (Hello version1 tok), s1)" "pending (sn_reader s1) = more @ up" by (auto simp: fits_def)
  from hello_stage_said [OF server(2,1)] have out: "received (sn_pipe s') = sent_frames (replies e)"
    using said_pipe(2) server(3) by fastforce
  show ?thesis
  proof (cases "token_set_contains (rl_tokens rs) tok")
    case False
    note rej = hello_stage_rejects [OF server(4) rc(1) False server(1)]
    then have "pending (tn_reader t) = []" using down(1,3) server(3) by simp
    from send_hello_rejected [OF v(1) client(2,4) this down(2), of d] client(1) have "r = err AuthenticationFailed" by auto
    with rej False show ?thesis by simp
  next
    case True
    from hello_stage_accepts [OF server(2) rc(1) True server(1)] obtain s2 where
      s2: "open_stage rs senv s2 = ok (s', e)" "wired rs s2" "sn_reader s2 = sn_reader s1" by blast
    from open_stage_replies [OF s2(2,1)] out down(1) have
      "pending (tn_reader t) = frame (HelloOK version1) @ sent_frames (tl (replies e)) @ down"
      by (metis append_assoc sent_frames_simps(2))
    from send_hello_sends_open [OF v client(2,4) this client(1)] client(3) up p1
    have "more = frame (Open d)" by simp
    with rc(2) s2(3) have p2: "pending (sn_reader s2) = frame (Open d) @ up" by simp
    from receive_frame [OF _ _ p2] msgs(2) obtain s3 where
      s3: "receive rs s2 = (ok (Open d), s3)" "pending (sn_reader s3) = up" by (auto simp: fits_def)
    from open_stage_answered [OF s2(2) s3(1) s2(1)] obtain m where
      m: "answered_end e m" "sn_reader s' = sn_reader s3" by blast
    have "pending (tn_reader t) = frame (HelloOK version1) @ frame m @ down"
      using out down(1) answered_end_replies [OF m(1)] by simp
    from send_hello_accepted [OF v client(2,4) this answered_valid [OF m(1)]] client(1)
    have "r = verdict m" "pending (tn_reader t') = down" by auto
    with m s3(2) True show ?thesis by auto
  qed
qed


text \<open>Both ends once their handshakes are through.\<close>

definition client_ready :: "client \<Rightarrow> open_env \<Rightarrow> destination \<Rightarrow> bool" where
  "client_ready c env d \<longleftrightarrow>
     calm env \<and> oe_set_deadline env = None
   \<and> allowed (check_destination (client_checker (cl_config c)) d :: unit lookup_error decision)
   \<and> (case oe_stream env of Inl _ \<Rightarrow> False
      | Inr peer \<Rightarrow> is_ok (fst (dial_inner_tls (oe_x509 env) peer (c_server_pin (cl_config c)) (cl_identity c)
                      (t_tls_handshake (c_timeouts (cl_config c))))))"

definition server_ready :: "relay_settings \<Rightarrow> session_env \<Rightarrow> bool" where
  "server_ready rs senv \<longleftrightarrow> is_ok (session_inner rs senv) \<and> se_set_deadline senv"

definition fresh_tunnel :: "tunnel \<Rightarrow> bool" where
  "fresh_tunnel t \<longleftrightarrow> tn_pipe t = open_pipe \<and> stream_end (tn_reader t) = EOF"

definition fresh_session :: "relay_settings \<Rightarrow> session \<Rightarrow> bool" where
  "fresh_session rs s \<longleftrightarrow> sn_pipe s = open_pipe \<and> 3 \<le> rl_max_control rs \<and> limiter_good (sn_limiter s)"

lemma client_ready_open:
  assumes "client_ready c env d" and "client_open (Some c) env d t = (r, t')"
  shows "\<exists>t1. send_hello env (cl_token c) d (t\<lparr>tn_dialed := True\<rparr>) = (r, t1)
    \<and> tn_reader t' = tn_reader t1 \<and> tn_pipe t' = tn_pipe t1"
proof -
  obtain q t1 where sh: "send_hello env (cl_token c) d (t\<lparr>tn_dialed := True\<rparr>) = (q, t1)" by fastforce
  with assms show ?thesis
    by (auto simp: client_ready_def client_open_def Let_def is_ok_iff
        split: sum.split_asm option.split_asm prod.split_asm Go_Prelude.failure.split_asm)
qed

lemma server_ready_session:
  assumes "server_ready rs senv" and "handle_session rs senv x s = ok (s', e)"
  shows "\<exists>s1. hello_stage rs senv x s1 = ok (s', e) \<and> sn_pipe s1 = sn_pipe s \<and> sn_reader s1 = sn_reader s
    \<and> sn_limiter s1 = sn_limiter s"
  using assms
  by (auto simp: server_ready_def handle_session_def is_ok_iff Let_def split: if_split_asm)

lemma ends_agree:
  assumes client: "client_open (Some c) env d t = (r, t')" "client_ready c env d" "fresh_tunnel t"
    and server: "handle_session rs senv x s = ok (s', e)" "server_ready rs senv" "fresh_session rs s"
    and msgs: "fits rs (Hello version1 (cl_token c))" "fits rs (Open d)"
    and up: "pending (sn_reader s) = received (tn_pipe t') @ up"
    and down: "pending (tn_reader t) = received (sn_pipe s') @ down" "e \<noteq> Relayed \<longrightarrow> down = []"
  shows "if token_set_contains (rl_tokens rs) (cl_token c)
    then \<exists>m. answered_end e m \<and> r = verdict m \<and> pending (tn_reader t') = down \<and> pending (sn_reader s') = up
    else e = InvalidToken \<and> r = err AuthenticationFailed"
proof -
  from client_ready_open [OF client(2,1)] obtain t1 where
    t1: "send_hello env (cl_token c) d (t\<lparr>tn_dialed := True\<rparr>) = (r, t1)" "tn_reader t' = tn_reader t1" "tn_pipe t' = tn_pipe t1"
    by blast
  from server_ready_session [OF server(2,1)] obtain s1 where
    s1: "hello_stage rs senv x s1 = ok (s', e)" "sn_pipe s1 = sn_pipe s" "sn_reader s1 = sn_reader s"
      "sn_limiter s1 = sn_limiter s" by blast
  have "calm env" using client(2) by (simp add: client_ready_def)
  moreover have "wired rs s1" "received (sn_pipe s1) = []" "limiter_good (sn_limiter s1)"
    using server(3) s1 by (simp_all add: fresh_session_def wired_def open_pipe_def)
  ultimately show ?thesis
    using sessions_agree [OF t1(1) _ _ _ s1(1) _ _ _ msgs] client(3) up down t1(2,3) s1(3)
    by (simp add: fresh_tunnel_def open_pipe_def)
qed

end
