(* ===== verification/Websocket_Upgrade.thy ===== *)
theory Websocket_Upgrade
  imports Websocket_Frames Secure_Dialer
begin

text \<open>
  \<open>internal/tunnel/websocket.go\<close>: both halves of the opening handshake, and the dialer of
  \<open>client.go\<close> that puts it on the secure connection. HTTP parsing is outside: a message is its
  method or status and its headers, with the first value under each canonical name.
\<close>

section \<open>SHA-1\<close>

definition rotl32 :: "nat \<Rightarrow> 32 word \<Rightarrow> 32 word" where
  "rotl32 n x = push_bit n x OR drop_bit (32 - n) x"

fun sha1_schedule :: "nat \<Rightarrow> 32 word list \<Rightarrow> 32 word list" where
  "sha1_schedule 0 ws = ws"
| "sha1_schedule (Suc n) ws =
     (let i = length ws
      in sha1_schedule n (ws @ [rotl32 1 (ws ! (i - 3) XOR ws ! (i - 8) XOR ws ! (i - 14) XOR ws ! (i - 16))]))"

definition sha1_mix :: "nat \<Rightarrow> 32 word \<Rightarrow> 32 word \<Rightarrow> 32 word \<Rightarrow> 32 word" where
  "sha1_mix t b c d =
     (if t < 20 then (b AND c) OR (NOT b AND d)
      else if t < 40 then b XOR c XOR d
      else if t < 60 then (b AND c) OR (b AND d) OR (c AND d)
      else b XOR c XOR d)"

definition sha1_k :: "nat \<Rightarrow> 32 word" where
  "sha1_k t = (if t < 20 then 0x5A827999 else if t < 40 then 0x6ED9EBA1 else if t < 60 then 0x8F1BBCDC else 0xCA62C1D6)"

fun sha1_round :: "32 word list \<Rightarrow> nat \<times> 32 word \<Rightarrow> 32 word list" where
  "sha1_round [a, b, c, d, e] (t, w) = [rotl32 5 a + sha1_mix t b c d + e + w + sha1_k t, a, rotl32 30 b, c, d]"
| "sha1_round st tw = st"

definition sha1_block :: "32 word list \<Rightarrow> bytes \<Rightarrow> 32 word list" where
  "sha1_block st b = map2 (+) st (foldl sha1_round st (zip [0..<80] (sha1_schedule 64 (block_words b))))"

fun sha1_blocks :: "nat \<Rightarrow> 32 word list \<Rightarrow> bytes \<Rightarrow> 32 word list" where
  "sha1_blocks 0 st m = st"
| "sha1_blocks (Suc n) st m = sha1_blocks n (sha1_block st (take 64 m)) (drop 64 m)"

definition sha1 :: "bytes \<Rightarrow> bytes" where
  "sha1 m = (let p = sha256_pad m
     in concat (map put_uint32 (sha1_blocks (length p div 64)
          [0x67452301, 0xEFCDAB89, 0x98BADCFE, 0x10325476, 0xC3D2E1F0] p)))"

section \<open>Headers\<close>

type_synonym headers = "(string \<times> string) list"

definition header_get :: "headers \<Rightarrow> string \<Rightarrow> string" where
  "header_get h key = (case map_of h key of None \<Rightarrow> [] | Some v \<Rightarrow> v)"

definition trim_string :: "string \<Rightarrow> string" where
  "trim_string = trim_by (\<lambda>c. c = CHR '' '' \<or> c = CHR 0x09 \<or> c = CHR 0x0A \<or> c = CHR 0x0D)"

definition header_has_token :: "string \<Rightarrow> string \<Rightarrow> bool" where
  "header_has_token v tok = list_ex (\<lambda>candidate. equal_fold (trim_string candidate) tok) (split_on CHR '','' v)"

definition websocket_guid :: string where
  "websocket_guid = ''258EAFA5-E914-47DA-95CA-5AB0DC85B11F''"

definition websocket_version :: string where "websocket_version = ''13''"

definition response_header_limit :: nat where "response_header_limit = 65536"

definition accept_token :: "string \<Rightarrow> string" where
  "accept_token key = base64_encode (sha1 (bytes_of_string (key @ websocket_guid)))"

section \<open>The server half\<close>

datatype upgrade_refusal =
    MethodNotGet | NotAnUpgrade | WrongVersion | InvalidKey | OfferedExtension | NoHijacker | HijackFailed | ResponseNotWritten

record http_answer =
  ha_status :: nat
  ha_headers :: headers

text \<open>
  \<open>AcceptWebSocket\<close>: the refusal with the answer written for it, or the switch. The connection
  behind the request can be taken over or not, and written and flushed or not.
\<close>

record takeover =
  to_hijacker :: bool
  to_hijack :: bool
  to_write :: bool
  to_flush :: bool

definition accept_websocket :: "string \<Rightarrow> headers \<Rightarrow> takeover \<Rightarrow> (upgrade_refusal \<times> http_answer option) + http_answer" where
  "accept_websocket verb h w =
     (if verb \<noteq> ''GET'' then Inl (MethodNotGet, Some \<lparr>ha_status = 405, ha_headers = [(''Allow'', ''GET'')]\<rparr>)
      else if \<not> header_has_token (header_get h ''Connection'') ''upgrade''
        \<or> \<not> equal_fold (header_get h ''Upgrade'') ''websocket''
        then Inl (NotAnUpgrade, Some \<lparr>ha_status = 426, ha_headers = []\<rparr>)
      else if header_get h ''Sec-Websocket-Version'' \<noteq> websocket_version
        then Inl (WrongVersion, Some \<lparr>ha_status = 400, ha_headers = [(''Sec-Websocket-Version'', websocket_version)]\<rparr>)
      else
        let key = header_get h ''Sec-Websocket-Key'' in
        if (case base64_decode key of None \<Rightarrow> True | Some k \<Rightarrow> length k \<noteq> 16 \<or> base64_encode k \<noteq> key)
          then Inl (InvalidKey, Some \<lparr>ha_status = 400, ha_headers = []\<rparr>)
        else if header_get h ''Sec-Websocket-Protocol'' \<noteq> [] \<or> header_get h ''Sec-Websocket-Extensions'' \<noteq> []
          then Inl (OfferedExtension, Some \<lparr>ha_status = 400, ha_headers = []\<rparr>)
        else if \<not> to_hijacker w then Inl (NoHijacker, Some \<lparr>ha_status = 500, ha_headers = []\<rparr>)
        else if \<not> to_hijack w then Inl (HijackFailed, None)
        else if \<not> to_write w \<or> \<not> to_flush w then Inl (ResponseNotWritten, None)
        else Inr \<lparr>ha_status = 101,
               ha_headers = [(''Upgrade'', ''websocket''), (''Connection'', ''Upgrade''),
                             (''Sec-Websocket-Accept'', accept_token key)]\<rparr>)"

section \<open>The client half\<close>

datatype upgrade_fault =
    NoRelayUrl | NonceFailed "string io_error" | DeadlineFailed | RequestNotSent "string io_error"
  | ResponseUnread | StatusCode nat | UpgradedTo string | ConnectionHeader string | KeyNotProved
  | SelectedExtension string | SelectedProtocol string

type_synonym 'a upgrade = "(upgrade_fault transport_error, 'a) result"

definition upgrade_nonce :: "string stream \<Rightarrow> string upgrade \<times> string stream" where
  "upgrade_nonce entropy =
     (case read_full entropy 16 of
        (_, Some e, s) \<Rightarrow> (fail FailureHandshake (NonceFailed e), s)
      | (bytes, None, s) \<Rightarrow> (ok (base64_encode bytes), s))"

definition crlf :: string where "crlf = [CHR 0x0D, CHR 0x0A]"

definition upgrade_request :: "string \<Rightarrow> string \<Rightarrow> string \<Rightarrow> string" where
  "upgrade_request request_uri host key =
     (let target = (if request_uri = [] then ''/'' else request_uri)
      in ''GET '' @ target @ '' HTTP/1.1'' @ crlf @ ''Host: '' @ host @ crlf @ ''Upgrade: websocket'' @ crlf
         @ ''Connection: Upgrade'' @ crlf @ ''Sec-WebSocket-Key: '' @ key @ crlf
         @ ''Sec-WebSocket-Version: '' @ websocket_version @ crlf @ crlf)"

definition validate_upgrade :: "http_answer \<Rightarrow> string \<Rightarrow> unit upgrade" where
  "validate_upgrade a key =
     (if ha_status a \<noteq> 101 then
        (if 300 \<le> ha_status a \<and> ha_status a < 400 then fail FailureRedirect (StatusCode (ha_status a))
         else fail FailureHandshake (StatusCode (ha_status a)))
      else if \<not> equal_fold (header_get (ha_headers a) ''Upgrade'') ''websocket''
        then fail FailureHandshake (UpgradedTo (header_get (ha_headers a) ''Upgrade''))
      else if \<not> header_has_token (header_get (ha_headers a) ''Connection'') ''upgrade''
        then fail FailureHandshake (ConnectionHeader (header_get (ha_headers a) ''Connection''))
      else if header_get (ha_headers a) ''Sec-Websocket-Accept'' \<noteq> accept_token key then fail FailureHandshake KeyNotProved
      else if header_get (ha_headers a) ''Sec-Websocket-Extensions'' \<noteq> []
        then fail FailureHandshake (SelectedExtension (header_get (ha_headers a) ''Sec-Websocket-Extensions''))
      else if header_get (ha_headers a) ''Sec-Websocket-Protocol'' \<noteq> []
        then fail FailureHandshake (SelectedProtocol (header_get (ha_headers a) ''Sec-Websocket-Protocol''))
      else ok ())"

text \<open>
  \<open>prefixReader\<close>: the bytes the response reader had buffered, then the connection. Once the prefix
  is empty it is dropped.
\<close>

record prefix_reader =
  pr_prefix :: "string stream option"
  pr_rest :: "string stream"

definition new_prefix_reader :: "bytes \<Rightarrow> string stream \<Rightarrow> prefix_reader" where
  "new_prefix_reader buffered conn =
     (if length buffered = 0 then \<lparr>pr_prefix = None, pr_rest = conn\<rparr>
      else \<lparr>pr_prefix = Some \<lparr>chunks = [buffered], stream_end = EOF\<rparr>, pr_rest = conn\<rparr>)"

definition read_rest :: "prefix_reader \<Rightarrow> nat \<Rightarrow> bytes \<times> string io_error option \<times> prefix_reader" where
  "read_rest r n = (case stream_read (pr_rest r) n of (d, e, s) \<Rightarrow> (d, e, \<lparr>pr_prefix = None, pr_rest = s\<rparr>))"

definition prefix_read :: "prefix_reader \<Rightarrow> nat \<Rightarrow> bytes \<times> string io_error option \<times> prefix_reader" where
  "prefix_read r n =
     (case pr_prefix r of
        None \<Rightarrow> read_rest r n
      | Some p \<Rightarrow>
          (case stream_read p n of (d, e, p') \<Rightarrow>
             if e = None \<or> e = Some EOF then
               (if 0 < length d then (d, None, r\<lparr>pr_prefix := Some p'\<rparr>) else read_rest r n)
             else (d, e, r\<lparr>pr_prefix := Some p'\<rparr>)))"

text \<open>
  \<open>Upgrade\<close>: what the connection answers is the parsed response and the bytes that came with it,
  or a failure to read one. The result is the reader of the first WebSocket byte.
\<close>

record upgrade_env =
  ue_entropy :: "string stream"
  ue_set_deadline :: bool
  ue_answer :: "(http_answer \<times> bytes \<times> string stream) option"

definition upgrade_client ::
  "(string \<times> string) option \<Rightarrow> int \<Rightarrow> upgrade_env \<Rightarrow> string pipe \<Rightarrow> prefix_reader upgrade \<times> string pipe" where
  "upgrade_client url timeout env p =
     (case url of None \<Rightarrow> (fail FailureHandshake NoRelayUrl, p)
      | Some (request_uri, host) \<Rightarrow>
     (case upgrade_nonce (ue_entropy env) of
        (Inl e, _) \<Rightarrow> (Inl e, p)
      | (Inr key, _) \<Rightarrow>
          if 0 < timeout \<and> \<not> ue_set_deadline env then (fail FailureHandshake DeadlineFailed, p)
          else (case pipe_write p (bytes_of_string (upgrade_request request_uri host key)) of
             (_, Some e, p) \<Rightarrow> (fail FailureHandshake (RequestNotSent e), p)
           | (_, None, p) \<Rightarrow>
          (case ue_answer env of None \<Rightarrow> (fail FailureHandshake ResponseUnread, p)
           | Some (a, buffered, conn) \<Rightarrow>
               (case validate_upgrade a key of
                  Inl e \<Rightarrow> (Inl e, p)
                | Inr _ \<Rightarrow> (ok (new_prefix_reader buffered conn), p))))))"


section \<open>The dialer of the client\<close>

text \<open>\<open>strconv.ParseUint(text, 10, 16)\<close>.\<close>

definition parse_uint16 :: "string \<Rightarrow> 16 word option" where
  "parse_uint16 s =
     (let v = foldl (\<lambda>n c. 10 * n + (code c - 48)) 0 s in
      if s \<noteq> [] \<and> list_all is_digit s \<and> v < 65536 then Some (word_of_nat v) else None)"

datatype stream_error = RelayPort string | DialError "dial_cause transport_error" | UpgradeError "upgrade_fault transport_error"

text \<open>The reader that continues a response: its buffered bytes are the first piece of the stream.\<close>

definition prefix_stream :: "prefix_reader \<Rightarrow> string stream" where
  "prefix_stream r =
     \<lparr>chunks = (case pr_prefix r of None \<Rightarrow> [] | Some p \<Rightarrow> chunks p) @ chunks (pr_rest r),
      stream_end = stream_end (pr_rest r)\<rparr>"

text \<open>
  \<open>DialStream\<close>: the secure connection, the upgrade on it, and the WebSocket over both, with the
  actions of the dialer. A failed upgrade closes the connection.
\<close>

definition dial_stream ::
  "secure_dialer \<Rightarrow> 'c network \<Rightarrow> url \<Rightarrow> string \<Rightarrow> int \<Rightarrow> ('c \<Rightarrow> upgrade_env) \<Rightarrow> string pipe \<Rightarrow> string stream \<Rightarrow> nat
     \<Rightarrow> (stream_error, ws_conn) result \<times> 'c action list" where
  "dial_stream sd net endpoint request_uri timeout env p entropy n =
     (case (if url_port endpoint = [] then Some allowed_port else parse_uint16 (url_port endpoint)) of
        None \<Rightarrow> (err (RelayPort (url_port endpoint)), [])
      | Some port \<Rightarrow>
     (case dial_port sd net (url_hostname endpoint) port n of
        (Inl e, as) \<Rightarrow> (map_err DialError (Inl e), as)
      | (Inr (raw, _), as) \<Rightarrow>
     (case upgrade_client (Some (request_uri, url_host endpoint)) timeout (env raw) p of
        (Inl e, _) \<Rightarrow> (map_err UpgradeError (Inl e), as @ [Close raw])
      | (Inr reader, p) \<Rightarrow> (ok (new_websocket_conn (prefix_stream reader) p entropy True), as))))"

section \<open>The two halves fit\<close>

text \<open>The request the client sends, as the headers a server parses out of it.\<close>

definition request_headers :: "string \<Rightarrow> string \<Rightarrow> headers" where
  "request_headers host key =
     [(''Host'', host), (''Upgrade'', ''websocket''), (''Connection'', ''Upgrade''), (''Sec-Websocket-Key'', key),
      (''Sec-Websocket-Version'', websocket_version)]"

definition willing :: takeover where
  "willing = \<lparr>to_hijacker = True, to_hijack = True, to_write = True, to_flush = True\<rparr>"

lemma equal_fold_evals:
  "equal_fold ''websocket'' ''websocket''" "header_has_token ''Upgrade'' ''upgrade''"
proof -
  have "split_on CHR '','' ''Upgrade'' = [''Upgrade'']" "trim_string ''Upgrade'' = ''Upgrade''"
    by code_simp+
  then show "header_has_token ''Upgrade'' ''upgrade''"
    by (simp add: header_has_token_def equal_fold_def runes_ascii_Cons fold_rune_def in_range_def)
qed (simp add: equal_fold_def)

lemma accept_then_validate:
  assumes "length nonce = 16"
  shows "\<exists>a. accept_websocket ''GET'' (request_headers host (base64_encode nonce)) willing = Inr a
    \<and> ha_status a = 101 \<and> validate_upgrade a (base64_encode nonce) = ok ()"
  using assms
  by (simp add: accept_websocket_def request_headers_def header_get_def willing_def validate_upgrade_def
      base64_decode_encode equal_fold_evals websocket_version_def Let_def)

lemma validate_upgrade_ok:
  "validate_upgrade a key = ok () \<longleftrightarrow>
     ha_status a = 101 \<and> equal_fold (header_get (ha_headers a) ''Upgrade'') ''websocket''
   \<and> header_has_token (header_get (ha_headers a) ''Connection'') ''upgrade''
   \<and> header_get (ha_headers a) ''Sec-Websocket-Accept'' = accept_token key
   \<and> header_get (ha_headers a) ''Sec-Websocket-Extensions'' = [] \<and> header_get (ha_headers a) ''Sec-Websocket-Protocol'' = []"
  by (auto simp: validate_upgrade_def)

lemma validate_upgrade_redirect:
  "300 \<le> ha_status a \<Longrightarrow> ha_status a < 400 \<Longrightarrow>
     validate_upgrade a key = fail FailureRedirect (StatusCode (ha_status a))"
  by (simp add: validate_upgrade_def)

lemma accept_websocket_switches:
  assumes "accept_websocket verb h w = Inr a"
  shows "verb = ''GET''" and "ha_status a = 101"
    and "\<exists>nonce. length nonce = 16 \<and> header_get h ''Sec-Websocket-Key'' = base64_encode nonce"
    and "header_get h ''Sec-Websocket-Protocol'' = []" and "header_get h ''Sec-Websocket-Extensions'' = []"
  using assms by (auto simp: accept_websocket_def Let_def split: if_split_asm option.split_asm)

text \<open>A refused request is answered, unless the connection was already taken over.\<close>

lemma accept_websocket_refuses:
  "accept_websocket verb h w = Inl (refusal, answer) \<Longrightarrow>
     (answer = None \<longleftrightarrow> refusal = HijackFailed \<or> refusal = ResponseNotWritten)
       \<and> (\<forall>a. answer = Some a \<longrightarrow> ha_status a \<in> {400, 405, 426, 500})"
  by (auto simp: accept_websocket_def Let_def split: if_split_asm)

section \<open>The reader after the response\<close>

definition whole_chunks :: "string stream \<Rightarrow> bool" where
  "whole_chunks s \<longleftrightarrow> [] \<notin> set (chunks s)"

definition prefix_ok :: "prefix_reader \<Rightarrow> bool" where
  "prefix_ok r \<longleftrightarrow> (case pr_prefix r of None \<Rightarrow> True | Some p \<Rightarrow> whole_chunks p \<and> stream_end p = EOF)"

lemma new_prefix_reader_ok: "prefix_ok (new_prefix_reader buffered conn)"
  by (simp add: new_prefix_reader_def prefix_ok_def whole_chunks_def)

lemma new_prefix_reader_pending: "pending (prefix_stream (new_prefix_reader buffered conn)) = buffered @ pending conn"
  by (simp add: new_prefix_reader_def prefix_stream_def pending_def)

text \<open>Reading through the prefix is reading the joined stream.\<close>

lemma prefix_read_is_stream_read:
  assumes "prefix_ok r" and "0 < n" and "prefix_read r n = (d, e, r')"
  shows "stream_read (prefix_stream r) n = (d, e, prefix_stream r')" and "prefix_ok r'"
proof -
  have rest: "stream_read (prefix_stream r) n = (d, e, prefix_stream r') \<and> prefix_ok r'"
    if "case pr_prefix r of None \<Rightarrow> True | Some p \<Rightarrow> chunks p = []" "read_rest r n = (d, e, r')"
    using that by (auto simp: read_rest_def prefix_stream_def stream_read_def prefix_ok_def
        split: list.splits option.splits if_split_asm)
  have "stream_read (prefix_stream r) n = (d, e, prefix_stream r') \<and> prefix_ok r'"
  proof (cases "pr_prefix r")
    case None
    with rest assms(3) show ?thesis by (simp add: prefix_read_def)
  next
    case (Some p)
    show ?thesis
    proof (cases "chunks p")
      case Nil
      with Some assms have "read_rest r n = (d, e, r')"
        by (simp add: prefix_read_def stream_read_def prefix_ok_def)
      with rest Some Nil show ?thesis by simp
    next
      case (Cons c cs)
      then have "c \<noteq> []" using assms(1) Some by (auto simp: prefix_ok_def whole_chunks_def)
      with assms Some Cons show ?thesis
        by (auto simp: prefix_read_def stream_read_def prefix_stream_def prefix_ok_def whole_chunks_def split: if_split_asm)
    qed
  qed
  then show "stream_read (prefix_stream r) n = (d, e, prefix_stream r')" and "prefix_ok r'" by auto
qed

text \<open>A read into an empty buffer is the exception: it drops what is buffered.\<close>

lemma empty_read_drops_prefix:
  assumes "buffered \<noteq> []" and "prefix_read (new_prefix_reader buffered conn) 0 = (d, e, r')"
  shows "pr_prefix r' = None" and "pending (prefix_stream r') = pending conn"
  using assms
  by (auto simp: new_prefix_reader_def prefix_read_def stream_read_def read_rest_def prefix_stream_def pending_def
      split: list.splits if_split_asm)

section \<open>What the client sent and when\<close>

lemma upgrade_nonce_ok: "upgrade_nonce entropy = (ok key, s) \<Longrightarrow> \<exists>nonce. length nonce = 16 \<and> key = base64_encode nonce"
  by (auto simp: upgrade_nonce_def split: prod.split_asm option.split_asm dest!: read_full_cases(1))

lemma upgrade_client_ok:
  assumes "upgrade_client (Some (uri, host)) timeout env p = (ok reader, p')"
  shows "\<exists>key a buffered conn. ue_answer env = Some (a, buffered, conn) \<and> validate_upgrade a key = ok ()
    \<and> fst (upgrade_nonce (ue_entropy env)) = ok key \<and> reader = new_prefix_reader buffered conn"
  using assms by (auto simp: upgrade_client_def split: prod.split_asm sum.split_asm option.split_asm if_split_asm)

lemma dial_stream_ok:
  assumes "dial_stream sd net endpoint uri timeout env p entropy n = (ok c, as)"
  shows "\<exists>port raw info p' reader. dial_port sd net (url_hostname endpoint) port n = (ok (raw, info), as)
    \<and> upgrade_client (Some (uri, url_host endpoint)) timeout (env raw) p = (ok reader, p')
    \<and> c = new_websocket_conn (prefix_stream reader) p' entropy True"
  using assms by (auto simp: dial_stream_def split: option.split_asm prod.split_asm sum.split_asm)

text \<open>No WebSocket without the verified transport below it, and what it reads is what follows the response.\<close>

lemma dial_stream_secure:
  assumes "dial_stream sd net endpoint uri timeout env p entropy n = (ok c, as)"
  shows "\<exists>raw info key a buffered conn. Close raw \<notin> set as
    \<and> verify_transport info (dialer_ech_required sd) = ok () \<and> ue_answer (env raw) = Some (a, buffered, conn)
    \<and> validate_upgrade a key = ok () \<and> fst (upgrade_nonce (ue_entropy (env raw))) = ok key
    \<and> pending (ws_reader c) = buffered @ pending conn"
proof -
  from dial_stream_ok [OF assms] obtain port raw info p' reader where
    d: "dial_port sd net (url_hostname endpoint) port n = (ok (raw, info), as)"
    and u: "upgrade_client (Some (uri, url_host endpoint)) timeout (env raw) p = (ok reader, p')"
    and c: "c = new_websocket_conn (prefix_stream reader) p' entropy True" by blast
  from upgrade_client_ok [OF u] new_prefix_reader_pending obtain key a buffered conn where
    a: "ue_answer (env raw) = Some (a, buffered, conn)" "validate_upgrade a key = ok ()"
    "fst (upgrade_nonce (ue_entropy (env raw))) = ok key" "pending (ws_reader c) = buffered @ pending conn"
    by (auto simp: c new_websocket_conn_def)
  from d have "Close raw \<notin> set as" "verify_transport info (dialer_ech_required sd) = ok ()"
    by (auto elim: dial_port_ok)
  with a show ?thesis by blast
qed

lemma dial_stream_closes:
  assumes "dial_port sd net (url_hostname endpoint) port n = (ok (raw, info), as)"
    and "port = (if url_port endpoint = [] then allowed_port else the (parse_uint16 (url_port endpoint)))"
    and "url_port endpoint \<noteq> [] \<Longrightarrow> parse_uint16 (url_port endpoint) \<noteq> None"
    and "dial_stream sd net endpoint uri timeout env p entropy n = (Inl e, bs)"
  shows "bs = as @ [Close raw]"
  using assms by (auto simp: dial_stream_def split: option.split_asm prod.split_asm sum.split_asm if_split_asm)

text \<open>The constant is not the one of RFC 6455, section 1.3.\<close>

definition rfc6455_guid :: string where
  "rfc6455_guid = ''258EAFA5-E914-47DA-95CA-C5AB0DC85B11''"

lemma websocket_guid_differs: "websocket_guid \<noteq> rfc6455_guid"
  by (simp add: websocket_guid_def rfc6455_guid_def)

section \<open>Properties\<close>



text \<open>
  Reading through the reader that continues a response is reading one stream, the bytes buffered
  with the response and then the connection, for every buffer that is not empty.
\<close>

theorem prefix_reader_is_one_stream:
  assumes "prefix_ok r" and "0 < n" and "prefix_read r n = (d, e, r')"
  shows "stream_read (prefix_stream r) n = (d, e, prefix_stream r') \<and> prefix_ok r'
    \<and> pending (prefix_stream (new_prefix_reader buffered conn)) = buffered @ pending conn"
  using prefix_read_is_stream_read [OF assms] new_prefix_reader_pending by blast

theorem prefix_reader_is_one_stream_witness:
  "\<exists>d e r'. prefix_read (new_prefix_reader [1, 2, 3] \<lparr>chunks = [[4]], stream_end = EOF\<rparr>) 2 = (d, e, r') \<and> d = [1, 2]
     \<and> pending (prefix_stream r') = [3, 4]"
proof -
  let ?r = "new_prefix_reader [1, 2, 3] \<lparr>chunks = [[4]], stream_end = (EOF :: string io_error)\<rparr>"
  obtain d e r' where run: "prefix_read ?r 2 = (d, e, r')" by (cases "prefix_read ?r 2")
  from prefix_reader_is_one_stream [OF new_prefix_reader_ok _ run, of "[]" "\<lparr>chunks = [], stream_end = EOF\<rparr>"]
  have "stream_read (prefix_stream ?r) 2 = (d, e, prefix_stream r')" by simp
  moreover have "prefix_stream ?r = \<lparr>chunks = [[1, 2, 3], [4]], stream_end = EOF\<rparr>"
    by (simp add: new_prefix_reader_def prefix_stream_def)
  ultimately have s: "d = [1, 2]" "prefix_stream r' = \<lparr>chunks = [[3], [4]], stream_end = EOF\<rparr>"
    by (auto simp: stream_read_def)
  from run s show ?thesis by (simp add: pending_def)
qed

end
