(* ===== verification/Relay_Server.thy ===== *)
theory Relay_Server
  imports Relay_Session Websocket_Upgrade Doh_Client
begin

text \<open>
  The server around the sessions, \<open>internal/relay/server.go\<close>: routing, admission and shutdown. Every
  request runs in a goroutine of its own, so the server is a step relation over the phases of the
  requests and the state they share: the limiter, the semaphore of the session slots, the wait
  group, the map of active connections and the draining flag.
\<close>

section \<open>Routing\<close>

definition tunnel_path :: string where "tunnel_path = ''/v1/tunnel''"
definition health_path :: string where "health_path = ''/healthz''"

record http_request =
  rq_path :: string
  rq_raw_query :: string
  rq_verb :: string
  rq_headers :: headers
  rq_remote_addr :: string

datatype route = Respond http_answer | ToTunnel

text \<open>The part of \<open>ServeHTTP\<close> before the limiter is asked.\<close>

definition serve_route :: "bool \<Rightarrow> http_request \<Rightarrow> route" where
  "serve_route draining rq =
     (if rq_path rq = health_path \<and> rq_raw_query rq = [] then
        (if rq_verb rq \<noteq> ''GET'' \<and> rq_verb rq \<noteq> ''HEAD''
         then Respond \<lparr>ha_status = 405, ha_headers = [(''Allow'', ''GET, HEAD'')]\<rparr>
         else if draining then Respond \<lparr>ha_status = 503, ha_headers = []\<rparr>
         else Respond \<lparr>ha_status = 200, ha_headers = []\<rparr>)
      else if rq_path rq \<noteq> tunnel_path \<or> rq_raw_query rq \<noteq> [] then Respond \<lparr>ha_status = 404, ha_headers = []\<rparr>
      else if draining then Respond \<lparr>ha_status = 503, ha_headers = []\<rparr>
      else ToTunnel)"

definition request_source :: "(addr \<Rightarrow> string) \<Rightarrow> http_request \<Rightarrow> string" where
  "request_source render rq =
     authentication_source render (rq_remote_addr rq) (header_get (rq_headers rq) ''Cf-Connecting-Ip'')"

section \<open>The phases of a request\<close>

text \<open>
  After the routing: the limiter is asked; a slot is taken; the wait group is incremented; the
  connection is upgraded; it is tracked; the session runs. On the way out the deferred calls
  untrack the connection, leave the wait group and release the slot, in that order.
\<close>

datatype phase =
    Routed string http_request
  | Cleared string http_request
  | Slotted string http_request
  | Counted string http_request
  | Switched string
  | Tracked string
  | Served session_end
  | Leaving
  | Uncounted
  | Answered "http_answer option"

record server =
  sv_limiter :: limiter
  sv_slots :: int
  sv_waiting :: int
  sv_active :: "nat set"
  sv_draining :: bool
  sv_phases :: "nat \<Rightarrow> phase option"

record server_settings =
  ss_max_sessions :: int
  ss_render :: "addr \<Rightarrow> string"
  ss_session :: relay_settings

definition new_server :: server where
  "new_server = \<lparr>sv_limiter = new_limiter, sv_slots = 0, sv_waiting = 0, sv_active = {}, sv_draining = False,
     sv_phases = (\<lambda>_. None)\<rparr>"

definition goto :: "nat \<Rightarrow> phase \<Rightarrow> server \<Rightarrow> server" where
  "goto t p s = s\<lparr>sv_phases := (sv_phases s)(t \<mapsto> p)\<rparr>"

definition track :: "nat \<Rightarrow> server \<Rightarrow> server" where
  "track t s = s\<lparr>sv_active := insert t (sv_active s)\<rparr>"

definition untrack :: "nat \<Rightarrow> server \<Rightarrow> server" where
  "untrack t s = s\<lparr>sv_active := sv_active s - {t}\<rparr>"

definition text_answer :: "nat \<Rightarrow> http_answer option" where
  "text_answer n = Some \<lparr>ha_status = n, ha_headers = []\<rparr>"

text \<open>
  One step of the request \<open>t\<close>. The clock, the takeover of the connection and everything the
  session meets are the input of the step, so a step is a function of its input.
\<close>

record step_input =
  in_now :: int
  in_takeover :: takeover
  in_env :: session_env
  in_reader :: "string stream"
  in_pipe :: "string pipe"

definition server_advance :: "server_settings \<Rightarrow> step_input \<Rightarrow> nat \<Rightarrow> phase \<Rightarrow> server \<Rightarrow> (unit, server) result" where
  "server_advance c i t p s =
     (case p of
        Routed x rq \<Rightarrow>
          bind_result (limiter_blocked (sv_limiter s) x (in_now i)) (\<lambda>(blocked, l).
            ok (goto t (if blocked then Answered (text_answer 429) else Cleared x rq) (s\<lparr>sv_limiter := l\<rparr>)))
      | Cleared x rq \<Rightarrow>
          if sv_slots s < ss_max_sessions c then ok (goto t (Slotted x rq) (s\<lparr>sv_slots := sv_slots s + 1\<rparr>))
          else ok (goto t (Answered (text_answer 503)) s)
      | Slotted x rq \<Rightarrow> ok (goto t (Counted x rq) (s\<lparr>sv_waiting := sv_waiting s + 1\<rparr>))
      | Counted x rq \<Rightarrow>
          (case accept_websocket (rq_verb rq) (rq_headers rq) (in_takeover i) of
             Inl _ \<Rightarrow> ok (goto t Leaving s)
           | Inr _ \<Rightarrow> ok (goto t (Switched x) s))
      | Switched x \<Rightarrow> ok (goto t (Tracked x) (track t s))
      | Tracked x \<Rightarrow>
          bind_result (handle_session (ss_session c) (in_env i) x
              \<lparr>sn_limiter = sv_limiter s, sn_reader = in_reader i, sn_pipe = in_pipe i, sn_events = [], sn_log = []\<rparr>)
            (\<lambda>(sn, e). ok (goto t (Served e) (s\<lparr>sv_limiter := sn_limiter sn\<rparr>)))
      | Served e \<Rightarrow> ok (goto t Leaving (untrack t s))
      | Leaving \<Rightarrow> ok (goto t Uncounted (s\<lparr>sv_waiting := sv_waiting s - 1\<rparr>))
      | Uncounted \<Rightarrow> ok (goto t (Answered None) (s\<lparr>sv_slots := sv_slots s - 1\<rparr>))
      | Answered a \<Rightarrow> ok s)"

definition server_arrive :: "server_settings \<Rightarrow> nat \<Rightarrow> http_request \<Rightarrow> server \<Rightarrow> server" where
  "server_arrive c t rq s =
     goto t (case serve_route (sv_draining s) rq of
               Respond a \<Rightarrow> Answered (Some a)
             | ToTunnel \<Rightarrow> Routed (request_source (ss_render c) rq) rq) s"

definition is_answered :: "phase \<Rightarrow> bool" where
  "is_answered p = (case p of Answered _ \<Rightarrow> True | _ \<Rightarrow> False)"

inductive server_step :: "server_settings \<Rightarrow> server \<Rightarrow> server \<Rightarrow> bool" for c where
  arrive: "sv_phases s t = None \<Longrightarrow> server_step c s (server_arrive c t rq s)"
| advance: "sv_phases s t = Some p \<Longrightarrow> \<not> is_answered p \<Longrightarrow> server_advance c i t p s = ok s' \<Longrightarrow> server_step c s s'"
| drain: "server_step c s (s\<lparr>sv_draining := True\<rparr>)"

inductive server_reachable :: "server_settings \<Rightarrow> server \<Rightarrow> bool" for c where
  start: "server_reachable c new_server"
| step: "server_reachable c s \<Longrightarrow> server_step c s s' \<Longrightarrow> server_reachable c s'"

inductive_cases server_step_elims: "server_step c s s'"

section \<open>A server from its configuration\<close>

datatype server_fault =
    ServerConfigMissing | ServerConfigInvalid config_error | ServerIdentityUnavailable identity_error
  | ServerTokensUnreadable "string token_file_error" | ServerResolverUnavailable resolver_fault

text \<open>
  \<open>NewServer\<close>: identity and tokens come from the options or from their files, the resolver from the
  options or from the configuration; the files, \<open>URL.String\<close> and what a resolver that was built looks up are arguments.
\<close>

definition new_server_settings ::
  "server_config option \<Rightarrow> identity option \<Rightarrow> token_set \<Rightarrow> string resolver option \<Rightarrow> logger option
     \<Rightarrow> (string \<Rightarrow> (identity_error, identity) result) \<Rightarrow> (string \<Rightarrow> string + string file_info)
     \<Rightarrow> (url \<Rightarrow> string) \<Rightarrow> (doh_client \<Rightarrow> string resolver) \<Rightarrow> (addr \<Rightarrow> string) \<Rightarrow> (server_fault, server_settings) result" where
  "new_server_settings config identity tokens resolver logger load_identity_file files url_string lookup render =
     (case config of None \<Rightarrow> err ServerConfigMissing
      | Some c \<Rightarrow>
          bind_result (map_err ServerConfigInvalid (validate_server c)) (\<lambda>_.
          bind_result (case identity of Some i \<Rightarrow> ok i
              | None \<Rightarrow> map_err ServerIdentityUnavailable (load_identity_file (s_identity_file c))) (\<lambda>identity.
          bind_result (if length (digests tokens) = 0
                       then map_err ServerTokensUnreadable (read_token_set (s_token_file c) (files (s_token_file c)))
                       else ok tokens) (\<lambda>tokens.
          bind_result (case resolver of Some r \<Rightarrow> ok r
              | None \<Rightarrow> bind_result (map_err ServerResolverUnavailable
                    (new_resolver url_string False (s_doh_url c) (s_doh_bootstrap c) (s_timeouts c))) (\<lambda>r. ok (lookup r))) (\<lambda>r.
          ok \<lparr>ss_max_sessions = max_sessions (s_limits c), ss_render = render,
              ss_session =
                \<lparr>rl_identity = Some identity, rl_tls_timeout = t_tls_handshake (s_timeouts c), rl_tokens = tokens,
                 rl_checker = server_checker c (Some r), rl_max_control = max_control_message_bytes (s_limits c),
                 rl_client_pins = s_client_pins c, rl_dial_timeout = t_dial (s_timeouts c),
                 rl_logger = (case logger of Some l \<Rightarrow> l | None \<Rightarrow> discard_logger)\<rparr>\<rparr>)))))"

text \<open>A server that starts has slots, a control limit that fits its replies, and a dial timeout.\<close>

lemma new_server_settings_ok:
  assumes "new_server_settings config identity tokens resolver logger load_id files url_string lookup render = ok ss"
  shows "0 < ss_max_sessions ss" and "256 \<le> rl_max_control (ss_session ss)" and "0 < rl_dial_timeout (ss_session ss)"
    and "0 < rl_tls_timeout (ss_session ss)"
    and "\<exists>c r. config = Some c \<and> validate_server c = ok () \<and> rl_checker (ss_session ss) = server_checker c (Some r)"
proof -
  from assms obtain c r where c: "config = Some c" "validate_server c = ok ()"
    and ss: "ss_max_sessions ss = max_sessions (s_limits c)" "rl_max_control (ss_session ss) = max_control_message_bytes (s_limits c)"
      "rl_dial_timeout (ss_session ss) = t_dial (s_timeouts c)" "rl_tls_timeout (ss_session ss) = t_tls_handshake (s_timeouts c)"
      "rl_checker (ss_session ss) = server_checker c (Some r)"
    by (auto simp: new_server_settings_def bind_result_eq_ok split: option.split_asm)
  from validate_server_ok(8-10) [OF c(2)] ss show "0 < ss_max_sessions ss" "256 \<le> rl_max_control (ss_session ss)" "0 < rl_dial_timeout (ss_session ss)"
    "0 < rl_tls_timeout (ss_session ss)"
    by (auto simp: valid_timeouts_def)
  from c ss show "\<exists>c r. config = Some c \<and> validate_server c = ok () \<and> rl_checker (ss_session ss) = server_checker c (Some r)"
    by blast
qed

section \<open>Shutdown\<close>

text \<open>
  What \<open>closeActive\<close> cancels and closes, and when the parts of \<open>Shutdown\<close> are over: the HTTP server
  waits for the requests whose connections it still owns, the wait group for the counted ones.
\<close>

definition close_active :: "server \<Rightarrow> nat set" where
  "close_active s = sv_active s"

datatype shutdown_end = ShutdownDone | ShutdownHttpError | ShutdownExpired

text \<open>
  The end of \<open>Shutdown\<close>, on a draining server: the wait ends before the context does, or the
  sessions still running are closed first. The result is what is reported and what was closed.
\<close>

definition await_sessions :: "bool \<Rightarrow> bool \<Rightarrow> server \<Rightarrow> (shutdown_end \<times> nat set) option" where
  "await_sessions http_ok expired s =
     (if sv_waiting s = 0 then Some (if http_ok then ShutdownDone else ShutdownHttpError, {})
      else if expired then Some (ShutdownExpired, close_active s)
      else None)"

fun before_takeover :: "phase \<Rightarrow> bool" where
  "before_takeover (Routed _ _) = True"
| "before_takeover (Cleared _ _) = True"
| "before_takeover (Slotted _ _) = True"
| "before_takeover (Counted _ _) = True"
| "before_takeover _ = False"

definition http_idle :: "server \<Rightarrow> bool" where
  "http_idle s \<longleftrightarrow> (\<forall>t p. sv_phases s t = Some p \<longrightarrow> \<not> before_takeover p)"


section \<open>The counters count\<close>

fun holds_slot :: "phase \<Rightarrow> bool" where
  "holds_slot (Routed _ _) = False"
| "holds_slot (Cleared _ _) = False"
| "holds_slot (Answered _) = False"
| "holds_slot _ = True"

fun in_group :: "phase \<Rightarrow> bool" where
  "in_group (Slotted _ _) = False"
| "in_group Uncounted = False"
| "in_group p = holds_slot p"

fun is_tracked :: "phase \<Rightarrow> bool" where
  "is_tracked (Tracked _) = True"
| "is_tracked (Served _) = True"
| "is_tracked _ = False"

definition threads :: "server \<Rightarrow> (phase \<Rightarrow> bool) \<Rightarrow> nat set" where
  "threads s P = {t. \<exists>p. sv_phases s t = Some p \<and> P p}"

definition in_phase :: "(phase \<Rightarrow> bool) \<Rightarrow> phase option \<Rightarrow> bool" where
  "in_phase P q = (case q of None \<Rightarrow> False | Some r \<Rightarrow> P r)"

lemma in_phase_simps [simp]: "\<not> in_phase P None" "in_phase P (Some r) = P r"
  by (simp_all add: in_phase_def)

definition server_inv :: "server_settings \<Rightarrow> server \<Rightarrow> bool" where
  "server_inv c s \<longleftrightarrow>
     finite (dom (sv_phases s)) \<and> sv_slots s = int (card (threads s holds_slot)) \<and> sv_slots s \<le> ss_max_sessions c
   \<and> sv_waiting s = int (card (threads s in_group)) \<and> sv_active s = threads s is_tracked \<and> limiter_good (sv_limiter s)"

lemma goto_simps [simp]:
  "sv_slots (goto t p s) = sv_slots s" "sv_waiting (goto t p s) = sv_waiting s" "sv_active (goto t p s) = sv_active s"
  "sv_limiter (goto t p s) = sv_limiter s" "sv_draining (goto t p s) = sv_draining s"
  "sv_phases (goto t p s) = (sv_phases s)(t \<mapsto> p)"
  by (simp_all add: goto_def)

lemma threads_goto:
  "threads (goto t p s) P = (if P p then insert t (threads s P) else threads s P - {t})"
  by (auto simp: threads_def split: if_split_asm)

lemma threads_frame [simp]:
  "threads (s\<lparr>sv_limiter := l\<rparr>) P = threads s P" "threads (s\<lparr>sv_slots := n\<rparr>) P = threads s P"
  "threads (s\<lparr>sv_waiting := n\<rparr>) P = threads s P" "threads (track t s) P = threads s P"
  "threads (untrack t s) P = threads s P" "threads (s\<lparr>sv_draining := d\<rparr>) P = threads s P"
  by (simp_all add: threads_def track_def untrack_def)

lemma finite_threads: "finite (dom (sv_phases s)) \<Longrightarrow> finite (threads s P)"
  by (rule finite_subset [of _ "dom (sv_phases s)"]) (auto simp: threads_def)

lemma card_goto:
  assumes "finite (dom (sv_phases s))" and "sv_phases s t = q"
  shows "int (card (threads (goto t p s) P)) =
    int (card (threads s P)) + (if P p then 1 else 0) - (if in_phase P q then 1 else 0)"
proof -
  have mem: "t \<in> threads s P \<longleftrightarrow> in_phase P q"
    using assms(2) by (auto simp: threads_def in_phase_def split: option.splits)
  note fin = finite_threads [OF assms(1), of P]
  have "int (card (threads s P - {t})) = int (card (threads s P)) - 1" if "t \<in> threads s P"
    using card_Suc_Diff1 [OF fin that] by linarith
  with mem fin show ?thesis
    by (cases "P p") (auto simp: threads_goto insert_absorb split: option.splits if_split_asm)
qed

text \<open>What one advance leaves of the invariant, by the phase it leaves and the phase it enters.\<close>

lemma inv_goto:
  assumes inv: "server_inv c s" and ph: "sv_phases s t = q"
    and frame: "sv_phases s' = sv_phases s"
    and slots: "sv_slots s' = sv_slots s + (if holds_slot p then 1 else 0) - (if in_phase holds_slot q then 1 else 0)"
      "sv_slots s' \<le> ss_max_sessions c"
    and waiting: "sv_waiting s' = sv_waiting s + (if in_group p then 1 else 0) - (if in_phase in_group q then 1 else 0)"
    and active: "sv_active s' = (if is_tracked p then insert t (sv_active s) else sv_active s - {t})"
    and good: "limiter_good (sv_limiter s')"
  shows "server_inv c (goto t p s')"
proof -
  have fin: "finite (dom (sv_phases s'))" using inv frame by (simp add: server_inv_def)
  have th: "threads s' P = threads s P" for P using frame by (simp add: threads_def)
  have ph': "sv_phases s' t = q" using ph frame by simp
  have cards: "int (card (threads (goto t p s') P)) =
      int (card (threads s P)) + (if P p then 1 else 0) - (if in_phase P q then 1 else 0)" for P
    using card_goto [OF fin ph', of p P] th [of P] by simp
  have "threads (goto t p s') is_tracked = sv_active s'"
    using inv active th by (simp add: threads_goto server_inv_def)
  then show ?thesis
    unfolding server_inv_def cards using inv slots waiting good fin by (simp add: server_inv_def)
qed

lemma threads_mem: "sv_phases s t = Some p \<Longrightarrow> t \<in> threads s P \<longleftrightarrow> P p"
  by (simp add: threads_def)

lemma inv_active: "server_inv c s \<Longrightarrow> sv_phases s t = Some p \<Longrightarrow> t \<in> sv_active s \<longleftrightarrow> is_tracked p"
  by (simp add: server_inv_def threads_mem)

lemma server_advance_inv:
  assumes inv: "server_inv c s" and ph: "sv_phases s t = Some p" and st: "server_advance c i t p s = ok s'"
  shows "server_inv c s'"
proof -
  note act = inv_active [OF inv ph]
  have good: "limiter_good (sv_limiter s)" and le: "sv_slots s \<le> ss_max_sessions c" using inv by (simp_all add: server_inv_def)
  note goto' = inv_goto [OF inv ph]
  show ?thesis
  proof (cases p)
    case (Routed x rq)
    from auth.blocked_law [OF good, of x "in_now i"] obtain b l where
      "limiter_blocked (sv_limiter s) x (in_now i) = ok (b, l)" "limiter_good l" by blast
    with st Routed have "s' = goto t (if b then Answered (text_answer 429) else Cleared x rq) (s\<lparr>sv_limiter := l\<rparr>)"
      by (simp add: server_advance_def)
    with Routed act le \<open>limiter_good l\<close> show ?thesis by (auto intro!: goto')
  next
    case (Cleared x rq)
    with st act le good show ?thesis by (auto simp: server_advance_def split: if_split_asm intro!: goto')
  next
    case (Counted x rq)
    with st act le good show ?thesis by (auto simp: server_advance_def split: sum.split_asm intro!: goto')
  next
    case (Tracked x)
    let ?sn = "\<lparr>sn_limiter = sv_limiter s, sn_reader = in_reader i, sn_pipe = in_pipe i, sn_events = [], sn_log = []\<rparr>"
    from handle_session_outcome [of ?sn "ss_session c" "in_env i" x] good obtain sn e where
      "handle_session (ss_session c) (in_env i) x ?sn = ok (sn, e)" "limiter_good (sn_limiter sn)"
      by (auto simp: session_outcome_def)
    with st Tracked act le show ?thesis by (auto simp: server_advance_def intro!: goto')
  qed (use st act le good in \<open>auto simp: server_advance_def track_def untrack_def intro!: goto'\<close>, use inv in simp)
qed

lemma server_arrive_inv:
  assumes inv: "server_inv c s" and ph: "sv_phases s t = None"
  shows "server_inv c (server_arrive c t rq s)"
proof -
  have act: "t \<notin> sv_active s" using assms by (auto simp: server_inv_def threads_def)
  have "limiter_good (sv_limiter s)" "sv_slots s \<le> ss_max_sessions c" using inv by (simp_all add: server_inv_def)
  with act show ?thesis
    unfolding server_arrive_def by (intro inv_goto [OF inv ph]) (auto split: route.split)
qed

lemma server_drain_inv: "server_inv c s \<Longrightarrow> server_inv c (s\<lparr>sv_draining := True\<rparr>)"
  by (simp add: server_inv_def)

lemma server_reachable_inv:
  assumes "server_reachable c s" and "0 \<le> ss_max_sessions c"
  shows "server_inv c s"
  using assms(1)
proof (induction rule: server_reachable.induct)
  case start
  show ?case
    using assms(2) represents_new by (auto simp: server_inv_def new_server_def threads_def limiter_good_def)
next
  case (step s s')
  from step.hyps(2) step.IH show ?case
    by (cases rule: server_step.cases) (auto intro: server_arrive_inv server_advance_inv server_drain_inv)
qed


section \<open>Progress, and a shutdown that comes to its end\<close>

lemma server_advance_returns:
  assumes "server_inv c s" and "sv_phases s t = Some p"
  shows "\<exists>s'. server_advance c i t p s = ok s'"
proof -
  have good: "limiter_good (sv_limiter s)" using assms(1) by (simp add: server_inv_def)
  show ?thesis
  proof (cases p)
    case (Routed x rq)
    from auth.blocked_law [OF good, of x "in_now i"] Routed show ?thesis by (auto simp: server_advance_def)
  next
    case (Tracked x)
    let ?sn = "\<lparr>sn_limiter = sv_limiter s, sn_reader = in_reader i, sn_pipe = in_pipe i, sn_events = [], sn_log = []\<rparr>"
    from handle_session_outcome [of ?sn "ss_session c" "in_env i" x] good Tracked show ?thesis
      by (auto simp: server_advance_def)
  qed (auto simp: server_advance_def split: sum.split)
qed

text \<open>The steps a request still has to make.\<close>

fun rank :: "phase \<Rightarrow> nat" where
  "rank (Routed _ _) = 9"
| "rank (Cleared _ _) = 8"
| "rank (Slotted _ _) = 7"
| "rank (Counted _ _) = 6"
| "rank (Switched _) = 5"
| "rank (Tracked _) = 4"
| "rank (Served _) = 3"
| "rank Leaving = 2"
| "rank Uncounted = 1"
| "rank (Answered _) = 0"

lemma rank_0: "rank p = 0 \<longleftrightarrow> is_answered p"
  by (cases p) (simp_all add: is_answered_def)

lemma server_advance_phases:
  assumes "server_advance c i t p s = ok s'" and "sv_phases s t = Some p" and "\<not> is_answered p"
  shows "\<exists>q. sv_phases s' = (sv_phases s)(t \<mapsto> q) \<and> rank q < rank p \<and> (before_takeover q \<longrightarrow> before_takeover p)"
    and "sv_draining s' = sv_draining s"
  using assms
  by (cases p; fastforce simp: server_advance_def bind_result_eq_ok track_def untrack_def is_answered_def
      split: if_split_asm sum.split_asm)+

definition load :: "server \<Rightarrow> nat" where
  "load s = (\<Sum>t \<in> dom (sv_phases s). rank (the (sv_phases s t)))"

lemma load_update:
  assumes "finite (dom f)" and "f t = Some p"
  shows "(\<Sum>u \<in> dom (f(t \<mapsto> q)). rank (the ((f(t \<mapsto> q)) u))) + rank p = (\<Sum>u \<in> dom f. rank (the (f u))) + rank q"
proof -
  let ?g = "\<lambda>u. rank (the ((f(t \<mapsto> q)) u))"
  have t: "t \<in> dom f" using assms(2) by auto
  have d: "dom (f(t \<mapsto> q)) = insert t (dom f - {t})" using t by auto
  have "sum ?g (dom (f(t \<mapsto> q))) = ?g t + sum ?g (dom f - {t})"
    unfolding d by (rule sum.insert) (use assms(1) in auto)
  moreover have "sum ?g (dom f - {t}) = (\<Sum>u \<in> dom f - {t}. rank (the (f u)))"
    by (rule sum.cong) auto
  moreover have "(\<Sum>u \<in> dom f. rank (the (f u))) = rank p + (\<Sum>u \<in> dom f - {t}. rank (the (f u)))"
    using sum.remove [OF assms(1) t, of "\<lambda>u. rank (the (f u))"] assms(2) by simp
  ultimately show ?thesis by simp
qed

lemma server_advance_load:
  assumes "server_inv c s" and "sv_phases s t = Some p" and "\<not> is_answered p" and "server_advance c i t p s = ok s'"
  shows "load s' < load s"
proof -
  from server_advance_phases [OF assms(4,2,3)] obtain q where q: "sv_phases s' = (sv_phases s)(t \<mapsto> q)" "rank q < rank p"
    by blast
  with load_update [of "sv_phases s" t p q] assms(1,2) show ?thesis by (simp add: load_def server_inv_def)
qed

lemma draining_arrivals: "serve_route True rq \<noteq> ToTunnel"
  by (simp add: serve_route_def)

lemma server_arrive_load:
  assumes "server_inv c s" and "sv_draining s" and "sv_phases s t = None"
  shows "load (server_arrive c t rq s) = load s"
proof -
  obtain a where a: "serve_route True rq = Respond a" using draining_arrivals [of rq] by (cases "serve_route True rq") auto
  have fin: "finite (dom (sv_phases s))" "t \<notin> dom (sv_phases s)" using assms by (auto simp: server_inv_def)
  have "(\<Sum>u \<in> dom (sv_phases s). rank (the (((sv_phases s)(t \<mapsto> Answered (Some a))) u)))
      = (\<Sum>u \<in> dom (sv_phases s). rank (the (sv_phases s u)))"
    by (rule sum.cong) (use fin in auto)
  with fin a assms(2) show ?thesis by (simp add: server_arrive_def load_def)
qed

text \<open>A draining server stays draining and never has more left to do, whatever arrives.\<close>

lemma draining_step:
  assumes "server_inv c s" and "sv_draining s" and "server_step c s s'"
  shows "sv_draining s'" and "load s' \<le> load s" and "http_idle s \<Longrightarrow> http_idle s'"
proof -
  have "sv_draining s' \<and> load s' \<le> load s \<and> (http_idle s \<longrightarrow> http_idle s')"
    using assms(3)
  proof (cases rule: server_step.cases)
    case (arrive t rq)
    from draining_arrivals [of rq] obtain a where "serve_route True rq = Respond a" by (cases "serve_route True rq") auto
    then have "http_idle s \<longrightarrow> http_idle s'" "sv_draining s'"
      using arrive assms(2) by (auto simp: server_arrive_def http_idle_def split: if_split_asm)
    moreover have "load s' = load s" using server_arrive_load [OF assms(1,2) arrive(2), of rq] arrive(1) by simp
    ultimately show ?thesis by simp
  next
    case (advance t p i)
    from server_advance_phases [OF advance(3,1,2)] obtain q where
      q: "sv_phases s' = (sv_phases s)(t \<mapsto> q)" "before_takeover q \<longrightarrow> before_takeover p" "sv_draining s' = sv_draining s"
      by blast
    with server_advance_load [OF assms(1) advance] assms(2) advance(1) show ?thesis
      by (auto simp: http_idle_def split: if_split_asm)
  next
    case drain
    then show ?thesis by (simp add: load_def http_idle_def)
  qed
  then show "sv_draining s'" and "load s' \<le> load s" and "http_idle s \<Longrightarrow> http_idle s'" by auto
qed

text \<open>When the wait of a shutdown is over, no session is left, and none starts any more.\<close>

definition shut_down :: "server \<Rightarrow> bool" where
  "shut_down s \<longleftrightarrow> sv_draining s \<and> http_idle s \<and> sv_waiting s = 0"

lemma shut_down_quiet:
  assumes "server_inv c s" and "shut_down s"
  shows "sv_active s = {}" and "sv_phases s t = Some p \<Longrightarrow> p = Uncounted \<or> is_answered p"
proof -
  have fin: "finite (threads s in_group)" using assms(1) by (simp add: server_inv_def finite_threads)
  with assms have none: "threads s in_group = {}" by (simp add: server_inv_def shut_down_def)
  have "is_tracked p \<Longrightarrow> in_group p" for p by (cases p) simp_all
  with none assms(1) show "sv_active s = {}" by (auto simp: server_inv_def threads_def)
  show "p = Uncounted \<or> is_answered p" if "sv_phases s t = Some p"
  proof -
    have "\<not> in_group p" "\<not> before_takeover p"
      using none that assms(2) by (auto simp: threads_def shut_down_def http_idle_def)
    then show ?thesis by (cases p) (simp_all add: is_answered_def)
  qed
qed

lemma answered_phases: "is_answered p \<Longrightarrow> \<not> in_group p \<and> \<not> before_takeover p"
  by (cases p) (simp_all add: is_answered_def)

lemma drains:
  assumes "server_inv c s" and "sv_draining s"
  shows "\<exists>s'. (server_step c)\<^sup>*\<^sup>* s s' \<and> shut_down s' \<and> (\<forall>t p. sv_phases s' t = Some p \<longrightarrow> is_answered p)"
  using assms
proof (induction "load s" arbitrary: s rule: less_induct)
  case less
  show ?case
  proof (cases "\<exists>t p. sv_phases s t = Some p \<and> \<not> is_answered p")
    case True
    then obtain t p where tp: "sv_phases s t = Some p" "\<not> is_answered p" by blast
    from server_advance_returns [OF less.prems(1) tp(1)] obtain s1 where
      s1: "server_advance c undefined t p s = ok s1" by blast
    note st = server_step.advance [OF tp s1]
    from less.hyps [OF server_advance_load [OF less.prems(1) tp s1] server_advance_inv [OF less.prems(1) tp(1) s1]]
      draining_step(1) [OF less.prems st] obtain s' where
      "(server_step c)\<^sup>*\<^sup>* s1 s'" "shut_down s'" "\<forall>t p. sv_phases s' t = Some p \<longrightarrow> is_answered p" by blast
    with st show ?thesis by (meson converse_rtranclp_into_rtranclp)
  next
    case False
    then have "threads s in_group = {}" "http_idle s"
      using answered_phases by (auto simp: threads_def http_idle_def)
    with less.prems False show ?thesis
      by (intro exI [of _ s]) (auto simp: shut_down_def server_inv_def)
  qed
qed

lemma shut_down_stable:
  assumes "server_inv c s" and "shut_down s" and "server_step c s s'"
  shows "shut_down s'"
proof -
  note d = draining_step [OF assms(1) _ assms(3)]
  have inv': "server_inv c s'"
    using assms(3,1) by (cases rule: server_step.cases) (auto intro: server_arrive_inv server_advance_inv server_drain_inv)
  have "sv_waiting s' = sv_waiting s"
    using assms(3)
  proof (cases rule: server_step.cases)
    case (advance t p i)
    with shut_down_quiet(2) [OF assms(1,2) advance(1)] show ?thesis by (auto simp: server_advance_def)
  qed (auto simp: server_arrive_def)
  with d assms(2) show ?thesis by (simp add: shut_down_def)
qed

end
