(* ===== verification/Local_Proxy.thy ===== *)
theory Local_Proxy
  imports Tunnel_Client Relay_Copy Log_Redaction
begin

text \<open>
  \<open>internal/localproxy/server.go\<close>: one CONNECT request of the local side, and the bookkeeping of the
  active tunnels that a shutdown waits for. The opener of tunnels, the takeover of the client's
  connection and the relay are what the handler calls; it leaves a trace of what it did.
\<close>

section \<open>How a failed tunnel is reported\<close>

text \<open>The chain of an error of \<open>Client.Open\<close>, as far as \<open>errors.Is\<close> and \<open>errors.As\<close> look at it.\<close>

definition context_chain :: "context_error \<Rightarrow> net_error" where
  "context_chain c =
     \<lparr>ne_sentinels = [case c of ContextCanceled \<Rightarrow> IsCanceled | ContextDeadline \<Rightarrow> IsDeadlineExceeded],
      ne_operation = None, ne_timeout = (c = ContextDeadline)\<rparr>"

fun open_error_chain :: "open_error \<Rightarrow> net_error option" where
  "open_error_chain (StreamFailed e) = Some e"
| "open_error_chain (InnerTlsFailed (InnerHandshake (TlsFault e))) = Some e"
| "open_error_chain (DeadlineNotSet e) = Some e"
| "open_error_chain (ContextEnded c) = Some (context_chain c)"
| "open_error_chain (CertificateRejected e) = e"
| "open_error_chain (HelloSendFailed e) = encode_cause e"
| "open_error_chain (HelloReceiveFailed _ e) = e"
| "open_error_chain (OpenSendFailed e) = encode_cause e"
| "open_error_chain (OpenReceiveFailed _ e) = e"
| "open_error_chain (ClearDeadlineFailed e) = Some e"
| "open_error_chain _ = None"

definition chain_is :: "sentinel \<Rightarrow> open_error \<Rightarrow> bool" where
  "chain_is x e = (case open_error_chain e of None \<Rightarrow> False | Some n \<Rightarrow> x \<in> set (ne_sentinels n))"

definition timeout_error :: "open_error \<Rightarrow> bool" where
  "timeout_error e = (case open_error_chain e of None \<Rightarrow> False | Some n \<Rightarrow> ne_timeout n)"

definition proxy_status :: "open_error \<Rightarrow> nat \<times> string" where
  "proxy_status e =
     (if chain_is IsDeadlineExceeded e \<or> timeout_error e then (504, ''timeout'')
      else if chain_is IsCanceled e then (503, ''canceled'')
      else if e = AuthenticationFailed then (502, ''authentication-failed'')
      else case e of
        RemoteOpenError c \<Rightarrow>
          if c = error_forbidden_destination \<or> c = error_address_rejected then (403, error_code_string c)
          else if c = error_limit_exceeded then (503, error_code_string c)
          else (502, error_code_string c)
      | _ \<Rightarrow> (502, ''tunnel-failed''))"

definition expected_relay_end :: "copy_error list \<Rightarrow> bool" where
  "expected_relay_end es = (es = [] \<or> CopyCanceled \<in> set es \<or> CopyDeadline \<in> set es \<or> CopyClosed \<in> set es \<or> CopyIdle \<in> set es)"

definition local_relay_end_reason :: "copy_error list \<Rightarrow> string" where
  "local_relay_end_reason es = (if CopyIdle \<in> set es then ''idle-timeout'' else ''io-error'')"

section \<open>One request\<close>

record connect_request =
  cq_verb :: string
  cq_proto :: "int \<times> int"
  cq_content_length :: int
  cq_transfer_encoding :: "string list"
  cq_uri :: string

record local_env =
  le_open :: "destination \<Rightarrow> (open_error, nat) result"
  le_hijacker :: bool
  le_hijack :: bool
  le_write :: bool
  le_flush :: bool
  le_copy :: "copy_error list"

text \<open>Error answers carry \<open>Connection: close\<close>; the one success is the line of the established tunnel.\<close>

datatype local_event =
    ErrorAnswer nat string "(string \<times> string) list"
  | TrackSession | UntrackSession | CancelContext
  | OpenTunnel destination | CloseRemote nat
  | SetConnection | CloseLocal | Established | StartRelay nat int int

record local_settings =
  lo_checker :: "unit checker"
  lo_logger :: logger
  lo_timeouts :: timeouts

definition new_local_settings :: "client_config option \<Rightarrow> logger option \<Rightarrow> (config_error option, local_settings) result" where
  "new_local_settings config logger =
     (case config of None \<Rightarrow> err None
      | Some c \<Rightarrow>
          bind_result (map_err Some (validate_client c)) (\<lambda>_.
            ok \<lparr>lo_checker = client_checker c, lo_logger = (case logger of Some l \<Rightarrow> l | None \<Rightarrow> discard_logger),
                lo_timeouts = c_timeouts c\<rparr>))"

type_synonym local_trace = "local_event list \<times> log_record list"

definition write_proxy_error :: "nat \<Rightarrow> string \<Rightarrow> local_event" where
  "write_proxy_error status message = ErrorAnswer status message [(''Connection'', ''close'')]"

definition status_text :: "nat \<Rightarrow> string" where
  "status_text n =
     (if n = 403 then ''Forbidden'' else if n = 502 then ''Bad Gateway'' else if n = 503 then ''Service Unavailable''
      else if n = 504 then ''Gateway Timeout'' else [])"

text \<open>The checks before a tunnel is opened: an answer, or the destination.\<close>

definition admit_connect :: "local_settings \<Rightarrow> bool \<Rightarrow> connect_request \<Rightarrow> local_trace + destination" where
  "admit_connect s draining rq =
     (if draining then Inl ([write_proxy_error 503 ''proxy is shutting down''], [])
      else if cq_verb rq \<noteq> ''CONNECT'' then
        Inl ([ErrorAnswer 405 ''CONNECT required'' [(''Allow'', ''CONNECT''), (''Connection'', ''close'')]], [])
      else if cq_proto rq \<noteq> (1, 1) then Inl ([write_proxy_error 505 ''HTTP/1.1 required''], [])
      else if 0 < cq_content_length rq \<or> length (cq_transfer_encoding rq) \<noteq> 0
        then Inl ([write_proxy_error 400 ''CONNECT request body is not permitted''], [])
      else case check_authority (lo_checker s) (cq_uri rq) of (d, decision) \<Rightarrow>
        if \<not> allowed decision then
          Inl ([write_proxy_error (if reason decision = DenyMalformedAuthority then 400 else 403) ''destination refused''],
               log_at (lo_logger s) LevelInfo ''CONNECT refused'' [Attr key_reason (deny_reason_string (reason decision))])
        else Inr d)"

text \<open>After the tunnel is open: the takeover, the success line and the relay.\<close>

definition serve_tunnel :: "local_settings \<Rightarrow> local_env \<Rightarrow> destination \<Rightarrow> nat \<Rightarrow> local_trace" where
  "serve_tunnel s env d remote =
     (if \<not> le_hijacker env then ([write_proxy_error 500 ''connection takeover unavailable''], [])
      else if \<not> le_hijack env then ([], [])
      else if \<not> le_write env \<or> \<not> le_flush env then ([SetConnection, CloseLocal], [])
      else
        ([SetConnection, Established, StartRelay remote (t_idle (lo_timeouts s)) (t_max_lifetime (lo_timeouts s)), CloseLocal],
         log_at (lo_logger s) LevelInfo ''tunnel opened'' [target_attr (lo_logger s) (authority d)]
         @ (if \<not> expected_relay_end (le_copy env)
            then log_at (lo_logger s) LevelDebug ''local relay ended''
                   [Attr key_reason (local_relay_end_reason (le_copy env)), target_attr (lo_logger s) (authority d)]
            else [])))"

definition serve_connect :: "local_settings \<Rightarrow> local_env \<Rightarrow> bool \<Rightarrow> connect_request \<Rightarrow> (unit, local_trace) result" where
  "serve_connect s env draining rq =
     (case admit_connect s draining rq of
        Inl t \<Rightarrow> ok t
      | Inr d \<Rightarrow>
          (case le_open env d of
             Inl Panic \<Rightarrow> panic
           | Inl (Err e) \<Rightarrow>
               (case proxy_status e of (status, why) \<Rightarrow>
                  ok ([TrackSession, OpenTunnel d, write_proxy_error status (status_text status), UntrackSession, CancelContext],
                      log_at (lo_logger s) LevelInfo ''tunnel establishment failed''
                        [Attr key_reason why, target_attr (lo_logger s) (authority d)]))
           | Inr remote \<Rightarrow>
               (case serve_tunnel s env d remote of (es, ls) \<Rightarrow>
                  ok ([TrackSession, OpenTunnel d] @ es @ [CloseRemote remote, UntrackSession, CancelContext], ls))))"

section \<open>What a request leads to\<close>

lemma proxy_status_codes: "fst (proxy_status e) \<in> {403, 502, 503, 504}"
  by (simp add: proxy_status_def split: open_error.split)

lemma admit_connect_ok:
  "admit_connect s draining rq = Inr d \<longleftrightarrow>
     \<not> draining \<and> cq_verb rq = ''CONNECT'' \<and> cq_proto rq = (1, 1) \<and> cq_content_length rq \<le> 0 \<and> cq_transfer_encoding rq = []
   \<and> parse_authority (cq_uri rq) = ok d \<and> allowed (check_destination (lo_checker s) d)"
proof -
  obtain d' dec where ca: "check_authority (lo_checker s) (cq_uri rq) = (d', dec)" by fastforce
  have "allowed dec \<and> d' = d \<longleftrightarrow> parse_authority (cq_uri rq) = ok d \<and> allowed (check_destination (lo_checker s) d)"
  proof
    assume "allowed dec \<and> d' = d"
    with check_authority_allowed [OF ca] show "parse_authority (cq_uri rq) = ok d \<and> allowed (check_destination (lo_checker s) d)"
      by simp
  next
    assume "parse_authority (cq_uri rq) = ok d \<and> allowed (check_destination (lo_checker s) d)"
    with ca show "allowed dec \<and> d' = d" by (auto simp: check_authority_def)
  qed
  with ca show ?thesis by (auto simp: admit_connect_def)
qed

lemma admit_connect_answers:
  "admit_connect s draining rq = Inl (es, ls) \<Longrightarrow>
     \<exists>status m h. es = [ErrorAnswer status m h] \<and> 400 \<le> status \<and> (''Connection'', ''close'') \<in> set h"
  by (auto simp: admit_connect_def write_proxy_error_def split: if_split_asm prod.split_asm)

text \<open>
  The success line only after the remote side accepted the destination, and for an admitted
  CONNECT; a tunnel that was opened is closed, a tracked session untracked, on every path.
\<close>

lemma serve_connect_established:
  assumes "serve_connect s env draining rq = ok (es, ls)" and "Established \<in> set es"
  shows "\<exists>d remote. admit_connect s draining rq = Inr d \<and> le_open env d = ok remote
    \<and> es = [TrackSession, OpenTunnel d, SetConnection, Established,
        StartRelay remote (t_idle (lo_timeouts s)) (t_max_lifetime (lo_timeouts s)), CloseLocal,
        CloseRemote remote, UntrackSession, CancelContext]"
proof (cases "admit_connect s draining rq")
  case (Inl t)
  with assms admit_connect_answers [of s draining rq es ls] show ?thesis by (auto simp: serve_connect_def)
next
  case (Inr d)
  with assms show ?thesis
    by (auto simp: serve_connect_def serve_tunnel_def write_proxy_error_def
        split: sum.split_asm failure.split_asm prod.split_asm if_split_asm)
qed

lemma serve_connect_opens:
  assumes "serve_connect s env draining rq = ok (es, ls)" and "OpenTunnel d \<in> set es"
  shows "admit_connect s draining rq = Inr d"
proof (cases "admit_connect s draining rq")
  case (Inl t)
  with assms admit_connect_answers [of s draining rq es ls] show ?thesis by (auto simp: serve_connect_def)
next
  case (Inr d)
  with assms show ?thesis
    by (auto simp: serve_connect_def serve_tunnel_def write_proxy_error_def
        split: sum.split_asm failure.split_asm prod.split_asm if_split_asm)
qed

definition closes_what_it_opened :: "local_event list \<Rightarrow> bool" where
  "closes_what_it_opened es \<longleftrightarrow>
     (TrackSession \<in> set es \<longrightarrow> hd es = TrackSession \<and> drop (length es - 2) es = [UntrackSession, CancelContext])
   \<and> (\<forall>remote i m. StartRelay remote i m \<in> set es \<longrightarrow> CloseRemote remote \<in> set es)
   \<and> (SetConnection \<in> set es \<longrightarrow> CloseLocal \<in> set es)"

lemma serve_connect_closes:
  assumes "serve_connect s env draining rq = ok (es, ls)"
  shows "closes_what_it_opened es"
    and "admit_connect s draining rq = Inr d \<Longrightarrow> le_open env d = ok remote \<Longrightarrow> CloseRemote remote \<in> set es"
proof -
  have "closes_what_it_opened es \<and>
      (admit_connect s draining rq = Inr d \<longrightarrow> le_open env d = ok remote \<longrightarrow> CloseRemote remote \<in> set es)"
  proof (cases "admit_connect s draining rq")
    case (Inl t)
    with assms admit_connect_answers [of s draining rq es ls] show ?thesis
      by (auto simp: serve_connect_def closes_what_it_opened_def)
  next
    case (Inr d)
    with assms show ?thesis
      by (auto simp: serve_connect_def serve_tunnel_def write_proxy_error_def closes_what_it_opened_def
          split: sum.split_asm failure.split_asm prod.split_asm if_split_asm)
  qed
  then show "closes_what_it_opened es"
    and "admit_connect s draining rq = Inr d \<Longrightarrow> le_open env d = ok remote \<Longrightarrow> CloseRemote remote \<in> set es" by auto
qed


text \<open>Without the opt-in the log is the same for every destination.\<close>

lemma serve_tunnel_log_hides:
  assumes "\<not> lg_include_targets (lo_logger s)"
  shows "snd (serve_tunnel s env d remote) = snd (serve_tunnel s env d' remote)"
  using target_attr_hides [OF assms, of "authority d" "authority d'"] by (simp add: serve_tunnel_def)

lemma serve_connect_log_hides:
  assumes hide: "\<not> lg_include_targets (lo_logger s)"
    and "admit_connect s draining rq = Inr d" and "admit_connect s draining rq' = Inr d'"
    and same: "le_open env d = le_open env d'"
    and "serve_connect s env draining rq = ok (es, ls)" and "serve_connect s env draining rq' = ok (es', ls')"
  shows "ls = ls'"
proof (cases "le_open env d")
  case (Inl f)
  then have "le_open env d' = Inl f" using same by simp
  with Inl assms(2,3,5,6) target_attr_hides [OF hide, of "authority d" "authority d'"] show ?thesis
    by (cases f) (auto simp: serve_connect_def split: prod.split_asm)
next
  case (Inr remote)
  then have "le_open env d' = Inr remote" using same by simp
  with Inr assms(2,3,5,6) serve_tunnel_log_hides [OF hide, of env d remote d'] show ?thesis
    by (auto simp: serve_connect_def split: prod.split_asm)
qed

section \<open>The active sessions\<close>

text \<open>
  \<open>active\<close> and \<open>activeZero\<close>: the sessions in progress and the channel that is closed when there is
  none. A channel is a number, the last one made is current; closing a closed channel panics.
\<close>

record sessions =
  as_active :: "nat set"
  as_conn :: "nat \<Rightarrow> nat option"
  as_zero :: nat
  as_closed :: "nat set"

definition new_sessions :: sessions where
  "new_sessions = \<lparr>as_active = {}, as_conn = (\<lambda>_. None), as_zero = 0, as_closed = {0}\<rparr>"

definition track_session :: "nat \<Rightarrow> sessions \<Rightarrow> sessions" where
  "track_session n s =
     (let s = (if as_active s = {} then s\<lparr>as_zero := Suc (as_zero s)\<rparr> else s)
      in s\<lparr>as_active := insert n (as_active s)\<rparr>)"

definition close_channel :: "nat \<Rightarrow> sessions \<Rightarrow> (unit, sessions) result" where
  "close_channel k s = (if k \<in> as_closed s then panic else ok (s\<lparr>as_closed := insert k (as_closed s)\<rparr>))"

definition untrack_session :: "nat \<Rightarrow> sessions \<Rightarrow> (unit, sessions) result" where
  "untrack_session n s =
     (let s = s\<lparr>as_active := as_active s - {n}\<rparr>
      in if as_active s = {} then close_channel (as_zero s) s else ok s)"

text \<open>
  \<open>setConnection\<close>: a session that was untracked in the meantime keeps none. \<open>closeActive\<close> cancels each
  active session and closes the connections they have.
\<close>

definition set_connection :: "nat \<Rightarrow> nat \<Rightarrow> sessions \<Rightarrow> sessions" where
  "set_connection n c s = (if n \<in> as_active s then s\<lparr>as_conn := (as_conn s)(n \<mapsto> c)\<rparr> else s)"

definition close_active_sessions :: "sessions \<Rightarrow> nat set \<times> nat set" where
  "close_active_sessions s = (as_active s, {c. \<exists>n \<in> as_active s. as_conn s n = Some c})"

text \<open>\<open>activeDone\<close>: the channel a shutdown waits for, and whether the wait is over.\<close>

definition active_done :: "sessions \<Rightarrow> nat" where
  "active_done s = as_zero s"

definition wait_over :: "nat \<Rightarrow> sessions \<Rightarrow> bool" where
  "wait_over k s \<longleftrightarrow> k \<in> as_closed s"

datatype shutdown_end = ShutdownDone | ShutdownHttpError | ShutdownExpired

text \<open>The end of \<open>Shutdown\<close>: the wait is over before the context expires, or everything active is closed.\<close>

definition await_active :: "bool \<Rightarrow> nat \<Rightarrow> bool \<Rightarrow> sessions \<Rightarrow> (shutdown_end \<times> nat set \<times> nat set) option" where
  "await_active http_ok k expired s =
     (if wait_over k s then Some (if http_ok then ShutdownDone else ShutdownHttpError, {}, {})
      else if expired then Some (ShutdownExpired, close_active_sessions s)
      else None)"

text \<open>A request tracks a session of its own once and untracks it once.\<close>

inductive sessions_step :: "sessions \<Rightarrow> sessions \<Rightarrow> bool" where
  enter: "n \<notin> as_active s \<Longrightarrow> sessions_step s (track_session n s)"
| connect: "sessions_step s (set_connection n c s)"
| leave: "n \<in> as_active s \<Longrightarrow> untrack_session n s = ok s' \<Longrightarrow> sessions_step s s'"

inductive sessions_reachable :: "sessions \<Rightarrow> bool" where
  start: "sessions_reachable new_sessions"
| step: "sessions_reachable s \<Longrightarrow> sessions_step s s' \<Longrightarrow> sessions_reachable s'"

definition sessions_inv :: "sessions \<Rightarrow> bool" where
  "sessions_inv s \<longleftrightarrow> as_closed s = (if as_active s = {} then {..as_zero s} else {..<as_zero s})"

lemma track_session_inv: "sessions_inv s \<Longrightarrow> sessions_inv (track_session n s)"
  by (cases "as_active s = {}") (simp_all add: sessions_inv_def track_session_def Let_def lessThan_Suc_atMost)

lemma set_connection_inv: "sessions_inv s \<Longrightarrow> sessions_inv (set_connection n c s)"
  by (simp add: sessions_inv_def set_connection_def)

lemma untrack_session_inv:
  assumes "untrack_session n s = ok s'" and "n \<in> as_active s" and "sessions_inv s"
  shows "sessions_inv s'"
proof -
  have closed: "as_closed s = {..<as_zero s}" using assms(2,3) by (auto simp: sessions_inv_def)
  show ?thesis
  proof (cases "as_active s - {n} = {}")
    case True
    with assms(1) closed have "s' = s\<lparr>as_active := {}, as_closed := insert (as_zero s) {..<as_zero s}\<rparr>"
      by (simp add: untrack_session_def close_channel_def)
    then show ?thesis by (simp add: sessions_inv_def lessThan_Suc [symmetric] lessThan_Suc_atMost)
  next
    case False
    with assms(1) have "s' = s\<lparr>as_active := as_active s - {n}\<rparr>" by (simp add: untrack_session_def)
    with False closed show ?thesis by (simp add: sessions_inv_def)
  qed
qed

lemma sessions_reachable_inv:
  assumes "sessions_reachable s"
  shows "sessions_inv s"
  using assms
proof (induction rule: sessions_reachable.induct)
  case (step s s')
  from step.hyps(2) step.IH show ?case
    by (cases rule: sessions_step.cases) (auto intro: track_session_inv untrack_session_inv set_connection_inv)
qed (simp add: sessions_inv_def new_sessions_def)

lemma untrack_never_panics:
  assumes "sessions_reachable s" and "n \<in> as_active s"
  shows "\<exists>s'. untrack_session n s = ok s'"
  using sessions_reachable_inv [OF assms(1)] assms(2)
  by (auto simp: sessions_inv_def untrack_session_def close_channel_def Let_def split: if_split_asm)

lemma wait_over_iff:
  assumes "sessions_reachable s"
  shows "wait_over (active_done s) s \<longleftrightarrow> as_active s = {}"
  using sessions_reachable_inv [OF assms] by (simp add: sessions_inv_def wait_over_def active_done_def)

text \<open>Without arrivals the sessions that are left leave one by one, and the wait ends.\<close>

lemma leaving_ends_wait:
  assumes "sessions_reachable s" and "finite (as_active s)"
  shows "\<exists>s'. sessions_step\<^sup>*\<^sup>* s s' \<and> as_active s' = {} \<and> wait_over (active_done s) s'"
  using assms
proof (induction "card (as_active s)" arbitrary: s)
  case 0
  then have "as_active s = {}" by simp
  with wait_over_iff [OF 0(2)] show ?case by auto
next
  case (Suc k)
  then obtain n where n: "n \<in> as_active s" by fastforce
  from untrack_never_panics [OF Suc(3) n] obtain s1 where s1: "untrack_session n s = ok s1" by blast
  then have eqs: "as_active s1 = as_active s - {n}" "active_done s1 = active_done s"
    by (auto simp: untrack_session_def close_channel_def Let_def active_done_def split: if_split_asm)
  note st = sessions_step.leave [OF n s1]
  have "k = card (as_active s1)" using Suc(2,4) n eqs by simp
  from Suc(1) [OF this sessions_reachable.step [OF Suc(3) st]] eqs Suc(4) obtain s' where
    "sessions_step\<^sup>*\<^sup>* s1 s'" "as_active s' = {}" "wait_over (active_done s) s'" by auto
  with st show ?case by (meson converse_rtranclp_into_rtranclp)
qed


text \<open>A shutdown that gives up closes the connection of every session that still has one.\<close>

lemma close_active_sessions_all:
  assumes "n \<in> as_active s"
  shows "n \<in> fst (close_active_sessions (set_connection n c s))" and "c \<in> snd (close_active_sessions (set_connection n c s))"
  using assms by (auto simp: close_active_sessions_def set_connection_def)

section \<open>Bytes the client sent early\<close>

text \<open>
  \<open>newBufferedConn\<close>: what the HTTP server had read past the request stays in front of the connection.
\<close>

definition new_buffered_conn :: "bytes option \<Rightarrow> copy_error stream \<Rightarrow> copy_error stream" where
  "new_buffered_conn buffered conn =
     (case buffered of None \<Rightarrow> conn
      | Some b \<Rightarrow> if length b = 0 then conn else conn\<lparr>chunks := b # chunks conn\<rparr>)"

lemma new_buffered_conn_pending:
  "pending (new_buffered_conn buffered conn) = (case buffered of None \<Rightarrow> [] | Some b \<Rightarrow> b) @ pending conn"
  by (simp add: new_buffered_conn_def pending_def split: option.split)

section \<open>Properties\<close>

text \<open>
  C20: the client is told that its tunnel is established only for a CONNECT over HTTP/1.1 whose authority
  parses to a destination the policy admits, and only after the remote accepted that destination;
  from then on bytes flow over that tunnel, and both its ends are closed at the end.
\<close>

theorem established_only_when_admitted:
  assumes "serve_connect s env draining rq = ok (es, ls)" and "Established \<in> set es"
  shows "\<not> draining \<and> cq_verb rq = ''CONNECT'' \<and> cq_proto rq = (1, 1)
    \<and> (\<exists>d remote. parse_authority (cq_uri rq) = ok d \<and> allowed (check_destination (lo_checker s) d) \<and> le_open env d = ok remote
        \<and> es = [TrackSession, OpenTunnel d, SetConnection, Established,
            StartRelay remote (t_idle (lo_timeouts s)) (t_max_lifetime (lo_timeouts s)), CloseLocal,
            CloseRemote remote, UntrackSession, CancelContext])"
proof -
  from serve_connect_established [OF assms] obtain d remote where
    d: "admit_connect s draining rq = Inr d" "le_open env d = ok remote"
    "es = [TrackSession, OpenTunnel d, SetConnection, Established,
        StartRelay remote (t_idle (lo_timeouts s)) (t_max_lifetime (lo_timeouts s)), CloseLocal,
        CloseRemote remote, UntrackSession, CancelContext]" by blast
  with d(1) [unfolded admit_connect_ok] show ?thesis by blast
qed

definition sample_local :: local_settings where
  "sample_local = \<lparr>lo_checker = new_checker allow_all None, lo_logger = discard_logger, lo_timeouts = default_timeouts\<rparr>"

definition sample_connect :: connect_request where
  "sample_connect =
     \<lparr>cq_verb = ''CONNECT'', cq_proto = (1, 1), cq_content_length = 0, cq_transfer_encoding = [],
      cq_uri = authority \<lparr>dest_host = ''api.example.com'', dest_port = 443\<rparr>\<rparr>"

definition sample_surroundings :: "(open_error, nat) result \<Rightarrow> local_env" where
  "sample_surroundings r =
     \<lparr>le_open = (\<lambda>_. r), le_hijacker = True, le_hijack = True, le_write = True, le_flush = True, le_copy = []\<rparr>"

lemma sample_admitted: "admit_connect sample_local False sample_connect = Inr \<lparr>dest_host = ''api.example.com'', dest_port = 443\<rparr>"
proof -
  have "canonical_host ''api.example.com''"
    by (simp add: canonical_host_def max_hostname_length_def valid_label_def valid_label_char_def in_range_def
      parse_addr_def parse_ipv4_def parse_ipv4_fields_def is_digit_def)
  then have "valid_destination \<lparr>dest_host = ''api.example.com'', dest_port = 443\<rparr>"
    by (simp add: valid_destination_def allowed_port_def)
  from parse_authority_authority [OF this] show ?thesis
    by (simp add: admit_connect_ok sample_connect_def sample_local_def check_destination_def new_checker_def permits_def
        dest_is_zero_def allowed_port_def allow_all_def)
qed

theorem established_only_when_admitted_witness:
  "\<exists>es ls. serve_connect sample_local (sample_surroundings (ok 3)) False sample_connect = ok (es, ls)
     \<and> Established \<in> set es \<and> last (butlast (butlast es)) = CloseRemote 3"
proof -
  obtain es ls where run: "serve_connect sample_local (sample_surroundings (ok 3)) False sample_connect = ok (es, ls)"
    and est: "Established \<in> set es"
    using sample_admitted by (auto simp: serve_connect_def serve_tunnel_def sample_surroundings_def)
  from established_only_when_admitted [OF run est] have "last (butlast (butlast es)) = CloseRemote 3"
    by (auto simp: sample_surroundings_def)
  with run est show ?thesis by blast
qed

text \<open>
  C21: on every path through the handler, whichever call fails, a tunnel that was opened is closed, a
  session that was tracked is untracked and its context canceled, and a connection that was taken
  over is closed.
\<close>

theorem every_path_cleans_up:
  assumes "serve_connect s env draining rq = ok (es, ls)"
  shows "closes_what_it_opened es
    \<and> (\<forall>d remote. admit_connect s draining rq = Inr d \<longrightarrow> le_open env d = ok remote \<longrightarrow> CloseRemote remote \<in> set es)"
  using serve_connect_closes [OF assms] by blast

theorem every_path_cleans_up_witness:
  "\<exists>es ls. serve_connect sample_local (sample_surroundings (ok 3) \<lparr>le_flush := False\<rparr>) False sample_connect = ok (es, ls)
     \<and> Established \<notin> set es \<and> CloseRemote 3 \<in> set es"
proof -
  let ?env = "sample_surroundings (ok 3) \<lparr>le_flush := False\<rparr>"
  obtain es ls where run: "serve_connect sample_local ?env False sample_connect = ok (es, ls)" and no: "Established \<notin> set es"
    using sample_admitted by (auto simp: serve_connect_def serve_tunnel_def sample_surroundings_def)
  have "le_open ?env \<lparr>dest_host = ''api.example.com'', dest_port = 443\<rparr> = ok 3" by (simp add: sample_surroundings_def)
  with every_path_cleans_up [OF run] sample_admitted run no show ?thesis by blast
qed

text \<open>
  C22: closing the channel of the last session never panics, however sessions come and go, and the
  channel a shutdown waits for is closed exactly while no session is active; the sessions that are
  left can always leave, and then the wait is over.
\<close>

theorem waiting_for_sessions_is_exact:
  assumes "sessions_reachable s"
  shows "(\<forall>n \<in> as_active s. \<exists>s'. untrack_session n s = ok s') \<and> (wait_over (active_done s) s \<longleftrightarrow> as_active s = {})
    \<and> (finite (as_active s) \<longrightarrow> (\<exists>s'. sessions_step\<^sup>*\<^sup>* s s' \<and> as_active s' = {} \<and> wait_over (active_done s) s'))"
  using untrack_never_panics [OF assms] wait_over_iff [OF assms] leaving_ends_wait [OF assms] by blast

theorem waiting_for_sessions_is_exact_witness:
  "(\<exists>s'. untrack_session 7 (track_session 7 new_sessions) = ok s')
     \<and> \<not> wait_over (active_done (track_session 7 new_sessions)) (track_session 7 new_sessions)"
proof -
  have r: "sessions_reachable (track_session 7 new_sessions)"
    by (rule sessions_reachable.step [OF sessions_reachable.start sessions_step.enter]) (simp add: new_sessions_def)
  have a: "as_active (track_session 7 new_sessions) = {7}" by (simp add: track_session_def new_sessions_def Let_def)
  with waiting_for_sessions_is_exact [OF r] show ?thesis by simp
qed

end
