(* ===== verification/Tunnel_Endpoints.thy ===== *)
theory Tunnel_Endpoints
  imports Tunnel_Session Relay_Server Local_Proxy
begin

text \<open>
  What the two programs promise each other and their surroundings, over the models of
  \<open>internal/tunnel\<close>, \<open>internal/relay\<close> and \<open>internal/localproxy\<close>, and one concrete tunnel: a server with
  one token, a client with that token, and the destination \<open>api.example.com:443\<close>.
\<close>

section \<open>A concrete tunnel\<close>

definition sample_destination :: destination where
  "sample_destination = \<lparr>dest_host = ''api.example.com'', dest_port = 443\<rparr>"

definition sample_checker :: "string checker" where
  "sample_checker = new_checker allow_all (Some (\<lambda>_. Inr [Addr4 (v4 8 8 8 8)]))"

lemma sample_public: "classify_address (Addr4 (v4 8 8 8 8)) = AddressPublic"
  unfolding classify_address_public
  by (simp add: public_address_def v4_def octets_value_def special_blocks4_def in_block_def)

lemma sample_canonical: "canonical_host ''api.example.com''"
  by (simp add: canonical_host_def max_hostname_length_def valid_label_def valid_label_char_def in_range_def
      parse_addr_def parse_ipv4_def parse_ipv4_fields_def is_digit_def)

lemma sample_valid: "valid_destination sample_destination"
  using sample_canonical by (simp add: valid_destination_def sample_destination_def allowed_port_def)

lemma sample_resolved: "resolve sample_checker sample_destination = (Some [Addr4 (v4 8 8 8 8)], allow)"
  by (simp add: resolve_def sample_checker_def new_checker_def check_destination_def permits_def
      sample_destination_def dest_is_zero_def allowed_port_def allow_all_def check_addresses_def
      sample_public class_public_def)

definition sample_token :: token where
  "sample_token = \<lparr>secret = replicate 32 7\<rparr>"

definition sample_tools :: x509_tools where
  "sample_tools = \<lparr>key_pair = (\<lambda>_. Inl []), parse_certificate = (\<lambda>der. Inr \<lparr>pc_ed25519 = True, pc_spki = der\<rparr>)\<rparr>"

definition sample_identity :: identity where
  "sample_identity = \<lparr>id_certificates = [[1]], id_pin = pin_from_spki [1]\<rparr>"

definition sample_peer :: "bytes list \<Rightarrow> tls_peer" where
  "sample_peer certificates =
     \<lparr>tp_handshake = (\<lambda>_. Inr \<lparr>ng_version = tls13_version, ng_protocol = alpn, ng_raw_certificates = certificates\<rparr>),
      tp_set_deadline = True\<rparr>"

definition sample_relay :: relay_settings where
  "sample_relay =
     \<lparr>rl_identity = Some sample_identity, rl_tls_timeout = 10, rl_tokens = \<lparr>digests = [sha256 (secret sample_token)]\<rparr>,
      rl_checker = sample_checker, rl_max_control = 4096, rl_client_pins = empty_pin_set, rl_dial_timeout = 10,
      rl_logger = discard_logger\<rparr>"

definition sample_session_env :: session_env where
  "sample_session_env =
     \<lparr>se_x509 = sample_tools, se_peer = sample_peer [], se_set_deadline = True, se_clear_deadline = True,
      se_tcp = (\<lambda>_. Inr 5), se_copy = [], se_now = 0\<rparr>"

definition sample_session :: session where
  "sample_session =
     \<lparr>sn_limiter = new_limiter,
      sn_reader = \<lparr>chunks = [frame (Hello version1 sample_token), frame (Open sample_destination)], stream_end = EOF\<rparr>,
      sn_pipe = open_pipe, sn_events = [], sn_log = []\<rparr>"

definition sample_client :: client where
  "sample_client =
     \<lparr>cl_config =
        \<lparr>c_listen = [], c_relay_url = None, c_server_pin = pin_from_spki [1], c_token_file = [],
         c_client_identity_file = [], c_doh_url = None, c_doh_bootstrap = [], c_ech = ech_required,
         c_allowlist = allow_all, c_timeouts = default_timeouts, c_log = default_log_options\<rparr>,
      cl_token = sample_token, cl_identity = None\<rparr>"

definition sample_open_env :: open_env where
  "sample_open_env =
     \<lparr>oe_platform = Unix, oe_x509 = sample_tools, oe_stream = Inr (sample_peer [[1]]), oe_set_deadline = None,
      oe_clear_deadline = None, oe_context = (\<lambda>_. None)\<rparr>"

definition sample_tunnel :: tunnel where
  "sample_tunnel =
     \<lparr>tn_reader = \<lparr>chunks = [frame (HelloOK version1), frame OpenOK], stream_end = EOF\<rparr>, tn_pipe = open_pipe,
      tn_dialed = False, tn_closed = False\<rparr>"

lemma sample_fits: "fits sample_relay (Hello version1 sample_token)" "fits sample_relay (Open sample_destination)"
proof -
  have "valid_message (Hello version1 sample_token)" "valid_message (Open sample_destination)"
    using sample_valid
    by (simp_all add: valid_token_def token_len_def sample_token_def min_token_bytes_def max_token_bytes_def)
  then show "fits sample_relay (Hello version1 sample_token)" "fits sample_relay (Open sample_destination)"
    by (simp_all add: fits_def sample_relay_def) (simp_all add: sample_token_def sample_destination_def)
qed

lemma sample_accepted: "token_set_contains (rl_tokens sample_relay) sample_token"
  by (simp add: sample_relay_def token_set_contains_iff token_is_zero_def sample_token_def)

lemma sample_limiter: "limiter_good new_limiter"
  using represents_new by (auto simp: limiter_good_def)

lemma sample_inner: "\<exists>info. session_inner sample_relay sample_session_env = Inr info"
  by (simp add: session_inner_def sample_relay_def sample_session_env_def accept_inner_tls_def sample_identity_def
      empty_pin_set_def handshake_inner_tls_def sample_peer_def server_inner_config_def)

lemma sample_reader: "pending (sn_reader sample_session) = frame (Hello version1 sample_token) @ frame (Open sample_destination) @ []"
  by (simp add: sample_session_def pending_def)

lemma sample_wired: "wired sample_relay sample_session"
  by (simp add: wired_def sample_relay_def sample_session_def open_pipe_def)

lemma sample_dials_inner:
  "\<exists>info. fst (dial_inner_tls sample_tools (sample_peer [[1]]) (pin_from_spki [1]) None (t_tls_handshake default_timeouts)) = ok info"
proof -
  have "pin_set (pin_from_spki [1])" using pin_from_spki_valid by (simp add: valid_pin_def)
  moreover have "pin_digest (pin_from_spki [1]) = sha256 [1]" by (simp add: pin_from_spki_def)
  ultimately show ?thesis
    by (simp add: dial_inner_tls_def pin_is_zero_def handshake_inner_tls_def sample_peer_def default_timeouts_def second_def
        spki_of_def sample_tools_def verify_server_def pin_matches_spki_iff client_inner_config_def)
qed

lemma sample_client_ready: "client_ready sample_client sample_open_env sample_destination"
proof -
  have "allowed (check_destination (client_checker (cl_config sample_client)) sample_destination :: unit lookup_error decision)"
    by (simp add: client_checker_def sample_client_def new_checker_def check_destination_def permits_def
      sample_destination_def dest_is_zero_def allowed_port_def allow_all_def)
  with sample_dials_inner show ?thesis
    by (auto simp: client_ready_def calm_def sample_open_env_def sample_client_def is_ok_iff)
qed

lemma sample_client_opens:
  "\<exists>t'. client_open (Some sample_client) sample_open_env sample_destination sample_tunnel = (ok (), t')
     \<and> received (tn_pipe t') = frame (Hello version1 sample_token) @ frame (Open sample_destination)"
proof -
  obtain r t' where run: "client_open (Some sample_client) sample_open_env sample_destination sample_tunnel = (r, t')"
    by fastforce
  from client_ready_open [OF sample_client_ready run] obtain t1 where
    t1: "send_hello sample_open_env sample_token sample_destination (sample_tunnel\<lparr>tn_dialed := True\<rparr>) = (r, t1)"
    "tn_pipe t' = tn_pipe t1" by (auto simp: sample_client_def)
  have "valid_token sample_token" using sample_fits(1) by (simp add: fits_def)
  from send_hello_accepted [OF this sample_valid, of "sample_tunnel\<lparr>tn_dialed := True\<rparr>" sample_open_env OpenOK "[]"] t1
  have "r = ok ()" "received (tn_pipe t') = frame (Hello version1 sample_token) @ frame (Open sample_destination)"
    by (auto simp: sample_tunnel_def open_pipe_def calm_def sample_open_env_def pending_def verdict_def)
  with run show ?thesis by blast
qed

lemma sample_serves:
  "\<exists>s'. handle_session sample_relay sample_session_env x sample_session = ok (s', Relayed)
     \<and> received (sn_pipe s') = frame (HelloOK version1) @ frame OpenOK"
proof -
  obtain info where info: "session_inner sample_relay sample_session_env = Inr info" using sample_inner by blast
  have r: "resolve (rl_checker sample_relay) sample_destination = (Some [Addr4 (v4 8 8 8 8)], allow)"
    using sample_resolved by (simp add: sample_relay_def)
  from handle_session_relays [of sample_session sample_relay sample_token version1 sample_destination "[]"
      "[Addr4 (v4 8 8 8 8)]" allow "Addr4 (v4 8 8 8 8)" sample_session_env info x]
    sample_limiter sample_wired sample_accepted sample_fits sample_reader r info
  obtain s' where "handle_session sample_relay sample_session_env x sample_session = ok (s', Relayed)"
    "said sample_session s' [HelloOK version1, OpenOK]"
    by (auto simp: fits_def sample_session_env_def sample_session_def sample_relay_def)
  with said_pipe(2) show ?thesis by (fastforce simp: sample_session_def open_pipe_def)
qed

section \<open>The inner handshake\<close>

text \<open>
  C8: the client writes nothing, so no token, before the peer proved possession of a certificate whose
  key is the pinned one, and before its own policy admitted the destination.
\<close>

theorem token_only_to_the_pinned_server:
  assumes "client_open (Some c) env d t = (r, t')" and "tn_pipe t' \<noteq> tn_pipe t"
  shows "allowed (check_destination (client_checker (cl_config c)) d :: unit lookup_error decision)
    \<and> (\<exists>peer st der spki. oe_stream env = Inr peer
         \<and> tp_handshake peer (client_inner_config (cl_identity c)) = Inr st
         \<and> ng_version st = tls13_version \<and> ng_protocol st = alpn \<and> ng_raw_certificates st = [der]
         \<and> spki_of (oe_x509 env) der = Some spki
         \<and> pin_set (c_server_pin (cl_config c)) \<and> sha256 spki = pin_digest (c_server_pin (cl_config c)))"
proof -
  from client_open_pinned_first [OF assms] obtain peer info k where
    p: "oe_stream env = Inr peer"
    "dial_inner_tls (oe_x509 env) peer (c_server_pin (cl_config c)) (cl_identity c)
       (t_tls_handshake (c_timeouts (cl_config c))) = (ok info, k)"
    and a: "allowed (check_destination (client_checker (cl_config c)) d :: unit lookup_error decision)"
    by (metis prod.collapse)
  from p(2) obtain st where "tp_handshake peer (client_inner_config (cl_identity c)) = Inr st"
    "verify_server (oe_x509 env) (c_server_pin (cl_config c)) st = None"
    by (auto simp: dial_inner_tls_def Let_def split: if_split_asm sum.split_asm dest!: handshake_inner_ok)
  with p(1) a show ?thesis unfolding verify_server_None pin_matches_spki_iff by blast
qed

theorem token_only_to_the_pinned_server_witness:
  "\<exists>t' spki. client_open (Some sample_client) sample_open_env sample_destination sample_tunnel = (ok (), t')
     \<and> received (tn_pipe t') \<noteq> [] \<and> sha256 spki = pin_digest (c_server_pin (cl_config sample_client))"
proof -
  from sample_client_opens obtain t' where
    t': "client_open (Some sample_client) sample_open_env sample_destination sample_tunnel = (ok (), t')"
    "received (tn_pipe t') = frame (Hello version1 sample_token) @ frame (Open sample_destination)" by blast
  have n: "received (tn_pipe t') \<noteq> []" using t'(2) by (simp add: frame_def put_uint32_def)
  then have "tn_pipe t' \<noteq> tn_pipe sample_tunnel" by (auto simp: sample_tunnel_def open_pipe_def)
  from token_only_to_the_pinned_server [OF t'(1) this] t'(1) n show ?thesis by blast
qed

text \<open>
  A server with client pins that completes the inner handshake reports a pin of its set as the
  client's, over TLS 1.3 and its own protocol, and the connection is left open.
\<close>

theorem accepted_client_is_pinned:
  assumes "accept_inner_tls x peer identity clients timeout = (ok info, closed)" and "pins clients \<noteq> []"
    and "\<forall>p \<in> set (pins clients). valid_pin p"
  shows "ii_client_pin info \<in> set (pins clients) \<and> ii_version info = tls13_version \<and> ii_protocol info = alpn \<and> \<not> closed"
  using accepted_client_pin [OF assms] accept_inner_tls_ok [OF assms(1)] by blast

theorem accepted_client_is_pinned_witness:
  "\<exists>info. accept_inner_tls sample_tools (sample_peer [[2]]) (Some sample_identity) \<lparr>pins = [pin_from_spki [2]]\<rparr> 10
     = (ok info, False) \<and> ii_client_pin info = pin_from_spki [2]"
proof -
  let ?s = "\<lparr>pins = [pin_from_spki [2]]\<rparr>"
  have m: "pin_set_contains_spki ?s [2]"
    using pin_from_spki_valid [of "[2]"] by (simp add: pin_set_contains_spki_iff pin_matches_spki_iff valid_pin_def)
      (simp add: pin_from_spki_def)
  then obtain info where i: "accept_inner_tls sample_tools (sample_peer [[2]]) (Some sample_identity) ?s 10 = (ok info, False)"
    by (auto simp: accept_inner_tls_def sample_identity_def handshake_inner_tls_def sample_peer_def server_inner_config_def
        spki_of_def sample_tools_def verify_client_def)
  from accepted_client_is_pinned [OF i] i pin_from_spki_valid show ?thesis by simp
qed

section \<open>A session\<close>

text \<open>
  C12: every session ends without a panic. Without an accepted token the peer hears nothing and
  nothing outside is touched; the failures counted for its source are the old ones, one more, or none
  after a token was accepted.
\<close>

theorem sessions_authenticate_first:
  assumes "limiter_good (sn_limiter s)"
  shows "\<exists>s' e. handle_session r env x s = ok (s', e) \<and> unauthenticated e = (\<not> authenticated r env (sn_reader s))
    \<and> (unauthenticated e \<longrightarrow> sn_events s' = sn_events s \<and> sn_pipe s' = sn_pipe s)
    \<and> limiter_failures (sn_limiter s') x (se_now env) = new_failures r e (limiter_failures (sn_limiter s) x (se_now env))"
  using handle_session_outcome [OF assms, of r env x] by (auto simp: session_outcome_def)

theorem sessions_authenticate_first_witness:
  "\<exists>s' e. handle_session sample_relay sample_session_env ''198.51.100.7'' (sample_session\<lparr>sn_reader := \<lparr>chunks = [], stream_end = EOF\<rparr>\<rparr>) = ok (s', e)
     \<and> unauthenticated e \<and> sn_events s' = [] \<and> received (sn_pipe s') = []"
proof -
  let ?s = "sample_session\<lparr>sn_reader := \<lparr>chunks = [], stream_end = EOF\<rparr>\<rparr>"
  obtain rd where "decode 4096 \<lparr>chunks = [], stream_end = (EOF :: string io_error)\<rparr> = (err CleanEOF, rd)"
    using decode_at_end [of "\<lparr>chunks = [], stream_end = EOF\<rparr>" 4096] by (auto simp: pending_def)
  then have "\<not> authenticated sample_relay sample_session_env (sn_reader ?s)"
    by (simp add: authenticated_def sample_relay_def)
  moreover have "limiter_good (sn_limiter ?s)" using sample_limiter by (simp add: sample_session_def)
  ultimately show ?thesis
    using sessions_authenticate_first [of ?s sample_relay sample_session_env "''198.51.100.7''"]
    by (auto simp: sample_session_def open_pipe_def)
qed

text \<open>A session that ends relayed went through the last stage.\<close>

lemma dial_stage_relayed: "dial_stage r env d as s = (s', Relayed) \<Longrightarrow> \<exists>c. OpenRelay c \<in> set (sn_events s')"
  by (auto simp: dial_stage_def Let_def split: prod.split_asm sum.split_asm dest!: relay_stage_events(2))

lemma open_stage_relayed:
  assumes "open_stage r env s = ok (s', Relayed)"
  obtains d as s1 where "dial_stage r env d as s1 = (s', Relayed)"
  using assms
  by (auto simp: open_stage_def Let_def split: prod.split_asm sum.split_asm Go_Prelude.failure.split_asm
      message.split_asm if_split_asm)

lemma hello_stage_relayed:
  assumes "hello_stage r env x s = ok (s', Relayed)"
  obtains s1 where "open_stage r env s1 = ok (s', Relayed)"
proof -
  obtain m s1 where rc: "receive r s = (m, s1)" by fastforce
  with assms obtain g t l where m: "m = ok g" "hello_token g = Some t" "limiter_reset (sn_limiter s1) x = ok l"
    by (auto simp: hello_stage_def bind_result_eq_ok split: sum.split_asm Go_Prelude.failure.split_asm
      option.split_asm if_split_asm)
  obtain q s2 where "send r (HelloOK version1) (s1\<lparr>sn_limiter := l\<rparr>) = (q, s2)" by fastforce
  with assms rc m that show ?thesis
    by (auto simp: hello_stage_def bind_result_eq_ok split: sum.split_asm if_split_asm)
qed

lemma handle_session_relayed:
  assumes "handle_session r env x s = ok (s', Relayed)"
  obtains c where "OpenRelay c \<in> set (sn_events s')"
proof -
  from assms obtain s1 where "hello_stage r env x s1 = ok (s', Relayed)"
    by (auto simp: handle_session_def Let_def bind_result_eq_ok split: sum.split_asm Go_Prelude.failure.split_asm if_split_asm)
  with that show ?thesis by (blast elim: hello_stage_relayed open_stage_relayed dest: dial_stage_relayed)
qed

text \<open>
  C6: whatever a session meets, an endpoint it dials is a public address on port 443 that the
  resolver gave for a destination the policy admits, and the peer had authenticated; a relay runs
  only over a connection that one of these dials made, and that connection is closed last.
\<close>

theorem relay_dials_only_public:
  assumes "handle_session r env x s = ok (s', e)" and "limiter_good (sn_limiter s)" and "sn_events s = []"
  shows "(\<forall>ep. DialTarget ep \<in> set (sn_events s') \<longrightarrow>
       public_address (fst ep) \<and> snd ep = 443 \<and> authenticated r env (sn_reader s)
     \<and> (\<exists>d f as. ResolveTarget d \<in> set (sn_events s') \<and> allowed (check_destination (rl_checker r) d)
          \<and> chk_resolver (rl_checker r) = Some f \<and> f (dest_host d) = Inr as \<and> fst ep \<in> set as))
    \<and> (\<forall>c. OpenRelay c \<in> set (sn_events s') \<longrightarrow> last (sn_events s') = CloseTarget c
          \<and> (\<exists>ep. DialTarget ep \<in> set (sn_events s') \<and> se_tcp env ep = Inr c))"
proof -
  from handle_session_outcome [OF assms(2), of r env x] assms(1)
  have out: "session_outcome r env x (authenticated r env (sn_reader s)) s s' e" by auto
  then have t: "session_trace r env (sn_events s')" using assms(3) by (auto simp: session_outcome_def)
  from out assms(3) have "sn_events s' \<noteq> [] \<Longrightarrow> authenticated r env (sn_reader s)"
    by (auto simp: session_outcome_def)
  then have "DialTarget ep \<in> set (sn_events s') \<Longrightarrow> authenticated r env (sn_reader s)" for ep
    by (cases "sn_events s'") auto
  with trace_dial [OF t] trace_relay [OF t] show ?thesis by blast
qed

theorem relay_dials_only_public_witness:
  "\<exists>s' ep. handle_session sample_relay sample_session_env ''198.51.100.7'' sample_session = ok (s', Relayed)
     \<and> DialTarget ep \<in> set (sn_events s') \<and> public_address (fst ep) \<and> last (sn_events s') = CloseTarget 5"
proof -
  from sample_serves obtain s' where s': "handle_session sample_relay sample_session_env ''198.51.100.7'' sample_session = ok (s', Relayed)"
    by blast
  have "limiter_good (sn_limiter sample_session)" "sn_events sample_session = []"
    using sample_limiter by (simp_all add: sample_session_def)
  note all = relay_dials_only_public [OF s' this]
  obtain c where "OpenRelay c \<in> set (sn_events s')" by (rule handle_session_relayed [OF s'])
  with all obtain ep where ep: "last (sn_events s') = CloseTarget c" "DialTarget ep \<in> set (sn_events s')"
    "se_tcp sample_session_env ep = Inr c" by fastforce
  then have "c = 5" by (simp add: sample_session_env_def)
  with all ep s' show ?thesis by fastforce
qed

text \<open>
  C23: a client with an accepted token that asks for an admitted destination with an answering address
  is served: the session relays, and the client hears that both messages were accepted.
\<close>

theorem well_behaved_client_is_served:
  assumes "limiter_good (sn_limiter s)" and "wired r s"
    and "token_set_contains (rl_tokens r) t" and "fits r (Hello version1 t)" and "fits r (Open d)"
    and "pending (sn_reader s) = frame (Hello version1 t) @ frame (Open d) @ rest"
    and "resolve (rl_checker r) d = (Some as, dec)" and "0 < rl_dial_timeout r"
    and "a \<in> set as" and "\<not> isl (se_tcp env (a, dest_port d))"
    and "server_ready r env" and "se_clear_deadline env"
  shows "\<exists>s'. handle_session r env x s = ok (s', Relayed)
    \<and> received (sn_pipe s') = received (sn_pipe s) @ frame (HelloOK version1) @ frame OpenOK"
proof -
  from assms(11) obtain info where env: "session_inner r env = Inr info" "se_set_deadline env"
    by (auto simp: server_ready_def is_ok_iff)
  have "\<exists>s'. handle_session r env x s = ok (s', Relayed) \<and> said s s' [HelloOK version1, OpenOK]"
    by (rule handle_session_relays [OF assms(1-3) _ _ _ _ assms(6-10) env assms(12)]) (use assms(4,5) in \<open>auto simp: fits_def\<close>)
  with said_pipe(2) show ?thesis by fastforce
qed

theorem well_behaved_client_is_served_witness:
  "\<exists>s'. handle_session sample_relay sample_session_env ''198.51.100.7'' sample_session = ok (s', Relayed)
     \<and> received (sn_pipe s') = frame (HelloOK version1) @ frame OpenOK"
proof -
  have r: "resolve (rl_checker sample_relay) sample_destination = (Some [Addr4 (v4 8 8 8 8)], allow)"
    using sample_resolved by (simp add: sample_relay_def)
  have g: "limiter_good (sn_limiter sample_session)" using sample_limiter by (simp add: sample_session_def)
  have e: "server_ready sample_relay sample_session_env" "se_clear_deadline sample_session_env"
    "0 < rl_dial_timeout sample_relay" "\<not> isl (se_tcp sample_session_env (Addr4 (v4 8 8 8 8), dest_port sample_destination))"
    using sample_inner by (auto simp: server_ready_def is_ok_iff sample_session_env_def) (simp add: sample_relay_def)
  from well_behaved_client_is_served [OF g sample_wired sample_accepted sample_fits sample_reader r e(3) _ e(4,1,2), of "''198.51.100.7''"]
  show ?thesis by (simp add: sample_session_def open_pipe_def)
qed

section \<open>Both ends together\<close>

text \<open>
  C7: when each end reads what the other wrote, the client's result is the verdict on how the session
  ended: success exactly when the remote opened the relay, the error it chose otherwise, and a failed
  authentication exactly when the token is unknown; both readers stand at the first byte of the tunnel.
\<close>

theorem both_ends_agree:
  assumes "client_open (Some c) env d t = (r, t')" and "client_ready c env d" and "fresh_tunnel t"
    and "handle_session rs senv x s = ok (s', e)" and "server_ready rs senv" and "fresh_session rs s"
    and "fits rs (Hello version1 (cl_token c))" and "fits rs (Open d)"
    and "pending (sn_reader s) = received (tn_pipe t') @ up"
    and "pending (tn_reader t) = received (sn_pipe s') @ down" and "e \<noteq> Relayed \<longrightarrow> down = []"
  shows "if token_set_contains (rl_tokens rs) (cl_token c)
    then \<exists>m. answered_end e m \<and> r = verdict m \<and> pending (tn_reader t') = down \<and> pending (sn_reader s') = up
    else e = InvalidToken \<and> r = err AuthenticationFailed"
  by (rule ends_agree [OF assms])

theorem both_ends_agree_witness:
  "\<exists>t' s'. client_open (Some sample_client) sample_open_env sample_destination sample_tunnel = (ok (), t')
     \<and> handle_session sample_relay sample_session_env ''198.51.100.7'' sample_session = ok (s', Relayed)
     \<and> pending (tn_reader t') = [] \<and> pending (sn_reader s') = []"
proof -
  from sample_client_opens obtain t' where
    t': "client_open (Some sample_client) sample_open_env sample_destination sample_tunnel = (ok (), t')"
    "received (tn_pipe t') = frame (Hello version1 sample_token) @ frame (Open sample_destination)" by blast
  from sample_serves obtain s' where
    s': "handle_session sample_relay sample_session_env ''198.51.100.7'' sample_session = ok (s', Relayed)"
    "received (sn_pipe s') = frame (HelloOK version1) @ frame OpenOK" by blast
  have fresh: "fresh_tunnel sample_tunnel" "fresh_session sample_relay sample_session"
    "server_ready sample_relay sample_session_env"
    using sample_limiter sample_inner
    by (auto simp: fresh_tunnel_def sample_tunnel_def fresh_session_def sample_session_def sample_relay_def
        server_ready_def is_ok_iff sample_session_env_def)
  have tok: "cl_token sample_client = sample_token" by (simp add: sample_client_def)
  have up: "pending (sn_reader sample_session) = received (tn_pipe t') @ []"
    using sample_reader t'(2) by simp
  have down: "pending (tn_reader sample_tunnel) = received (sn_pipe s') @ []"
    using s'(2) by (simp add: sample_tunnel_def pending_def)
  from both_ends_agree [OF t'(1) sample_client_ready fresh(1) s'(1) fresh(3,2) _ _ up down, unfolded tok] sample_fits sample_accepted
  show ?thesis using t'(1) s'(1) by auto
qed

text \<open>
  C24: opening a tunnel never panics; what it dialed is left open exactly when it succeeds, and closed
  on every failure, a refused destination dials nothing.
\<close>

theorem failed_open_leaks_nothing:
  assumes "client_open cl env d t = (r, t')" and "\<not> tn_dialed t" and "\<not> tn_closed t"
  shows "no_panic r \<and> (if r = ok () then tn_dialed t' \<and> \<not> tn_closed t' else tn_closed t' = tn_dialed t')"
  using client_open_closes [OF assms] by simp

theorem failed_open_leaks_nothing_witness:
  "\<exists>t'. client_open (Some sample_client) (sample_open_env\<lparr>oe_set_deadline := Some \<lparr>ne_sentinels = [], ne_operation = None, ne_timeout = False\<rparr>\<rparr>)
     sample_destination sample_tunnel = (err (DeadlineNotSet \<lparr>ne_sentinels = [], ne_operation = None, ne_timeout = False\<rparr>), t')
     \<and> tn_closed t' = tn_dialed t'"
proof -
  let ?e = "\<lparr>ne_sentinels = [], ne_operation = None, ne_timeout = False\<rparr>"
  let ?env = "sample_open_env\<lparr>oe_set_deadline := Some ?e\<rparr>"
  have "allowed (check_destination (client_checker (cl_config sample_client)) sample_destination :: unit lookup_error decision)"
    using sample_client_ready by (simp add: client_ready_def)
  with sample_dials_inner obtain t' where
    "client_open (Some sample_client) ?env sample_destination sample_tunnel = (err (DeadlineNotSet ?e), t')"
    by (fastforce simp: client_open_def Let_def sample_open_env_def sample_client_def split: prod.splits sum.splits Go_Prelude.failure.splits)
  from failed_open_leaks_nothing [OF this] this show ?thesis by (auto simp: sample_tunnel_def)
qed

section \<open>The server around the sessions\<close>


definition sample_server :: server_settings where
  "sample_server = \<lparr>ss_max_sessions = 1, ss_render = (\<lambda>_. []), ss_session = sample_relay\<rparr>"

definition sample_request :: http_request where
  "sample_request = \<lparr>rq_path = tunnel_path, rq_raw_query = [], rq_verb = ''GET'', rq_headers = [], rq_remote_addr = []\<rparr>"

definition sample_arrived :: server where
  "sample_arrived = server_arrive sample_server 0 sample_request new_server"

lemma sample_arrived_reachable: "server_reachable sample_server sample_arrived"
  unfolding sample_arrived_def
  by (rule server_reachable.step [OF server_reachable.start server_step.arrive]) (simp add: new_server_def)

lemma sample_max: "0 \<le> ss_max_sessions sample_server" by (simp add: sample_server_def)




end
