(* ===== verification/Diagnostics.thy ===== *)
theory Diagnostics
  imports Websocket_Upgrade Tunnel_Client Log_Redaction
begin

text \<open>
  \<open>cmd/dproxy/diagnostics.go\<close>: the report of \<open>dproxy test\<close>. It walks through the stages of a tunnel,
  resolver, secure dialer, WebSocket, inner TLS and HELLO, over the models of these stages, and writes
  one line for each. The prose of their errors, the names of cipher suites and the rendering of a
  date are arguments of the model.
\<close>

section \<open>The report\<close>

datatype check_status = StatusOK | StatusFailed | StatusSkipped | StatusInsecure

record check =
  ck_label :: string
  ck_status :: check_status
  ck_detail :: string

record diag_report =
  rp_checks :: "check list"
  rp_failed :: bool
  rp_redactions :: "string list"

definition empty_report :: diag_report where
  "empty_report = \<lparr>rp_checks = [], rp_failed = False, rp_redactions = []\<rparr>"

definition report_add :: "string \<Rightarrow> check_status \<Rightarrow> string \<Rightarrow> diag_report \<Rightarrow> diag_report" where
  "report_add lbl status detail r =
     (let r = (if status = StatusFailed then r\<lparr>rp_failed := True\<rparr> else r)
      in r\<lparr>rp_checks := rp_checks r @ [\<lparr>ck_label = lbl, ck_status = status, ck_detail = detail\<rparr>]\<rparr>)"

definition report_ok :: "string \<Rightarrow> string \<Rightarrow> diag_report \<Rightarrow> diag_report" where
  "report_ok lbl detail = report_add lbl StatusOK detail"

text \<open>\<open>strings.ReplaceAll\<close>, for a text to replace that is not empty.\<close>

function replace_all :: "string \<Rightarrow> string \<Rightarrow> string \<Rightarrow> string" where
  "replace_all old new [] = []"
| "replace_all old new (c # s) =
     (if old \<noteq> [] \<and> has_prefix (c # s) old then new @ replace_all old new (drop (length old) (c # s))
      else c # replace_all old new s)"
  by pat_completeness auto
termination by (relation "measure (\<lambda>(_, _, s). length s)") (auto simp: neq_Nil_conv)

declare replace_all.simps(2) [simp del]

text \<open>
  An error as the report sees it: its text, and, if there is a transport error in its chain, the
  reason of that and the text of its cause.
\<close>

record report_error =
  re_text :: string
  re_transport :: "(failure_reason \<times> string option) option"

definition plain_error :: "string \<Rightarrow> report_error" where
  "plain_error text = \<lparr>re_text = text, re_transport = None\<rparr>"

definition transport_report_error :: "('c \<Rightarrow> string) \<Rightarrow> 'c transport_error \<Rightarrow> report_error" where
  "transport_report_error tell e =
     \<lparr>re_text = ''transport failed ('' @ failure_reason_string (fail_reason e) @ ''): '' @ tell (fail_cause e),
      re_transport = Some (fail_reason e, Some (tell (fail_cause e)))\<rparr>"

definition report_fail :: "string \<Rightarrow> report_error \<Rightarrow> diag_report \<Rightarrow> diag_report" where
  "report_fail lbl e r =
     (let detail = (case re_transport e of
            Some (why, Some told) \<Rightarrow> failure_reason_string why @ '': '' @ told
          | _ \<Rightarrow> re_text e);
          detail = foldl (\<lambda>d protected. if protected \<noteq> [] then replace_all protected redacted d else d) detail (rp_redactions r)
      in report_add lbl StatusFailed detail r)"

definition report_skip :: "string list \<Rightarrow> diag_report \<Rightarrow> diag_report" where
  "report_skip lbls r = foldl (\<lambda>r lbl. report_add lbl StatusSkipped [] r) r lbls"

text \<open>The labels, in the order of the report.\<close>

definition check_doh :: string where "check_doh = ''DoH''"
definition check_https_record :: string where "check_https_record = ''HTTPS RR''"
definition check_tls :: string where "check_tls = ''TLS''"
definition check_cipher :: string where "check_cipher = ''cipher''"
definition check_ech_line :: string where "check_ech_line = ''ECH''"
definition check_outer_sni :: string where "check_outer_sni = ''outer SNI''"
definition check_certificate :: string where "check_certificate = ''certificate''"
definition check_websocket :: string where "check_websocket = ''websocket''"

definition dial_checks :: "string list" where
  "dial_checks = [check_tls, check_cipher, check_ech_line, check_outer_sni, check_certificate, check_websocket]"

definition check_inner_tls :: string where "check_inner_tls = ''inner TLS''"
definition check_server_pin :: string where "check_server_pin = ''server pin''"
definition check_client_pin :: string where "check_client_pin = ''client pin''"
definition check_authentication :: string where "check_authentication = ''authentication''"

definition inner_checks :: "string list" where
  "inner_checks = [check_inner_tls, check_server_pin, check_client_pin, check_authentication]"

definition check_remote_relay :: string where "check_remote_relay = ''remote relay''"

definition later_checks :: "string list" where "later_checks = inner_checks @ [check_remote_relay]"

text \<open>\<open>checkForFailure\<close> and \<open>attribute\<close>: the line a failure belongs on, and all lines of its stage.\<close>

definition check_for_failure :: "report_error \<Rightarrow> string" where
  "check_for_failure e =
     (case (case re_transport e of Some (why, _) \<Rightarrow> why | None \<Rightarrow> FailureNone) of
        FailureDoH \<Rightarrow> check_doh
      | FailureHTTPSRecord \<Rightarrow> check_https_record
      | FailureECHUnavailable \<Rightarrow> check_ech_line
      | FailureECHRejected \<Rightarrow> check_ech_line
      | FailureCertificate \<Rightarrow> check_certificate
      | _ \<Rightarrow> check_tls)"

definition attribute :: "report_error \<Rightarrow> string \<Rightarrow> string list \<Rightarrow> diag_report \<Rightarrow> diag_report" where
  "attribute e fallback lbls r =
     (let target = check_for_failure e;
          target = (if target \<notin> set lbls then fallback else target)
      in foldl (\<lambda>r lbl. if lbl = target then report_fail lbl e r else report_skip [lbl] r) r lbls)"

text \<open>\<open>render\<close> and \<open>write\<close>; the dash is U+2014 in UTF-8, and labels are ASCII.\<close>

definition dash :: string where "dash = [CHR '' '', CHR 0xE2, CHR 0x80, CHR 0x94, CHR '' '']"

definition render_check :: "check \<Rightarrow> string" where
  "render_check c =
     (case ck_status c of
        StatusOK \<Rightarrow> if ck_detail c = [] then ''OK'' else ck_detail c
      | StatusFailed \<Rightarrow> ''FAILED'' @ dash @ ck_detail c
      | StatusInsecure \<Rightarrow> ''INSECURE'' @ dash @ ck_detail c
      | StatusSkipped \<Rightarrow> ''not checked'')"

definition write_report :: "diag_report \<Rightarrow> string" where
  "write_report r =
     concat (map (\<lambda>c. ck_label c @ replicate (16 - length (ck_label c)) CHR '' '' @ '' '' @ render_check c @ [CHR 0x0A])
       (rp_checks r))"

section \<open>HELLO only\<close>

datatype auth_fault =
    NoAuthDeadline | AuthContext context_error | AuthRejected | HelloNotReceived | AuthFailed | UnexpectedHello

fun auth_fault_text :: "auth_fault \<Rightarrow> string" where
  "auth_fault_text NoAuthDeadline = ''could not set the authentication deadline''"
| "auth_fault_text (AuthContext ContextCanceled) = ''context canceled''"
| "auth_fault_text (AuthContext ContextDeadline) = ''context deadline exceeded''"
| "auth_fault_text AuthRejected = ''remote dproxy rejected the client identity''"
| "auth_fault_text HelloNotReceived = ''the remote did not receive HELLO''"
| "auth_fault_text AuthFailed = ''remote dproxy authentication failed''"
| "auth_fault_text UnexpectedHello = ''the remote returned an unexpected HELLO response''"

definition or_auth_context :: "open_env \<Rightarrow> context_point \<Rightarrow> auth_fault \<Rightarrow> (auth_fault, unit) result" where
  "or_auth_context env point e = (case oe_context env point of Some c \<Rightarrow> err (AuthContext c) | None \<Rightarrow> err e)"

definition authenticate_diagnostic :: "open_env \<Rightarrow> token \<Rightarrow> tunnel \<Rightarrow> (auth_fault, unit) result \<times> tunnel" where
  "authenticate_diagnostic env tok t =
     (if oe_set_deadline env \<noteq> None then (err NoAuthDeadline, t)
      else case tunnel_send (Hello version1 tok) t of
        (Inl Panic, t) \<Rightarrow> (panic, t)
      | (Inl (Err e), t) \<Rightarrow>
          (or_auth_context env AfterHelloSendError
             (if client_certificate_rejected (oe_platform env) (encode_cause e) then AuthRejected else HelloNotReceived), t)
      | (Inr _, t) \<Rightarrow>
     (case tunnel_receive t of
        (Inl Panic, t) \<Rightarrow> (panic, t)
      | (Inl (Err e), t) \<Rightarrow>
          (or_auth_context env AfterHelloReceiveError
             (if client_certificate_rejected (oe_platform env) (decode_cause e (tn_reader t)) then AuthRejected else AuthFailed), t)
      | (Inr m, t) \<Rightarrow> (if m \<noteq> HelloOK version1 then err UnexpectedHello else ok (), t)))"

section \<open>Errors without paths\<close>

definition safe_token_file_error :: "bool \<Rightarrow> string \<Rightarrow> report_error" where
  "safe_token_file_error path_error text =
     plain_error
       (if path_error then ''token file could not be read''
        else if contains text ''permissions''
          then ''token file permissions are too open; restrict access to the current user''
        else if contains text ''at least'' then ''token is shorter than '' @ itoa min_token_bytes @ '' bytes''
        else if contains text '' is a directory'' then ''token file path names a directory''
        else if contains text ''larger'' then ''token file is too large''
        else ''token file could not be read'')"

definition safe_identity_file_error :: "string \<Rightarrow> report_error" where
  "safe_identity_file_error text =
     plain_error
       (if contains text ''permissions''
          then ''client identity file permissions are too open; restrict access to the current user''
        else if contains text '' is a directory'' then ''client identity file path names a directory''
        else if contains text ''larger'' then ''client identity file is too large''
        else ''client identity file could not be read or created'')"

section \<open>The run\<close>

record texts =
  tx_dial :: "dial_cause \<Rightarrow> string"
  tx_upgrade :: "upgrade_fault \<Rightarrow> string"
  tx_inner :: "inner_error \<Rightarrow> string"
  tx_identity :: "identity_error \<Rightarrow> string"
  tx_token :: "string token_file_error \<Rightarrow> bool \<times> string"
  tx_cipher :: "16 word \<Rightarrow> string"
  tx_date :: "int \<Rightarrow> string"

record diag_env =
  di_resolver :: "report_error + world"
  di_network :: "nat network"
  di_request_uri :: string
  di_upgrade :: "nat \<Rightarrow> upgrade_env"
  di_raw :: "string pipe"
  di_identity :: "(identity_error, identity) result"
  di_token :: "string + string file_info"
  di_open :: open_env

definition relay_port :: "url \<Rightarrow> 16 word" where
  "relay_port u =
     (case (if url_port u \<noteq> [] then parse_uint16 (url_port u) else None) of Some p \<Rightarrow> p | None \<Rightarrow> allowed_port)"

definition ech_public_name_or_unknown :: "transport_info \<Rightarrow> string" where
  "ech_public_name_or_unknown i =
     (if ti_ech_public_name i = [] then ''accepted, public name not readable'' else ti_ech_public_name i)"

definition certificate_summary :: "texts \<Rightarrow> transport_info \<Rightarrow> string" where
  "certificate_summary tx i =
     (case ti_expiry i of None \<Rightarrow> ''valid''
      | Some t \<Rightarrow> ''valid until '' @ tx_date tx t @ (if ti_issuer i \<noteq> [] then '', issued by '' @ ti_issuer i else []))"

definition plural :: "nat \<Rightarrow> string \<Rightarrow> string \<Rightarrow> string" where
  "plural n one many = (if n = 1 then ''1 '' @ one else itoa n @ '' '' @ many)"

text \<open>\<open>tls.VersionName\<close>.\<close>

definition go_version_name :: "16 word \<Rightarrow> string" where
  "go_version_name v =
     (if v = 0x0300 then ''SSLv3'' else if v = version_tls10 then ''TLS 1.0'' else if v = version_tls11 then ''TLS 1.1''
      else if v = version_tls12 then ''TLS 1.2'' else if v = version_tls13 then ''TLS 1.3''
      else ''0x'' @ (let d = map (\<lambda>c. if is_digit c then c else char_of (code c - 32)) (hex_digits (unat v))
                   in replicate (4 - length d) CHR ''0'' @ d))"

text \<open>
  \<open>diagnoseInner\<close>, on the inner connection: everything up to HELLO, and no OPEN. A panic of a callee is
  one of the run.
\<close>

definition report_authentication ::
  "texts \<Rightarrow> diag_env \<Rightarrow> client_config \<Rightarrow> diag_report \<Rightarrow> tunnel \<Rightarrow> (unit, diag_report \<times> tunnel) result" where
  "report_authentication tx env c r t =
     (case read_token (c_token_file c) (di_token env) of
        Inl Panic \<Rightarrow> panic
      | Inl (Err e) \<Rightarrow>
          ok (report_skip [check_remote_relay]
                (report_fail check_authentication (case tx_token tx e of (p, text) \<Rightarrow> safe_token_file_error p text) r), t)
      | Inr tok \<Rightarrow>
          (case authenticate_diagnostic (di_open env) tok t of
             (Inl Panic, t) \<Rightarrow> panic
           | (Inl (Err e), t) \<Rightarrow>
               ok (report_skip [check_remote_relay]
                     (report_fail check_authentication
                        (plain_error (if e = AuthRejected
                           then ''the remote refused this client identity; add the client pin above to its client_pins''
                           else auth_fault_text e)) r), t)
           | (Inr _, t) \<Rightarrow>
               ok (report_ok check_remote_relay ''ready (no destination opened)'' (report_ok check_authentication ''accepted'' r), t)))"

definition diagnose_inner ::
  "texts \<Rightarrow> diag_env \<Rightarrow> client_config \<Rightarrow> tls_peer \<Rightarrow> diag_report \<Rightarrow> tunnel \<Rightarrow> (unit, diag_report \<times> tunnel) result" where
  "diagnose_inner tx env c peer r t =
     (case (if c_client_identity_file c \<noteq> [] then bind_result (di_identity env) (\<lambda>i. ok (Some i)) else ok None) of
        Inl Panic \<Rightarrow> panic
      | Inl (Err e) \<Rightarrow>
          ok (report_skip [check_authentication, check_remote_relay]
                (report_fail check_client_pin (safe_identity_file_error (tx_identity tx e))
                   (report_skip [check_inner_tls, check_server_pin] r)), t)
      | Inr identity \<Rightarrow>
          (case dial_inner_tls (oe_x509 (di_open env)) peer (c_server_pin c) identity (t_tls_handshake (c_timeouts c)) of
             (Inl Panic, _) \<Rightarrow> panic
           | (Inl (Err e), _) \<Rightarrow>
               ok (if e = InnerHandshake ServerPinMismatch then
                     report_skip [check_client_pin, check_authentication, check_remote_relay]
                       (report_fail check_server_pin (plain_error (tx_inner tx e)) (report_skip [check_inner_tls] r))
                   else
                     report_skip [check_server_pin, check_client_pin, check_authentication, check_remote_relay]
                       (report_fail check_inner_tls (plain_error (tx_inner tx e)) r), t)
           | (Inr info, _) \<Rightarrow>
               let r = report_ok check_inner_tls (go_version_name (ii_version info) @ '' / '' @ ii_protocol info) r;
                   r = report_ok check_server_pin ''verified'' r;
                   r = report_ok check_client_pin
                         (if pin_is_zero (ii_client_pin info) then ''not configured'' else pin_string (ii_client_pin info)) r
               in report_authentication tx env c r t))"

definition report_connection :: "texts \<Rightarrow> transport_info \<Rightarrow> diag_report \<Rightarrow> diag_report" where
  "report_connection tx info r =
     (let r = report_ok check_cipher (tx_cipher tx (ti_cipher_suite info)) (report_ok check_tls (tls_version_name (ti_version info)) r);
          r = (if ti_ech_accepted info
               then report_ok check_outer_sni (ech_public_name_or_unknown info) (report_ok check_ech_line ''accepted'' r)
               else report_ok check_outer_sni ''the relay hostname, in the clear''
                      (report_add check_ech_line StatusInsecure ''not used; the outer SNI is exposed (--insecure-disable-ech)'' r))
      in report_ok check_certificate (certificate_summary tx info) r)"

definition report_https :: "resolution \<Rightarrow> diag_report \<Rightarrow> diag_report" where
  "report_https res r =
     report_ok check_https_record
       (if res_https res \<and> length (res_ech res) \<noteq> 0 then ''OK (ECH configuration published)''
        else if res_https res then ''OK (no ECH configuration)'' else ''absent'') r"

text \<open>
  \<open>diagnose\<close>: the report, the inner connection, and what was done on the network. The WebSocket carries
  the inner connection, so the peer of the inner handshake depends on its reader.
\<close>

definition diagnose ::
  "texts \<Rightarrow> diag_env \<Rightarrow> (prefix_reader \<Rightarrow> tls_peer) \<Rightarrow> client_config \<Rightarrow> tunnel \<Rightarrow> (unit, diag_report \<times> tunnel \<times> nat action list) result" where
  "diagnose tx env over c t =
     (case c_relay_url c of
        None \<Rightarrow> panic
      | Some u \<Rightarrow>
          let host = url_hostname u;
              include = log_include_targets (c_log c);
              r = (if include then empty_report else empty_report\<lparr>rp_redactions := [host]\<rparr>);
              r = report_ok ''ech'' (c_ech c) (report_ok ''relay'' (if include then host else redacted) r)
          in (case di_resolver env of
                Inl e \<Rightarrow> ok (report_skip later_checks (report_skip dial_checks (report_skip [check_https_record] (report_fail check_doh e r))), t, [])
              | Inr w \<Rightarrow>
             (case resolve_relay w host 0 of
                (Inl Panic, _) \<Rightarrow> panic
              | (Inl (Err e), _) \<Rightarrow>
                  ok (report_skip later_checks (report_skip dial_checks
                        (attribute (transport_report_error (\<lambda>x. tx_dial tx (Resolving x)) e) check_doh [check_doh, check_https_record] r)), t, [])
              | (Inr res, n) \<Rightarrow>
                  let r = report_ok check_doh (''OK ('' @ plural (length (res_addresses res)) ''address'' ''addresses'' @ '')'') r;
                      r = report_https res r;
                      dialer = \<lparr>sd_resolver = Some w, sd_ech = c_ech c, sd_alpn = []\<rparr>
                  in (case dial_port dialer (di_network env) host (relay_port u) n of
                        (Inl Panic, _) \<Rightarrow> panic
                      | (Inl (Err e), as) \<Rightarrow>
                          ok (report_skip later_checks
                                (attribute (transport_report_error (tx_dial tx) e) check_ech_line dial_checks r), t, as)
                      | (Inr (conn, info), as) \<Rightarrow>
                          let r = report_connection tx info r in
                          (case upgrade_client (Some (di_request_uri env, url_host u)) (t_control (c_timeouts c)) (di_upgrade env conn) (di_raw env) of
                             (Inl Panic, _) \<Rightarrow> panic
                           | (Inl (Err e), _) \<Rightarrow>
                               ok (report_skip later_checks
                                     (report_fail check_websocket (transport_report_error (tx_upgrade tx) e) r), t, as @ [Close conn])
                           | (Inr reader, _) \<Rightarrow>
                               bind_result (diagnose_inner tx env c (over reader) (report_ok check_websocket ''accepted'' r) t)
                                 (\<lambda>(r, t). ok (r, t, as @ [Close conn])))))))"

section \<open>The shape of a report\<close>

lemma report_add_simps [simp]:
  "rp_checks (report_add l st d r) = rp_checks r @ [\<lparr>ck_label = l, ck_status = st, ck_detail = d\<rparr>]"
  "rp_failed (report_add l st d r) = (rp_failed r \<or> st = StatusFailed)"
  "rp_redactions (report_add l st d r) = rp_redactions r"
  by (simp_all add: report_add_def Let_def)

lemma report_ok_simps [simp]:
  "rp_checks (report_ok l d r) = rp_checks r @ [\<lparr>ck_label = l, ck_status = StatusOK, ck_detail = d\<rparr>]"
  "rp_failed (report_ok l d r) = rp_failed r" "rp_redactions (report_ok l d r) = rp_redactions r"
  by (simp_all add: report_ok_def)

lemma report_skip_simps [simp]:
  "rp_checks (report_skip ls r) = rp_checks r @ map (\<lambda>l. \<lparr>ck_label = l, ck_status = StatusSkipped, ck_detail = []\<rparr>) ls"
  "rp_failed (report_skip ls r) = rp_failed r" "rp_redactions (report_skip ls r) = rp_redactions r"
  by (induction ls arbitrary: r) (simp_all add: report_skip_def)

lemma skipped_labels [simp]:
  "map (ck_label \<circ> (\<lambda>l. \<lparr>ck_label = l, ck_status = StatusSkipped, ck_detail = []\<rparr>)) ls = ls"
  by (induction ls) simp_all

lemma report_fail_simps [simp]:
  "map ck_label (rp_checks (report_fail l e r)) = map ck_label (rp_checks r) @ [l]"
  "rp_failed (report_fail l e r)" "rp_redactions (report_fail l e r) = rp_redactions r"
  by (simp_all add: report_fail_def Let_def)

lemma report_fail_check:
  obtains d where "rp_checks (report_fail l e r) = rp_checks r @ [\<lparr>ck_label = l, ck_status = StatusFailed, ck_detail = d\<rparr>]"
  by (simp add: report_fail_def Let_def)

text \<open>
  A report in progress has only lines that hold; one that ended early has one failed line among
  lines that were not checked, after the lines that held.
\<close>

definition line_held :: "check \<Rightarrow> bool" where
  "line_held c \<longleftrightarrow> ck_status c = StatusOK \<or> ck_status c = StatusInsecure"

definition line_skipped :: "check \<Rightarrow> bool" where
  "line_skipped c \<longleftrightarrow> ck_status c = StatusSkipped"

definition report_held :: "diag_report \<Rightarrow> bool" where
  "report_held r \<longleftrightarrow> \<not> rp_failed r \<and> list_all line_held (rp_checks r)"

definition report_broken :: "diag_report \<Rightarrow> bool" where
  "report_broken r \<longleftrightarrow> rp_failed r \<and> (\<exists>held skipped c after. rp_checks r = held @ skipped @ c # after
     \<and> list_all line_held held \<and> list_all line_skipped skipped \<and> ck_status c = StatusFailed \<and> list_all line_skipped after)"

lemma report_held_ok:
  "report_held r \<Longrightarrow> report_held (report_ok l d r)" "report_held r \<Longrightarrow> report_held (report_add l StatusInsecure d r)"
  by (simp_all add: report_held_def line_held_def)

lemma report_broken_skip: "report_broken r \<Longrightarrow> report_broken (report_skip ls r)"
  by (fastforce simp: report_broken_def line_skipped_def list_all_iff)

lemma report_broken_fail_after:
  assumes "report_held r"
  shows "report_broken (report_fail l e (report_skip ls r))"
proof -
  obtain d where d: "rp_checks (report_fail l e (report_skip ls r)) =
    rp_checks (report_skip ls r) @ [\<lparr>ck_label = l, ck_status = StatusFailed, ck_detail = d\<rparr>]" by (rule report_fail_check)
  let ?m = "map (\<lambda>l. \<lparr>ck_label = l, ck_status = StatusSkipped, ck_detail = []\<rparr>) ls"
  have "list_all line_skipped ?m" by (simp add: list_all_iff line_skipped_def)
  with assms d show ?thesis
    unfolding report_broken_def report_held_def
    by (intro conjI exI [of _ "rp_checks r"] exI [of _ ?m] exI [of _ "\<lparr>ck_label = l, ck_status = StatusFailed, ck_detail = d\<rparr>"] exI [of _ "[]"]) simp_all
qed

lemma report_broken_fail: "report_held r \<Longrightarrow> report_broken (report_fail l e r)"
  using report_broken_fail_after [of r l e "[]"] by (simp add: report_skip_def)

lemma attribute_lines:
  "map ck_label (rp_checks (attribute e fb ls r)) = map ck_label (rp_checks r) @ ls"
  "rp_redactions (attribute e fb ls r) = rp_redactions r"
proof -
  have "map ck_label (rp_checks (foldl (\<lambda>r l. if l = target then report_fail l e r else report_skip [l] r) r ls)) = map ck_label (rp_checks r) @ ls
    \<and> rp_redactions (foldl (\<lambda>r l. if l = target then report_fail l e r else report_skip [l] r) r ls) = rp_redactions r" for target
    by (induction ls arbitrary: r) auto
  then show "map ck_label (rp_checks (attribute e fb ls r)) = map ck_label (rp_checks r) @ ls"
    "rp_redactions (attribute e fb ls r) = rp_redactions r" by (simp_all add: attribute_def Let_def)
qed

lemma attribute_broken:
  assumes "report_held r" and "fb \<in> set ls" and "distinct ls"
  shows "report_broken (attribute e fb ls r)"
proof -
  define target where "target = (if check_for_failure e \<notin> set ls then fb else check_for_failure e)"
  let ?step = "\<lambda>r l. if l = target then report_fail l e r else report_skip [l] r"
  have skips: "foldl ?step q ms = report_skip ms q" if "target \<notin> set ms" for q ms
    using that by (induction ms arbitrary: q) (auto simp: report_skip_def)
  have run: "attribute e fb ls r = foldl ?step r ls" by (simp only: attribute_def Let_def target_def)
  have "target \<in> set ls" using assms(2) by (simp add: target_def)
  then obtain pre post where ls: "ls = pre @ target # post" "target \<notin> set pre" by (meson split_list_first)
  then have "target \<notin> set post" using assms(3) by simp
  with ls(2) have "foldl ?step r (pre @ target # post) = report_skip post (report_fail target e (report_skip pre r))"
    by (simp add: skips)
  with run ls(1) have "attribute e fb ls r = report_skip post (report_fail target e (report_skip pre r))" by simp
  with report_broken_fail_after [OF assms(1)] report_broken_skip show ?thesis by simp
qed

text \<open>Every path through the run ends in one of the two, with the same lines.\<close>

definition extends :: "diag_report \<Rightarrow> string list \<Rightarrow> diag_report \<Rightarrow> bool" where
  "extends r ls r' \<longleftrightarrow> map ck_label (rp_checks r') = map ck_label (rp_checks r) @ ls \<and> (report_held r' \<or> report_broken r')"

lemmas report_intros = report_held_ok report_broken_fail report_broken_fail_after report_broken_skip attribute_broken

lemma report_authentication_extends:
  assumes "report_authentication tx env c r t = ok (r', t')" and "report_held r"
  shows "extends r [check_authentication, check_remote_relay] r'"
  using assms
  by (auto simp: report_authentication_def extends_def intro: report_intros
      split: sum.split_asm failure.split_asm prod.split_asm)

lemma diagnose_inner_extends:
  assumes "diagnose_inner tx env c peer r t = ok (r', t')" and "report_held r"
  shows "extends r later_checks r'"
  using assms
  by (auto simp: diagnose_inner_def extends_def later_checks_def inner_checks_def Let_def intro: report_intros
      split: sum.split_asm failure.split_asm prod.split_asm if_split_asm dest!: report_authentication_extends)

definition report_lines :: "string list" where
  "report_lines = [''relay'', ''ech'', check_doh, check_https_record] @ dial_checks @ later_checks"

lemma report_connection_held:
  assumes "report_held r"
  shows "report_held (report_connection tx info r)"
    and "map ck_label (rp_checks (report_connection tx info r)) =
      map ck_label (rp_checks r) @ [check_tls, check_cipher, check_ech_line, check_outer_sni, check_certificate]"
  using assms by (simp_all add: report_connection_def Let_def report_held_ok)

lemma report_https_held:
  assumes "report_held r"
  shows "report_held (report_https res r)" and "map ck_label (rp_checks (report_https res r)) = map ck_label (rp_checks r) @ [check_https_record]"
  using assms by (simp_all add: report_https_def report_held_ok)

lemma report_start_held:
  "report_held (report_ok ''ech'' e (report_ok ''relay'' h empty_report))"
  "report_held (report_ok ''ech'' e (report_ok ''relay'' h (empty_report\<lparr>rp_redactions := rs\<rparr>)))"
  by (simp_all add: report_held_def empty_report_def line_held_def)

lemma dial_checks_distinct: "distinct dial_checks" "check_ech_line \<in> set dial_checks" "distinct [check_doh, check_https_record]"
  by (simp_all add: dial_checks_def check_tls_def check_cipher_def check_ech_line_def check_outer_sni_def
      check_certificate_def check_websocket_def check_doh_def check_https_record_def)

lemma diagnose_lines:
  assumes "diagnose tx env over c t = ok (r, t', as)"
  shows "map ck_label (rp_checks r) = report_lines \<and> (report_held r \<or> report_broken r)"
proof -
  from assms obtain u where u: "c_relay_url c = Some u" by (auto simp: diagnose_def split: option.split_asm)
  define h where "h = url_hostname u"
  define inc where "inc = log_include_targets (c_log c)"
  define r0 where "r0 = report_ok ''ech'' (c_ech c) (report_ok ''relay'' (if inc then h else redacted)
      (if inc then empty_report else empty_report\<lparr>rp_redactions := [h]\<rparr>))"
  have r0: "report_held r0" "map ck_label (rp_checks r0) = [''relay'', ''ech'']"
    using report_start_held by (simp_all add: r0_def empty_report_def)
  note run = assms [unfolded diagnose_def u option.case Let_def, folded h_def inc_def, folded r0_def]
  show ?thesis
  proof (cases "di_resolver env")
    case (Inl e)
    with run r0 show ?thesis by (auto simp: report_lines_def intro: report_intros)
  next
    case (Inr w)
    obtain q n where q: "resolve_relay w h 0 = (q, n)" by fastforce
    show ?thesis
    proof (cases q)
      case (Inl f)
      with run r0 Inr q show ?thesis
        by (cases f) (auto simp: report_lines_def attribute_lines intro!: report_intros dial_checks_distinct)
    next
      case res: (Inr res)
      define r1 where "r1 = report_https res (report_ok check_doh (''OK ('' @ plural (length (res_addresses res)) ''address'' ''addresses'' @ '')'') r0)"
      have r1: "report_held r1" "map ck_label (rp_checks r1) = [''relay'', ''ech'', check_doh, check_https_record]"
        using report_https_held [OF report_held_ok(1) [OF r0(1)]] r0 by (simp_all add: r1_def)
      obtain p bs where p: "dial_port \<lparr>sd_resolver = Some w, sd_ech = c_ech c, sd_alpn = []\<rparr> (di_network env) h (relay_port u) n = (p, bs)"
        by fastforce
      note run1 = run [unfolded Inr sum.case q res prod.case, folded r1_def, unfolded p prod.case]
      show ?thesis
      proof (cases p)
        case (Inl f)
        with run1 r1 show ?thesis
          by (cases f) (auto simp: report_lines_def attribute_lines intro!: report_intros dial_checks_distinct)
      next
        case conn: (Inr ci)
        obtain raw info where ci: "ci = (raw, info)" by (cases ci)
        define r2 where "r2 = report_connection tx info r1"
        have r2: "report_held r2" "map ck_label (rp_checks r2) = [''relay'', ''ech'', check_doh, check_https_record,
            check_tls, check_cipher, check_ech_line, check_outer_sni, check_certificate]"
          using report_connection_held [OF r1(1), of tx info] r1(2) by (simp_all add: r2_def)
        obtain up pp where up: "upgrade_client (Some (di_request_uri env, url_host u)) (t_control (c_timeouts c)) (di_upgrade env raw) (di_raw env) = (up, pp)"
          by fastforce
        note run2 = run1 [unfolded conn ci sum.case prod.case, folded r2_def, unfolded up prod.case]
        show ?thesis
        proof (cases up)
          case (Inl f)
          with run2 r2 show ?thesis
            by (cases f) (auto simp: report_lines_def dial_checks_def intro!: report_intros)
        next
          case (Inr reader)
          with run2 obtain r3 t3 where "diagnose_inner tx env c (over reader) (report_ok check_websocket ''accepted'' r2) t = ok (r3, t3)" "r = r3"
            by (auto simp: bind_result_eq_ok)
          with diagnose_inner_extends [OF this(1) report_held_ok(1) [OF r2(1)]] r2(2) show ?thesis
            by (simp add: extends_def report_lines_def dial_checks_def)
        qed
      qed
    qed
  qed
qed

section \<open>What a report hides\<close>

lemma redacted_shape: "redacted = CHR ''['' # ''redacted]''" "redacted = ''[redacted'' @ [CHR '']'']"
  by (simp_all add: redacted_def)

lemma replace_all_prefix:
  assumes "has_prefix (replace_all old redacted s) p" and "CHR ''['' \<notin> set p"
  shows "has_prefix s p"
  using assms
proof (induction old "redacted" s arbitrary: p rule: replace_all.induct)
  case (2 old c s)
  show ?case
  proof (cases "old \<noteq> [] \<and> has_prefix (c # s) old")
    case True
    with 2(3) have "has_prefix (CHR ''['' # ''redacted]'' @ replace_all old redacted (drop (length old) (c # s))) p"
      by (simp add: replace_all.simps(2) redacted_shape(1))
    with 2(4) have "p = []" by (cases p) (auto simp: has_prefix_iff)
    then show ?thesis by (simp add: has_prefix_iff)
  next
    case False
    with 2(3) have pre: "has_prefix (c # replace_all old redacted s) p" by (simp add: replace_all.simps(2))
    show ?thesis
    proof (cases p)
      case (Cons d q)
      with pre have "d = c" "has_prefix (replace_all old redacted s) q" by (auto simp: has_prefix_iff)
      with 2(2) [OF False this(2)] 2(4) Cons show ?thesis by (auto simp: has_prefix_iff)
    qed (simp add: has_prefix_iff)
  qed
qed simp

text \<open>A name without brackets that the replacement itself does not contain is gone afterwards.\<close>

definition maskable :: "string \<Rightarrow> bool" where
  "maskable h \<longleftrightarrow> h \<noteq> [] \<and> CHR ''['' \<notin> set h \<and> CHR '']'' \<notin> set h \<and> \<not> contains redacted h"

lemma contains_after_redacted:
  assumes "maskable h" and "contains (redacted @ rest) h"
  shows "contains rest h"
proof -
  from assms(2) obtain a b where ab: "redacted @ rest = a @ h @ b" by (auto simp: contains_iff)
  then consider (inside) x where "redacted = a @ x" "x @ rest = h @ b" | (after) x where "a = redacted @ x" "rest = x @ h @ b"
    by (auto simp: append_eq_append_conv2)
  then show ?thesis
  proof cases
    case inside
    then consider (all) us where "x = h @ us" | (part) us where "h = x @ us" "rest = us @ b"
      by (auto simp: append_eq_append_conv2)
    then show ?thesis
    proof cases
      case all
      with inside(1) have "contains redacted h" by (auto simp: contains_iff)
      with assms(1) show ?thesis by (simp add: maskable_def)
    next
      case part
      show ?thesis
      proof (cases "x = []")
        case True
        with part show ?thesis by (auto simp: contains_iff intro: exI [of _ "[]"])
      next
        case False
        have "last x = last redacted" using inside(1) False by (metis last_appendR)
        with False have "CHR '']'' \<in> set x" by (metis last_in_set last_snoc redacted_shape(2))
        with part assms(1) show ?thesis by (simp add: maskable_def)
      qed
    qed
  qed (auto simp: contains_iff)
qed

lemma replace_all_masks:
  assumes "maskable h"
  shows "\<not> contains (replace_all h redacted s) h"
  using assms
proof (induction h "redacted" s rule: replace_all.induct)
  case (1 h)
  then show ?case by (simp add: maskable_def)
next
  case (2 h c s)
  show ?case
  proof (cases "h \<noteq> [] \<and> has_prefix (c # s) h")
    case True
    with 2(1) [OF True] 2(3) contains_after_redacted [OF 2(3)] show ?thesis by (simp add: replace_all.simps(2)) blast
  next
    case False
    have "\<not> has_prefix (c # replace_all h redacted s) h"
    proof
      assume "has_prefix (c # replace_all h redacted s) h"
      with False have "has_prefix (replace_all h redacted (c # s)) h" by (auto simp: replace_all.simps(2))
      from replace_all_prefix [OF this] 2(3) False show False by (simp add: maskable_def)
    qed
    with 2(2) [OF False 2(3)] False show ?thesis by (auto simp: replace_all.simps(2))
  qed
qed

definition hides :: "string \<Rightarrow> diag_report \<Rightarrow> bool" where
  "hides h r \<longleftrightarrow> rp_redactions r = [h]
     \<and> (\<forall>c \<in> set (rp_checks r). ck_status c = StatusFailed \<longrightarrow> \<not> contains (ck_detail c) h)"

lemma hides_add:
  "hides h r \<Longrightarrow> hides h (report_ok l d r)" "hides h r \<Longrightarrow> hides h (report_skip ls r)"
  "hides h r \<Longrightarrow> hides h (report_add l StatusInsecure d r)"
  by (auto simp: hides_def)

lemma hides_fail:
  assumes "maskable h" and "hides h r"
  shows "hides h (report_fail l e r)"
  using assms replace_all_masks [OF assms(1)]
  by (auto simp: hides_def report_fail_def Let_def maskable_def)

lemma hides_attribute: "maskable h \<Longrightarrow> hides h r \<Longrightarrow> hides h (attribute e fb ls r)"
proof -
  have "hides h (foldl (\<lambda>r l. if l = target then report_fail l e r else report_skip [l] r) r ls)"
    if "maskable h" "hides h r" for target
    using that by (induction ls arbitrary: r) (auto intro: hides_fail hides_add)
  then show "maskable h \<Longrightarrow> hides h r \<Longrightarrow> hides h (attribute e fb ls r)" by (simp add: attribute_def Let_def)
qed

lemmas hides_intros = hides_add hides_fail hides_attribute

lemma hides_stages:
  "hides h r \<Longrightarrow> hides h (report_connection tx info r)" "hides h r \<Longrightarrow> hides h (report_https res r)"
  by (simp_all add: report_connection_def report_https_def Let_def hides_add)

lemma report_authentication_hides:
  assumes "report_authentication tx env c r t = ok (r', t')" and "maskable h" and "hides h r"
  shows "hides h r'"
  using assms
  by (auto simp: report_authentication_def split: sum.split_asm failure.split_asm prod.split_asm intro!: hides_intros)

lemma diagnose_inner_hides:
  assumes "diagnose_inner tx env c peer r t = ok (r', t')" and "maskable h" and "hides h r"
  shows "hides h r'"
  using assms
  by (auto simp: diagnose_inner_def Let_def split: sum.split_asm failure.split_asm prod.split_asm if_split_asm
      intro!: hides_intros elim!: report_authentication_hides)

lemma diagnose_hides:
  assumes "diagnose tx env over c t = ok (r, t', as)" and "c_relay_url c = Some u" and "\<not> log_include_targets (c_log c)"
    and "maskable (url_hostname u)"
  shows "hides (url_hostname u) r"
proof -
  have "hides (url_hostname u) (empty_report\<lparr>rp_redactions := [url_hostname u]\<rparr>)"
    by (simp add: hides_def empty_report_def)
  with assms show ?thesis
    by (auto simp: diagnose_def Let_def bind_result_eq_ok split: sum.split_asm failure.split_asm prod.split_asm
        intro!: hides_intros hides_stages elim!: diagnose_inner_hides)
qed

section \<open>What a run sends\<close>

lemma authenticate_sends_hello:
  assumes "authenticate_diagnostic env tok t = (ok (), t')" and "valid_token tok"
  shows "received (tn_pipe t') = received (tn_pipe t) @ frame (Hello version1 tok)"
proof -
  from assms(1) obtain x t1 where "tunnel_send (Hello version1 tok) t = (ok x, t1)" "tn_pipe t' = tn_pipe t1"
    by (auto simp: authenticate_diagnostic_def or_auth_context_def dest!: tunnel_receive_state
        split: if_split_asm prod.split_asm sum.split_asm failure.split_asm option.split_asm)
  with tunnel_send_frame [of "Hello version1 tok" t x t1] assms(2) show ?thesis by simp
qed

text \<open>The inner connection carries one HELLO at most, and only after the pinned handshake.\<close>

definition only_hello :: "diag_env \<Rightarrow> client_config \<Rightarrow> tunnel \<Rightarrow> tunnel \<Rightarrow> bool" where
  "only_hello env c t t' \<longleftrightarrow> tn_pipe t' = tn_pipe t
     \<or> (\<exists>peer identity info tok q.
          fst (dial_inner_tls (oe_x509 (di_open env)) peer (c_server_pin c) identity (t_tls_handshake (c_timeouts c))) = ok info
        \<and> read_token (c_token_file c) (di_token env) = ok tok
        \<and> encode (Some pipe_write) 4096 (tn_pipe t) (Struct (Hello version1 tok)) = (q, tn_pipe t'))"

lemma authenticate_only_hello:
  assumes "authenticate_diagnostic env tok t = (r, t')"
  shows "tn_pipe t' = tn_pipe t \<or> (\<exists>q. encode (Some pipe_write) 4096 (tn_pipe t) (Struct (Hello version1 tok)) = (q, tn_pipe t'))"
  using assms
  by (auto simp: authenticate_diagnostic_def dest!: tunnel_receive_state tunnel_send_state
      split: if_split_asm prod.split_asm sum.split_asm failure.split_asm)

lemma report_authentication_only_hello:
  assumes "report_authentication tx env c r t = ok (r', t')"
  shows "tn_pipe t' = tn_pipe t \<or> (\<exists>tok q. read_token (c_token_file c) (di_token env) = ok tok
    \<and> encode (Some pipe_write) 4096 (tn_pipe t) (Struct (Hello version1 tok)) = (q, tn_pipe t'))"
  using assms
  by (auto simp: report_authentication_def split: sum.split_asm failure.split_asm prod.split_asm
      dest: authenticate_only_hello)

lemma diagnose_inner_only_hello:
  assumes "diagnose_inner tx env c peer r t = ok (r', t')"
  shows "only_hello env c t t'"
proof (cases "tn_pipe t' = tn_pipe t")
  case False
  from assms obtain identity info closed r1 where
    d: "dial_inner_tls (oe_x509 (di_open env)) peer (c_server_pin c) identity (t_tls_handshake (c_timeouts c)) = (ok info, closed)"
    and a: "report_authentication tx env c r1 t = ok (r', t')"
    using False
    by (auto simp: diagnose_inner_def Let_def split: sum.split_asm failure.split_asm prod.split_asm if_split_asm)
  from report_authentication_only_hello [OF a] False d show ?thesis
    unfolding only_hello_def by (metis fst_conv)
qed (simp add: only_hello_def)

lemma diagnose_only_hello:
  assumes "diagnose tx env over c t = ok (r, t', as)"
  shows "only_hello env c t t'"
proof (cases "tn_pipe t' = tn_pipe t")
  case False
  from assms obtain reader r1 where "diagnose_inner tx env c (over reader) r1 t = ok (r, t')"
    using False
    by (auto simp: diagnose_def Let_def bind_result_eq_ok split: option.split_asm sum.split_asm failure.split_asm prod.split_asm)
  then show ?thesis by (rule diagnose_inner_only_hello)
qed (simp add: only_hello_def)

section \<open>Properties\<close>

definition sample_relay_url :: url where
  "sample_relay_url =
     \<lparr>url_scheme = ''wss'', url_has_user = False, url_host = ''relay.example.com'',
      url_escaped_path = ''/v1/tunnel'', url_raw_query = [], url_fragment = []\<rparr>"

definition sample_client_config :: client_config where
  "sample_client_config =
     \<lparr>c_listen = [], c_relay_url = Some sample_relay_url, c_server_pin = pin_from_spki [1], c_token_file = [],
      c_client_identity_file = [], c_doh_url = None, c_doh_bootstrap = [], c_ech = ech_required,
      c_allowlist = allow_all, c_timeouts = default_timeouts, c_log = default_log_options\<rparr>"

definition sample_diag_env :: diag_env where
  "sample_diag_env =
     \<lparr>di_resolver = Inl (plain_error ''no way to reach relay.example.com''),
      di_network = \<lparr>net_dial = (\<lambda>_. Inl ''refused''), net_handshake = (\<lambda>_ _. Inl [])\<rparr>, di_request_uri = ''/v1/tunnel'',
      di_upgrade = (\<lambda>_. \<lparr>ue_entropy = \<lparr>chunks = [], stream_end = EOF\<rparr>, ue_set_deadline = True, ue_answer = None\<rparr>),
      di_raw = open_pipe, di_identity = err IdentityNotConfigured, di_token = Inl ''absent'',
      di_open = \<lparr>oe_platform = Unix, oe_x509 = \<lparr>key_pair = (\<lambda>_. Inl []), parse_certificate = (\<lambda>_. Inl [])\<rparr>,
        oe_stream = Inl \<lparr>ne_sentinels = [], ne_operation = None, ne_timeout = False\<rparr>, oe_set_deadline = None,
        oe_clear_deadline = None, oe_context = (\<lambda>_. None)\<rparr>\<rparr>"

definition sample_texts :: texts where
  "sample_texts =
     \<lparr>tx_dial = (\<lambda>_. []), tx_upgrade = (\<lambda>_. []), tx_inner = (\<lambda>_. []), tx_identity = (\<lambda>_. []), tx_token = (\<lambda>_. (False, [])),
      tx_cipher = (\<lambda>_. []), tx_date = (\<lambda>_. [])\<rparr>"

definition sample_inner_tunnel :: tunnel where
  "sample_inner_tunnel =
     \<lparr>tn_reader = \<lparr>chunks = [], stream_end = EOF\<rparr>, tn_pipe = open_pipe, tn_dialed = False, tn_closed = False\<rparr>"

lemma sample_relay_host: "url_hostname sample_relay_url = ''relay.example.com''" "maskable ''relay.example.com''"
  by (simp_all add: url_hostname_def url_split_host_port_def cut_last_def sample_relay_url_def has_prefix_def has_suffix_def
      maskable_def redacted_def)

lemma sample_diagnosis:
  "\<exists>r. diagnose sample_texts sample_diag_env over sample_client_config t = ok (r, t, []) \<and> rp_failed r"
  by (simp add: diagnose_def sample_client_config_def sample_diag_env_def Let_def)

text \<open>
  C38: however the run goes, the report has the same fifteen lines in the same order. It is either all
  lines that held, or one failed line with only unchecked lines around it, after the lines that held; the
  failure is what the exit status reports.
\<close>

theorem report_is_complete:
  assumes "diagnose tx env over c t = ok (r, t', as)"
  shows "map ck_label (rp_checks r) = report_lines \<and> (if rp_failed r then report_broken r else list_all line_held (rp_checks r))"
  using diagnose_lines [OF assms] by (auto simp: report_held_def report_broken_def)

theorem report_is_complete_witness:
  "\<exists>r. diagnose sample_texts sample_diag_env (\<lambda>_. \<lparr>tp_handshake = (\<lambda>_. Inl \<lparr>ne_sentinels = [], ne_operation = None, ne_timeout = False\<rparr>), tp_set_deadline = True\<rparr>)
      sample_client_config sample_inner_tunnel = ok (r, sample_inner_tunnel, []) \<and> report_broken r \<and> length (rp_checks r) = 15"
proof -
  let ?over = "\<lambda>_. \<lparr>tp_handshake = (\<lambda>_. Inl \<lparr>ne_sentinels = [], ne_operation = None, ne_timeout = False\<rparr>), tp_set_deadline = True\<rparr>"
  obtain r where r: "diagnose sample_texts sample_diag_env ?over sample_client_config sample_inner_tunnel = ok (r, sample_inner_tunnel, [])" "rp_failed r"
    using sample_diagnosis by blast
  note complete = report_is_complete [OF r(1)]
  then have "length (rp_checks r) = length report_lines" by (metis length_map)
  with complete r show ?thesis by (auto simp: report_lines_def dial_checks_def later_checks_def inner_checks_def)
qed

text \<open>
  C39: without the opt-in, no failure in a report names the relay, whatever the texts of the errors are:
  its hostname is gone from every failed line, if it is one that the mask cannot spell itself.
\<close>

theorem failures_do_not_name_the_relay:
  assumes "diagnose tx env over c t = ok (r, t', as)" and "c_relay_url c = Some u" and "\<not> log_include_targets (c_log c)"
    and "maskable (url_hostname u)"
  shows "\<forall>line \<in> set (rp_checks r). ck_status line = StatusFailed \<longrightarrow> \<not> contains (ck_detail line) (url_hostname u)"
  using diagnose_hides [OF assms] by (simp add: hides_def)

theorem failures_do_not_name_the_relay_witness:
  "\<exists>r. diagnose sample_texts sample_diag_env (\<lambda>_. \<lparr>tp_handshake = (\<lambda>_. Inl \<lparr>ne_sentinels = [], ne_operation = None, ne_timeout = False\<rparr>), tp_set_deadline = True\<rparr>)
      sample_client_config sample_inner_tunnel = ok (r, sample_inner_tunnel, []) \<and> rp_failed r
     \<and> (\<forall>line \<in> set (rp_checks r). ck_status line = StatusFailed \<longrightarrow> \<not> contains (ck_detail line) ''relay.example.com'')"
proof -
  let ?over = "\<lambda>_. \<lparr>tp_handshake = (\<lambda>_. Inl \<lparr>ne_sentinels = [], ne_operation = None, ne_timeout = False\<rparr>), tp_set_deadline = True\<rparr>"
  obtain r where r: "diagnose sample_texts sample_diag_env ?over sample_client_config sample_inner_tunnel = ok (r, sample_inner_tunnel, [])" "rp_failed r"
    using sample_diagnosis by blast
  have "c_relay_url sample_client_config = Some sample_relay_url" "\<not> log_include_targets (c_log sample_client_config)"
    by (simp_all add: sample_client_config_def default_log_options_def)
  from failures_do_not_name_the_relay [OF r(1) this] sample_relay_host r show ?thesis by auto
qed

end
