(* ===== verification/Package_Interfaces.thy ===== *)
theory Package_Interfaces
  imports Tunnel_Endpoints Doh_Endpoint
begin

text \<open>
  The interfaces by which the packages meet: \<open>policy.Resolver\<close>, \<open>relay.TargetDialer\<close> and
  \<open>localproxy.TunnelOpener\<close>. Each is a locale with what its clients rely on; the resolver over DoH, the TCP dialer and
  the client of the tunnel provide them. The theorems at the end hold for the parts as they are put together.
\<close>

section \<open>Resolver and dialer of the remote\<close>

text \<open>A resolver gives only addresses it has evidence for.\<close>

locale address_resolver =
  fixes lookup :: "'e resolver"
    and evidence :: "string \<Rightarrow> addr \<Rightarrow> bool"
  assumes lookup_evidence: "lookup host = Inr as \<Longrightarrow> a \<in> set as \<Longrightarrow> evidence host a"
begin

lemma resolved:
  assumes "chk_resolver c = Some lookup" and "resolve c d = (Some as, dec)" and "a \<in> set as"
  shows "public_address a \<and> dest_port d = allowed_port \<and> allowed (check_destination c d) \<and> evidence (dest_host d) a"
  using resolve_addresses [OF assms(2)] assms(1,3) lookup_evidence [of "dest_host d" as a] by auto

end

text \<open>A dialer tries the given addresses in their order at the given port, and the last one tried is what it connected to.\<close>

locale target_dialer =
  fixes dial :: "addr list \<Rightarrow> 16 word \<Rightarrow> int \<Rightarrow> (target_error, nat) result \<times> target_endpoint list"
    and reaches :: "target_endpoint \<Rightarrow> nat \<Rightarrow> bool"
  assumes tries_in_order: "dial as p t = (r, tried) \<Longrightarrow> \<exists>k. tried = map (\<lambda>a. (a, p)) (take k as)"
    and connects: "dial as p t = (ok c, tried) \<Longrightarrow> tried \<noteq> [] \<and> reaches (last tried) c"
begin

lemma tried_given: "dial as p t = (r, tried) \<Longrightarrow> ep \<in> set tried \<Longrightarrow> fst ep \<in> set as \<and> snd ep = p"
  using tries_in_order [of as p t r tried] set_take_subset [of _ as] by fastforce

lemma connected_given: "dial as p t = (ok c, tried) \<Longrightarrow> \<exists>a \<in> set as. reaches (a, p) c \<and> (a, p) \<in> set tried"
  using connects [of as p t c tried] tried_given [of as p t "ok c" tried "last tried"]
  by (metis last_in_set prod.collapse)

end

text \<open>Together, as the remote uses them: what is dialed for a destination was found for its name, is public, and is admitted.\<close>

locale outbound = address_resolver + target_dialer
begin

lemma dialed_for:
  assumes "chk_resolver c = Some lookup" and "resolve c d = (Some as, dec)"
    and "dial as (dest_port d) t = (r, tried)" and "ep \<in> set tried"
  shows "public_address (fst ep) \<and> snd ep = allowed_port \<and> allowed (check_destination c d) \<and> evidence (dest_host d) (fst ep)"
  using resolved [OF assms(1,2), of "fst ep"] tried_given [OF assms(3,4)] by simp

lemma connected_to:
  assumes "chk_resolver c = Some lookup" and "resolve c d = (Some as, dec)"
    and "dial as (dest_port d) t = (ok conn, tried)"
  shows "\<exists>a. evidence (dest_host d) a \<and> public_address a \<and> reaches (a, allowed_port) conn \<and> (a, allowed_port) \<in> set tried"
  using connected_given [OF assms(3)] resolved [OF assms(1,2)] by fastforce

end

text \<open>The resolver of the remote: \<open>LookupAddresses\<close> over DoH, its errors as text.\<close>

definition doh_lookup :: "(doh_cause transport_error Go_Prelude.failure \<Rightarrow> string) \<Rightarrow> world \<Rightarrow> nat \<Rightarrow> string resolver" where
  "doh_lookup wording w n host = (case fst (lookup_addresses w host n) of Inl e \<Rightarrow> Inl (wording e) | Inr as \<Rightarrow> Inr as)"

definition doh_evidence :: "world \<Rightarrow> string \<Rightarrow> addr \<Rightarrow> bool" where
  "doh_evidence w host a \<longleftrightarrow> answered w (canonical_dns_name host) a"

lemma doh_lookup_answered:
  assumes "doh_lookup wording w n host = Inr as"
  shows "as \<noteq> [] \<and> sorted_wrt (<) as \<and> (\<forall>a \<in> set as. doh_evidence w host a)"
proof -
  from assms obtain ttl k where "resolve_addresses w (canonical_dns_name host) 0 [] n = (ok (as, ttl), k)"
    by (auto simp: doh_lookup_def lookup_addresses_def bind_result_eq_ok split: sum.split_asm prod.split_asm)
  from resolve_addresses_ok [OF this] show ?thesis by (simp add: doh_evidence_def)
qed

interpretation doh: address_resolver "doh_lookup wording w n" "doh_evidence w" for wording w n
  by unfold_locales (use doh_lookup_answered in blast)

interpretation tcp: target_dialer "tcp_dial tcp" "\<lambda>ep c. tcp ep = Inr c" for tcp
proof unfold_locales
  show "\<exists>k. tried = map (\<lambda>a. (a, p)) (take k as)" if "tcp_dial tcp as p t = (r, tried)" for as p t r tried
    using that tcp_dial_loop_tried [of tcp p "[]" as r tried]
    by (auto simp: tcp_dial_def split: if_split_asm intro: exI [of _ 0])
  show "tried \<noteq> [] \<and> tcp (last tried) = Inr c" if "tcp_dial tcp as p t = (ok c, tried)" for as p t c tried
    using tcp_dial_ok [OF that] by simp
qed

interpretation remote: outbound "doh_lookup wording w n" "doh_evidence w" "tcp_dial tcp" "\<lambda>ep c. tcp ep = Inr c" for wording w n tcp ..

section \<open>The tunnel opener of the local side\<close>

text \<open>An opener returns, and hands out a connection only for a destination the other side accepted.\<close>

locale tunnel_opener =
  fixes opener :: "destination \<Rightarrow> (open_error, nat) result"
    and accepted :: "destination \<Rightarrow> bool"
  assumes opener_returns: "opener d \<noteq> panic"
    and opener_accepted: "valid_destination d \<Longrightarrow> opener d = ok c \<Longrightarrow> accepted d"
begin

lemma connect_returns: "le_open env = opener \<Longrightarrow> \<exists>t. serve_connect s env draining rq = ok t"
  using opener_returns
  by (auto simp: serve_connect_def split: sum.split failure.split prod.split)

lemma established_accepted:
  assumes "le_open env = opener" and "serve_connect s env draining rq = ok (es, ls)" and "Established \<in> set es"
  shows "\<exists>d remote. admit_connect s draining rq = Inr d \<and> opener d = ok remote \<and> accepted d \<and> CloseRemote remote \<in> set es"
proof -
  from serve_connect_established [OF assms(2,3)] obtain d remote where d: "admit_connect s draining rq = Inr d" "le_open env d = ok remote"
    "es = [TrackSession, OpenTunnel d, SetConnection, Established,
        StartRelay remote (t_idle (lo_timeouts s)) (t_max_lifetime (lo_timeouts s)), CloseLocal,
        CloseRemote remote, UntrackSession, CancelContext]" by blast
  from d(1) have "valid_destination d" by (auto simp: admit_connect_ok dest: parse_authority_valid)
  from opener_accepted [OF this] d assms(1) show ?thesis by auto
qed

lemma refused_not_established:
  assumes "le_open env = opener" and "serve_connect s env draining rq = ok (es, ls)"
    and "parse_authority (cq_uri rq) = ok d" and "\<not> accepted d"
  shows "Established \<notin> set es"
proof
  assume "Established \<in> set es"
  from established_accepted [OF assms(1,2) this] assms(3,4) show False by (auto simp: admit_connect_ok)
qed

end

text \<open>\<open>Client.Open\<close> as the opener: the connection it returns is the one of the tunnel it dials.\<close>

definition opened_by :: "client \<Rightarrow> (destination \<Rightarrow> open_env) \<Rightarrow> (destination \<Rightarrow> tunnel) \<Rightarrow> (destination \<Rightarrow> nat) \<Rightarrow> destination \<Rightarrow> (open_error, nat) result" where
  "opened_by cl env t conn d = bind_result (fst (client_open (Some cl) (env d) d (t d))) (\<lambda>_. ok (conn d))"

text \<open>What the client saw of the remote: the pinned key in the handshake, and both acceptances.\<close>

definition remote_accepted :: "client \<Rightarrow> (destination \<Rightarrow> open_env) \<Rightarrow> (destination \<Rightarrow> tunnel) \<Rightarrow> destination \<Rightarrow> bool" where
  "remote_accepted cl env t d \<longleftrightarrow> allowed (check_destination (client_checker (cl_config cl)) d :: unit lookup_error decision)
     \<and> (\<exists>peer info. oe_stream (env d) = Inr peer
          \<and> fst (dial_inner_tls (oe_x509 (env d)) peer (c_server_pin (cl_config cl)) (cl_identity cl)
                  (t_tls_handshake (c_timeouts (cl_config cl)))) = ok info)
     \<and> (\<exists>rd rd'. decode 4096 (tn_reader (t d)) = (ok (HelloOK version1), rd) \<and> decode 4096 rd = (ok OpenOK, rd'))
     \<and> received (tn_pipe (snd (client_open (Some cl) (env d) d (t d))))
         = received (tn_pipe (t d)) @ frame (Hello version1 (cl_token cl)) @ frame (Open d)"

lemma opened_accepted:
  assumes "valid_token (cl_token cl)" and "valid_destination d" and "opened_by cl env t conn d = ok c"
  shows "remote_accepted cl env t d"
proof -
  from assms(3) obtain t' where o: "client_open (Some cl) (env d) d (t d) = (ok (), t')"
    by (cases "client_open (Some cl) (env d) d (t d)") (auto simp: opened_by_def bind_result_eq_ok)
  note c = client_open_ok [OF o]
  from c(1) have "\<exists>peer info. oe_stream (env d) = Inr peer
      \<and> fst (dial_inner_tls (oe_x509 (env d)) peer (c_server_pin (cl_config cl)) (cl_identity cl)
              (t_tls_handshake (c_timeouts (cl_config cl)))) = ok info
      \<and> send_hello (env d) (cl_token cl) d ((t d)\<lparr>tn_dialed := True\<rparr>) = (ok (), t')" by simp
  then obtain peer info where p: "oe_stream (env d) = Inr peer"
      "fst (dial_inner_tls (oe_x509 (env d)) peer (c_server_pin (cl_config cl)) (cl_identity cl)
              (t_tls_handshake (c_timeouts (cl_config cl)))) = ok info"
    and h: "send_hello (env d) (cl_token cl) d ((t d)\<lparr>tn_dialed := True\<rparr>) = (ok (), t')"
    by (elim exE conjE)
  have sent: "received (tn_pipe t') = received (tn_pipe (t d)) @ frame (Hello version1 (cl_token cl)) @ frame (Open d)"
    using send_hello_ok(1) [OF h assms(1,2)] by simp
  from send_hello_ok(2) [OF h assms(1,2)] obtain rd where
    heard: "decode 4096 (tn_reader (t d)) = (ok (HelloOK version1), rd)" "decode 4096 rd = (ok OpenOK, tn_reader t')" by auto
  show ?thesis unfolding remote_accepted_def o snd_conv using p c(2) sent heard by blast
qed

lemma opened_returns: "opened_by cl env t conn d \<noteq> panic" if "\<not> tn_dialed (t d)" "\<not> tn_closed (t d)"
proof -
  obtain r t' where o: "client_open (Some cl) (env d) d (t d) = (r, t')" by fastforce
  from client_open_closes(1) [OF o that] have "r \<noteq> panic" by (simp add: no_panic_def)
  then show ?thesis by (cases r) (simp_all add: opened_by_def o)
qed

text \<open>
  \<open>NewServer\<close> of the local side without an opener of its own: it makes a client, which reads the token from its
  file and opens every tunnel on a fresh connection. Without a client there is no server.
\<close>

record client_world =
  cw_files :: "string \<Rightarrow> string + string file_info"
  cw_identities :: "string \<Rightarrow> (identity_error, identity) result"
  cw_url :: "url \<Rightarrow> string"
  cw_env :: "destination \<Rightarrow> open_env"
  cw_reader :: "destination \<Rightarrow> net_error stream"
  cw_pipe :: "destination \<Rightarrow> net_error pipe"
  cw_conn :: "destination \<Rightarrow> nat"

definition fresh_tunnel :: "client_world \<Rightarrow> destination \<Rightarrow> tunnel" where
  "fresh_tunnel cw d = \<lparr>tn_reader = cw_reader cw d, tn_pipe = cw_pipe cw d, tn_dialed = False, tn_closed = False\<rparr>"

definition production_client :: "client_config \<Rightarrow> client_world \<Rightarrow> (client_fault, client) result" where
  "production_client cfg cw = new_client (Some cfg) zero_token None False (cw_files cw) (cw_identities cw) (cw_url cw)"

definition production_opener :: "client_config \<Rightarrow> client_world \<Rightarrow> destination \<Rightarrow> (open_error, nat) result" where
  "production_opener cfg cw d =
     (case production_client cfg cw of
        Inl _ \<Rightarrow> err ClientNotConfigured
      | Inr cl \<Rightarrow> opened_by cl (cw_env cw) (fresh_tunnel cw) (cw_conn cw) d)"

definition production_accepted :: "client_config \<Rightarrow> client_world \<Rightarrow> destination \<Rightarrow> bool" where
  "production_accepted cfg cw d \<longleftrightarrow>
     (\<exists>cl. production_client cfg cw = ok cl \<and> valid_token (cl_token cl) \<and> remote_accepted cl (cw_env cw) (fresh_tunnel cw) d)"

interpretation client: tunnel_opener "production_opener cfg cw" "production_accepted cfg cw" for cfg cw
proof unfold_locales
  show "production_opener cfg cw d \<noteq> panic" for d
    using opened_returns [of "fresh_tunnel cw" d]
    by (simp add: production_opener_def fresh_tunnel_def split: sum.split)
  show "production_accepted cfg cw d" if "valid_destination d" "production_opener cfg cw d = ok c" for d c
  proof -
    from that(2) obtain cl where cl: "production_client cfg cw = ok cl"
      "opened_by cl (cw_env cw) (fresh_tunnel cw) (cw_conn cw) d = ok c"
      by (auto simp: production_opener_def split: sum.split_asm)
    have "valid_token (cl_token cl)"
      by (rule new_client_ok(2) [OF cl(1) [unfolded production_client_def]]) (simp add: token_is_zero_def zero_token_def)
    with opened_accepted [OF this that(1) cl(2)] cl(1) show ?thesis by (auto simp: production_accepted_def)
  qed
qed

section \<open>The parts put together\<close>

text \<open>
  A session of the remote whose checker resolves over DoH dials only addresses that the DoH endpoint answered for
  the name of an admitted destination, however the answers, the peer and the targets behave.
\<close>

theorem session_dials_only_doh_answers:
  assumes "handle_session r env x s = ok (s', e)" and "limiter_good (sn_limiter s)" and "sn_events s = []"
    and "chk_resolver (rl_checker r) = Some (doh_lookup wording w n)" and "DialTarget ep \<in> set (sn_events s')"
  shows "\<exists>d. ResolveTarget d \<in> set (sn_events s') \<and> allowed (check_destination (rl_checker r) d)
    \<and> answered w (canonical_dns_name (dest_host d)) (fst ep) \<and> public_address (fst ep) \<and> snd ep = 443"
proof -
  from handle_session_outcome [OF assms(2), of r env x] assms(1,3) have trace: "session_trace r env (sn_events s')"
    by (auto simp: session_outcome_def)
  from trace assms(5) obtain d as q tried where d: "resolve (rl_checker r) d = (Some as, allow)" "ResolveTarget d \<in> set (sn_events s')"
    and t: "tcp_dial (se_tcp env) as (dest_port d) (rl_dial_timeout r) = (q, tried)" "ep \<in> set tried"
    by cases auto
  from remote.dialed_for [OF assms(4) d(1) t] d(2) show ?thesis
    by (auto simp: doh_evidence_def allowed_port_def)
qed

text \<open>
  A local side over the client of the tunnel tells its client that the tunnel is established only when the remote
  proved the pinned key and accepted both the token and the destination.
\<close>

theorem established_means_remote_accepted:
  assumes "le_open env = production_opener cfg cw"
    and "serve_connect s env draining rq = ok (es, ls)" and "Established \<in> set es"
  shows "\<exists>d remote. parse_authority (cq_uri rq) = ok d \<and> allowed (check_destination (lo_checker s) d)
    \<and> production_accepted cfg cw d \<and> CloseRemote remote \<in> set es"
  using client.established_accepted [OF assms] by (auto simp: admit_connect_ok)

theorem local_side_always_answers:
  assumes "le_open env = production_opener cfg cw"
  shows "\<exists>t. serve_connect s env draining rq = ok t"
  by (rule client.connect_returns [OF assms])

end
