(* ===== verification/Go_Flag.thy ===== *)
theory Go_Flag
  imports Go_Strconv "HOL-Library.List_Lexorder"
begin

text \<open>
  The package \<open>flag\<close> as \<open>cmd/dproxy\<close> uses it: a flag set that returns its errors. A flag is its name,
  whether it is boolean, and a setter of the options it is bound to; registering one assigns its
  default. \<open>Parse\<close> consumes arguments until one is not a flag. What is printed of an error is left out.
\<close>

section \<open>Values\<close>

text \<open>\<open>strconv.ParseInt\<close> with base 0 and 64 bits: a prefix selects the base, underscores separate digits.\<close>

definition lower_code :: "char \<Rightarrow> nat" where
  "lower_code c = (if in_range 65 90 (code c) then code c + 32 else code c)"

definition base_digit :: "char \<Rightarrow> nat option" where
  "base_digit c =
     (if is_digit c then Some (code c - 48)
      else if in_range 97 122 (lower_code c) then Some (lower_code c - 87)
      else None)"

fun base_value :: "nat \<Rightarrow> nat \<Rightarrow> string \<Rightarrow> nat option" where
  "base_value base n [] = Some n"
| "base_value base n (c # s) =
     (if c = CHR ''_'' then base_value base n s
      else case base_digit c of
        None \<Rightarrow> None
      | Some d \<Rightarrow> if base \<le> d then None else base_value base (n * base + d) s)"

definition number_base :: "string \<Rightarrow> nat \<times> string" where
  "number_base s =
     (if hd s \<noteq> CHR ''0'' then (10, s)
      else if 3 \<le> length s \<and> lower_code (s ! 1) = code (CHR ''b'') then (2, drop 2 s)
      else if 3 \<le> length s \<and> lower_code (s ! 1) = code (CHR ''o'') then (8, drop 2 s)
      else if 3 \<le> length s \<and> lower_code (s ! 1) = code (CHR ''x'') then (16, drop 2 s)
      else (8, drop 1 s))"

datatype last_seen = SeenStart | SeenDigit | SeenUnderscore | SeenOther

fun underscores_between :: "bool \<Rightarrow> last_seen \<Rightarrow> string \<Rightarrow> bool" where
  "underscores_between hex i [] = (i \<noteq> SeenUnderscore)"
| "underscores_between hex i (c # s) =
     (if is_digit c \<or> hex \<and> in_range 97 102 (lower_code c) then underscores_between hex SeenDigit s
      else if c = CHR ''_'' then i = SeenDigit \<and> underscores_between hex SeenUnderscore s
      else i \<noteq> SeenUnderscore \<and> underscores_between hex SeenOther s)"

text \<open>\<open>underscoreOK\<close>; the prefix of a base counts as a digit. The sign is already cut.\<close>

definition underscore_ok :: "string \<Rightarrow> bool" where
  "underscore_ok s =
     (if 2 \<le> length s \<and> hd s = CHR ''0'' \<and> lower_code (s ! 1) \<in> {code (CHR ''b''), code (CHR ''o''), code (CHR ''x'')}
      then underscores_between (lower_code (s ! 1) = code (CHR ''x'')) SeenDigit (drop 2 s)
      else underscores_between False SeenStart s)"

definition parse_uint0 :: "string \<Rightarrow> nat option" where
  "parse_uint0 s =
     (if s = [] then None
      else case number_base s of (base, digits) \<Rightarrow>
        case base_value base 0 digits of
          None \<Rightarrow> None
        | Some n \<Rightarrow> if CHR ''_'' \<in> set digits \<and> \<not> underscore_ok s then None else Some n)"

definition parse_int0 :: "string \<Rightarrow> int option" where
  "parse_int0 s =
     (let negative = has_prefix s ''-'';
          digits = (if negative \<or> has_prefix s ''+'' then drop 1 s else s)
      in case parse_uint0 digits of
           None \<Rightarrow> None
         | Some n \<Rightarrow>
             if negative then (if 2 ^ 63 < n then None else Some (- int n))
             else if 2 ^ 63 \<le> n then None else Some (int n))"

text \<open>\<open>strconv.ParseBool\<close>.\<close>

definition parse_bool :: "string \<Rightarrow> bool option" where
  "parse_bool s =
     (if s \<in> {''1'', ''t'', ''T'', ''true'', ''TRUE'', ''True''} then Some True
      else if s \<in> {''0'', ''f'', ''F'', ''false'', ''FALSE'', ''False''} then Some False
      else None)"

section \<open>Flag sets\<close>

record 'o flag_def =
  fd_name :: string
  fd_bool :: bool
  fd_set :: "string \<Rightarrow> 'o \<Rightarrow> 'o option"

record 'o flag_set =
  fs_formal :: "'o flag_def list"
  fs_actual :: "string list"
  fs_args :: "string list"
  fs_options :: 'o

definition new_flag_set :: "'o \<Rightarrow> 'o flag_set" where
  "new_flag_set o' = \<lparr>fs_formal = [], fs_actual = [], fs_args = [], fs_options = o'\<rparr>"

text \<open>\<open>FlagSet.Var\<close>: a name that cannot be given or is taken is a mistake of the program.\<close>

definition flag_var :: "'o flag_def \<Rightarrow> 'o flag_set \<Rightarrow> (unit, 'o flag_set) result" where
  "flag_var d fs =
     (if has_prefix (fd_name d) ''-'' \<or> CHR ''='' \<in> set (fd_name d) \<or> fd_name d \<in> fd_name ` set (fs_formal fs) then panic
      else ok (fs\<lparr>fs_formal := fs_formal fs @ [d]\<rparr>))"

text \<open>
  A registration is the flag and the assignment of its default, which comes first: \<open>StringVar\<close>,
  \<open>BoolVar\<close>, and the flags whose text is converted, \<open>IntVar\<close>, and \<open>DurationVar\<close> with the parser of durations.
\<close>

type_synonym 'o registration = "'o flag_def \<times> ('o \<Rightarrow> 'o)"

definition string_var :: "(string \<Rightarrow> 'o \<Rightarrow> 'o) \<Rightarrow> string \<Rightarrow> string \<Rightarrow> 'o registration" where
  "string_var put name value =
     (\<lparr>fd_name = name, fd_bool = False, fd_set = (\<lambda>s o'. Some (put s o'))\<rparr>, put value)"

definition bool_var :: "(bool \<Rightarrow> 'o \<Rightarrow> 'o) \<Rightarrow> string \<Rightarrow> bool \<Rightarrow> 'o registration" where
  "bool_var put name value =
     (\<lparr>fd_name = name, fd_bool = True, fd_set = (\<lambda>s o'. map_option (\<lambda>b. put b o') (parse_bool s))\<rparr>, put value)"

definition number_var :: "(string \<Rightarrow> int option) \<Rightarrow> (int \<Rightarrow> 'o \<Rightarrow> 'o) \<Rightarrow> string \<Rightarrow> int \<Rightarrow> 'o registration" where
  "number_var parse put name value =
     (\<lparr>fd_name = name, fd_bool = False, fd_set = (\<lambda>s o'. map_option (\<lambda>v. put v o') (parse s))\<rparr>, put value)"

fun register_flags :: "'o registration list \<Rightarrow> 'o flag_set \<Rightarrow> (unit, 'o flag_set) result" where
  "register_flags [] fs = ok fs"
| "register_flags ((d, initial) # rs) fs =
     bind_result (flag_var d (fs\<lparr>fs_options := initial (fs_options fs)\<rparr>)) (register_flags rs)"

section \<open>Parsing\<close>

datatype flag_fault =
    HelpAsked | BadFlagSyntax string | FlagNotDefined string | InvalidFlagValue string string | FlagNeedsArgument string

definition flag_lookup :: "string \<Rightarrow> 'o flag_set \<Rightarrow> 'o flag_def option" where
  "flag_lookup name fs = find (\<lambda>d. fd_name d = name) (fs_formal fs)"

text \<open>\<open>Value.Set\<close> and the entry in the flags that were given.\<close>

definition set_flag :: "'o flag_def \<Rightarrow> string \<Rightarrow> 'o flag_set \<Rightarrow> (flag_fault + bool) \<times> 'o flag_set" where
  "set_flag d value fs =
     (case fd_set d value (fs_options fs) of
        None \<Rightarrow> (Inl (InvalidFlagValue (fd_name d) value), fs)
      | Some o' \<Rightarrow> (Inr True, fs\<lparr>fs_options := o', fs_actual := List.insert (fd_name d) (fs_actual fs)\<rparr>))"

definition take_flag :: "string \<Rightarrow> string option \<Rightarrow> 'o flag_set \<Rightarrow> (flag_fault + bool) \<times> 'o flag_set" where
  "take_flag name given fs =
     (case flag_lookup name fs of
        None \<Rightarrow> (Inl (if name = ''help'' \<or> name = ''h'' then HelpAsked else FlagNotDefined name), fs)
      | Some d \<Rightarrow>
          if fd_bool d then set_flag d (case given of None \<Rightarrow> ''true'' | Some v \<Rightarrow> v) fs
          else case given of
            Some v \<Rightarrow> set_flag d v fs
          | None \<Rightarrow>
              (case fs_args fs of
                 [] \<Rightarrow> (Inl (FlagNeedsArgument name), fs)
               | v # rest \<Rightarrow> set_flag d v (fs\<lparr>fs_args := rest\<rparr>)))"

text \<open>\<open>parseOne\<close>: one flag was seen, the flags ended, or an error.\<close>

definition parse_one :: "'o flag_set \<Rightarrow> (flag_fault + bool) \<times> 'o flag_set" where
  "parse_one fs =
     (case fs_args fs of
        [] \<Rightarrow> (Inr False, fs)
      | s # rest \<Rightarrow>
          if length s < 2 \<or> hd s \<noteq> CHR ''-'' then (Inr False, fs)
          else if s = ''--'' then (Inr False, fs\<lparr>fs_args := rest\<rparr>)
          else let name = drop (if s ! 1 = CHR ''-'' then 2 else 1) s in
            if hd name = CHR ''-'' \<or> hd name = CHR ''='' then (Inl (BadFlagSyntax s), fs)
            else case cut_at CHR ''='' name of
              None \<Rightarrow> take_flag name None (fs\<lparr>fs_args := rest\<rparr>)
            | Some (name, value) \<Rightarrow> take_flag name (Some value) (fs\<lparr>fs_args := rest\<rparr>))"

lemma set_flag_args: "fs_args (snd (set_flag d v fs)) = fs_args fs"
  by (simp add: set_flag_def split: option.split)

lemma take_flag_args: "length (fs_args (snd (take_flag name given fs))) \<le> length (fs_args fs)"
  by (simp add: take_flag_def set_flag_args split: option.split list.split)

lemma parse_one_shorter:
  assumes "parse_one fs = (Inr True, fs')"
  shows "length (fs_args fs') < length (fs_args fs)"
proof (cases "fs_args fs")
  case (Cons s rest)
  from assms obtain name given where t: "take_flag name given (fs\<lparr>fs_args := rest\<rparr>) = (Inr True, fs')"
    by (auto simp: parse_one_def Cons Let_def split: if_split_asm option.split_asm)
  from take_flag_args [of name given "fs\<lparr>fs_args := rest\<rparr>"] show ?thesis by (simp add: t Cons)
qed (use assms in \<open>simp add: parse_one_def\<close>)

text \<open>\<open>Parse\<close> with \<open>ContinueOnError\<close>.\<close>

function parse_flag_args :: "'o flag_set \<Rightarrow> flag_fault option \<times> 'o flag_set" where
  "parse_flag_args fs =
     (case parse_one fs of
        (Inl e, fs') \<Rightarrow> (Some e, fs')
      | (Inr seen, fs') \<Rightarrow> if seen then parse_flag_args fs' else (None, fs'))"
  by pat_completeness auto
termination
  by (relation "measure (\<lambda>fs. length (fs_args fs))") (auto dest: parse_one_shorter [OF sym])

declare parse_flag_args.simps [simp del]

definition flag_parse :: "string list \<Rightarrow> 'o flag_set \<Rightarrow> flag_fault option \<times> 'o flag_set" where
  "flag_parse args fs = parse_flag_args (fs\<lparr>fs_args := args\<rparr>)"

text \<open>\<open>Visit\<close>: the flags that were given, in the order of their names.\<close>

definition flags_given :: "'o flag_set \<Rightarrow> string list" where
  "flags_given fs = sort (fs_actual fs)"

section \<open>Registration\<close>

definition flag_name_ok :: "string \<Rightarrow> bool" where
  "flag_name_ok n \<longleftrightarrow> n \<noteq> [] \<and> hd n \<noteq> CHR ''-'' \<and> CHR ''='' \<notin> set n"

text \<open>Distinct names that can be given are registered without a panic.\<close>

lemma register_flags_ok:
  assumes "distinct (map (fd_name \<circ> fst) rs)" and "fd_name ` set (fs_formal fs) \<inter> fd_name ` fst ` set rs = {}"
    and "list_all flag_name_ok (map (fd_name \<circ> fst) rs)"
  shows "register_flags rs fs =
    ok (fs\<lparr>fs_formal := fs_formal fs @ map fst rs, fs_options := fold snd rs (fs_options fs)\<rparr>)"
  using assms
proof (induction rs arbitrary: fs)
  case (Cons r rs)
  obtain d i where r: "r = (d, i)" by (cases r)
  let ?fs = "fs\<lparr>fs_formal := fs_formal fs @ [d], fs_options := i (fs_options fs)\<rparr>"
  have "flag_var d (fs\<lparr>fs_options := i (fs_options fs)\<rparr>) = ok ?fs"
    using Cons.prems by (auto simp: flag_var_def r flag_name_ok_def has_prefix_iff)
  moreover have "register_flags rs ?fs = ok (?fs\<lparr>fs_formal := fs_formal ?fs @ map fst rs, fs_options := fold snd rs (fs_options ?fs)\<rparr>)"
    using Cons.prems by (intro Cons.IH) (auto simp: r image_iff)
  ultimately show ?case by (simp add: r)
qed simp

section \<open>What parsing keeps\<close>

definition known_flags :: "'o flag_set \<Rightarrow> bool" where
  "known_flags fs \<longleftrightarrow> distinct (fs_actual fs) \<and> set (fs_actual fs) \<subseteq> fd_name ` set (fs_formal fs)"

lemma flag_lookup_name: "flag_lookup name fs = Some d \<Longrightarrow> d \<in> set (fs_formal fs) \<and> fd_name d = name"
  by (auto simp: flag_lookup_def find_Some_iff)

lemma set_flag_known:
  assumes "known_flags fs" and "d \<in> set (fs_formal fs)"
  shows "known_flags (snd (set_flag d v fs)) \<and> fs_formal (snd (set_flag d v fs)) = fs_formal fs"
  using assms by (auto simp: set_flag_def known_flags_def split: option.split)

lemma known_flags_args [simp]: "known_flags (fs\<lparr>fs_args := a\<rparr>) = known_flags fs"
  by (simp add: known_flags_def)

lemma take_flag_known:
  assumes "known_flags fs"
  shows "known_flags (snd (take_flag n g fs)) \<and> fs_formal (snd (take_flag n g fs)) = fs_formal fs"
proof -
  have "known_flags (snd (set_flag d v (fs\<lparr>fs_args := a\<rparr>))) \<and> fs_formal (snd (set_flag d v (fs\<lparr>fs_args := a\<rparr>))) = fs_formal fs"
    "known_flags (snd (set_flag d v fs)) \<and> fs_formal (snd (set_flag d v fs)) = fs_formal fs"
    if "flag_lookup n fs = Some d" for d v a
    using that set_flag_known [of "fs\<lparr>fs_args := a\<rparr>" d v] set_flag_known [of fs d v] flag_lookup_name [of n fs d] assms
    by auto
  then show ?thesis using assms by (simp add: take_flag_def split: option.split list.split)
qed

lemma parse_one_known:
  assumes "known_flags fs"
  shows "known_flags (snd (parse_one fs)) \<and> fs_formal (snd (parse_one fs)) = fs_formal fs"
  using assms take_flag_known [of "fs\<lparr>fs_args := a\<rparr>" for a]
  by (simp add: parse_one_def Let_def split: list.split option.split)

lemma parse_flag_args_known:
  "known_flags fs \<Longrightarrow> known_flags (snd (parse_flag_args fs)) \<and> fs_formal (snd (parse_flag_args fs)) = fs_formal fs"
proof (induction fs rule: parse_flag_args.induct)
  case (1 fs)
  obtain r fs1 where p: "parse_one fs = (r, fs1)" by (cases "parse_one fs")
  have k: "known_flags fs1" "fs_formal fs1 = fs_formal fs" using parse_one_known [OF 1(2)] by (simp_all add: p)
  show ?case
  proof (cases "r = Inr True")
    case True
    from 1(1) [OF p [symmetric] True] k show ?thesis
      by (subst parse_flag_args.simps, subst (2) parse_flag_args.simps) (simp add: p True)
  next
    case False
    with k show ?thesis by (subst parse_flag_args.simps, subst (2) parse_flag_args.simps) (auto simp: p split: sum.split)
  qed
qed

lemma flag_parse_known:
  assumes "flag_parse args fs = (r, fs')" and "known_flags fs"
  shows "known_flags fs'" and "fs_formal fs' = fs_formal fs"
  using parse_flag_args_known [of "fs\<lparr>fs_args := args\<rparr>"] assms by (simp_all add: flag_parse_def)

lemma flags_given_known:
  "known_flags fs \<Longrightarrow> n \<in> set (flags_given fs) \<Longrightarrow> n \<in> fd_name ` set (fs_formal fs)"
  by (auto simp: known_flags_def flags_given_def)

section \<open>Command lines of flags and their values\<close>

text \<open>
  A flag given with a value, by one or two dashes, its value joined by an equals sign or the next
  argument. The value that counts is the last.
\<close>

datatype given = Given (gv_name: string) (gv_value: string) (gv_double: bool) (gv_joined: bool)

definition spell :: "given \<Rightarrow> string list" where
  "spell g =
     (let f = (if gv_double g then ''--'' else ''-'') @ gv_name g
      in if gv_joined g then [f @ ''='' @ gv_value g] else [f, gv_value g])"

definition can_give :: "'o flag_set \<Rightarrow> given \<Rightarrow> bool" where
  "can_give fs g \<longleftrightarrow> flag_name_ok (gv_name g)
     \<and> (case flag_lookup (gv_name g) fs of None \<Rightarrow> False | Some d \<Rightarrow> gv_joined g \<or> \<not> fd_bool d)"

fun last_given :: "string \<Rightarrow> given list \<Rightarrow> string option" where
  "last_given n [] = None"
| "last_given n (g # gs) =
     (case last_given n gs of Some v \<Rightarrow> Some v | None \<Rightarrow> if gv_name g = n then Some (gv_value g) else None)"

lemma last_given_None: "last_given n gs = None \<longleftrightarrow> n \<notin> gv_name ` set gs"
  by (induction gs) (auto split: option.splits)

lemma parse_one_spelled:
  assumes "can_give fs g" and "fs_args fs = spell g @ rest"
  obtains d where "flag_lookup (gv_name g) fs = Some d" and "parse_one fs = set_flag d (gv_value g) (fs\<lparr>fs_args := rest\<rparr>)"
proof -
  from assms(1) obtain d where d: "flag_lookup (gv_name g) fs = Some d" "gv_joined g \<or> \<not> fd_bool d"
    by (auto simp: can_give_def split: option.split_asm)
  from assms(1) obtain c m where n: "gv_name g = c # m" "c \<noteq> CHR ''-''" "CHR ''='' \<notin> set (c # m)"
    by (cases "gv_name g") (auto simp: can_give_def flag_name_ok_def)
  have cut: "cut_at CHR ''='' (c # m @ CHR ''='' # v) = Some (c # m, v)" "cut_at CHR ''='' (c # m) = None" for v
    using n(3) cut_at_Some [of "CHR ''=''" "c # m @ CHR ''='' # v" "c # m" v] cut_at_None [of "CHR ''=''" "c # m"] by simp_all
  have c: "c \<noteq> CHR ''=''" using n(3) by auto
  have look: "flag_lookup (c # m) (fs\<lparr>fs_args := a\<rparr>) = Some d" for a using d(1) n(1) by (simp add: flag_lookup_def)
  have "parse_one fs = set_flag d (gv_value g) (fs\<lparr>fs_args := rest\<rparr>)"
  proof (cases "gv_joined g")
    case True
    then show ?thesis
      using cut n c look by (auto simp: parse_one_def assms(2) spell_def Let_def take_flag_def)
  next
    case False
    then show ?thesis
      using cut n c look d(2) by (auto simp: parse_one_def assms(2) spell_def Let_def take_flag_def)
  qed
  with d(1) show thesis by (rule that)
qed

text \<open>A flag sets one thing by its value and nothing else of interest, or leaves it alone.\<close>

definition sets_only :: "string \<Rightarrow> (string \<Rightarrow> 'a \<Rightarrow> bool) \<Rightarrow> ('o \<Rightarrow> 'a) \<Rightarrow> 'o flag_def \<Rightarrow> bool" where
  "sets_only n P f d \<longleftrightarrow> (\<forall>v o1. case fd_set d v o1 of None \<Rightarrow> True
     | Some o2 \<Rightarrow> if fd_name d = n then P v (f o2) else f o2 = f o1)"

lemma sets_onlyD:
  "list_all (sets_only n P f) ds \<Longrightarrow> d \<in> set ds \<Longrightarrow> fd_set d v o1 = Some o2 \<Longrightarrow>
     if fd_name d = n then P v (f o2) else f o2 = f o1"
  unfolding list_all_iff sets_only_def by (drule (1) bspec, drule spec [of _ v], drule spec [of _ o1]) simp

lemma sets_only_simps [simp]:
  "sets_only n P f (fst (string_var put name v0)) \<longleftrightarrow>
     (if name = n then \<forall>v o1. P v (f (put v o1)) else \<forall>v o1. f (put v o1) = f o1)"
  "sets_only n P f (fst (bool_var put2 name b0)) \<longleftrightarrow>
     (\<forall>v b o1. parse_bool v = Some b \<longrightarrow> (if name = n then P v (f (put2 b o1)) else f (put2 b o1) = f o1))"
  "sets_only n P f (fst (number_var parse put3 name i0)) \<longleftrightarrow>
     (\<forall>v i o1. parse v = Some i \<longrightarrow> (if name = n then P v (f (put3 i o1)) else f (put3 i o1) = f o1))"
  by (auto simp: sets_only_def string_var_def bool_var_def number_var_def split: option.splits)

text \<open>
  What a command line of this form leaves behind: the last value of a flag decides what the flag
  sets, the flags given are the names, and nothing is left over.
\<close>

lemma parse_given:
  assumes "parse_flag_args fs = (None, fs')" and "fs_args fs = concat (map spell gs)"
    and "\<And>g. g \<in> set gs \<Longrightarrow> can_give fs g"
    and "list_all (sets_only n P f) (fs_formal fs)"
  shows "case last_given n gs of None \<Rightarrow> f (fs_options fs') = f (fs_options fs) | Some v \<Rightarrow> P v (f (fs_options fs'))"
    and "set (fs_actual fs') = set (fs_actual fs) \<union> gv_name ` set gs" and "fs_args fs' = []"
  using assms
proof (induction gs arbitrary: fs)
  case Nil
  {
    case 1
    then show ?case by (subst (asm) parse_flag_args.simps) (simp add: parse_one_def)
  next
    case 2
    then show ?case by (subst (asm) parse_flag_args.simps) (simp add: parse_one_def)
  next
    case 3
    then show ?case by (subst (asm) parse_flag_args.simps) (auto simp: parse_one_def)
  }
next
  case (Cons g gs)
  have step: "\<exists>d fs1. d \<in> set (fs_formal fs) \<and> fd_name d = gv_name g \<and> fd_set d (gv_value g) (fs_options fs) = Some (fs_options fs1)
      \<and> fs_actual fs1 = List.insert (gv_name g) (fs_actual fs) \<and> fs_args fs1 = concat (map spell gs)
      \<and> fs_formal fs1 = fs_formal fs \<and> parse_flag_args fs1 = (None, fs')"
    if prems: "parse_flag_args fs = (None, fs')" "fs_args fs = concat (map spell (g # gs))" "\<And>h. h \<in> set (g # gs) \<Longrightarrow> can_give fs h"
    for fs
  proof -
    from prems(2) have args: "fs_args fs = spell g @ concat (map spell gs)" by simp
    from parse_one_spelled [OF prems(3) args] obtain d where
      d: "flag_lookup (gv_name g) fs = Some d" "parse_one fs = set_flag d (gv_value g) (fs\<lparr>fs_args := concat (map spell gs)\<rparr>)"
      by auto
    note nm = flag_lookup_name [OF d(1)]
    from prems(1) d(2) obtain o' where o': "fd_set d (gv_value g) (fs_options fs) = Some o'"
      by (subst (asm) parse_flag_args.simps) (auto simp: set_flag_def split: option.split_asm)
    let ?fs1 = "fs\<lparr>fs_args := concat (map spell gs), fs_options := o', fs_actual := List.insert (gv_name g) (fs_actual fs)\<rparr>"
    have "parse_flag_args ?fs1 = (None, fs')"
      using prems(1) by (subst (asm) parse_flag_args.simps) (simp add: d(2) set_flag_def o' nm)
    with nm o' show ?thesis by (intro exI [of _ d] exI [of _ ?fs1]) simp
  qed
  have can: "can_give fs1 h" if "fs_formal fs1 = fs_formal fs" "\<And>h. h \<in> set (g # gs) \<Longrightarrow> can_give fs h" "h \<in> set gs"
    for fs fs1 h
    using that(1) that(2) [of h] that(3) by (simp add: can_give_def flag_lookup_def)
  {
    case 1
    from step [OF 1(1,2,3)] obtain d fs1 where s: "d \<in> set (fs_formal fs)" "fd_name d = gv_name g"
      "fd_set d (gv_value g) (fs_options fs) = Some (fs_options fs1)" "fs_args fs1 = concat (map spell gs)"
      "fs_formal fs1 = fs_formal fs" "parse_flag_args fs1 = (None, fs')" by auto
    from Cons.IH(1) [OF s(6,4) can [OF s(5) 1(3)]] 1(4) s(5)
    have "case last_given n gs of None \<Rightarrow> f (fs_options fs') = f (fs_options fs1) | Some v \<Rightarrow> P v (f (fs_options fs'))" by simp
    with sets_onlyD [OF 1(4) s(1,3)] s(2) show ?case by (auto split: option.splits if_split_asm)
  next
    case 2
    from step [OF 2(1,2,3)] obtain d fs1 where s: "fs_actual fs1 = List.insert (gv_name g) (fs_actual fs)"
      "fs_args fs1 = concat (map spell gs)" "fs_formal fs1 = fs_formal fs" "parse_flag_args fs1 = (None, fs')" by auto
    from Cons.IH(2) [OF s(4,2) can [OF s(3) 2(3)]] 2(4) s(1,3) show ?case by (auto simp: List.insert_def)
  next
    case 3
    from step [OF 3(1,2,3)] obtain d fs1 where s: "fs_args fs1 = concat (map spell gs)" "fs_formal fs1 = fs_formal fs"
      "parse_flag_args fs1 = (None, fs')" by auto
    from Cons.IH(3) [OF s(3,1) can [OF s(2) 3(3)]] 3(4) s(2) show ?case by simp
  }
qed

text \<open>Such a command line parses when every value is one its flag accepts.\<close>

lemma parse_given_ok:
  assumes "fs_args fs = concat (map spell gs)"
    and "\<And>g. g \<in> set gs \<Longrightarrow> can_give fs g"
    and "\<And>g d o'. g \<in> set gs \<Longrightarrow> flag_lookup (gv_name g) fs = Some d \<Longrightarrow> fd_set d (gv_value g) o' \<noteq> None"
  shows "\<exists>fs'. parse_flag_args fs = (None, fs')"
  using assms
proof (induction gs arbitrary: fs)
  case Nil
  then show ?case by (subst parse_flag_args.simps) (simp add: parse_one_def)
next
  case (Cons g gs)
  have args: "fs_args fs = spell g @ concat (map spell gs)" using Cons.prems(1) by simp
  have can: "can_give fs g" using Cons.prems(2) by simp
  from parse_one_spelled [OF can args] obtain d where
    d: "flag_lookup (gv_name g) fs = Some d" "parse_one fs = set_flag d (gv_value g) (fs\<lparr>fs_args := concat (map spell gs)\<rparr>)"
    by auto
  from Cons.prems(3) [OF _ d(1), of "fs_options fs"] obtain o' where o': "fd_set d (gv_value g) (fs_options fs) = Some o'"
    by auto
  let ?fs1 = "fs\<lparr>fs_args := concat (map spell gs), fs_options := o', fs_actual := List.insert (fd_name d) (fs_actual fs)\<rparr>"
  have "\<exists>fs'. parse_flag_args ?fs1 = (None, fs')"
  proof (rule Cons.IH)
    show "can_give ?fs1 h" if "h \<in> set gs" for h
      using Cons.prems(2) [of h] that by (simp add: can_give_def flag_lookup_def)
    show "fd_set e (gv_value h) o1 \<noteq> None" if "h \<in> set gs" "flag_lookup (gv_name h) ?fs1 = Some e" for h e o1
      using Cons.prems(3) [of h e o1] that by (simp add: flag_lookup_def)
  qed simp
  then show ?case by (subst parse_flag_args.simps) (simp add: d(2) set_flag_def o')
qed

end
