(* ===== verification/Config_Flags.thy ===== *)
theory Config_Flags
  imports Config_Load Go_Flag
begin

text \<open>
  The flags of both roles in \<open>internal/config/load.go\<close>: their registration with the package \<open>flag\<close>, and
  what a command line makes of a configuration. The pointers of the code are setters into the options;
  \<open>options.flags\<close> is the list of the flags that were given.
\<close>

section \<open>Registration\<close>

definition zero_common :: common_options where
  "zero_common =
     \<lparr>o_config_file = [], o_token_file = [], o_doh_url = [], o_doh_bootstrap = [], o_allowlist_file = [], o_allow = [],
      o_timeouts = \<lparr>t_dial = 0, t_tls_handshake = 0, t_control = 0, t_idle = 0, t_max_lifetime = 0, t_shutdown = 0\<rparr>,
      o_log_level = [], o_log_format = [], o_log_targets = False\<rparr>"

text \<open>\<open>stringList.Set\<close> appends; a list that is registered keeps what it holds.\<close>

definition list_var :: "(string \<Rightarrow> 'o \<Rightarrow> 'o) \<Rightarrow> string \<Rightarrow> 'o registration" where
  "list_var append' name =
     (\<lparr>fd_name = name, fd_bool = False, fd_set = (\<lambda>s o'. Some (append' s o'))\<rparr>, \<lambda>o'. o')"

text \<open>\<open>commonOptions.register\<close>, for options that hold the common ones where \<open>at\<close> reaches them.\<close>

definition common_flags ::
  "environment \<Rightarrow> ((common_options \<Rightarrow> common_options) \<Rightarrow> 'o \<Rightarrow> 'o) \<Rightarrow> string \<Rightarrow> 'o registration list" where
  "common_flags env at token_file =
     (let t = default_timeouts; log = default_log_options;
          duration = (\<lambda>put. number_var (env_parse_duration env) (\<lambda>v. at (\<lambda>o'. o'\<lparr>o_timeouts := put v (o_timeouts o')\<rparr>)))
      in [string_var (\<lambda>v. at (\<lambda>o'. o'\<lparr>o_config_file := v\<rparr>)) ''config'' [],
          string_var (\<lambda>v. at (\<lambda>o'. o'\<lparr>o_token_file := v\<rparr>)) ''token-file'' token_file,
          string_var (\<lambda>v. at (\<lambda>o'. o'\<lparr>o_doh_url := v\<rparr>)) ''doh-url'' default_doh_url,
          list_var (\<lambda>v. at (\<lambda>o'. o'\<lparr>o_doh_bootstrap := o_doh_bootstrap o' @ [v]\<rparr>)) ''doh-bootstrap'',
          string_var (\<lambda>v. at (\<lambda>o'. o'\<lparr>o_allowlist_file := v\<rparr>)) ''allowlist-file'' [],
          list_var (\<lambda>v. at (\<lambda>o'. o'\<lparr>o_allow := o_allow o' @ [v]\<rparr>)) ''allow'',
          duration (\<lambda>v t. t\<lparr>t_dial := v\<rparr>) ''dial-timeout'' (t_dial t),
          duration (\<lambda>v t. t\<lparr>t_tls_handshake := v\<rparr>) ''tls-handshake-timeout'' (t_tls_handshake t),
          duration (\<lambda>v t. t\<lparr>t_control := v\<rparr>) ''control-timeout'' (t_control t),
          duration (\<lambda>v t. t\<lparr>t_idle := v\<rparr>) ''idle-timeout'' (t_idle t),
          duration (\<lambda>v t. t\<lparr>t_max_lifetime := v\<rparr>) ''max-lifetime'' (t_max_lifetime t),
          duration (\<lambda>v t. t\<lparr>t_shutdown := v\<rparr>) ''shutdown-timeout'' (t_shutdown t),
          string_var (\<lambda>v. at (\<lambda>o'. o'\<lparr>o_log_level := v\<rparr>)) ''log-level'' (log_level log),
          string_var (\<lambda>v. at (\<lambda>o'. o'\<lparr>o_log_format := v\<rparr>)) ''log-format'' (log_format log),
          bool_var (\<lambda>v. at (\<lambda>o'. o'\<lparr>o_log_targets := v\<rparr>)) ''log-targets'' (log_include_targets log)])"

definition zero_client_options :: client_options where
  "zero_client_options =
     \<lparr>co_common = zero_common, co_listen = [], co_server = [], co_server_pin = [], co_client_identity_file = [],
      co_insecure_disable_ech = False, co_flags = []\<rparr>"

definition client_flags :: "environment \<Rightarrow> client_options registration list" where
  "client_flags env =
     common_flags env (\<lambda>f o'. o'\<lparr>co_common := f (co_common o')\<rparr>) (default_client_token_file env)
     @ [string_var (\<lambda>v o'. o'\<lparr>co_listen := v\<rparr>) ''listen'' default_client_listen,
        string_var (\<lambda>v o'. o'\<lparr>co_server := v\<rparr>) ''server'' [],
        string_var (\<lambda>v o'. o'\<lparr>co_server_pin := v\<rparr>) ''server-pin'' [],
        string_var (\<lambda>v o'. o'\<lparr>co_client_identity_file := v\<rparr>) ''client-identity-file'' [],
        bool_var (\<lambda>v o'. o'\<lparr>co_insecure_disable_ech := v\<rparr>) ''insecure-disable-ech'' False]"

definition register_client_flags ::
  "environment \<Rightarrow> client_options flag_set \<Rightarrow> (unit, client_options flag_set) result" where
  "register_client_flags env fs = register_flags (client_flags env) (fs\<lparr>fs_options := zero_client_options\<rparr>)"

definition zero_server_options :: server_options where
  "zero_server_options =
     \<lparr>so_common = zero_common, so_listen = [], so_identity_file = [], so_client_pins = [], so_max_sessions = 0,
      so_max_control_message = 0, so_flags = []\<rparr>"

definition server_flags :: "environment \<Rightarrow> server_options registration list" where
  "server_flags env =
     common_flags env (\<lambda>f o'. o'\<lparr>so_common := f (so_common o')\<rparr>) []
     @ [string_var (\<lambda>v o'. o'\<lparr>so_listen := v\<rparr>) ''listen'' default_server_listen,
        string_var (\<lambda>v o'. o'\<lparr>so_identity_file := v\<rparr>) ''identity-file'' (default_server_identity_file env),
        list_var (\<lambda>v o'. o'\<lparr>so_client_pins := so_client_pins o' @ [v]\<rparr>) ''client-pin'',
        number_var parse_int0 (\<lambda>v o'. o'\<lparr>so_max_sessions := v\<rparr>) ''max-sessions'' (max_sessions default_limits),
        number_var parse_int0 (\<lambda>v o'. o'\<lparr>so_max_control_message := v\<rparr>) ''max-control-message''
          (max_control_message_bytes default_limits)]"

definition register_server_flags ::
  "environment \<Rightarrow> server_options flag_set \<Rightarrow> (unit, server_options flag_set) result" where
  "register_server_flags env fs = register_flags (server_flags env) (fs\<lparr>fs_options := zero_server_options\<rparr>)"

text \<open>The options as \<open>Load\<close> finds them: with the flags the command line gave.\<close>

definition client_options_of :: "client_options flag_set \<Rightarrow> client_options" where
  "client_options_of fs = (fs_options fs)\<lparr>co_flags := flags_given fs\<rparr>"

definition server_options_of :: "server_options flag_set \<Rightarrow> server_options" where
  "server_options_of fs = (fs_options fs)\<lparr>so_flags := flags_given fs\<rparr>"

section \<open>The registered flags\<close>

definition common_flag_names :: "string list" where
  "common_flag_names =
     [''config'', ''token-file'', ''doh-url'', ''doh-bootstrap'', ''allowlist-file'', ''allow'', ''dial-timeout'',
      ''tls-handshake-timeout'', ''control-timeout'', ''idle-timeout'', ''max-lifetime'', ''shutdown-timeout'',
      ''log-level'', ''log-format'', ''log-targets'']"

definition client_flag_names :: "string list" where
  "client_flag_names =
     common_flag_names @ [''listen'', ''server'', ''server-pin'', ''client-identity-file'', ''insecure-disable-ech'']"

definition server_flag_names :: "string list" where
  "server_flag_names =
     common_flag_names @ [''listen'', ''identity-file'', ''client-pin'', ''max-sessions'', ''max-control-message'']"

lemmas var_defs = string_var_def bool_var_def number_var_def list_var_def

lemma common_flags_names: "map (fd_name \<circ> fst) (common_flags env at tok) = common_flag_names"
  by (simp add: common_flags_def common_flag_names_def var_defs Let_def)

lemma flags_names:
  "map (fd_name \<circ> fst) (client_flags env) = client_flag_names" "map (fd_name \<circ> fst) (server_flags env) = server_flag_names"
  by (simp_all add: client_flags_def server_flags_def common_flags_names client_flag_names_def server_flag_names_def var_defs
      del: map_map)

lemma flag_names_ok:
  "distinct client_flag_names" "list_all flag_name_ok client_flag_names"
  "distinct server_flag_names" "list_all flag_name_ok server_flag_names"
  by (simp_all add: client_flag_names_def server_flag_names_def common_flag_names_def flag_name_ok_def)

text \<open>The flag sets of the commands; registering never panics.\<close>

lemma register_client_ok:
  "register_client_flags env (new_flag_set zero_client_options) =
     ok \<lparr>fs_formal = map fst (client_flags env), fs_actual = [], fs_args = [],
         fs_options = fold snd (client_flags env) zero_client_options\<rparr>"
  using register_flags_ok [of "client_flags env" "new_flag_set zero_client_options"] flag_names_ok(1,2)
  by (simp add: register_client_flags_def flags_names new_flag_set_def)

lemma register_server_ok:
  "register_server_flags env (new_flag_set zero_server_options) =
     ok \<lparr>fs_formal = map fst (server_flags env), fs_actual = [], fs_args = [],
         fs_options = fold snd (server_flags env) zero_server_options\<rparr>"
  using register_flags_ok [of "server_flags env" "new_flag_set zero_server_options"] flag_names_ok(3,4)
  by (simp add: register_server_flags_def flags_names new_flag_set_def)

section \<open>No flag is registered and ignored\<close>

lemma common_flag_applied:
  "n \<in> set common_flag_names \<Longrightarrow> apply_shared_flag o' n d \<noteq> err (FlagNotApplied m)"
  by (auto simp: common_flag_names_def apply_shared_flag_def apply_common_flag_def Let_def bind_result_eq_fail
      map_err_def split: sum.split failure.split)

lemma client_flag_applied:
  assumes "n \<in> set client_flag_names"
  shows "client_flag o' n d \<noteq> err (FlagNotApplied m)"
proof (cases "n \<in> set common_flag_names")
  case True
  then show ?thesis by (simp add: client_flag_def common_flag_applied)
next
  case False
  with assms show ?thesis by (auto simp: client_flag_names_def client_flag_def)
qed

lemma server_flag_applied:
  assumes "n \<in> set server_flag_names"
  shows "server_flag o' n d \<noteq> err (FlagNotApplied m)"
proof (cases "n \<in> set common_flag_names")
  case True
  then show ?thesis by (simp add: server_flag_def common_flag_applied)
next
  case False
  with assms show ?thesis by (auto simp: server_flag_names_def server_flag_def)
qed

lemma flag_set_names:
  "fd_name ` fst ` set (client_flags env) = set client_flag_names" "fd_name ` fst ` set (server_flags env) = set server_flag_names"
  unfolding flags_names(1) [of env, symmetric] flags_names(2) [of env, symmetric] by (simp_all add: image_image)

text \<open>A flag set of the client after a parse: what is given is registered.\<close>

lemma client_flags_given:
  assumes "register_client_flags env (new_flag_set zero_client_options) = ok fs" and "flag_parse args fs = (r, fs')"
    and "n \<in> set (flags_given fs')"
  shows "n \<in> set client_flag_names"
proof -
  have fs: "known_flags fs" "fd_name ` set (fs_formal fs) = set client_flag_names"
    using assms(1) flag_set_names(1) [of env] unfolding register_client_ok by (auto simp: known_flags_def)
  from flag_parse_known [OF assms(2) fs(1)] flags_given_known [OF _ assms(3)] fs(2) show ?thesis by simp
qed

section \<open>The defaults of the flags are the defaults of a load\<close>

lemma log_defaults_parse:
  "parse_log_level (log_level default_log_options) = ok (log_level default_log_options)"
  "parse_log_format (log_format default_log_options) = ok (log_format default_log_options)"
  by code_simp+

lemma client_defaults_are_flag_defaults:
  assumes "n \<in> set client_flag_names"
  shows "client_flag (fold snd (client_flags env) zero_client_options) n (client_defaults env) = ok (client_defaults env)"
  using assms log_defaults_parse
  by (auto simp: client_flag_names_def common_flag_names_def client_flags_def common_flags_def var_defs Let_def
      zero_client_options_def zero_common_def client_flag_def apply_shared_flag_def apply_common_flag_def on_timeouts_def
      client_defaults_def)

section \<open>From a command line to a configuration\<close>

text \<open>Which options a flag of the client sets: its own and no other.\<close>

lemma sets_only_list [simp]:
  "sets_only n P f (fst (list_var put name)) \<longleftrightarrow>
     (if name = n then \<forall>v o1. P v (f (put v o1)) else \<forall>v o1. f (put v o1) = f o1)"
  by (auto simp: sets_only_def list_var_def)

lemma client_flag_sets:
  "list_all (sets_only ''listen'' (=) co_listen) (map fst (client_flags env))"
  "list_all (sets_only ''server-pin'' (=) co_server_pin) (map fst (client_flags env))"
  "list_all (sets_only ''insecure-disable-ech'' (\<lambda>v b. parse_bool v = Some b) co_insecure_disable_ech) (map fst (client_flags env))"
  "list_all (sets_only ''config'' (=) (\<lambda>o'. o_config_file (co_common o'))) (map fst (client_flags env))"
  by (simp_all add: client_flags_def common_flags_def Let_def)

text \<open>A command line of flags of the client and their values; a boolean value is joined to its flag.\<close>

definition client_given :: "given list \<Rightarrow> bool" where
  "client_given gs \<longleftrightarrow> (\<forall>g \<in> set gs. gv_name g \<in> set client_flag_names
     \<and> (gv_name g \<in> {''log-targets'', ''insecure-disable-ech''} \<longrightarrow> gv_joined g))"

lemma client_boolean_flags:
  "list_all (\<lambda>d. fd_bool d \<longrightarrow> fd_name d \<in> {''log-targets'', ''insecure-disable-ech''}) (map fst (client_flags env))"
  by (simp add: client_flags_def common_flags_def var_defs Let_def)

lemma client_given_can:
  assumes "client_given gs" and "g \<in> set gs" and "fs_formal fs = map fst (client_flags env)"
  shows "can_give fs g"
proof -
  from assms(1,2) have g: "gv_name g \<in> set client_flag_names"
    "gv_name g \<in> {''log-targets'', ''insecure-disable-ech''} \<Longrightarrow> gv_joined g" by (auto simp: client_given_def)
  from g(1) flag_names_ok(2) have name: "flag_name_ok (gv_name g)" by (auto simp: list_all_iff)
  from g(1) have "gv_name g \<in> fd_name ` fst ` set (client_flags env)" by (simp only: flag_set_names)
  then have "flag_lookup (gv_name g) fs \<noteq> None"
    unfolding flag_lookup_def assms(3) find_None_iff set_map by force
  then obtain d where d: "flag_lookup (gv_name g) fs = Some d" by auto
  from flag_lookup_name [OF d] have "d \<in> set (map fst (client_flags env))" "fd_name d = gv_name g" by (simp_all add: assms(3))
  with client_boolean_flags [of env] have "fd_bool d \<Longrightarrow> gv_name g \<in> {''log-targets'', ''insecure-disable-ech''}"
    unfolding list_all_iff by metis
  with name d g(2) show ?thesis by (auto simp: can_give_def)
qed

lemma client_given_field:
  assumes "register_client_flags env (new_flag_set zero_client_options) = ok fs"
    and "flag_parse (concat (map spell gs)) fs = (None, fs')" and "client_given gs"
    and "list_all (sets_only n P f) (map fst (client_flags env))"
  shows "case last_given n gs of None \<Rightarrow> f (fs_options fs') = f (fs_options fs) | Some v \<Rightarrow> P v (f (fs_options fs'))"
    and "n \<in> set (flags_given fs') \<longleftrightarrow> last_given n gs \<noteq> None" and "fs_args fs' = []"
    and "set (flags_given fs') = gv_name ` set gs"
proof -
  let ?fs = "fs\<lparr>fs_args := concat (map spell gs)\<rparr>"
  have formal: "fs_formal ?fs = map fst (client_flags env)" "fs_actual ?fs = []"
    using assms(1) unfolding register_client_ok by auto
  have parse: "parse_flag_args ?fs = (None, fs')" using assms(2) by (simp add: flag_parse_def)
  have can: "can_give ?fs g" if "g \<in> set gs" for g by (rule client_given_can [OF assms(3) that formal(1)])
  have own: "list_all (sets_only n P f) (fs_formal ?fs)" using assms(4) formal(1) by simp
  have args: "fs_args ?fs = concat (map spell gs)" by simp
  note given = parse_given [OF parse args can own]
  show "case last_given n gs of None \<Rightarrow> f (fs_options fs') = f (fs_options fs) | Some v \<Rightarrow> P v (f (fs_options fs'))"
    using given(1) by (cases "last_given n gs") simp_all
  show names: "set (flags_given fs') = gv_name ` set gs"
    using given(2) formal(2) by (simp add: flags_given_def)
  show "n \<in> set (flags_given fs') \<longleftrightarrow> last_given n gs \<noteq> None"
    unfolding names using last_given_None [of n gs] by simp
  show "fs_args fs' = []" using given(3) by simp
qed

section \<open>Properties\<close>

text \<open>
  No flag of the command line is registered and then ignored: each one that a parse admits is applied by
  the load, for both roles.
\<close>

theorem no_flag_is_ignored:
  assumes "register_client_flags env (new_flag_set zero_client_options) = ok fs" and "flag_parse args fs = (r, fs')"
    and "n \<in> set (flags_given fs')"
  shows "client_flag o' n d \<noteq> err (FlagNotApplied m)"
  using client_flag_applied client_flags_given [OF assms] .


definition sample_given :: "given list" where
  "sample_given =
     [Given ''listen'' ''127.0.0.1:9090'' True True, Given ''server'' ''wss://relay.example.com/'' False False,
      Given ''server-pin'' (pin_string (pin_from_spki [1])) True False]"

text \<open>The options of a command line that gives nothing else load as the sample options do.\<close>

lemma load_client_options_cong:
  assumes "o_config_file (co_common p) = o_config_file (co_common q)" and "co_flags p = co_flags q"
    and "set (co_flags q) \<subseteq> {''listen'', ''server'', ''server-pin''}"
    and "co_listen p = co_listen q" and "co_server p = co_server q" and "co_server_pin p = co_server_pin q"
  shows "load_client env p = load_client env q"
proof -
  have "visit_flags (client_flag p) es d ns = visit_flags (client_flag q) es d ns"
    if "set ns \<subseteq> {''listen'', ''server'', ''server-pin''}" for es d ns
    using that
  proof (induction ns arbitrary: es d)
    case (Cons n ns)
    then consider "n = ''listen''" | "n = ''server''" | "n = ''server-pin''" by auto
    then have "client_flag p n d = client_flag q n d"
      by cases (simp_all add: client_flag_def assms(4-6))
    moreover have "visit_flags (client_flag p) es' d' ns = visit_flags (client_flag q) es' d' ns" for es' d'
      using Cons by simp
    ultimately show ?case by (simp only: visit_flags.simps)
  qed simp
  from this [OF assms(3)] show ?thesis by (simp only: load_client_def assms(1,2))
qed

lemma client_server_flag: "list_all (sets_only ''server'' (=) co_server) (map fst (client_flags env))"
  by (simp add: client_flags_def common_flags_def Let_def)

lemma sample_parses:
  "\<exists>fs fs'. register_client_flags env (new_flag_set zero_client_options) = ok fs
     \<and> flag_parse (concat (map spell sample_given)) fs = (None, fs') \<and> fs_args fs' = []
     \<and> load_client sample_environment (client_options_of fs') = load_client sample_environment sample_options"
proof -
  obtain fs where reg: "register_client_flags env (new_flag_set zero_client_options) = ok fs"
    and formal: "fs_formal fs = map fst (client_flags env)" and config: "o_config_file (co_common (fs_options fs)) = []"
    unfolding register_client_ok
    by (auto simp: client_flags_def common_flags_def var_defs Let_def zero_client_options_def zero_common_def)
  have given: "client_given sample_given"
    by (simp add: client_given_def sample_given_def client_flag_names_def)
  let ?fs = "fs\<lparr>fs_args := concat (map spell sample_given)\<rparr>"
  have accepts: "fd_set d v o' \<noteq> None"
    if "flag_lookup n ?fs = Some d" "n \<in> {''listen'', ''server'', ''server-pin''}" for d v o' n
  proof -
    have "list_all (\<lambda>d. fd_name d \<in> {''listen'', ''server'', ''server-pin''} \<longrightarrow> (\<forall>v o'. fd_set d v o' \<noteq> None))
        (map fst (client_flags env))"
      by (simp add: client_flags_def common_flags_def var_defs Let_def)
    then have "\<forall>d \<in> set (fs_formal fs). fd_name d \<in> {''listen'', ''server'', ''server-pin''} \<longrightarrow> (\<forall>v o'. fd_set d v o' \<noteq> None)"
      unfolding formal list_all_iff .
    moreover have "d \<in> set (fs_formal fs)" "fd_name d \<in> {''listen'', ''server'', ''server-pin''}"
      using flag_lookup_name [OF that(1)] that(2) by simp_all
    ultimately show ?thesis by blast
  qed
  have "\<exists>fs'. parse_flag_args ?fs = (None, fs')"
  proof (rule parse_given_ok)
    show "fs_args ?fs = concat (map spell sample_given)" by simp
    show "can_give ?fs g" if "g \<in> set sample_given" for g
      by (rule client_given_can [OF given that]) (simp add: formal)
    show "fd_set d (gv_value g) o' \<noteq> None" if "g \<in> set sample_given" "flag_lookup (gv_name g) ?fs = Some d" for g d o'
      using accepts [OF that(2)] that(1) by (auto simp: sample_given_def)
  qed
  then obtain fs' where parse: "flag_parse (concat (map spell sample_given)) fs = (None, fs')"
    by (auto simp: flag_parse_def)
  note field = client_given_field [OF reg parse given]
  note owns = client_flag_sets [of env] client_server_flag [of env]
  have "set (flags_given fs') = {''listen'', ''server'', ''server-pin''}"
    unfolding field(4) [OF owns(1)] by (auto simp: sample_given_def)
  moreover have "sorted (flags_given fs')" "distinct (flags_given fs')"
    using flag_parse_known(1) [OF parse] reg unfolding register_client_ok by (auto simp: known_flags_def flags_given_def)
  moreover have "sorted [''listen'', ''server'', ''server-pin'']" by code_simp
  ultimately have flags: "flags_given fs' = [''listen'', ''server'', ''server-pin'']"
    by (intro sorted_distinct_set_unique) simp_all
  have "load_client sample_environment (client_options_of fs') = load_client sample_environment sample_options"
    by (rule load_client_options_cong)
      (use field(1) [OF owns(1)] field(1) [OF owns(2)] field(1) [OF owns(4)] field(1) [OF owns(5)] flags config
        in \<open>simp_all add: client_options_of_def sample_options_def sample_given_def\<close>)
  with reg parse field(3) [OF owns(1)] show ?thesis by blast
qed


end
