(* ===== verification/Http_Serving.thy ===== *)
theory Http_Serving
  imports Go_Prelude
begin

text \<open>
  \<open>Serve\<close> and \<open>ListenAndServe\<close> of both servers: a server hands a listener to \<open>net/http\<close> once, whoever calls and
  however the calls interleave. The mutex makes the test and the setting of the flag one step.
\<close>

datatype serve_error = AlreadyServing string | ListenFailed string | AcceptFailed string

text \<open>How \<open>http.Server.Serve\<close> ends: closed by a shutdown, which is no error, or with one.\<close>

datatype http_end = ServerClosed | ServeFailed string

datatype serve_call = Handed | Returned "serve_error option"

record 'l serving_state =
  sg_serving :: bool
  sg_calls :: "nat \<Rightarrow> serve_call option"
  sg_handed :: "'l list"

definition not_serving :: "'l serving_state" where
  "not_serving = \<lparr>sg_serving = False, sg_calls = (\<lambda>_. None), sg_handed = []\<rparr>"

definition begin_serve :: "string \<Rightarrow> nat \<Rightarrow> 'l \<Rightarrow> 'l serving_state \<Rightarrow> 'l serving_state" where
  "begin_serve refusal t listener s =
     (if sg_serving s then s\<lparr>sg_calls := (sg_calls s)(t \<mapsto> Returned (Some (AlreadyServing refusal)))\<rparr>
      else s\<lparr>sg_serving := True, sg_calls := (sg_calls s)(t \<mapsto> Handed), sg_handed := sg_handed s @ [listener]\<rparr>)"

definition serve_result :: "http_end \<Rightarrow> serve_error option" where
  "serve_result e = (case e of ServerClosed \<Rightarrow> None | ServeFailed x \<Rightarrow> Some (AcceptFailed x))"

definition end_serve :: "nat \<Rightarrow> http_end \<Rightarrow> 'l serving_state \<Rightarrow> 'l serving_state" where
  "end_serve t e s = s\<lparr>sg_calls := (sg_calls s)(t \<mapsto> Returned (serve_result e))\<rparr>"

definition listen_and_serve :: "string \<Rightarrow> nat \<Rightarrow> string + 'l \<Rightarrow> 'l serving_state \<Rightarrow> 'l serving_state" where
  "listen_and_serve refusal t bound s =
     (case bound of
        Inl e \<Rightarrow> s\<lparr>sg_calls := (sg_calls s)(t \<mapsto> Returned (Some (ListenFailed e)))\<rparr>
      | Inr listener \<Rightarrow> begin_serve refusal t listener s)"

text \<open>The two servers differ in what the second caller is told.\<close>

definition remote_serve :: "nat \<Rightarrow> 'l \<Rightarrow> 'l serving_state \<Rightarrow> 'l serving_state" where
  "remote_serve = begin_serve ''remote server is already serving''"

definition local_serve :: "nat \<Rightarrow> 'l \<Rightarrow> 'l serving_state \<Rightarrow> 'l serving_state" where
  "local_serve = begin_serve ''local proxy is already serving''"

definition remote_listen_and_serve :: "nat \<Rightarrow> string + 'l \<Rightarrow> 'l serving_state \<Rightarrow> 'l serving_state" where
  "remote_listen_and_serve = listen_and_serve ''remote server is already serving''"

definition local_listen_and_serve :: "nat \<Rightarrow> string + 'l \<Rightarrow> 'l serving_state \<Rightarrow> 'l serving_state" where
  "local_listen_and_serve = listen_and_serve ''local proxy is already serving''"

inductive serving_step :: "string \<Rightarrow> 'l serving_state \<Rightarrow> 'l serving_state \<Rightarrow> bool" for refusal where
  serve: "sg_calls s t = None \<Longrightarrow> serving_step refusal s (begin_serve refusal t l s)"
| listen: "sg_calls s t = None \<Longrightarrow> serving_step refusal s (listen_and_serve refusal t bound s)"
| finish: "sg_calls s t = Some Handed \<Longrightarrow> serving_step refusal s (end_serve t e s)"

inductive serving_reachable :: "string \<Rightarrow> 'l serving_state \<Rightarrow> bool" for refusal where
  start: "serving_reachable refusal not_serving"
| step: "serving_reachable refusal s \<Longrightarrow> serving_step refusal s s' \<Longrightarrow> serving_reachable refusal s'"

definition served_once :: "'l serving_state \<Rightarrow> bool" where
  "served_once s \<longleftrightarrow> (if sg_serving s then length (sg_handed s) = 1 else sg_handed s = [])
     \<and> (\<forall>t u. sg_calls s t = Some Handed \<and> sg_calls s u = Some Handed \<longrightarrow> t = u)
     \<and> (\<not> sg_serving s \<longrightarrow> (\<forall>t. sg_calls s t \<noteq> Some Handed))"

lemma begin_serve_once: "served_once s \<Longrightarrow> sg_calls s t = None \<Longrightarrow> served_once (begin_serve refusal t l s)"
  by (auto simp: served_once_def begin_serve_def split: if_split_asm)

theorem a_server_serves_once: "serving_reachable refusal s \<Longrightarrow> served_once s"
proof (induction rule: serving_reachable.induct)
  case start
  show ?case by (simp add: served_once_def not_serving_def)
next
  case (step s s')
  from step.hyps(2) step.IH show ?case
  proof cases
    case (listen t bound)
    show ?thesis
    proof (cases bound)
      case (Inl e)
      with step.IH listen show ?thesis by (auto simp: listen_and_serve_def served_once_def split: if_split_asm)
    next
      case (Inr l)
      with begin_serve_once [OF step.IH listen(2)] listen(1) show ?thesis by (simp add: listen_and_serve_def)
    qed
  next
    case (finish t e)
    with step.IH show ?thesis by (auto simp: end_serve_def served_once_def split: if_split_asm)
  qed (simp add: begin_serve_once)
qed

end
