(* ===== verification/Command_Line.thy ===== *)
theory Command_Line
  imports Diagnostics Tunnel_Endpoints Config_Flags Http_Serving
begin

text \<open>
  \<open>cmd/dproxy\<close>: the commands, their exit codes and the line of \<open>dproxy version\<close>. The
  sockets and the signals are outside: an environment says what they report. A run is an exit code and
  what the process did, in order; the wording of complaints is left out.
\<close>

section \<open>Exit codes and flags\<close>

datatype exit_code = ExitOK | ExitFailure | ExitUsage

fun exit_status :: "exit_code \<Rightarrow> int" where
  "exit_status ExitOK = 0"
| "exit_status ExitFailure = 1"
| "exit_status ExitUsage = 2"

text \<open>\<open>parse\<close> maps what \<open>FlagSet.Parse\<close> reports onto an exit status; an argument left over is an error.\<close>

definition parse_flags :: "string list \<Rightarrow> 'o flag_set \<Rightarrow> exit_code \<times> 'o flag_set option" where
  "parse_flags args fs =
     (case flag_parse args fs of
        (Some HelpAsked, _) \<Rightarrow> (ExitOK, None)
      | (Some _, _) \<Rightarrow> (ExitUsage, None)
      | (None, fs') \<Rightarrow> if length (fs_args fs') \<noteq> 0 then (ExitUsage, None) else (ExitOK, Some fs'))"

section \<open>Serving\<close>

datatype process_event =
    UsageShown bool | VersionShown string | Complaint string | Listened string | ListenerClosed
  | Logged "log_record list" | ShutDown int | ReportShown string

text \<open>
  How serving goes: it ends by itself, or a signal arrives and the shutdown and then the server report
  an error or none.
\<close>

datatype serving = ServeEnds http_end | Signalled "string option" http_end

definition finish_serving :: "string \<Rightarrow> timeouts \<Rightarrow> serving \<Rightarrow> exit_code \<times> process_event list" where
  "finish_serving command t s =
     (case s of
        ServeEnds e \<Rightarrow> if serve_result e \<noteq> None then (ExitFailure, [Complaint command]) else (ExitOK, [])
      | Signalled shut after \<Rightarrow>
          if shut \<noteq> None \<or> serve_result after \<noteq> None then (ExitFailure, [ShutDown (t_shutdown t), Complaint command])
          else (ExitOK, [ShutDown (t_shutdown t)]))"

record process_env =
  pe_load :: environment
  pe_files :: "string \<Rightarrow> string + string file_info"
  pe_identity :: "string \<Rightarrow> (identity_error, identity) result"
  pe_url_string :: "url \<Rightarrow> string"
  pe_lookup :: "doh_client \<Rightarrow> string resolver"
  pe_render :: "addr \<Rightarrow> string"
  pe_listen :: "string \<Rightarrow> string option"
  pe_serving :: serving

definition bool_text :: "bool \<Rightarrow> string" where
  "bool_text b = (if b then ''true'' else ''false'')"

type_synonym run = "(unit, exit_code \<times> process_event list) result"

text \<open>\<open>Client.IdentityPin\<close>.\<close>

definition client_identity_pin :: "client \<Rightarrow> pin" where
  "client_identity_pin c = (case cl_identity c of None \<Rightarrow> zero_pin | Some i \<Rightarrow> id_pin i)"

text \<open>\<open>localproxy.NewServer\<close> as \<open>runClient\<close> calls it: a tunnel client of the configuration.\<close>

definition new_local_server :: "process_env \<Rightarrow> client_config \<Rightarrow> (client_fault, client) result" where
  "new_local_server env c =
     bind_result (map_err ClientConfigInvalid (validate_client c)) (\<lambda>_.
       new_client (Some c) \<lparr>secret = []\<rparr> None False (pe_files env) (pe_identity env) (pe_url_string env))"

definition client_attributes :: "client_config \<Rightarrow> pin \<Rightarrow> attr list" where
  "client_attributes c p =
     [Attr ''listen'' (c_listen c), Attr ''ech'' (c_ech c), Attr ''allow_all_destinations'' (bool_text (all (c_allowlist c))),
      Attr ''allowlist_patterns'' (itoa (allowlist_len (c_allowlist c))), Attr ''token_file'' (c_token_file c),
      Attr key_relay (case c_relay_url c of None \<Rightarrow> [] | Some u \<Rightarrow> url_hostname u)]
     @ (if \<not> pin_is_zero p then [Attr ''client_identity_file'' (c_client_identity_file c), Attr ''client_pin'' (pin_string p)] else [])"

text \<open>\<open>runClientContext\<close>, from the configuration on and from the arguments.\<close>

definition serve_client_config :: "process_env \<Rightarrow> client_config \<Rightarrow> run" where
  "serve_client_config env c =
     (case new_local_server env c of
        Inl Panic \<Rightarrow> panic
      | Inl (Err _) \<Rightarrow> ok (ExitFailure, [Complaint ''client''])
      | Inr s \<Rightarrow>
     (case pe_listen env (c_listen c) of
        Some _ \<Rightarrow> ok (ExitFailure, [Complaint ''client''])
      | None \<Rightarrow>
          (case finish_serving ''client'' (c_timeouts c) (pe_serving env) of (status, es) \<Rightarrow>
             ok (status, [Listened (c_listen c),
                        Logged (log_at (new_logger (c_log c)) LevelInfo ''client configuration loaded''
                                  (client_attributes c (client_identity_pin s)))] @ es @ [ListenerClosed]))))"

definition run_client :: "process_env \<Rightarrow> string list \<Rightarrow> run" where
  "run_client env args =
     bind_result (register_client_flags (pe_load env) (new_flag_set zero_client_options)) (\<lambda>fs.
     (case parse_flags args fs of
        (status, None) \<Rightarrow> ok (status, [])
      | (_, Some fs) \<Rightarrow>
     (case load_client (pe_load env) (client_options_of fs) of
        Inl Panic \<Rightarrow> panic
      | Inl (Err _) \<Rightarrow> ok (ExitUsage, [Complaint ''client''])
      | Inr c \<Rightarrow> serve_client_config env c)))"

text \<open>\<open>runServerContext\<close>.\<close>

definition server_attributes :: "server_config \<Rightarrow> pin \<Rightarrow> attr list" where
  "server_attributes s p =
     [Attr ''listen'' (s_listen s), Attr ''allow_all_destinations'' (bool_text (all (s_allowlist s))),
      Attr ''allowlist_patterns'' (itoa (allowlist_len (s_allowlist s))),
      Attr ''max_sessions'' (itoa (nat (max_sessions (s_limits s)))), Attr ''token_file'' (s_token_file s),
      Attr ''identity_file'' (s_identity_file s), Attr ''identity_pin'' (pin_string p),
      Attr ''client_pins'' (itoa (length (pins (s_client_pins s))))]"

definition serve_server_config :: "process_env \<Rightarrow> server_config \<Rightarrow> run" where
  "serve_server_config env s =
     (let logger = new_logger (s_log s) in
      case new_server_settings (Some s) None \<lparr>digests = []\<rparr> None (Some logger) (pe_identity env) (pe_files env)
             (pe_url_string env) (pe_lookup env) (pe_render env) of
        Inl Panic \<Rightarrow> panic
      | Inl (Err _) \<Rightarrow> ok (ExitFailure, [Complaint ''server''])
      | Inr sv \<Rightarrow>
     (case pe_listen env (s_listen s) of
        Some _ \<Rightarrow> ok (ExitFailure, [Complaint ''server''])
      | None \<Rightarrow>
          (case finish_serving ''server'' (s_timeouts s) (pe_serving env) of (status, es) \<Rightarrow>
             ok (status, [Listened (s_listen s),
                        Logged (log_at logger LevelInfo ''server configuration loaded''
                          (server_attributes s (case rl_identity (ss_session sv) of None \<Rightarrow> zero_pin | Some i \<Rightarrow> id_pin i)))]
                       @ es @ [ListenerClosed]))))"

definition run_server :: "process_env \<Rightarrow> string list \<Rightarrow> run" where
  "run_server env args =
     bind_result (register_server_flags (pe_load env) (new_flag_set zero_server_options)) (\<lambda>fs.
     (case parse_flags args fs of
        (status, None) \<Rightarrow> ok (status, [])
      | (_, Some fs) \<Rightarrow>
     (case load_server (pe_load env) (server_options_of fs) of
        Inl Panic \<Rightarrow> panic
      | Inl (Err _) \<Rightarrow> ok (ExitUsage, [Complaint ''server''])
      | Inr s \<Rightarrow> serve_server_config env s)))"

text \<open>\<open>runTest\<close>: the report, and an exit status that says whether it held.\<close>

definition run_test ::
  "process_env \<Rightarrow> texts \<Rightarrow> (client_config \<Rightarrow> diag_env) \<Rightarrow> (prefix_reader \<Rightarrow> tls_peer) \<Rightarrow> tunnel
     \<Rightarrow> string list \<Rightarrow> run" where
  "run_test env tx diag over t args =
     bind_result (register_client_flags (pe_load env) (new_flag_set zero_client_options)) (\<lambda>fs.
     (case parse_flags args fs of
        (status, None) \<Rightarrow> ok (status, [])
      | (_, Some fs) \<Rightarrow>
     (case load_client (pe_load env) (client_options_of fs) of
        Inl Panic \<Rightarrow> panic
      | Inl (Err _) \<Rightarrow> ok (ExitUsage, [Complaint ''test''])
      | Inr c \<Rightarrow>
          bind_result (diagnose tx (diag c) over c t) (\<lambda>(r, _, _).
            ok (if rp_failed r then ExitFailure else ExitOK, [ReportShown (write_report r)])))))"

section \<open>The version\<close>

definition source_version :: string where "source_version = ''v1.3.0''"

record build =
  bd_version :: string
  bd_settings :: "(string \<times> string) list option"
  bd_go :: string
  bd_os :: string
  bd_arch :: string

definition resolve_version :: "build \<Rightarrow> string" where
  "resolve_version b = (if bd_version b \<noteq> [] then bd_version b else source_version)"

text \<open>\<open>buildRevision\<close>: of several settings with one key the last decides.\<close>

definition build_setting :: "string \<Rightarrow> (string \<times> string) list \<Rightarrow> string" where
  "build_setting key settings = foldl (\<lambda>old (k, v). if k = key then v else old) [] settings"

definition build_revision :: "build \<Rightarrow> string" where
  "build_revision b =
     (case bd_settings b of None \<Rightarrow> []
      | Some settings \<Rightarrow>
          let revision = build_setting ''vcs.revision'' settings;
              modified = build_setting ''vcs.modified'' settings
          in if revision = [] then []
             else (if 12 < length revision then take 12 revision else revision)
                    @ (if modified = ''true'' then ''+dirty'' else []))"

definition version_line :: "build \<Rightarrow> string" where
  "version_line b =
     join '' '' ([''dproxy '' @ resolve_version b]
       @ (if build_revision b \<noteq> [] then [''('' @ build_revision b @ '')''] else [])
       @ [bd_go b, bd_os b @ ''/'' @ bd_arch b])"

section \<open>The command\<close>

record command_env =
  ce_process :: process_env
  ce_texts :: texts
  ce_diag :: "client_config \<Rightarrow> diag_env"
  ce_over :: "prefix_reader \<Rightarrow> tls_peer"
  ce_inner :: tunnel
  ce_build :: build

text \<open>\<open>run\<close>; a usage text goes to standard output (\<open>True\<close>) or standard error.\<close>

definition run_command :: "command_env \<Rightarrow> string list \<Rightarrow> run" where
  "run_command env args =
     (case args of
        [] \<Rightarrow> ok (ExitUsage, [UsageShown False])
      | command # rest \<Rightarrow>
          if command \<in> {''help'', ''-h'', ''--help''} then ok (ExitOK, [UsageShown True])
          else if command \<in> {''version'', ''-V'', ''--version''} then ok (ExitOK, [VersionShown (version_line (ce_build env))])
          else if command = ''client'' then run_client (ce_process env) rest
          else if command = ''server'' then run_server (ce_process env) rest
          else if command = ''test''
            then run_test (ce_process env) (ce_texts env) (ce_diag env) (ce_over env) (ce_inner env) rest
          else ok (ExitUsage, [Complaint ''dproxy'', UsageShown False]))"

section \<open>What a command does before its configuration is known\<close>

lemma finish_serving_events:
  "finish_serving command t s = (status, es) \<Longrightarrow> Listened a \<notin> set es \<and> ReportShown x \<notin> set es \<and> status \<noteq> ExitUsage
     \<and> (status = ExitFailure \<longleftrightarrow> Complaint command \<in> set es)"
  by (auto simp: finish_serving_def split: serving.split_asm option.split_asm if_split_asm)

lemma parse_flags_some:
  "parse_flags args fs = (status, Some fs') \<longleftrightarrow> status = ExitOK \<and> flag_parse args fs = (None, fs') \<and> fs_args fs' = []"
  by (auto simp: parse_flags_def split: prod.splits option.splits flag_fault.splits)

text \<open>A command that does more than complain about its flags went on with what a parse left.\<close>

lemma parse_flags_cases:
  assumes "(case parse_flags args fs of (status, None) \<Rightarrow> ok (status, []) | (_, Some fs') \<Rightarrow> f fs') = ok (status, es)"
    and "es \<noteq> []"
  obtains fs' where "flag_parse args fs = (None, fs')" and "fs_args fs' = []" and "f fs' = ok (status, es)"
  using assms by (auto simp: parse_flags_some split: option.split_asm prod.split_asm)

lemma serve_client_listens:
  assumes "serve_client_config env c = ok (status, es)" and "Listened a \<in> set es"
  shows "a = c_listen c \<and> hd es = Listened a \<and> last es = ListenerClosed \<and> status \<noteq> ExitUsage"
  using assms finish_serving_events
  by (auto simp: serve_client_config_def Let_def split: sum.split_asm failure.split_asm option.split_asm prod.split_asm)

lemma run_client_listens:
  assumes "run_client env args = ok (status, es)" and "Listened a \<in> set es"
  shows "\<exists>fs fs' c. register_client_flags (pe_load env) (new_flag_set zero_client_options) = ok fs
    \<and> flag_parse args fs = (None, fs') \<and> fs_args fs' = []
    \<and> load_client (pe_load env) (client_options_of fs') = ok c \<and> serve_client_config env c = ok (status, es)"
proof -
  from assms(1) obtain fs where reg: "register_client_flags (pe_load env) (new_flag_set zero_client_options) = ok fs"
    by (auto simp: run_client_def bind_result_eq_ok)
  note run = assms(1) [unfolded run_client_def reg bind_result_ok]
  have "es \<noteq> []" using assms(2) by auto
  from run this reg assms(2) show ?thesis
    by (elim parse_flags_cases) (auto split: sum.split_asm failure.split_asm)
qed

lemma serve_server_listens:
  assumes "serve_server_config env c = ok (status, es)" and "Listened a \<in> set es"
  shows "a = s_listen c \<and> hd es = Listened a \<and> last es = ListenerClosed \<and> status \<noteq> ExitUsage"
  using assms finish_serving_events
  by (auto simp: serve_server_config_def Let_def split: sum.split_asm failure.split_asm option.split_asm prod.split_asm)

lemma run_server_listens:
  assumes "run_server env args = ok (status, es)" and "Listened a \<in> set es"
  shows "\<exists>fs fs' c. register_server_flags (pe_load env) (new_flag_set zero_server_options) = ok fs
    \<and> flag_parse args fs = (None, fs') \<and> fs_args fs' = []
    \<and> load_server (pe_load env) (server_options_of fs') = ok c \<and> serve_server_config env c = ok (status, es)"
proof -
  from assms(1) obtain fs where reg: "register_server_flags (pe_load env) (new_flag_set zero_server_options) = ok fs"
    by (auto simp: run_server_def bind_result_eq_ok)
  note run = assms(1) [unfolded run_server_def reg bind_result_ok]
  have "es \<noteq> []" using assms(2) by auto
  from run this reg assms(2) show ?thesis
    by (elim parse_flags_cases) (auto split: sum.split_asm failure.split_asm)
qed

lemma run_test_reports:
  assumes "run_test env tx diag over t args = ok (status, es)"
  shows "Listened a \<notin> set es" and "status = ExitOK \<Longrightarrow> es \<noteq> [] \<Longrightarrow>
    \<exists>r. es = [ReportShown (write_report r)] \<and> map ck_label (rp_checks r) = report_lines \<and> list_all line_held (rp_checks r)"
proof -
  have *: "es = [Complaint ''test''] \<and> status = ExitUsage \<or>
      (\<exists>c r x y. diagnose tx (diag c) over c t = ok (r, x, y) \<and> status = (if rp_failed r then ExitFailure else ExitOK)
        \<and> es = [ReportShown (write_report r)])" if "es \<noteq> []"
  proof -
    from assms obtain fs where reg: "register_client_flags (pe_load env) (new_flag_set zero_client_options) = ok fs"
      by (auto simp: run_test_def bind_result_eq_ok)
    note run = assms [unfolded run_test_def reg bind_result_ok]
    from run that show ?thesis
      by (elim parse_flags_cases) (auto simp: bind_result_eq_ok split: sum.split_asm failure.split_asm split del: if_split)
  qed
  then show "Listened a \<notin> set es" by (cases "es = []") auto
  assume "status = ExitOK" "es \<noteq> []"
  with * obtain c r x y where "diagnose tx (diag c) over c t = ok (r, x, y)" "\<not> rp_failed r" "es = [ReportShown (write_report r)]"
    by (auto split: if_split_asm)
  with diagnose_lines [OF this(1)] show "\<exists>r. es = [ReportShown (write_report r)] \<and> map ck_label (rp_checks r) = report_lines \<and> list_all line_held (rp_checks r)"
    by (auto simp: report_held_def report_broken_def)
qed

section \<open>The commands\<close>

lemma other_commands_open_nothing:
  assumes "run_command env (command # rest) = ok (status, es)"
    and "command \<noteq> ''client''" and "command \<noteq> ''server''" and "command \<noteq> ''test''"
  shows "Listened a \<notin> set es"
proof -
  note run = assms(1) [unfolded run_command_def list.case]
  note rest = run [unfolded if_not_P [OF assms(2)] if_not_P [OF assms(3)] if_not_P [OF assms(4)]]
  show ?thesis
  proof (cases "command \<in> {''help'', ''-h'', ''--help''}")
    case True
    from rest [unfolded if_P [OF True]] show ?thesis by auto
  next
    case False
    note rest = rest [unfolded if_not_P [OF False]]
    show ?thesis
    proof (cases "command \<in> {''version'', ''-V'', ''--version''}")
      case True
      from rest [unfolded if_P [OF True]] show ?thesis by auto
    next
      case False
      from rest [unfolded if_not_P [OF False]] show ?thesis by auto
    qed
  qed
qed

lemma run_command_cases:
  assumes "run_command env (command # rest) = ok (status, es)"
  obtains (client) "command = ''client''" "run_client (ce_process env) rest = ok (status, es)"
    | (server) "command = ''server''" "run_server (ce_process env) rest = ok (status, es)"
    | (test) "command = ''test''"
        "run_test (ce_process env) (ce_texts env) (ce_diag env) (ce_over env) (ce_inner env) rest = ok (status, es)"
    | (other) "command \<noteq> ''client''" "command \<noteq> ''server''" "command \<noteq> ''test''" "\<And>a. Listened a \<notin> set es"
proof -
  note run = assms [unfolded run_command_def list.case]
  have "run_client (ce_process env) rest = ok (status, es)" if "command = ''client''" using run that by simp
  moreover have "run_server (ce_process env) rest = ok (status, es)" if "command = ''server''" using run that by simp
  moreover have "run_test (ce_process env) (ce_texts env) (ce_diag env) (ce_over env) (ce_inner env) rest = ok (status, es)"
    if "command = ''test''" using run that by simp
  ultimately show thesis using client server test other other_commands_open_nothing [OF assms] by blast
qed

section \<open>Properties\<close>


definition sample_process :: process_env where
  "sample_process =
     \<lparr>pe_load = sample_environment,
      pe_files = (\<lambda>_. Inr \<lparr>is_dir = False, permission = None, file_size = 32, file_data = Inr (bytes_of_string (replicate 32 CHR ''a''))\<rparr>),
      pe_identity = (\<lambda>_. ok sample_identity), pe_url_string = (\<lambda>_. ''https://cloudflare-dns.com/dns-query''), pe_lookup = (\<lambda>_ _. Inl ''none''),
      pe_render = (\<lambda>_. []), pe_listen = (\<lambda>_. None), pe_serving = Signalled None ServerClosed\<rparr>"

definition sample_command :: command_env where
  "sample_command =
     \<lparr>ce_process = sample_process, ce_texts = sample_texts, ce_diag = (\<lambda>_. sample_diag_env), ce_over = (\<lambda>_. sample_peer []), ce_inner = sample_inner_tunnel,
      ce_build = \<lparr>bd_version = [], bd_settings = None, bd_go = ''go1.26'', bd_os = ''linux'', bd_arch = ''amd64''\<rparr>\<rparr>"

lemma sample_token_file: "path \<noteq> [] \<Longrightarrow> \<exists>tok. read_token path (pe_files sample_process path) = ok tok"
proof -
  assume path: "path \<noteq> []"
  let ?t = "replicate 32 CHR ''a''"
  have "is_ascii ?t" by (auto simp: is_ascii_iff)
  then have "trim_space ?t = ?t" by (auto simp: trim_space_ascii is_space_def in_range_def intro!: trim_by_id)
  with path show ?thesis
    by (simp add: read_token_def open_token_file_def sample_process_def new_token_ok valid_token_def token_len_def
        min_token_bytes_def max_token_bytes_def)
qed

definition sample_line :: "string list" where
  "sample_line = ''client'' # concat (map spell sample_given)"

lemma sample_client_runs:
  "\<exists>c es. load_client sample_environment sample_options = ok c
     \<and> run_command sample_command sample_line = ok (ExitOK, es) \<and> Listened (c_listen c) \<in> set es"
proof -
  from sample_loads obtain c where c: "load_client sample_environment sample_options = ok c" "c_doh_bootstrap c \<noteq> []" by blast
  note v = load_client_valid [OF c(1)]
  from validate_client_ok(5) [OF v] obtain u where u: "c_doh_url c = Some u" by (auto simp: validate_doh_url_ok)
  obtain r where r: "new_resolver (pe_url_string sample_process) False (c_doh_url c) (c_doh_bootstrap c) (c_timeouts c) = ok r"
    using new_resolver_of_valid [of u "c_doh_bootstrap c"] validate_client_ok(6) [OF v] c(2) unfolding u by blast
  from sample_token_file [OF validate_client_ok(4) [OF v]] obtain tok where
    "read_token (c_token_file c) (pe_files sample_process (c_token_file c)) = ok tok" by blast
  then have "\<exists>s. new_local_server sample_process c = ok s"
    by (simp add: new_local_server_def new_client_def v token_is_zero_def r) (simp add: sample_process_def)
  moreover from sample_parses obtain fs fs' where
    "register_client_flags sample_environment (new_flag_set zero_client_options) = ok fs"
    "flag_parse (concat (map spell sample_given)) fs = (None, fs')" "fs_args fs' = []"
    "load_client sample_environment (client_options_of fs') = load_client sample_environment sample_options" by blast
  moreover have "pe_load sample_process = sample_environment" by (simp add: sample_process_def)
  ultimately show ?thesis using c
    by (auto simp: run_command_def sample_command_def sample_line_def run_client_def parse_flags_def serve_client_config_def)
      (auto simp: sample_process_def finish_serving_def serve_result_def)
qed


end
