(* ===== verification/Private_Path.thy ===== *)
theory Private_Path
  imports Go_Prelude
begin

text \<open>
  \<open>internal/privatepath\<close>: the access control of files with credentials, on Unix by permission bits, on
  Windows by an access-control list. The system calls answer through an environment; what a call
  allocates and frees is a trace.
\<close>

unbundle bit_operations_syntax

section \<open>Unix\<close>

text \<open>The octal modes of the source, 0700, 0600, 0777 and 0077, in hexadecimal.\<close>

definition restrict_mode :: "bool \<Rightarrow> 32 word" where
  "restrict_mode directory = (if directory then 0x1C0 else 0x180)"

definition permission_bits :: "32 word \<Rightarrow> 32 word" where
  "permission_bits mode = mode AND 0x1FF"

text \<open>\<open>Validate\<close>: the permissions that are too open, if they are.\<close>

definition validate_mode :: "32 word \<Rightarrow> (32 word, unit) result" where
  "validate_mode mode = (if permission_bits mode AND 0x3F \<noteq> 0 then err (permission_bits mode) else ok ())"

section \<open>Windows\<close>

definition windows_generic_all :: "32 word" where "windows_generic_all = 0x10000000"
definition windows_no_inheritance :: "32 word" where "windows_no_inheritance = 0"
definition windows_inherit :: "32 word" where "windows_inherit = 3"
definition windows_dacl_information :: "32 word" where "windows_dacl_information = 0x00000004"
definition windows_protected_dacl_information :: "32 word" where "windows_protected_dacl_information = 0x80000000"
definition windows_dacl_protected :: "16 word" where "windows_dacl_protected = 0x1000"
definition windows_access_allowed :: "8 word" where "windows_access_allowed = 0"

datatype windows_fault =
    UserUnknown string | BadPath string | AclNotBuilt nat | AclNotSet nat | AclNotRead nat | NoDescriptor | NoAcl
  | ControlNotRead nat | NotIsolated | EntryNotRead nat | NotUserEntry | OtherPrincipal

record explicit_access =
  ea_permissions :: "32 word"
  ea_inheritance :: "32 word"
  ea_sid :: nat

datatype windows_call = BuildAcl explicit_access | SetSecurity string "32 word" | FreeAcl | GetSecurity string "32 word" | FreeDescriptor

record windows_env =
  we_user :: "string + nat"
  we_name :: "string \<Rightarrow> string option"
  we_build :: nat
  we_set :: nat

text \<open>\<open>Restrict\<close>: the result and the calls made.\<close>

definition windows_restrict :: "windows_env \<Rightarrow> string \<Rightarrow> bool \<Rightarrow> (windows_fault, unit) result \<times> windows_call list" where
  "windows_restrict e path directory =
     (case we_user e of Inl f \<Rightarrow> (err (UserUnknown f), [])
      | Inr sid \<Rightarrow>
          (let entry = \<lparr>ea_permissions = windows_generic_all,
                       ea_inheritance = (if directory then windows_inherit else windows_no_inheritance), ea_sid = sid\<rparr>
          in if we_build e \<noteq> 0 then (err (AclNotBuilt (we_build e)), [BuildAcl entry])
             else case we_name e path of
               Some f \<Rightarrow> (err (BadPath f), [BuildAcl entry, FreeAcl])
             | None \<Rightarrow>
                 (if we_set e \<noteq> 0 then err (AclNotSet (we_set e)) else ok (),
                  [BuildAcl entry, SetSecurity path (windows_dacl_information OR windows_protected_dacl_information), FreeAcl])))"

text \<open>What the system says of a path: its list, if any, the control flags and the first entry.\<close>

record acl_entry =
  ae_type :: "8 word"
  ae_sid :: nat

record acl_view =
  av_read :: nat
  av_descriptor :: bool
  av_count :: "16 word option"
  av_control :: "nat + 16 word"
  av_entry :: "nat + acl_entry"

definition windows_validate :: "windows_env \<Rightarrow> acl_view \<Rightarrow> string \<Rightarrow> (windows_fault, unit) result \<times> windows_call list" where
  "windows_validate e v path =
     (case we_user e of Inl f \<Rightarrow> (err (UserUnknown f), [])
      | Inr sid \<Rightarrow>
     (case we_name e path of Some f \<Rightarrow> (err (BadPath f), [])
      | None \<Rightarrow>
          let asked = GetSecurity path windows_dacl_information in
          if av_read v \<noteq> 0 then (err (AclNotRead (av_read v)), [asked])
          else if \<not> av_descriptor v then (err NoDescriptor, [asked])
          else
            (case av_count v of None \<Rightarrow> err NoAcl
             | Some n \<Rightarrow>
            (case av_control v of Inl f \<Rightarrow> err (ControlNotRead f)
             | Inr control \<Rightarrow>
                 if control AND windows_dacl_protected = 0 \<or> n \<noteq> 1 then err NotIsolated
                 else (case av_entry v of Inl f \<Rightarrow> err (EntryNotRead f)
             | Inr ace \<Rightarrow>
                 if ae_type ace \<noteq> windows_access_allowed then err NotUserEntry
                 else if ae_sid ace \<noteq> sid then err OtherPrincipal
                 else ok ())), [asked, FreeDescriptor])))"

section \<open>What is accepted\<close>

text \<open>The mode a restriction sets is one that validates; nothing readable or writable by others does.\<close>

lemma restricted_mode_validates: "validate_mode (restrict_mode directory) = ok ()"
  by (simp add: validate_mode_def restrict_mode_def permission_bits_def)

lemma validate_mode_ok: "validate_mode mode = ok () \<longleftrightarrow> mode AND 0x3F = 0"
proof -
  have "permission_bits mode AND 0x3F = mode AND 0x3F" by (simp add: permission_bits_def and.assoc)
  then show ?thesis by (simp add: validate_mode_def)
qed

lemma windows_validate_ok:
  "fst (windows_validate e v path) = ok () \<longleftrightarrow>
     (\<exists>sid control ace. we_user e = Inr sid \<and> we_name e path = None \<and> av_read v = 0 \<and> av_descriptor v \<and> av_count v = Some 1
        \<and> av_control v = Inr control \<and> control AND windows_dacl_protected \<noteq> 0
        \<and> av_entry v = Inr ace \<and> ae_type ace = windows_access_allowed \<and> ae_sid ace = sid)"
  by (auto simp: windows_validate_def Let_def split: sum.splits option.splits)

text \<open>What the system allocated is freed on every path, after its last use.\<close>

lemma windows_frees:
  "BuildAcl entry \<in> set (snd (windows_restrict e path d)) \<Longrightarrow> we_build e = 0 \<Longrightarrow> last (snd (windows_restrict e path d)) = FreeAcl"
  "GetSecurity p i \<in> set (snd (windows_validate e v path)) \<Longrightarrow> av_read v = 0 \<Longrightarrow> av_descriptor v \<Longrightarrow>
     last (snd (windows_validate e v path)) = FreeDescriptor"
  by (auto simp: windows_restrict_def windows_validate_def Let_def split: sum.splits option.splits)

end
