(* ===== verification/Markdown_Wrap.thy ===== *)
theory Markdown_Wrap
  imports Go_Flag
begin

text \<open>
  \<open>tools/mdwrap/main.go\<close>: which lines of a Markdown document are prose, and how prose is wrapped. A regular
  expression of the code is the function that decides it; \<open>\s\<close> is one of five ASCII bytes.
\<close>

section \<open>The patterns\<close>

definition regex_space :: "char \<Rightarrow> bool" where
  "regex_space c \<longleftrightarrow> code c \<in> {9, 10, 12, 13, 32}"

definition skip_space :: "string \<Rightarrow> string" where
  "skip_space l = dropWhile regex_space l"

definition fence_marker :: "string \<Rightarrow> string option" where
  "fence_marker l =
     (if has_prefix (skip_space l) ''```'' then Some ''```''
      else if has_prefix (skip_space l) ''~~~'' then Some ''~~~'' else None)"

definition is_table :: "string \<Rightarrow> bool" where "is_table l = has_prefix (skip_space l) ''|''"

definition is_heading :: "string \<Rightarrow> bool" where
  "is_heading l =
     (let marks = takeWhile (\<lambda>c. c = CHR ''#'') (skip_space l); rest = drop (length marks) (skip_space l)
      in 1 \<le> length marks \<and> length marks \<le> 6 \<and> rest \<noteq> [] \<and> regex_space (hd rest))"

definition is_link_definition :: "string \<Rightarrow> bool" where
  "is_link_definition l =
     (let s = skip_space l in
      has_prefix s ''['' \<and>
      (case cut_at CHR '']'' (drop 1 s) of None \<Rightarrow> False
       | Some (label, rest) \<Rightarrow> label \<noteq> [] \<and> has_prefix rest '':'' \<and> drop 1 rest \<noteq> [] \<and> regex_space (rest ! 1)))"

definition is_html :: "string \<Rightarrow> bool" where "is_html l = has_prefix (skip_space l) ''<''"
definition is_blockquote :: "string \<Rightarrow> bool" where "is_blockquote l = has_prefix (skip_space l) ''>''"

text \<open>What \<open>quotePrefixPattern\<close> matches at the start of a quoted line; \<open>ReplaceAllString\<close> removes it.\<close>

definition quote_prefix :: "string \<Rightarrow> string" where
  "quote_prefix l =
     (if \<not> is_blockquote l then []
      else let spaces = takeWhile regex_space l; rest = drop 1 (skip_space l)
        in spaces @ ''>'' @ (if rest \<noteq> [] \<and> regex_space (hd rest) then [hd rest] else []))"

definition is_alert :: "string \<Rightarrow> bool" where
  "is_alert l =
     (is_blockquote l \<and>
      (let s = skip_space (drop 1 (skip_space l)) in
       \<exists>kind \<in> set [''NOTE'', ''TIP'', ''IMPORTANT'', ''WARNING'', ''CAUTION''].
         has_prefix s (''[!'' @ kind @ '']'') \<and> skip_space (drop (length kind + 3) s) = []))"

text \<open>\<open>listPattern\<close>: indentation, marker, gap and text.\<close>

definition list_marker :: "string \<Rightarrow> string option" where
  "list_marker s =
     (if s \<noteq> [] \<and> hd s \<in> set ''-*+'' then Some [hd s]
      else let digits = takeWhile is_digit s in
        if digits \<noteq> [] \<and> has_prefix (drop (length digits) s) ''.'' then Some (digits @ ''.'') else None)"

definition list_item :: "string \<Rightarrow> (string \<times> string \<times> string \<times> string) option" where
  "list_item l =
     (let indent = takeWhile regex_space l; s = skip_space l in
      case list_marker s of
        None \<Rightarrow> None
      | Some marker \<Rightarrow>
          let after = drop (length marker) s; gap = takeWhile regex_space after
          in if gap = [] then None else Some (indent, marker, gap, drop (length gap) after))"

definition is_indented_code :: "string \<Rightarrow> bool" where
  "is_indented_code l =
     (let spaces = takeWhile (\<lambda>c. c = CHR '' '') l; rest = drop (length spaces) l in
      (l \<noteq> [] \<and> code (hd l) = 9 \<and> drop 1 l \<noteq> [] \<and> \<not> regex_space (l ! 1))
      \<or> (4 \<le> length spaces \<and> rest \<noteq> [] \<and> \<not> regex_space (hd rest)))"

text \<open>\<open>linkPattern\<close>: the complete link a text starts with, or nothing.\<close>

definition link_at :: "string \<Rightarrow> string" where
  "link_at s =
     (if \<not> has_prefix s ''['' then []
      else case cut_at CHR '']'' (drop 1 s) of
        None \<Rightarrow> []
      | Some (label, rest) \<Rightarrow>
          if has_prefix rest ''('' then
            (case cut_at CHR '')'' (drop 1 rest) of None \<Rightarrow> [] | Some (dest, _) \<Rightarrow> ''['' @ label @ '']('' @ dest @ '')'')
          else if has_prefix rest ''['' then
            (case cut_at CHR '']'' (drop 1 rest) of None \<Rightarrow> [] | Some (ref, _) \<Rightarrow> ''['' @ label @ ''][''  @ ref @ '']'')
          else [])"

section \<open>Tokens and lines\<close>

definition rune_count :: "string \<Rightarrow> nat" where
  "rune_count s = length (runes s)"

text \<open>
  \<open>tokenize\<close>: a code span or a link that is complete is taken whole; a space ends a token. The accumulated
  token is the first argument.
\<close>

lemma link_at_prefix: "has_prefix s (link_at s)"
proof (cases "has_prefix s ''['' \<and> CHR '']'' \<in> set (drop 1 s)")
  case True
  then obtain u label rest where s: "s = CHR ''['' # u" and cut: "cut_at CHR '']'' u = Some (label, rest)"
    by (cases "cut_at CHR '']'' (drop 1 s)") (auto simp: has_prefix_iff cut_at_None)
  have u: "u = label @ CHR '']'' # rest" using cut by (simp add: cut_at_Some)
  have part: "has_prefix s (''['' @ label @ '']'' @ open # a @ [close])"
    if "has_prefix rest [open]" and "cut_at close (drop 1 rest) = Some (a, b)" for "open" close a b
    using that by (auto simp: has_prefix_iff cut_at_Some s u)
  show ?thesis
    using part [of "CHR ''(''" "CHR '')''"] part [of "CHR ''[''" "CHR '']''"]
    by (auto simp: link_at_def s cut has_prefix_def split: option.split)
next
  case False
  then show ?thesis
    by (cases "cut_at CHR '']'' (drop 1 s)") (auto simp: link_at_def has_prefix_def cut_at_Some)
qed

function tokenize_loop :: "string \<Rightarrow> string \<Rightarrow> string list" where
  "tokenize_loop current s =
     (case s of
        [] \<Rightarrow> if current \<noteq> [] then [current] else []
      | c # rest \<Rightarrow>
          if c = CHR ''`'' \<and> CHR ''`'' \<in> set rest then
            (case cut_at CHR ''`'' rest of
               None \<Rightarrow> []
             | Some (span, after) \<Rightarrow> tokenize_loop (current @ ''`'' @ span @ ''`'') after)
          else if c = CHR ''['' \<and> link_at s \<noteq> [] then
            tokenize_loop (current @ link_at s) (drop (length (link_at s)) s)
          else if c = CHR '' '' then
            (if current \<noteq> [] then current # tokenize_loop [] rest else tokenize_loop [] rest)
          else tokenize_loop (current @ [c]) rest)"
  by pat_completeness auto
termination
  by (relation "measure (\<lambda>(_, s). length s)") (auto simp: cut_at_Some)

declare tokenize_loop.simps [simp del]

definition tokenize :: "string \<Rightarrow> string list" where
  "tokenize = tokenize_loop []"

text \<open>\<open>wrapText\<close>: greedily, a token goes on the line while it fits the limit.\<close>

fun wrap_tokens :: "string \<Rightarrow> int \<Rightarrow> string \<Rightarrow> string list \<Rightarrow> string list" where
  "wrap_tokens rest_prefix limit current [] = [current]"
| "wrap_tokens rest_prefix limit current (t # ts) =
     (let candidate = current @ '' '' @ t in
      if limit < int (rune_count candidate) \<and> trim_space current \<noteq> []
      then current # wrap_tokens rest_prefix limit (rest_prefix @ t) ts
      else wrap_tokens rest_prefix limit candidate ts)"

definition trim_right_spaces :: "string \<Rightarrow> string" where
  "trim_right_spaces s = rev (dropWhile (\<lambda>c. c = CHR '' '') (rev s))"

definition wrap_text :: "string \<Rightarrow> string \<Rightarrow> string \<Rightarrow> int \<Rightarrow> string list" where
  "wrap_text s first_prefix rest_prefix limit =
     (case tokenize s of
        [] \<Rightarrow> [trim_right_spaces first_prefix]
      | t # ts \<Rightarrow> wrap_tokens rest_prefix limit (first_prefix @ t) ts)"

section \<open>Documents\<close>

definition verbatim :: "string \<Rightarrow> bool" where
  "verbatim l \<longleftrightarrow> trim_space l = [] \<or> is_table l \<or> is_heading l \<or> is_link_definition l \<or> is_html l
     \<or> is_alert l \<or> is_indented_code l"

definition continues :: "string \<Rightarrow> bool" where
  "continues l \<longleftrightarrow> \<not> (trim_space l = [] \<or> fence_marker l \<noteq> None \<or> verbatim l \<or> is_blockquote l \<or> list_item l \<noteq> None)"

definition quote_continues :: "string \<Rightarrow> bool" where
  "quote_continues l \<longleftrightarrow> is_blockquote l \<and> trim_space l \<noteq> ''>''"

text \<open>The wrapped lines of a block: a quotation, a list item, or a paragraph.\<close>

definition wrap_quote :: "int \<Rightarrow> string list \<Rightarrow> string list" where
  "wrap_quote limit block =
     (let prefix = quote_prefix (hd block)
      in wrap_text (join '' '' (map (\<lambda>l. trim_space (drop (length (quote_prefix l)) l)) block)) prefix prefix limit)"

definition wrap_prose :: "int \<Rightarrow> string list \<Rightarrow> string list" where
  "wrap_prose limit block =
     (case list_item (hd block) of
        Some (indent, marker, gap, rest) \<Rightarrow>
          let first_prefix = indent @ marker @ gap
          in wrap_text (join '' '' (rest # map trim_space (tl block))) first_prefix
               (replicate (rune_count first_prefix) CHR '' '') limit
      | None \<Rightarrow>
          let prefix = takeWhile regex_space (hd block)
          in wrap_text (join '' '' (map trim_space block)) prefix prefix limit)"

function wrap_lines :: "int \<Rightarrow> string option \<Rightarrow> string list \<Rightarrow> string list" where
  "wrap_lines limit fence [] = []"
| "wrap_lines limit (Some marker) (l # ls) =
     l # wrap_lines limit (if fence_marker l \<noteq> None \<and> has_prefix (trim_space l) marker then None else Some marker) ls"
| "wrap_lines limit None (l # ls) =
     (if fence_marker l \<noteq> None then l # wrap_lines limit (fence_marker l) ls
      else if verbatim l then l # wrap_lines limit None ls
      else if is_blockquote l then
        wrap_quote limit (l # takeWhile quote_continues ls) @ wrap_lines limit None (dropWhile quote_continues ls)
      else
        wrap_prose limit (l # takeWhile continues ls) @ wrap_lines limit None (dropWhile continues ls))"
  by pat_completeness auto
termination
  by (relation "measure (\<lambda>(_, _, ls). length ls)") (auto simp: le_imp_less_Suc length_dropWhile_le)

definition wrap_document :: "string \<Rightarrow> int \<Rightarrow> string" where
  "wrap_document source limit = join [CHR 0x0A] (wrap_lines limit None (split_on CHR 0x0A source))"

section \<open>The command\<close>

record wrap_flags =
  wf_write :: bool
  wf_list :: bool
  wf_width :: int

definition wrap_registrations :: "wrap_flags registration list" where
  "wrap_registrations =
     [bool_var (\<lambda>b f. f\<lparr>wf_write := b\<rparr>) ''w'' False,
      bool_var (\<lambda>b f. f\<lparr>wf_list := b\<rparr>) ''l'' False,
      number_var parse_int0 (\<lambda>n f. f\<lparr>wf_width := n\<rparr>) ''width'' 80]"

text \<open>What the calls on one named file report: the text or a fault of the read, and a fault of the write.\<close>

record wrap_file =
  wd_path :: string
  wd_read :: "string + string"
  wd_write :: "string option"

datatype wrap_action = Complain string | PrintPath string | PrintText string | WriteText string string | Usage

text \<open>One round of the loop: the actions, and whether it sets \<open>changed\<close> and \<open>failed\<close>.\<close>

definition wrap_file_step :: "wrap_flags \<Rightarrow> wrap_file \<Rightarrow> wrap_action list \<times> bool \<times> bool" where
  "wrap_file_step fl f =
     (case wd_read f of
        Inl e \<Rightarrow> ([Complain e], False, True)
      | Inr source \<Rightarrow>
          let wrapped = wrap_document source (wf_width fl) in
          if wf_list fl then (if wrapped \<noteq> source then ([PrintPath (wd_path f)], True, False) else ([], False, False))
          else if wf_write fl then
            (if wrapped = source then ([], False, False)
             else case wd_write f of
               None \<Rightarrow> ([WriteText (wd_path f) wrapped], False, False)
             | Some e \<Rightarrow> ([WriteText (wd_path f) wrapped, Complain e], False, True))
          else ([PrintText wrapped], False, False))"

fun wrap_files :: "wrap_flags \<Rightarrow> wrap_file list \<Rightarrow> wrap_action list \<times> bool \<times> bool" where
  "wrap_files fl [] = ([], False, False)"
| "wrap_files fl (f # fs) =
     (case wrap_file_step fl f of (as, c, x) \<Rightarrow>
      case wrap_files fl fs of (bs, c', x') \<Rightarrow> (as @ bs, c \<or> c', x \<or> x'))"

text \<open>
  \<open>main\<close>: the flags are parsed with \<open>ExitOnError\<close>. The files are the outcomes of the calls on each
  remaining argument, in their order. The result is the actions and the exit status.
\<close>

definition mdwrap_main :: "(string list \<Rightarrow> wrap_file list) \<Rightarrow> string list \<Rightarrow> (unit, wrap_action list \<times> nat) result" where
  "mdwrap_main world args =
     bind_result (register_flags wrap_registrations (new_flag_set \<lparr>wf_write = False, wf_list = False, wf_width = 0\<rparr>)) (\<lambda>fs.
       case flag_parse args fs of
         (Some HelpAsked, _) \<Rightarrow> ok ([Usage], 0)
       | (Some _, _) \<Rightarrow> ok ([Usage], 2)
       | (None, fs') \<Rightarrow>
           if fs_args fs' = [] then ok ([Usage], 2)
           else case wrap_files (fs_options fs') (world (fs_args fs')) of
             (as, changed, failed) \<Rightarrow> ok (as, if failed \<or> (wf_list (fs_options fs') \<and> changed) then 1 else 0))"

section \<open>What wrapping keeps\<close>

text \<open>The tokens are the text without the spaces between them, and none is empty.\<close>

lemma tokenize_loop_simps:
  "tokenize_loop cur [] = (if cur \<noteq> [] then [cur] else [])"
  "cut_at CHR ''`'' rest = Some (a, b) \<Longrightarrow> tokenize_loop cur (CHR ''`'' # rest) = tokenize_loop (cur @ ''`'' @ a @ ''`'') b"
  "link_at (CHR ''['' # rest) \<noteq> [] \<Longrightarrow> CHR ''['' # rest = link_at (CHR ''['' # rest) @ u
    \<Longrightarrow> tokenize_loop cur (CHR ''['' # rest) = tokenize_loop (cur @ link_at (CHR ''['' # rest)) u"
  "tokenize_loop cur (CHR '' '' # rest) = (if cur \<noteq> [] then cur # tokenize_loop [] rest else tokenize_loop [] rest)"
  "\<not> (c = CHR ''`'' \<and> CHR ''`'' \<in> set rest) \<Longrightarrow> \<not> (c = CHR ''['' \<and> link_at (c # rest) \<noteq> []) \<Longrightarrow> c \<noteq> CHR '' ''
    \<Longrightarrow> tokenize_loop cur (c # rest) = tokenize_loop (cur @ [c]) rest"
proof -
  assume "link_at (CHR ''['' # rest) \<noteq> []" and u: "CHR ''['' # rest = link_at (CHR ''['' # rest) @ u"
  moreover have "drop (length (link_at (CHR ''['' # rest))) (CHR ''['' # rest) = u"
    using u by (metis append_eq_conv_conj)
  ultimately show "tokenize_loop cur (CHR ''['' # rest) = tokenize_loop (cur @ link_at (CHR ''['' # rest)) u"
    by (subst tokenize_loop.simps) (simp only: list.case char.inject simp_thms if_True if_False)
next
  assume cut: "cut_at CHR ''`'' rest = Some (a, b)"
  then have "CHR ''`'' \<in> set rest" by (simp add: cut_at_Some)
  with cut show "tokenize_loop cur (CHR ''`'' # rest) = tokenize_loop (cur @ ''`'' @ a @ ''`'') b"
    by (subst tokenize_loop.simps) simp
next
  assume "\<not> (c = CHR ''`'' \<and> CHR ''`'' \<in> set rest)" "\<not> (c = CHR ''['' \<and> link_at (c # rest) \<noteq> [])" "c \<noteq> CHR '' ''"
  then show "tokenize_loop cur (c # rest) = tokenize_loop (cur @ [c]) rest"
    by (subst tokenize_loop.simps) (simp only: list.case simp_thms if_True if_False)
next
  show "tokenize_loop cur [] = (if cur \<noteq> [] then [cur] else [])" by (subst tokenize_loop.simps) simp
  show "tokenize_loop cur (CHR '' '' # rest) = (if cur \<noteq> [] then cur # tokenize_loop [] rest else tokenize_loop [] rest)"
    by (subst tokenize_loop.simps) simp
qed

lemma tokenize_cases:
  obtains (Nil) "s = []"
  | (span) rest a b where "s = CHR ''`'' # rest" "cut_at CHR ''`'' rest = Some (a, b)"
  | (link) rest u where "s = CHR ''['' # rest" "link_at s \<noteq> []" "s = link_at s @ u"
  | (space) rest where "s = CHR '' '' # rest"
  | (other) c rest where "s = c # rest" "\<not> (c = CHR ''`'' \<and> CHR ''`'' \<in> set rest)"
      "\<not> (c = CHR ''['' \<and> link_at s \<noteq> [])" "c \<noteq> CHR '' ''"
proof (cases s)
  case (Cons c rest)
  show ?thesis
  proof (cases "c = CHR ''`'' \<and> CHR ''`'' \<in> set rest")
    case True
    then show ?thesis using Cons span cut_at_None [of "CHR ''`''" rest] by fastforce
  next
    case False
    then show ?thesis using Cons link space other link_at_prefix [of s] by (metis has_prefix_iff)
  qed
qed (rule Nil)

lemma tokenize_induct [case_names Nil span link space other]:
  assumes "\<And>cur. P cur []"
    and "\<And>cur rest a b. cut_at CHR ''`'' rest = Some (a, b) \<Longrightarrow> P (cur @ ''`'' @ a @ ''`'') b \<Longrightarrow> P cur (CHR ''`'' # rest)"
    and "\<And>cur rest u. link_at (CHR ''['' # rest) \<noteq> [] \<Longrightarrow> CHR ''['' # rest = link_at (CHR ''['' # rest) @ u
      \<Longrightarrow> P (cur @ link_at (CHR ''['' # rest)) u \<Longrightarrow> P cur (CHR ''['' # rest)"
    and "\<And>cur rest. P [] rest \<Longrightarrow> P cur (CHR '' '' # rest)"
    and "\<And>cur c rest. \<not> (c = CHR ''`'' \<and> CHR ''`'' \<in> set rest) \<Longrightarrow> \<not> (c = CHR ''['' \<and> link_at (c # rest) \<noteq> []) \<Longrightarrow> c \<noteq> CHR '' ''
      \<Longrightarrow> P (cur @ [c]) rest \<Longrightarrow> P cur (c # rest)"
  shows "P cur s"
proof (induction "length s" arbitrary: cur s rule: less_induct)
  case less
  show ?case
  proof (cases rule: tokenize_cases [of s])
    case (link rest u)
    then have "length (link_at s @ u) = length s" by simp
    with link have "length u < length s" by (metis length_append length_greater_0_conv less_add_same_cancel2)
    from less [OF this] link show ?thesis using assms(3) by simp
  qed (use less assms in \<open>simp_all add: cut_at_Some\<close>)
qed

lemma tokenize_loop_content: "filter (\<lambda>c. c \<noteq> CHR '' '') (concat (tokenize_loop cur s)) = filter (\<lambda>c. c \<noteq> CHR '' '') (cur @ s)"
proof (induction cur s rule: tokenize_induct)
  case (link cur rest u)
  have "filter (\<lambda>c. c \<noteq> CHR '' '') (CHR ''['' # rest)
      = filter (\<lambda>c. c \<noteq> CHR '' '') (link_at (CHR ''['' # rest) @ u)" using link(2) by (rule arg_cong)
  with link(3) show ?case by (simp add: tokenize_loop_simps(3) [OF link(1,2)] del: filter.simps)
qed (simp_all add: tokenize_loop_simps cut_at_Some)

lemma tokenize_loop_not_Nil: "[] \<notin> set (tokenize_loop cur s)"
  by (induction cur s rule: tokenize_induct) (simp_all add: tokenize_loop_simps)

lemma join_words: "t @ concat (map ((#) CHR '' '') g) = join '' '' (t # g)"
proof (induction g arbitrary: t)
  case (Cons a g)
  show ?case using Cons.IH [of a] by simp
qed simp

text \<open>The lines hold the tokens in their order, at least one on each line.\<close>

lemma wrap_tokens_groups:
  "\<exists>g gs. wrap_tokens rp n cur ts = (cur @ concat (map ((#) CHR '' '') g)) # map (\<lambda>h. rp @ join '' '' h) gs
     \<and> g @ concat gs = ts \<and> [] \<notin> set gs"
proof (induction ts arbitrary: cur)
  case Nil
  have "wrap_tokens rp n cur [] = (cur @ concat (map ((#) CHR '' '') [])) # map (\<lambda>h. rp @ join '' '' h) []" by simp
  then show ?case by (intro exI [of _ "[]"]) simp
next
  case (Cons t ts)
  show ?case
  proof (cases "n < int (rune_count (cur @ '' '' @ t)) \<and> trim_space cur \<noteq> []")
    case True
    from Cons.IH [of "rp @ t"] obtain g gs where
      "wrap_tokens rp n (rp @ t) ts = (rp @ t @ concat (map ((#) CHR '' '') g)) # map (\<lambda>h. rp @ join '' '' h) gs"
      "g @ concat gs = ts" "[] \<notin> set gs" by auto
    with True have "wrap_tokens rp n cur (t # ts) = cur # map (\<lambda>h. rp @ join '' '' h) ((t # g) # gs)"
      by (simp add: join_words [symmetric] del: join.simps)
    with \<open>g @ concat gs = ts\<close> \<open>[] \<notin> set gs\<close> show ?thesis
      by (intro exI [of _ "[]"] exI [of _ "(t # g) # gs"]) auto
  next
    case False
    from Cons.IH [of "cur @ '' '' @ t"] obtain g gs where
      "wrap_tokens rp n (cur @ '' '' @ t) ts = (cur @ '' '' @ t @ concat (map ((#) CHR '' '') g)) # map (\<lambda>h. rp @ join '' '' h) gs"
      "g @ concat gs = ts" "[] \<notin> set gs" by auto
    with False show ?thesis by (intro exI [of _ "t # g"] exI [of _ gs]) auto
  qed
qed

text \<open>A line past the limit is a single token after its prefix, or has nothing but white space before its last token.\<close>

lemma wrap_tokens_limit:
  assumes "l \<in> set (wrap_tokens rp n cur ts)" and "n < int (rune_count l)"
  shows "l = cur \<or> (\<exists>t \<in> set ts. l = rp @ t) \<or> (\<exists>u t. l = u @ '' '' @ t \<and> trim_space u = [])"
  using assms(1)
proof (induction ts arbitrary: cur)
  case (Cons t ts)
  show ?case
  proof (cases "n < int (rune_count (cur @ '' '' @ t)) \<and> trim_space cur \<noteq> []")
    case True
    with Cons.prems have "l = cur \<or> l \<in> set (wrap_tokens rp n (rp @ t) ts)" by simp
    with Cons.IH [of "rp @ t"] show ?thesis by auto
  next
    case False
    with Cons.prems have "l \<in> set (wrap_tokens rp n (cur @ '' '' @ t) ts)" by auto
    from Cons.IH [OF this] False assms(2) show ?thesis by auto
  qed
qed simp

text \<open>Greedy: what the next line starts with did not fit on the line before it.\<close>

fun not_fitting :: "string \<Rightarrow> int \<Rightarrow> string list \<Rightarrow> bool" where
  "not_fitting rp n (l # m # ls) \<longleftrightarrow>
     (\<exists>t u. m = rp @ t @ u \<and> n < int (rune_count (l @ '' '' @ t))) \<and> not_fitting rp n (m # ls)"
| "not_fitting rp n ls \<longleftrightarrow> True"

lemma wrap_tokens_hd: "\<exists>u ls. wrap_tokens rp n cur ts = (cur @ u) # ls"
  using wrap_tokens_groups [of rp n cur ts] by blast

lemma wrap_tokens_greedy: "not_fitting rp n (wrap_tokens rp n cur ts)"
proof (induction ts arbitrary: cur)
  case (Cons t ts)
  obtain u ls where hd: "wrap_tokens rp n (rp @ t) ts = ((rp @ t) @ u) # ls" using wrap_tokens_hd by blast
  show ?case
    using Cons.IH [of "rp @ t"] Cons.IH [of "cur @ '' '' @ t"] by (auto simp: hd Let_def)
qed simp

theorem wrap_text_lines:
  assumes "tokenize s \<noteq> []"
  shows "\<exists>gs. wrap_text s fp rp n = (fp @ join '' '' (hd gs)) # map (\<lambda>g. rp @ join '' '' g) (tl gs)
       \<and> concat gs = tokenize s \<and> gs \<noteq> [] \<and> [] \<notin> set gs"
    and "l \<in> set (wrap_text s fp rp n) \<Longrightarrow> n < int (rune_count l)
      \<Longrightarrow> (\<exists>t \<in> set (tokenize s). l = fp @ t \<or> l = rp @ t) \<or> (\<exists>u t. l = u @ '' '' @ t \<and> trim_space u = [])"
    and "not_fitting rp n (wrap_text s fp rp n)"
proof -
  from assms obtain t ts where ts: "tokenize s = t # ts" by (cases "tokenize s") auto
  from wrap_tokens_groups [of rp n "fp @ t" ts] obtain g gs where
    "wrap_tokens rp n (fp @ t) ts = (fp @ join '' '' (t # g)) # map (\<lambda>h. rp @ join '' '' h) gs"
    "g @ concat gs = ts" "[] \<notin> set gs" by (metis append_assoc join_words)
  then show "\<exists>gs. wrap_text s fp rp n = (fp @ join '' '' (hd gs)) # map (\<lambda>g. rp @ join '' '' g) (tl gs)
       \<and> concat gs = tokenize s \<and> gs \<noteq> [] \<and> [] \<notin> set gs"
    by (intro exI [of _ "(t # g) # gs"]) (auto simp: wrap_text_def ts simp del: join.simps)
  show "(\<exists>t \<in> set (tokenize s). l = fp @ t \<or> l = rp @ t) \<or> (\<exists>u t. l = u @ '' '' @ t \<and> trim_space u = [])"
    if "l \<in> set (wrap_text s fp rp n)" "n < int (rune_count l)"
    using wrap_tokens_limit [of l rp n "fp @ t" ts] that by (auto simp: wrap_text_def ts)
  show "not_fitting rp n (wrap_text s fp rp n)" by (simp add: wrap_text_def ts wrap_tokens_greedy)
qed

section \<open>Documents keep their text\<close>

text \<open>Fenced code is copied, from the fence that opens it to the fence that closes it.\<close>

definition closes_fence :: "string \<Rightarrow> string \<Rightarrow> bool" where
  "closes_fence marker l \<longleftrightarrow> fence_marker l \<noteq> None \<and> has_prefix (trim_space l) marker"

theorem fenced_code_copied:
  assumes "fence_marker l = Some marker" and "\<And>k. k \<in> set ls \<Longrightarrow> \<not> closes_fence marker k" and "closes_fence marker c"
  shows "wrap_lines n None (l # ls @ c # rest) = l # ls @ c # wrap_lines n None rest"
proof -
  have "wrap_lines n (Some marker) (ls @ c # rest) = ls @ c # wrap_lines n None rest"
    using assms(2)
  proof (induction ls)
    case Nil
    then show ?case using assms(3) by (simp add: closes_fence_def)
  next
    case (Cons k ls)
    have "\<not> closes_fence marker k" using Cons.prems by simp
    moreover have "wrap_lines n (Some marker) (ls @ c # rest) = ls @ c # wrap_lines n None rest"
      by (rule Cons.IH) (simp add: Cons.prems)
    ultimately show ?case by (auto simp: closes_fence_def)
  qed
  with assms(1) show ?thesis by simp
qed

theorem verbatim_lines_copied:
  assumes "\<And>l. l \<in> set ls \<Longrightarrow> verbatim l \<and> fence_marker l = None"
  shows "wrap_lines n None (ls @ rest) = ls @ wrap_lines n None rest"
  using assms by (induction ls) auto

text \<open>In ASCII without quotations, wrapping moves white space only.\<close>

definition blank :: "char \<Rightarrow> bool" where
  "blank c \<longleftrightarrow> is_space (code c)"

definition visible :: "string \<Rightarrow> string" where
  "visible s = filter (\<lambda>c. \<not> blank c) s"

lemma visible_simps [simp]:
  "visible [] = []" "visible (s @ t) = visible s @ visible t" "visible (c # s) = (if blank c then visible s else c # visible s)"
  by (simp_all add: visible_def)

lemma visible_Nil: "(\<And>c. c \<in> set s \<Longrightarrow> blank c) \<Longrightarrow> visible s = []"
  by (auto simp: visible_def)

lemma blank_regex_space: "regex_space c \<Longrightarrow> blank c"
  by (auto simp: regex_space_def blank_def is_space_def in_range_def)

lemma visible_takeWhile: "(\<And>c. p c \<Longrightarrow> blank c) \<Longrightarrow> visible (takeWhile p s) = []"
  by (rule visible_Nil) (auto dest: set_takeWhileD)

lemma visible_dropWhile: "(\<And>c. p c \<Longrightarrow> blank c) \<Longrightarrow> visible (dropWhile p s) = visible s"
  by (induction s) auto

lemma visible_trim: "is_ascii s \<Longrightarrow> visible (trim_space s) = visible s"
proof -
  assume "is_ascii s"
  have rev: "visible (rev xs) = rev (visible xs)" for xs by (simp add: visible_def rev_filter)
  show ?thesis
    by (simp add: trim_space_ascii [OF \<open>is_ascii s\<close>] trim_by_def rev visible_dropWhile blank_def)
qed

lemma visible_join: "visible (join [c] ws) = concat (map visible ws)" if "blank c"
  using that by (induction "[c]" ws rule: join.induct) auto

lemma visible_concat: "visible (concat ws) = concat (map visible ws)"
  by (induction ws) simp_all

lemma blank_space: "blank (CHR '' '')" "blank CHR 0x0A"
  by code_simp+

lemma visible_tokens: "visible (concat (tokenize s)) = visible s"
proof -
  have split: "visible t = filter (\<lambda>c. \<not> blank c) (filter (\<lambda>c. c \<noteq> CHR '' '') t)" for t
    using blank_space by (auto simp: visible_def intro!: filter_cong)
  show ?thesis unfolding split tokenize_def by (simp only: tokenize_loop_content append_Nil)
qed

lemma visible_wrap_text:
  assumes "visible rp = []"
  shows "visible (concat (wrap_text s fp rp n)) = visible fp @ visible s"
proof (cases "tokenize s")
  case Nil
  have "visible (trim_right_spaces fp) = visible fp"
    by (simp add: trim_right_spaces_def visible_def rev_filter [symmetric])
      (metis (mono_tags, lifting) blank_space(1) rev_filter rev_rev_ident visible_def visible_dropWhile)
  with visible_tokens [of s] show ?thesis by (simp add: wrap_text_def Nil)
next
  case (Cons t ts)
  with wrap_text_lines(1) [of s fp rp n] obtain g gs where
    "wrap_text s fp rp n = (fp @ join '' '' g) # map (\<lambda>g. rp @ join '' '' g) gs" "concat (g # gs) = tokenize s"
    by (metis list.collapse list.distinct(1))
  moreover have "visible (concat (map (\<lambda>g. rp @ join '' '' g) gs)) = visible (concat (concat gs))"
    by (induction gs) (simp_all add: assms visible_join blank_space visible_concat)
  ultimately show ?thesis using visible_tokens [of s]
    by (simp add: visible_join blank_space visible_concat) (metis concat.simps(2) concat_append map_append visible_concat)
qed

lemma list_marker_prefix: "list_marker s = Some m \<Longrightarrow> \<exists>u. s = m @ u"
proof -
  assume m: "list_marker s = Some m"
  show ?thesis
  proof (cases "s \<noteq> [] \<and> hd s \<in> set ''-*+''")
    case True
    then have "m = [hd s]" using m by (simp add: list_marker_def)
    with True show ?thesis by (cases s) auto
  next
    case False
    then have "m = takeWhile is_digit s @ ''.''" "has_prefix (drop (length (takeWhile is_digit s)) s) ''.''"
      using m by (simp_all add: list_marker_def Let_def split: if_split_asm)
    then obtain u where m: "m = takeWhile is_digit s @ ''.''" "dropWhile is_digit s = ''.'' @ u"
      by (auto simp: has_prefix_iff dropWhile_eq_drop [symmetric])
    then have "s = m @ u" by (metis append_assoc takeWhile_dropWhile_id)
    then show ?thesis ..
  qed
qed

lemma list_item_parts:
  assumes "list_item l = Some (indent, marker, gap, rest)"
  shows "indent @ marker @ gap @ rest = l"
proof -
  obtain m where m: "list_marker (skip_space l) = Some m"
    using assms by (auto simp: list_item_def Let_def split: option.split_asm)
  from list_marker_prefix [OF this] obtain u where u: "skip_space l = m @ u" by blast
  have "indent = takeWhile regex_space l" "marker = m" "gap = takeWhile regex_space u" "rest = drop (length gap) u"
    using assms m by (auto simp: list_item_def Let_def u split: if_split_asm)
  moreover have "l = takeWhile regex_space l @ skip_space l" by (simp add: skip_space_def)
  moreover have "takeWhile regex_space u @ drop (length (takeWhile regex_space u)) u = u"
    by (simp add: dropWhile_eq_drop [symmetric])
  ultimately show ?thesis using u by (metis append_assoc)
qed

lemma visible_drop_prefix: "visible (takeWhile regex_space l) = []"
  by (rule visible_takeWhile) (rule blank_regex_space)

lemma visible_trimmed: "(\<And>k. k \<in> set ls \<Longrightarrow> is_ascii k) \<Longrightarrow> concat (map visible (map trim_space ls)) = visible (concat ls)"
  by (induction ls) (simp_all add: visible_trim)

lemma visible_wrap_prose:
  assumes "\<And>k. k \<in> set block \<Longrightarrow> is_ascii k" and "block \<noteq> []"
  shows "visible (concat (wrap_prose n block)) = visible (concat block)"
proof -
  obtain l ls where block: "block = l # ls" using assms(2) by (cases block) auto
  show ?thesis
  proof (cases "list_item l")
    case None
    have "concat (map visible (map trim_space block)) = visible (concat block)"
      by (rule visible_trimmed) (rule assms(1))
    then show ?thesis
      by (simp add: wrap_prose_def block None Let_def visible_wrap_text visible_drop_prefix visible_join blank_space)
  next
    case (Some item)
    obtain indent marker gap rest where item: "item = (indent, marker, gap, rest)" by (cases item)
    have "concat (map visible (map trim_space ls)) = visible (concat ls)"
      by (rule visible_trimmed) (simp add: assms(1) block)
    moreover have "visible (replicate m CHR '' '') = []" for m
      by (rule visible_Nil) (simp add: blank_space)
    moreover have "visible indent @ visible marker @ visible gap @ visible rest = visible l"
      using list_item_parts [OF Some [unfolded item]] by (metis visible_simps(2))
    ultimately show ?thesis
      by (simp add: wrap_prose_def block Some item Let_def visible_wrap_text visible_join blank_space)
  qed
qed

lemma visible_wrap_lines:
  assumes "\<And>l. l \<in> set ls \<Longrightarrow> is_ascii l \<and> \<not> is_blockquote l"
  shows "visible (concat (wrap_lines n fence ls)) = visible (concat ls)"
  using assms
proof (induction n fence ls rule: wrap_lines.induct)
  case (3 n l ls)
  have sub: "set (takeWhile continues ls) \<subseteq> set ls" "set (dropWhile continues ls) \<subseteq> set ls"
    by (auto dest: set_takeWhileD set_dropWhileD)
  show ?case
  proof (cases "fence_marker l \<noteq> None \<or> verbatim l")
    case True
    with 3(1,2) 3(5) show ?thesis by auto
  next
    case False
    have "visible (concat (wrap_lines n None (dropWhile continues ls))) = visible (concat (dropWhile continues ls))"
      by (rule 3(4)) (use False 3(5) sub in auto)
    moreover have "visible (concat (wrap_prose n (l # takeWhile continues ls))) = visible (concat (l # takeWhile continues ls))"
      by (rule visible_wrap_prose) (use 3(5) sub in auto)
    moreover have "visible (concat (takeWhile continues ls)) @ visible (concat (dropWhile continues ls)) = visible (concat ls)"
      by (metis concat_append takeWhile_dropWhile_id visible_simps(2))
    ultimately show ?thesis using False 3(5) [of l] by simp
  qed
qed simp_all

theorem document_text_kept:
  assumes "is_ascii source" and "\<And>l. l \<in> set (split_on CHR 0x0A source) \<Longrightarrow> \<not> is_blockquote l"
  shows "visible (wrap_document source n) = visible source"
proof -
  have "visible (wrap_document source n) = visible (concat (wrap_lines n None (split_on CHR 0x0A source)))"
    by (simp add: wrap_document_def visible_join blank_space visible_concat)
  also have "\<dots> = visible (concat (split_on CHR 0x0A source))"
    by (rule visible_wrap_lines) (use assms set_split_on [of _ "CHR 0x0A" source] in \<open>auto simp: is_ascii_iff\<close>)
  also have "\<dots> = visible (join [CHR 0x0A] (split_on CHR 0x0A source))"
    by (simp add: visible_join blank_space visible_concat)
  finally show ?thesis by (simp add: join_split_on)
qed

section \<open>Breaks that change meaning\<close>

text \<open>
  The tokens of a line are not read as Markdown. A token that is a list marker or a run of hashes, moved to
  the start of a line, makes a list item or a heading of the prose, and wrapping the result again changes it.
\<close>

section \<open>Breaks that change meaning\<close>

text \<open>
  The tokens of a line are not read as Markdown. A token that is a list marker or a run of hashes, moved to
  the start of a line, makes a list item or a heading of the prose, and wrapping the result again changes it.
\<close>

lemma rune_count_ascii: "is_ascii s \<Longrightarrow> rune_count s = length s"
  by (simp add: rune_count_def runes_ascii)

lemmas line_kinds = verbatim_def continues_def is_table_def is_heading_def is_link_definition_def is_html_def is_alert_def
  is_blockquote_def is_indented_code_def fence_marker_def skip_space_def list_item_def list_marker_def regex_space_def
  has_prefix_def is_digit_def trim_space_ascii trim_by_def is_space_def in_range_def

definition item_prose :: string where
  "item_prose = ''aaaa 1. bb cc''"

definition item_wrapped :: string where
  "item_wrapped = ''aaaa'' @ [CHR 0x0A] @ ''1. bb'' @ [CHR 0x0A] @ ''cc''"

definition heading_prose :: string where
  "heading_prose = ''aaaa # bb''"

lemma tokenize_words:
  "tokenize ''aaaa 1. bb cc'' = [''aaaa'', ''1.'', ''bb'', ''cc'']" "tokenize ''bb cc'' = [''bb'', ''cc'']"
  "tokenize ''aaaa'' = [''aaaa'']" "tokenize ''aaaa # bb'' = [''aaaa'', ''#'', ''bb'']"
  by (simp_all add: tokenize_def tokenize_loop_simps)

lemma prose_line: "wrap_lines n None [l] = wrap_text (trim_space l) (takeWhile regex_space l) (takeWhile regex_space l) n"
  if "\<not> verbatim l" "fence_marker l = None" "\<not> is_blockquote l" "list_item l = None"
  using that by (simp add: wrap_prose_def Let_def)

theorem wrapping_makes_list_item:
  "wrap_document item_prose 6 = item_wrapped" "list_item item_prose = None" "list_item ''1. bb'' \<noteq> None"
proof -
  show none: "list_item item_prose = None" by (simp add: item_prose_def line_kinds)
  show "list_item ''1. bb'' \<noteq> None" by (simp add: line_kinds)
  have "wrap_lines 6 None [item_prose] = [''aaaa'', ''1. bb'', ''cc'']"
    by (subst prose_line)
      (use none in \<open>simp_all add: item_prose_def line_kinds wrap_text_def tokenize_words rune_count_ascii\<close>)
  then show "wrap_document item_prose 6 = item_wrapped"
    by (simp add: wrap_document_def item_wrapped_def item_prose_def)
qed

theorem wrapping_is_not_idempotent: "wrap_document item_wrapped 6 \<noteq> item_wrapped"
proof -
  have lines: "split_on CHR 0x0A item_wrapped = [''aaaa'', ''1. bb'', ''cc'']" by (simp add: item_wrapped_def)
  have kinds: "\<not> verbatim ''aaaa''" "fence_marker ''aaaa'' = None" "\<not> is_blockquote ''aaaa''" "\<not> continues ''1. bb''"
    "\<not> verbatim ''1. bb''" "fence_marker ''1. bb'' = None" "\<not> is_blockquote ''1. bb''" "continues ''cc''"
    by (simp_all add: line_kinds)
  have "wrap_prose 6 [''aaaa''] = [''aaaa'']" "wrap_prose 6 [''1. bb'', ''cc''] = [''1. bb'', ''   cc'']"
    by (simp_all add: wrap_prose_def line_kinds wrap_text_def tokenize_words rune_count_ascii)
  then have "wrap_lines 6 None [''aaaa'', ''1. bb'', ''cc''] = [''aaaa'', ''1. bb'', ''   cc'']"
    by (simp add: kinds)
  then show ?thesis by (simp add: wrap_document_def lines) (simp add: item_wrapped_def)
qed

theorem wrapping_makes_heading:
  "wrap_document heading_prose 5 = ''aaaa'' @ [CHR 0x0A] @ ''# bb''" "verbatim heading_prose = False" "is_heading ''# bb''"
proof -
  show prose: "verbatim heading_prose = False" by (simp add: heading_prose_def line_kinds)
  show "is_heading ''# bb''" by (simp add: line_kinds)
  have "wrap_lines 5 None [heading_prose] = [''aaaa'', ''# bb'']"
    by (subst prose_line)
      (use prose in \<open>simp_all add: heading_prose_def line_kinds wrap_text_def tokenize_words rune_count_ascii\<close>)
  then show "wrap_document heading_prose 5 = ''aaaa'' @ [CHR 0x0A] @ ''# bb''"
    by (simp add: wrap_document_def heading_prose_def)
qed

section \<open>The check\<close>

text \<open>With \<open>-l\<close> nothing is written, and the paths that are printed are the files wrapping changes.\<close>

theorem list_mode:
  assumes "wf_list fl" and "wrap_files fl fs = (as, changed, failed)"
  shows "PrintPath p \<in> set as \<longleftrightarrow> (\<exists>f \<in> set fs. \<exists>s. wd_path f = p \<and> wd_read f = Inr s \<and> wrap_document s (wf_width fl) \<noteq> s)"
    and "WriteText p s \<notin> set as"
    and "changed \<longleftrightarrow> (\<exists>p. PrintPath p \<in> set as)"
    and "failed \<longleftrightarrow> (\<exists>f \<in> set fs. \<exists>e. wd_read f = Inl e)"
  using assms
  by (induction fs arbitrary: as changed failed)
    (auto simp: wrap_file_step_def Let_def split: prod.splits sum.splits if_split_asm)

end
