(* ===== verification/Go_Archive.thy ===== *)
theory Go_Archive
  imports Go_Crypto
begin

text \<open>
  The parts of \<open>archive/tar\<close> and \<open>compress/gzip\<close> that the release builder writes: USTAR headers of regular files
  with short names, and the gzip container around a compressed text. A reader of such archives states what the writer means.
\<close>

unbundle bit_operations_syntax

section \<open>Fields\<close>

fun octal_digits :: "nat \<Rightarrow> nat \<Rightarrow> bytes" where
  "octal_digits 0 v = []"
| "octal_digits (Suc k) v = octal_digits k (v div 8) @ [word_of_nat (48 + v mod 8)]"

text \<open>A field of \<open>w\<close> bytes: digits with zeros before them, ended by a zero byte.\<close>

definition octal_field :: "nat \<Rightarrow> nat \<Rightarrow> bytes" where
  "octal_field w v = octal_digits (w - 1) v @ [0]"

definition octal_fits :: "nat \<Rightarrow> nat \<Rightarrow> bool" where
  "octal_fits w v \<longleftrightarrow> v < 8 ^ (w - 1)"

definition octal_value :: "bytes \<Rightarrow> nat" where
  "octal_value bs = foldl (\<lambda>v b. 8 * v + (unat b - 48)) 0 bs"

definition text_field :: "nat \<Rightarrow> string \<Rightarrow> bytes" where
  "text_field w s = bytes_of_string s @ replicate (w - length s) 0"

section \<open>USTAR\<close>

record tar_file =
  tar_name :: string
  tar_mode :: nat
  tar_mtime :: nat
  tar_data :: bytes

text \<open>The fields before the checksum and after it; owner and group are root, and there is no device.\<close>

definition tar_head :: "tar_file \<Rightarrow> bytes" where
  "tar_head f = text_field 100 (tar_name f) @ octal_field 8 (tar_mode f) @ octal_field 8 0 @ octal_field 8 0
     @ octal_field 12 (length (tar_data f)) @ octal_field 12 (tar_mtime f)"

definition tar_tail :: bytes where
  "tar_tail = bytes_of_string ''0'' @ replicate 100 0 @ bytes_of_string ''ustar'' @ [0] @ bytes_of_string ''00''
     @ text_field 32 ''root'' @ text_field 32 ''root'' @ octal_field 8 0 @ octal_field 8 0 @ replicate 167 0"

definition byte_sum :: "bytes \<Rightarrow> nat" where
  "byte_sum bs = sum_list (map unat bs)"

text \<open>The checksum is the sum of the header with spaces in its place; its field ends in a zero byte and a space.\<close>

definition tar_checksum :: "bytes \<Rightarrow> bytes \<Rightarrow> nat" where
  "tar_checksum before after = byte_sum (before @ replicate 8 32 @ after)"

definition tar_block :: "tar_file \<Rightarrow> bytes" where
  "tar_block f = tar_head f @ octal_field 7 (tar_checksum (tar_head f) tar_tail) @ [32] @ tar_tail"

text \<open>\<open>WriteHeader\<close> with the format USTAR refuses what its fields cannot hold.\<close>

definition tar_header :: "tar_file \<Rightarrow> bytes option" where
  "tar_header f =
     (if length (tar_name f) \<le> 100 \<and> is_ascii (tar_name f) \<and> octal_fits 8 (tar_mode f)
         \<and> octal_fits 12 (length (tar_data f)) \<and> octal_fits 12 (tar_mtime f)
      then Some (tar_block f) else None)"

definition tar_padding :: "nat \<Rightarrow> bytes" where
  "tar_padding n = replicate ((512 - n mod 512) mod 512) 0"

definition tar_entry :: "tar_file \<Rightarrow> bytes" where
  "tar_entry f = tar_block f @ tar_data f @ tar_padding (length (tar_data f))"

definition tar_archive :: "tar_file list \<Rightarrow> bytes" where
  "tar_archive fs = concat (map tar_entry fs) @ replicate 1024 0"

section \<open>The gzip container\<close>

fun crc_bits :: "nat \<Rightarrow> 32 word \<Rightarrow> 32 word" where
  "crc_bits 0 c = c"
| "crc_bits (Suc n) c = crc_bits n (if bit c 0 then drop_bit 1 c XOR 0xEDB88320 else drop_bit 1 c)"

definition crc32 :: "bytes \<Rightarrow> 32 word" where
  "crc32 bs = NOT (foldl (\<lambda>c b. crc_bits 8 (c XOR ucast b)) (NOT 0) bs)"

definition le_uint32 :: "32 word \<Rightarrow> bytes" where
  "le_uint32 v = rev (put_uint32 v)"

text \<open>
  No name, no time, the best compression and an unknown system. The compression is an argument.
\<close>

definition gzip_header :: bytes where
  "gzip_header = [0x1F, 0x8B, 8, 0, 0, 0, 0, 0, 2, 255]"

definition gzip_stream :: "(bytes \<Rightarrow> bytes) \<Rightarrow> bytes \<Rightarrow> bytes" where
  "gzip_stream deflate bs = gzip_header @ deflate bs @ le_uint32 (crc32 bs) @ le_uint32 (word_of_nat (length bs))"

section \<open>Reading an archive\<close>

definition untar_block :: "bytes \<Rightarrow> (string \<times> nat \<times> nat \<times> nat) option" where
  "untar_block h =
     (let before = take 148 h; after = drop 156 h in
      if octal_value (take 6 (drop 148 h)) \<noteq> tar_checksum before after then None
      else Some (string_of_bytes (takeWhile (\<lambda>b. b \<noteq> 0) (take 100 h)), octal_value (take 7 (drop 100 h)),
        octal_value (take 11 (drop 124 h)), octal_value (take 11 (drop 136 h))))"

fun untar :: "nat \<Rightarrow> bytes \<Rightarrow> tar_file list option" where
  "untar 0 bs = None"
| "untar (Suc n) bs =
     (if length bs < 512 then None
      else if list_all (\<lambda>b. b = 0) (take 512 bs) then Some []
      else case untar_block (take 512 bs) of
        None \<Rightarrow> None
      | Some (name, mode, count, mtime) \<Rightarrow>
          if length bs < 512 + count then None
          else map_option ((#) \<lparr>tar_name = name, tar_mode = mode, tar_mtime = mtime, tar_data = take count (drop 512 bs)\<rparr>)
            (untar n (drop (512 + count + length (tar_padding count)) bs)))"

section \<open>What is written is read\<close>

lemma length_octal_digits [simp]: "length (octal_digits k v) = k"
  by (induction k arbitrary: v) simp_all

lemma length_fields [simp]:
  "0 < w \<Longrightarrow> length (octal_field w v) = w"
  "length s \<le> w \<Longrightarrow> length (text_field w s) = w"
  by (simp_all add: octal_field_def text_field_def)

lemma octal_value_digits: "octal_value (octal_digits k v) = v mod 8 ^ k"
proof (induction k arbitrary: v)
  case (Suc k)
  have "unat (word_of_nat (48 + v mod 8) :: 8 word) = 48 + v mod 8"
    proof -
    have "48 + v mod 8 < 2 ^ 8" using mod_less_divisor [of 8 v] by simp
    then show ?thesis by (simp only: unat_of_nat) (rule mod_less, simp)
  qed
  with Suc.IH [of "v div 8"] have "octal_value (octal_digits (Suc k) v) = 8 * (v div 8 mod 8 ^ k) + v mod 8"
    by (simp add: octal_value_def)
  also have "\<dots> = v mod (8 * 8 ^ k)" by (simp add: mod_mult2_eq)
  finally show ?case by simp
qed (simp add: octal_value_def)

lemma octal_value_field: "octal_fits w v \<Longrightarrow> octal_value (octal_digits (w - 1) v) = v"
  by (simp add: octal_value_digits octal_fits_def)

lemma length_tar_tail: "length tar_tail = 356"
  by (simp add: tar_tail_def)

lemma length_tar_head: "length (tar_name f) \<le> 100 \<Longrightarrow> length (tar_head f) = 148"
  by (simp add: tar_head_def)

lemma length_tar_block: "length (tar_name f) \<le> 100 \<Longrightarrow> length (tar_block f) = 512"
  by (simp add: tar_block_def length_tar_head length_tar_tail)

lemma byte_sum_bound: "byte_sum bs \<le> 255 * length bs"
proof (induction bs)
  case (Cons b bs)
  have "unat b \<le> 255" using unsigned_less [of b, where ?'a = nat] by simp
  with Cons show ?case by (simp add: byte_sum_def)
qed (simp add: byte_sum_def)

lemma checksum_fits: "length (tar_name f) \<le> 100 \<Longrightarrow> octal_fits 7 (tar_checksum (tar_head f) tar_tail)"
  using byte_sum_bound [of "tar_head f @ replicate 8 32 @ tar_tail"]
  by (simp add: octal_fits_def tar_checksum_def length_tar_head length_tar_tail)

lemma checksum_field: "octal_field 7 v = octal_digits 6 v @ [0]"
  by (simp add: octal_field_def)

lemma char_of_byte_zero: "char_of_byte 0 = CHR 0x00"
  by code_simp

lemma name_of_field:
  assumes "is_ascii s" and "CHR 0x00 \<notin> set s"
  shows "takeWhile (\<lambda>b. b \<noteq> 0) (text_field w s) = bytes_of_string s"
proof -
  have "byte_of_char c \<noteq> 0" if "c \<in> set s" for c
    using that assms(2) by (metis char_of_byte_zero char_of_byte_of_char)
  then have "takeWhile (\<lambda>b. b \<noteq> 0) (map byte_of_char s @ zs) = map byte_of_char s @ takeWhile (\<lambda>b. b \<noteq> 0) zs" for zs
    by (induction s) auto
  then show ?thesis by (simp add: text_field_def bytes_of_string_def takeWhile_replicate)
qed

lemma untar_block_written:
  assumes "tar_header f = Some h" and "CHR 0x00 \<notin> set (tar_name f)"
  shows "untar_block h = Some (tar_name f, tar_mode f, length (tar_data f), tar_mtime f)"
proof -
  have fits: "length (tar_name f) \<le> 100" "is_ascii (tar_name f)" "octal_fits 8 (tar_mode f)"
    "octal_fits 12 (length (tar_data f))" "octal_fits 12 (tar_mtime f)" and h: "h = tar_block f"
    using assms(1) by (simp_all add: tar_header_def split: if_split_asm)
  let ?sum = "tar_checksum (tar_head f) tar_tail"
  have h': "h = tar_head f @ octal_digits 6 ?sum @ ([0, 32] @ tar_tail)"
    by (simp add: h tar_block_def checksum_field)
  have parts: "take 148 h = tar_head f" "drop 156 h = tar_tail" "take 6 (drop 148 h) = octal_digits 6 ?sum"
    using length_tar_head [OF fits(1)] by (simp_all add: h')
  have head: "take 100 h = text_field 100 (tar_name f)" "take 7 (drop 100 h) = octal_digits 7 (tar_mode f)"
    "take 11 (drop 124 h) = octal_digits 11 (length (tar_data f))" "take 11 (drop 136 h) = octal_digits 11 (tar_mtime f)"
    using fits(1) by (simp_all add: h' tar_head_def octal_field_def)
  show ?thesis
    using octal_value_field [OF checksum_fits [OF fits(1)]] octal_value_field [OF fits(3)]
      octal_value_field [OF fits(4)] octal_value_field [OF fits(5)]
    by (simp add: untar_block_def parts head name_of_field fits(2) assms(2))
qed

text \<open>A header is never zero: the magic is in it.\<close>

lemma block_not_zero: "tar_header f = Some h \<Longrightarrow> \<not> list_all (\<lambda>b. b = 0) h"
  by (auto simp: tar_header_def tar_block_def split: if_split_asm)

theorem untar_archive:
  assumes "\<And>f. f \<in> set fs \<Longrightarrow> tar_header f \<noteq> None \<and> CHR 0x00 \<notin> set (tar_name f)"
  shows "untar (Suc (length fs)) (tar_archive fs) = Some fs"
  using assms
proof (induction fs)
  case Nil
  show ?case by (simp add: tar_archive_def list_all_iff)
next
  case (Cons f fs)
  obtain h where h: "tar_header f = Some h" "CHR 0x00 \<notin> set (tar_name f)" using Cons.prems [of f] by auto
  then have block: "h = tar_block f" "length h = 512"
    using length_tar_block [of f] by (auto simp: tar_header_def split: if_split_asm)
  let ?rest = "tar_data f @ tar_padding (length (tar_data f)) @ tar_archive fs"
  have archive: "tar_archive (f # fs) = h @ ?rest" by (simp add: tar_archive_def tar_entry_def block(1))
  have rest: "drop (512 + length (tar_data f) + length (tar_padding (length (tar_data f)))) (h @ ?rest) = tar_archive fs"
    using block(2) by simp
  have IH: "untar (Suc (length fs)) (tar_archive fs) = Some fs" using Cons by simp
  show ?case
    using block_not_zero [OF h(1)] IH rest block(2) untar_block_written [OF h]
    by (simp add: archive del: untar.simps) (subst untar.simps, simp)
qed

end
