(* ===== verification/Go_Path.thy ===== *)
theory Go_Path
  imports Go_Strings
begin

text \<open>
  The operations of \<open>path/filepath\<close> the tools call, where the separator is a slash: \<open>Clean\<close>, \<open>Join\<close>, \<open>Dir\<close>,
  \<open>Base\<close> and \<open>Ext\<close>.
\<close>

section \<open>Paths\<close>

text \<open>One element of a path, on the elements already kept, the last one first.\<close>

definition clean_element :: "bool \<Rightarrow> string \<Rightarrow> string list \<Rightarrow> string list" where
  "clean_element rooted e kept =
     (if e = [] \<or> e = ''.'' then kept
      else if e = ''..'' then
        (case kept of
           [] \<Rightarrow> if rooted then [] else [e]
         | k # ks \<Rightarrow> if k = ''..'' then e # kept else ks)
      else e # kept)"

definition clean_elements :: "bool \<Rightarrow> string list \<Rightarrow> string list" where
  "clean_elements rooted es = rev (fold (clean_element rooted) es [])"

definition path_rooted :: "string \<Rightarrow> bool" where
  "path_rooted p = has_prefix p ''/''"

definition path_clean :: "string \<Rightarrow> string" where
  "path_clean p =
     (let out = (if path_rooted p then ''/'' else []) @ join ''/'' (clean_elements (path_rooted p) (split_on CHR ''/'' p))
      in if out = [] then ''.'' else out)"

text \<open>The first element that is not empty and all after it.\<close>

definition path_join :: "string list \<Rightarrow> string" where
  "path_join es = (case dropWhile (\<lambda>e. e = []) es of [] \<Rightarrow> [] | fs \<Rightarrow> path_clean (join ''/'' fs))"

definition not_slash :: "char \<Rightarrow> bool" where
  "not_slash c \<longleftrightarrow> c \<noteq> CHR ''/''"

definition path_dir :: "string \<Rightarrow> string" where
  "path_dir p = path_clean (rev (dropWhile not_slash (rev p)))"

definition path_base :: "string \<Rightarrow> string" where
  "path_base p =
     (if p = [] then ''.''
      else let last_element = rev (takeWhile not_slash (dropWhile (\<lambda>c. \<not> not_slash c) (rev p)))
        in if last_element = [] then ''/'' else last_element)"

definition path_ext :: "string \<Rightarrow> string" where
  "path_ext p =
     (let tail = rev (takeWhile not_slash (rev p)) in
      if CHR ''.'' \<in> set tail then CHR ''.'' # rev (takeWhile (\<lambda>c. c \<noteq> CHR ''.'') (rev tail)) else [])"

section \<open>Clean paths\<close>

definition plain_element :: "string \<Rightarrow> bool" where
  "plain_element e \<longleftrightarrow> e \<noteq> [] \<and> e \<noteq> ''.'' \<and> e \<noteq> ''..'' \<and> CHR ''/'' \<notin> set e"

text \<open>What \<open>Clean\<close> keeps, the last element first: plain elements over parent elements, which a rooted path has none of.\<close>

definition kept_ok :: "bool \<Rightarrow> string list \<Rightarrow> bool" where
  "kept_ok rooted ks \<longleftrightarrow> (\<exists>as n. ks = as @ replicate n ''..'' \<and> list_all plain_element as \<and> (rooted \<longrightarrow> n = 0))"

lemma parent_not_plain [simp]: "\<not> plain_element ''..''" "\<not> plain_element []" "\<not> plain_element ''.''"
  by (simp_all add: plain_element_def)

lemma clean_element_kept:
  assumes "kept_ok rooted ks" and "CHR ''/'' \<notin> set e"
  shows "kept_ok rooted (clean_element rooted e ks)"
proof -
  obtain as n where ks: "ks = as @ replicate n ''..''" "list_all plain_element as" "rooted \<longrightarrow> n = 0"
    using assms(1) by (auto simp: kept_ok_def)
  consider (skip) "e = [] \<or> e = ''.''" | (parent) "e = ''..''" | (plain) "plain_element e"
    using assms(2) by (auto simp: plain_element_def)
  then show ?thesis
  proof cases
    case skip
    then show ?thesis using assms(1) by (auto simp: clean_element_def)
  next
    case plain
    then have "clean_element rooted e ks = (e # as) @ replicate n ''..''"
      by (auto simp: clean_element_def plain_element_def ks(1))
    then show ?thesis unfolding kept_ok_def using plain ks(2,3) by (intro exI [of _ "e # as"] exI [of _ n]) simp
  next
    case parent
    show ?thesis
    proof (cases as)
      case Nil
      then have "clean_element rooted e ks = [] @ replicate (if rooted then 0 else Suc n) ''..''"
        using ks parent by (cases n) (auto simp: clean_element_def)
      then show ?thesis unfolding kept_ok_def
        by (intro exI [of _ "[]"] exI [of _ "if rooted then 0 else Suc n"]) simp
    next
      case (Cons a bs)
      then have "clean_element rooted e ks = bs @ replicate n ''..''" using ks parent by (auto simp: clean_element_def)
      then show ?thesis unfolding kept_ok_def using Cons ks by auto
    qed
  qed
qed

lemma clean_elements_ok:
  assumes "\<And>e. e \<in> set es \<Longrightarrow> CHR ''/'' \<notin> set e"
  shows "kept_ok rooted (rev (clean_elements rooted es))"
proof -
  have "kept_ok rooted ks \<Longrightarrow> kept_ok rooted (fold (clean_element rooted) es ks)" for ks
    using assms by (induction es arbitrary: ks) (simp_all add: clean_element_kept)
  moreover have "kept_ok rooted []" by (simp add: kept_ok_def)
  ultimately show ?thesis by (simp add: clean_elements_def)
qed

lemma clean_kept:
  assumes "kept_ok rooted (rev es)"
  shows "clean_elements rooted es = es"
proof -
  obtain as n where es: "rev es = as @ replicate n ''..''" "list_all plain_element as" "rooted \<longrightarrow> n = 0"
    using assms by (auto simp: kept_ok_def)
  then have "es = replicate n ''..'' @ rev as" by (metis rev_append rev_replicate rev_rev_ident)
  moreover have "fold (clean_element rooted) (replicate m ''..'') (replicate k ''..'') = replicate (m + k) ''..''" if "\<not> rooted" for m k
  proof (induction m arbitrary: k)
    case (Suc m)
    have "clean_element rooted ''..'' (replicate k ''..'') = replicate (Suc k) ''..''"
      using that by (cases k) (simp_all add: clean_element_def)
    with Suc.IH [of "Suc k"] show ?case by simp
  qed simp
  from this [of n 0] have "fold (clean_element rooted) (replicate n ''..'') [] = replicate n ''..''"
    using es(3) by (cases rooted) simp_all
  moreover have "fold (clean_element rooted) bs ks = rev bs @ ks" if "list_all plain_element bs" for bs ks
    using that by (induction bs arbitrary: ks) (auto simp: clean_element_def plain_element_def)
  ultimately show ?thesis using es(2) by (simp add: clean_elements_def list_all_rev)
qed

lemma kept_no_slash: "kept_ok rooted (rev es) \<Longrightarrow> e \<in> set es \<Longrightarrow> CHR ''/'' \<notin> set e \<and> e \<noteq> []"
proof -
  assume "kept_ok rooted (rev es)" "e \<in> set es"
  then obtain as n where as: "rev es = as @ replicate n ''..''" "list_all plain_element as" by (auto simp: kept_ok_def)
  have "e \<in> set (rev es)" using \<open>e \<in> set es\<close> by simp
  then have "e \<in> set as \<or> e = ''..''" unfolding as(1) by (auto dest: in_set_replicate [THEN iffD1])
  then show ?thesis
  proof
    assume "e \<in> set as"
    with as(2) have "plain_element e" by (simp add: list_all_iff)
    then show ?thesis by (simp add: plain_element_def)
  qed simp
qed

text \<open>The elements of the path that the elements of a clean path spell.\<close>

lemma join_not_rooted:
  assumes "\<And>e. e \<in> set es \<Longrightarrow> CHR ''/'' \<notin> set e \<and> e \<noteq> []"
  shows "\<not> path_rooted (join ''/'' es)"
proof (cases es)
  case (Cons e fs)
  then obtain c u where "e = c # u" "c \<noteq> CHR ''/''" using assms [of e] by (cases e) auto
  then show ?thesis using Cons by (cases fs) (simp_all add: path_rooted_def has_prefix_def)
qed (simp add: path_rooted_def has_prefix_def)

lemma clean_spelled:
  assumes "kept_ok rooted (rev es)" and "p = (if rooted then ''/'' else []) @ join ''/'' es" and "p \<noteq> []"
  shows "path_clean p = p"
proof -
  have rooted: "path_rooted p = rooted"
  proof (cases rooted)
    case True
    then show ?thesis using assms(2) by (simp add: path_rooted_def has_prefix_def)
  next
    case False
    have "\<not> path_rooted (join ''/'' es)" by (rule join_not_rooted) (rule kept_no_slash [OF assms(1)])
    with False assms(2) show ?thesis by simp
  qed
  have elements: "clean_elements rooted (split_on CHR ''/'' (join ''/'' es)) = es"
  proof (cases "es = []")
    case True
    then show ?thesis by (simp add: clean_elements_def clean_element_def)
  next
    case False
    then show ?thesis using split_on_join [of es "CHR ''/''"] kept_no_slash [OF assms(1)] clean_kept [OF assms(1)] by simp
  qed
  have "clean_elements rooted ([] # fs) = clean_elements rooted fs" for fs
    by (simp add: clean_elements_def clean_element_def)
  then have "clean_elements rooted (split_on CHR ''/'' p) = es"
    using elements assms(2) by (cases rooted) simp_all
  then show ?thesis using assms(2,3) rooted by (simp add: path_clean_def)
qed

lemma split_kept: "kept_ok rooted (rev (clean_elements rooted (split_on CHR ''/'' p)))"
  by (rule clean_elements_ok) (rule split_on_no_sep)

lemma path_clean_cases:
  fixes p :: string
  defines "es \<equiv> clean_elements (path_rooted p) (split_on CHR ''/'' p)"
  defines "out \<equiv> (if path_rooted p then ''/'' else []) @ join ''/'' es"
  obtains "path_clean p = ''.''" "out = []" | "path_clean p = out" "out \<noteq> []"
proof -
  have "path_clean p = (if out = [] then ''.'' else out)" by (simp only: path_clean_def Let_def out_def es_def)
  then show ?thesis using that by (cases "out = []") simp_all
qed

theorem path_clean_idempotent: "path_clean (path_clean p) = path_clean p"
proof (cases p rule: path_clean_cases)
  case 1
  have "path_clean ''.'' = ''.''" by code_simp
  with 1(1) show ?thesis by simp
next
  case 2
  from clean_spelled [OF split_kept refl 2(2)] show ?thesis by (simp only: 2(1))
qed

section \<open>A file in a directory\<close>

text \<open>A plain name under a directory is the last element of the path: two names give two paths.\<close>

lemma clean_snoc: "plain_element n \<Longrightarrow> clean_elements rooted (es @ [n]) = clean_elements rooted es @ [n]"
  by (auto simp: clean_elements_def clean_element_def plain_element_def)

lemma base_of_last: "plain_element n \<Longrightarrow> pre = [] \<or> last pre = CHR ''/'' \<Longrightarrow> path_base (pre @ n) = n"
proof -
  assume n: "plain_element n" and pre: "pre = [] \<or> last pre = CHR ''/''"
  have "dropWhile (\<lambda>c. \<not> not_slash c) (rev n @ rev pre) = rev n @ rev pre"
    using n by (cases n rule: rev_cases) (auto simp: plain_element_def not_slash_def)
  moreover have "takeWhile not_slash (rev n @ rev pre) = rev n"
    using n pre by (cases pre rule: rev_cases) (auto simp: plain_element_def not_slash_def takeWhile_append)
  ultimately show ?thesis using n by (simp add: path_base_def plain_element_def)
qed

lemma join_snoc: "es \<noteq> [] \<Longrightarrow> join sep (es @ [n]) = join sep es @ sep @ n"
  by (induction sep es rule: join.induct) (auto simp: join_Cons)

theorem path_base_join:
  assumes "plain_element n"
  shows "path_base (path_join [d, n]) = n"
proof -
  have n: "n \<noteq> []" "CHR ''/'' \<notin> set n" using assms by (simp_all add: plain_element_def)
  define p where "p = (if d = [] then n else d @ ''/'' @ n)"
  define es where "es = (if d = [] then [] else split_on CHR ''/'' d)"
  have p: "path_join [d, n] = path_clean p" using n by (simp add: path_join_def p_def)
  have "split_on CHR ''/'' p = es @ [n]"
    using split_on_append [of "CHR ''/''" d n] by (simp add: p_def es_def split_on_free n(2))
  then have "clean_elements (path_rooted p) (split_on CHR ''/'' p) = clean_elements (path_rooted p) es @ [n]"
    by (simp add: clean_snoc assms)
  then have "\<exists>pre. path_clean p = pre @ n \<and> (pre = [] \<or> last pre = CHR ''/'')"
    using n(1) by (cases "clean_elements (path_rooted p) es = []")
      (auto simp: path_clean_def Let_def join_snoc intro: exI [of _ "''/'' @ join ''/'' (clean_elements (path_rooted p) es) @ ''/''"]
        exI [of _ "join ''/'' (clean_elements (path_rooted p) es) @ ''/''"])
  with p base_of_last [OF assms] show ?thesis by metis
qed

lemma path_join_inj: "plain_element n \<Longrightarrow> plain_element m \<Longrightarrow> path_join [d, n] = path_join [d, m] \<longleftrightarrow> n = m"
  by (metis path_base_join)

end
