(* ===== verification/Version_Bump.thy ===== *)
theory Version_Bump
  imports Go_Flag Go_Path "HOL-Library.Product_Lexorder"
begin

text \<open>
  \<open>tools/versionbump/main.go\<close>: the next version, and the three files it is written to. The files that are
  read, the temporary files and the date are arguments; every call on the file system is an action of the result.
\<close>

section \<open>Versions\<close>

record semantic_version =
  sv_major :: "64 word"
  sv_minor :: "64 word"
  sv_patch :: "64 word"

datatype version_error =
    NotStable | ComponentTooLarge | MajorTooLarge | MinorTooLarge | PatchTooLarge
  | InvalidVersion string version_error | NotNewer semantic_version semantic_version

type_synonym 'a versioned = "(version_error, 'a) result"

text \<open>One component of \<open>stableVersionPattern\<close>: zero, or digits that do not start with it.\<close>

definition stable_component :: "string \<Rightarrow> bool" where
  "stable_component s \<longleftrightarrow> s = ''0'' \<or> s \<noteq> [] \<and> list_all is_digit s \<and> hd s \<noteq> CHR ''0''"

definition parse_component :: "string \<Rightarrow> 64 word versioned" where
  "parse_component s = (if 2 ^ 64 \<le> decimal s then err ComponentTooLarge else ok (word_of_nat (decimal s)))"

definition parse_version :: "string \<Rightarrow> semantic_version versioned" where
  "parse_version value =
     (case split_on CHR ''.'' value of
        [a, b, c] \<Rightarrow>
          if \<not> stable_component a \<or> \<not> stable_component b \<or> \<not> stable_component c then err NotStable
          else bind_result (parse_component a) (\<lambda>major. bind_result (parse_component b) (\<lambda>minor.
               bind_result (parse_component c) (\<lambda>patch.
                 ok \<lparr>sv_major = major, sv_minor = minor, sv_patch = patch\<rparr>)))
      | _ \<Rightarrow> err NotStable)"

definition version_string :: "semantic_version \<Rightarrow> string" where
  "version_string v = itoa (unat (sv_major v)) @ ''.'' @ itoa (unat (sv_minor v)) @ ''.'' @ itoa (unat (sv_patch v))"

fun compare_pairs :: "(64 word \<times> 64 word) list \<Rightarrow> int" where
  "compare_pairs [] = 0"
| "compare_pairs ((a, b) # ps) = (if a < b then -1 else if b < a then 1 else compare_pairs ps)"

definition version_compare :: "semantic_version \<Rightarrow> semantic_version \<Rightarrow> int" where
  "version_compare v w = compare_pairs [(sv_major v, sv_major w), (sv_minor v, sv_minor w), (sv_patch v, sv_patch w)]"

definition next_version :: "semantic_version \<Rightarrow> string \<Rightarrow> semantic_version versioned" where
  "next_version current requested =
     (if requested = ''major'' then
        (if sv_major current = NOT 0 then err MajorTooLarge
         else ok \<lparr>sv_major = sv_major current + 1, sv_minor = 0, sv_patch = 0\<rparr>)
      else if requested = ''minor'' then
        (if sv_minor current = NOT 0 then err MinorTooLarge
         else ok \<lparr>sv_major = sv_major current, sv_minor = sv_minor current + 1, sv_patch = 0\<rparr>)
      else if requested = ''patch'' then
        (if sv_patch current = NOT 0 then err PatchTooLarge
         else ok \<lparr>sv_major = sv_major current, sv_minor = sv_minor current, sv_patch = sv_patch current + 1\<rparr>)
      else bind_result (map_err (InvalidVersion requested) (parse_version requested)) (\<lambda>next'.
        if version_compare next' current \<le> 0 then err (NotNewer next' current) else ok next'))"

section \<open>The edits of the files\<close>

text \<open>\<open>strings.Cut\<close> at the first occurrence of a text, and \<open>strings.Count\<close> of a text that is not empty.\<close>

fun cut_text :: "string \<Rightarrow> string \<Rightarrow> (string \<times> string) option" where
  "cut_text sub s =
     (if has_prefix s sub then Some ([], drop (length sub) s)
      else case s of [] \<Rightarrow> None
        | c # s' \<Rightarrow> (case cut_text sub s' of None \<Rightarrow> None | Some (a, b) \<Rightarrow> Some (c # a, b)))"

declare cut_text.simps [simp del]

lemma cut_text_Some: "cut_text sub s = Some (a, b) \<Longrightarrow> s = a @ sub @ b"
proof (induction sub s arbitrary: a b rule: cut_text.induct)
  case (1 sub s)
  show ?case
  proof (cases "has_prefix s sub")
    case True
    with 1(2) show ?thesis by (subst (asm) cut_text.simps) (auto simp: has_prefix_iff)
  next
    case False
    with 1(2) obtain c s' a' where s: "s = c # s'" "cut_text sub s' = Some (a', b)" "a = c # a'"
      by (subst (asm) cut_text.simps) (auto split: list.split_asm option.split_asm)
    from 1(1) [OF False s(1,2)] s show ?thesis by simp
  qed
qed

function count_text :: "string \<Rightarrow> string \<Rightarrow> nat" where
  "count_text sub s =
     (if sub = [] then length s + 1
      else case cut_text sub s of None \<Rightarrow> 0 | Some (_, rest) \<Rightarrow> Suc (count_text sub rest))"
  by pat_completeness auto
termination
  by (relation "measure (\<lambda>(sub, s). length s)") (auto dest!: cut_text_Some)

declare count_text.simps [simp del]

datatype edit_error = NotOnce string | NoUnreleasedHeading

definition replace_exactly_once :: "string \<Rightarrow> string \<Rightarrow> string \<Rightarrow> (edit_error, string) result" where
  "replace_exactly_once value old replacement =
     (if count_text old value \<noteq> 1 then err (NotOnce old)
      else case cut_text old value of None \<Rightarrow> ok value | Some (a, b) \<Rightarrow> ok (a @ replacement @ b))"

text \<open>
  The lines \<open>unreleasedHeadingPattern\<close> matches: the heading, plain or in brackets, then with a link of
  at least one character that is no closing parenthesis.
\<close>

definition unreleased_heading :: "string \<Rightarrow> bool" where
  "unreleased_heading l \<longleftrightarrow> l = ''## Unreleased'' \<or> l = ''## [Unreleased]''
     \<or> (let rest = drop 16 l; link = butlast rest in
           has_prefix l ''## [Unreleased]('' \<and> rest \<noteq> [] \<and> last rest = CHR '')'' \<and> link \<noteq> [] \<and> CHR '')'' \<notin> set link)"

text \<open>The text of the changelog around its only heading: before its line, and from the end of its line on.\<close>

definition split_changelog :: "string \<Rightarrow> (string \<times> string) option" where
  "split_changelog changelog =
     (let ls = split_on CHR 0x0A changelog in
      case filter (\<lambda>i. unreleased_heading (ls ! i)) [0..<length ls] of
        [i] \<Rightarrow> Some (concat (map (\<lambda>l. l @ [CHR 0x0A]) (take i ls)), concat (map (\<lambda>l. CHR 0x0A # l) (drop (Suc i) ls)))
      | _ \<Rightarrow> None)"

definition release_changelog :: "string \<Rightarrow> string \<Rightarrow> string \<Rightarrow> (edit_error, string) result" where
  "release_changelog changelog new_version date =
     (case split_changelog changelog of
        None \<Rightarrow> err NoUnreleasedHeading
      | Some (before, after) \<Rightarrow>
          let mark = CHR 0x0A # ''## ['';
              (raw, rest) = (case cut_text mark after of None \<Rightarrow> (after, []) | Some (a, b) \<Rightarrow> (a, mark @ b));
              body = trim_space raw;
              gap = [CHR 0x0A, CHR 0x0A]
          in ok (before @ ''## [Unreleased]'' @ gap @ ''## ['' @ new_version @ ''] - '' @ date
                 @ (if body \<noteq> [] then gap @ body else []) @ [CHR 0x0A] @ rest))"

section \<open>Writing\<close>

datatype file_action =
    CreateTemp string | ChmodTemp | WriteTemp string | CloseTemp | RenameTemp string | RemoveTemp

text \<open>What each call on the temporary file of one path reports.\<close>

record temp_file =
  tf_create :: "string option"
  tf_chmod :: "string option"
  tf_write :: "string option"
  tf_close :: "string option"
  tf_rename :: "string option"

datatype write_error = CreateFault string | ChmodFault string | WriteFault string | CloseFault string | RenameFault string

text \<open>The deferred removal runs on every path once the file exists; after the rename it finds nothing.\<close>

definition write_file :: "temp_file \<Rightarrow> string \<Rightarrow> string \<Rightarrow> write_error option \<times> file_action list" where
  "write_file t path data =
     (case tf_create t of
        Some e \<Rightarrow> (Some (CreateFault e), [CreateTemp (path_dir path)])
      | None \<Rightarrow>
     (case tf_chmod t of
        Some e \<Rightarrow> (Some (ChmodFault e), [CreateTemp (path_dir path), ChmodTemp, CloseTemp, RemoveTemp])
      | None \<Rightarrow>
     (case tf_write t of
        Some e \<Rightarrow> (Some (WriteFault e), [CreateTemp (path_dir path), ChmodTemp, WriteTemp data, CloseTemp, RemoveTemp])
      | None \<Rightarrow>
     (case tf_close t of
        Some e \<Rightarrow> (Some (CloseFault e), [CreateTemp (path_dir path), ChmodTemp, WriteTemp data, CloseTemp, RemoveTemp])
      | None \<Rightarrow>
          (map_option RenameFault (tf_rename t),
           [CreateTemp (path_dir path), ChmodTemp, WriteTemp data, CloseTemp, RenameTemp path, RemoveTemp])))))"

fun write_updates :: "(string \<Rightarrow> temp_file) \<Rightarrow> (string \<times> string) list \<Rightarrow> write_error option \<times> file_action list" where
  "write_updates t [] = (None, [])"
| "write_updates t ((path, data) # us) =
     (case write_file (t path) path data of
        (Some e, as) \<Rightarrow> (Some e, as)
      | (None, as) \<Rightarrow> (case write_updates t us of (r, bs) \<Rightarrow> (r, as @ bs)))"

datatype bump_error =
    ReadFault string | VersionFile string version_error | BadRequest version_error
  | SourceEdit edit_error | ChangelogEdit edit_error | WriteFailed write_error

record bump_env =
  be_read :: "string \<Rightarrow> string + string"
  be_temp :: "string \<Rightarrow> temp_file"
  be_date :: string

definition source_declaration :: "string \<Rightarrow> string" where
  "source_declaration v = ''const sourceVersion = '' @ [CHR ''\"''] @ ''v'' @ v @ [CHR ''\"'']"

definition read_source :: "bump_env \<Rightarrow> string \<Rightarrow> (bump_error, string) result" where
  "read_source env path = (case be_read env path of Inl e \<Rightarrow> err (ReadFault e) | Inr s \<Rightarrow> ok s)"

text \<open>\<open>bump\<close> up to its writes: the versions and what is written where.\<close>

definition plan_bump :: "bump_env \<Rightarrow> string \<Rightarrow> string \<Rightarrow> (bump_error, string \<times> string \<times> (string \<times> string) list) result" where
  "plan_bump env root requested =
     (let version_path = path_join [root, ''VERSION''];
          source_path = path_join [root, ''cmd'', ''dproxy'', ''version.go''];
          changelog_path = path_join [root, ''CHANGELOG.md'']
      in bind_result (read_source env version_path) (\<lambda>contents.
         let old = trim_space contents in
         bind_result (map_err (VersionFile old) (parse_version old)) (\<lambda>current.
         bind_result (map_err BadRequest (next_version current requested)) (\<lambda>next'.
         let new = version_string next' in
         bind_result (read_source env source_path) (\<lambda>source.
         bind_result (map_err SourceEdit (replace_exactly_once source (source_declaration old) (source_declaration new))) (\<lambda>source'.
         bind_result (read_source env changelog_path) (\<lambda>changelog.
         bind_result (map_err ChangelogEdit (release_changelog changelog new (be_date env))) (\<lambda>changelog'.
           ok (old, new, [(version_path, new @ [CHR 0x0A]), (source_path, source'), (changelog_path, changelog')])))))))))"

definition bump :: "bump_env \<Rightarrow> string \<Rightarrow> string \<Rightarrow> (bump_error, string \<times> string) result \<times> file_action list" where
  "bump env root requested =
     (case plan_bump env root requested of
        Inl e \<Rightarrow> (Inl e, [])
      | Inr (old, new, updates) \<Rightarrow>
          (case write_updates (be_temp env) updates of
             (Some e, as) \<Rightarrow> (err (WriteFailed e), as)
           | (None, as) \<Rightarrow> (ok (old, new), as)))"

text \<open>\<open>main\<close>: \<open>ExitOnError\<close> ends the program on a flag that does not parse. The status is with the line that is printed.\<close>

datatype bump_output = BumpUsage | BumpFailed bump_error | Bumped string string

definition versionbump_main :: "bump_env \<Rightarrow> string list \<Rightarrow> (unit, (bump_output \<times> nat) \<times> file_action list) result" where
  "versionbump_main env args =
     bind_result (register_flags [string_var (\<lambda>v _. v) ''root'' ''.''] (new_flag_set [])) (\<lambda>fs.
       case flag_parse args fs of
         (Some HelpAsked, _) \<Rightarrow> ok ((BumpUsage, 0), [])
       | (Some _, _) \<Rightarrow> ok ((BumpUsage, 2), [])
       | (None, fs') \<Rightarrow>
           (case fs_args fs' of
              [requested] \<Rightarrow>
                (case bump env (fs_options fs') requested of
                   (Inl Panic, as) \<Rightarrow> panic
                 | (Inl (Err e), as) \<Rightarrow> ok ((BumpFailed e, 1), as)
                 | (Inr (old, new), as) \<Rightarrow> ok ((Bumped old new, 0), as))
            | _ \<Rightarrow> ok ((BumpUsage, 2), [])))"

section \<open>Versions parse, print and grow\<close>

lemma digit_char_zero: "d < 10 \<Longrightarrow> digit_char d = CHR ''0'' \<longleftrightarrow> d = 0"
proof -
  assume "d < 10"
  then have "code (digit_char d) = 48 + d" "code (digit_char 0) = 48" by simp_all
  moreover have "digit_char 0 = CHR ''0''" by code_simp
  ultimately show ?thesis by (metis add_cancel_right_right)
qed

lemma stable_itoa: "stable_component (itoa n)"
proof -
  have "itoa m \<noteq> [] \<and> (m \<noteq> 0 \<longrightarrow> hd (itoa m) \<noteq> CHR ''0'')" for m
  proof (induction m rule: itoa.induct)
    case (1 m)
    then show ?case by (subst itoa.simps, subst (2) itoa.simps) (auto simp: digit_char_zero)
  qed
  moreover have "itoa 0 = ''0''" by code_simp
  ultimately show ?thesis
    by (cases "n = 0") (auto simp: stable_component_def list_all_iff itoa_digits)
qed

lemma no_dot_itoa: "CHR ''.'' \<notin> set (itoa n)"
  by (auto dest!: itoa_digits simp: is_digit_def in_range_def)

lemma split_version: "split_on CHR ''.'' (version_string v) =
    [itoa (unat (sv_major v)), itoa (unat (sv_minor v)), itoa (unat (sv_patch v))]"
  using no_dot_itoa by (simp add: version_string_def split_on_append split_on_free)

theorem version_round_trip: "parse_version (version_string v) = ok v"
proof -
  have "parse_component (itoa (unat w)) = ok w" for w :: "64 word"
    proof -
    have "unat w < 2 ^ LENGTH(64)" by (rule unsigned_less)
    then show ?thesis by (simp add: parse_component_def)
  qed
  then show ?thesis by (simp add: parse_version_def split_version stable_itoa)
qed

definition version_key :: "semantic_version \<Rightarrow> 64 word \<times> 64 word \<times> 64 word" where
  "version_key v = (sv_major v, sv_minor v, sv_patch v)"

lemma version_compare_key:
  "version_compare v w = (if version_key v < version_key w then -1 else if version_key w < version_key v then 1 else 0)"
proof -
  note keys = version_compare_def version_key_def
  show ?thesis
    by (cases "sv_major v" "sv_major w" rule: linorder_cases; cases "sv_minor v" "sv_minor w" rule: linorder_cases;
        cases "sv_patch v" "sv_patch w" rule: linorder_cases) (simp_all add: keys)
qed

text \<open>No request makes a version that is not newer: not even at the last value of a component.\<close>

lemma word_less_succ: "w \<noteq> NOT 0 \<Longrightarrow> w < w + (1 :: 64 word)"
proof -
  assume "w \<noteq> NOT 0"
  then have "1 + w \<noteq> 0" using max_word_wrap [of w] by (auto simp: add.commute)
  from unatSuc [OF this] show "w < w + 1" by (simp add: word_less_nat_alt add.commute)
qed

theorem next_version_is_newer:
  "next_version current requested = ok v \<Longrightarrow> version_key current < version_key v"
  using word_less_succ
  by (auto simp: next_version_def version_compare_key version_key_def bind_result_eq_ok split: if_split_asm)

section \<open>The edits\<close>

text \<open>The declaration is replaced where it stands, and nothing else changes.\<close>

lemma replace_exactly_once_ok:
  assumes "replace_exactly_once t old new = ok t'" and "old \<noteq> []"
  obtains a b where "t = a @ old @ b" and "t' = a @ new @ b"
proof -
  from assms obtain a b where "cut_text old t = Some (a, b)" "t' = a @ new @ b"
    by (auto simp: replace_exactly_once_def count_text.simps [of old t]
        split: if_split_asm option.split_asm)
  with cut_text_Some that show thesis by blast
qed

lemma split_on_concat:
  "concat (map (\<lambda>l. l @ [sep]) xs) @ y @ concat (map (\<lambda>l. sep # l) ys) = join [sep] (xs @ y # ys)"
proof -
  have t: "y @ concat (map (\<lambda>l. sep # l) ys) = join [sep] (y # ys)" for y
  proof (induction ys arbitrary: y)
    case (Cons a ys)
    then show ?case using join_Cons [of "a # ys" "[sep]" y] by (simp del: join.simps) (simp add: Cons [symmetric])
  qed simp
  show ?thesis by (induction xs) (auto simp: join_Cons t)
qed

lemma split_changelog_parts:
  assumes "split_changelog changelog = Some (before, after)"
  obtains heading where "unreleased_heading heading" and "changelog = before @ heading @ after"
proof -
  let ?ls = "split_on CHR 0x0A changelog"
  from assms obtain i where i: "filter (\<lambda>i. unreleased_heading (?ls ! i)) [0..<length ?ls] = [i]"
    and parts: "before = concat (map (\<lambda>l. l @ [CHR 0x0A]) (take i ?ls))" "after = concat (map (\<lambda>l. CHR 0x0A # l) (drop (Suc i) ?ls))"
    by (auto simp: split_changelog_def Let_def split: list.split_asm)
  from i have "i \<in> set (filter (\<lambda>i. unreleased_heading (?ls ! i)) [0..<length ?ls])" by simp
  then have h: "i < length ?ls" "unreleased_heading (?ls ! i)" by auto
  have "before @ ?ls ! i @ after = join [CHR 0x0A] ?ls"
    unfolding parts split_on_concat by (simp add: id_take_nth_drop [OF h(1), symmetric])
  with h(2) that show thesis by (simp add: join_split_on)
qed

text \<open>
  A release keeps every byte before the heading and from the release before on; between them it puts an
  empty heading for what comes next and the new one over the trimmed body.
\<close>

theorem release_keeps_the_rest:
  assumes "release_changelog changelog version date = ok changelog'"
  shows "\<exists>before heading raw rest. unreleased_heading heading \<and> changelog = before @ heading @ raw @ rest
    \<and> (rest = [] \<or> has_prefix rest (CHR 0x0A # ''## [''))
    \<and> has_prefix changelog' (before @ ''## [Unreleased]'') \<and> has_suffix changelog' (CHR 0x0A # rest)
    \<and> contains changelog' (''## ['' @ version @ ''] - '' @ date @ (if trim_space raw = [] then [] else [CHR 0x0A, CHR 0x0A] @ trim_space raw))"
proof -
  from assms obtain before after where s: "split_changelog changelog = Some (before, after)"
    by (auto simp: release_changelog_def split: option.split_asm)
  from split_changelog_parts [OF s] obtain heading where h: "unreleased_heading heading" "changelog = before @ heading @ after" .
  let ?mark = "CHR 0x0A # ''## [''"
  obtain raw rest where r: "(case cut_text ?mark after of None \<Rightarrow> (after, []) | Some (a, b) \<Rightarrow> (a, ?mark @ b)) = (raw, rest)"
    by fastforce
  then have after: "after = raw @ rest" "rest = [] \<or> has_prefix rest ?mark"
    using cut_text_Some [of ?mark after] by (auto simp: has_prefix_iff split: option.split_asm)
  let ?new = "''## ['' @ version @ ''] - '' @ date @ (if trim_space raw = [] then [] else [CHR 0x0A, CHR 0x0A] @ trim_space raw)"
  from assms have out: "changelog' = before @ ''## [Unreleased]'' @ [CHR 0x0A, CHR 0x0A] @ ?new @ [CHR 0x0A] @ rest"
    by (auto simp: release_changelog_def s r Let_def)
  have "contains changelog' ?new"
    unfolding out contains_iff by (intro exI [of _ "before @ ''## [Unreleased]'' @ [CHR 0x0A, CHR 0x0A]"] exI [of _ "[CHR 0x0A] @ rest"]) simp
  moreover have "has_prefix changelog' (before @ ''## [Unreleased]'')" unfolding out has_prefix_iff by simp
  moreover have "has_suffix changelog' (CHR 0x0A # rest)" unfolding out has_suffix_iff by simp
  ultimately show ?thesis using h after by blast
qed

section \<open>A bump writes all or nothing it did not plan\<close>

lemma write_file_renames:
  assumes "write_file t path data = (r, as)"
  shows "RenameTemp p \<in> set as \<Longrightarrow> p = path \<and> WriteTemp data \<in> set as"
    and "r = None \<Longrightarrow> RenameTemp path \<in> set as"
    and "CreateTemp (path_dir path) \<in> set as" and "ChmodTemp \<in> set as \<Longrightarrow> last as = RemoveTemp"
  using assms by (auto simp: write_file_def split: option.split_asm)

text \<open>The updates are written in their order, and the first failure ends them.\<close>

lemma write_updates_all:
  assumes "write_updates t us = (None, as)" and "p \<in> fst ` set us"
  shows "RenameTemp p \<in> set as"
  using assms
proof (induction us arbitrary: as)
  case (Cons u us)
  obtain path data where u: "u = (path, data)" by (cases u)
  with Cons.prems(1) obtain as1 as2 where w: "write_file (t path) path data = (None, as1)" "write_updates t us = (None, as2)"
    "as = as1 @ as2" by (auto split: prod.split_asm option.split_asm)
  with Cons.IH [OF w(2)] write_file_renames(2) [OF w(1)] Cons.prems(2) u show ?case by auto
qed simp

lemma write_updates_only:
  "write_updates t us = (r, as) \<Longrightarrow> RenameTemp p \<in> set as \<Longrightarrow> p \<in> fst ` set us"
proof (induction us arbitrary: as)
  case (Cons u us)
  obtain path data where u: "u = (path, data)" by (cases u)
  obtain r1 as1 where w: "write_file (t path) path data = (r1, as1)" by fastforce
  show ?case
  proof (cases "r1 = None")
    case True
    with Cons.prems(1) w u obtain as2 where "write_updates t us = (r, as2)" "as = as1 @ as2"
      by (auto split: prod.split_asm)
    with Cons.IH [OF this(1)] Cons.prems(2) write_file_renames(1) [OF w] u show ?thesis by auto
  next
    case False
    with Cons.prems w u write_file_renames(1) [OF w] show ?thesis by auto
  qed
qed simp

lemma plan_bump_ok:
  assumes "plan_bump env root requested = ok (old, new, us)"
  shows "\<exists>v w. parse_version old = ok v \<and> next_version v requested = ok w \<and> new = version_string w"
    and "map fst us = [path_join [root, ''VERSION''], path_join [root, ''cmd'', ''dproxy'', ''version.go''],
           path_join [root, ''CHANGELOG.md'']]"
    and "hd us = (path_join [root, ''VERSION''], new @ [CHR 0x0A])"
  using assms by (auto simp: plan_bump_def Let_def bind_result_eq_ok)

text \<open>
  A bump that succeeds moves to a newer version, which its own parser reads back, and replaces each of the
  three files; one that fails before its writes has touched nothing, and no bump replaces any other file.
\<close>

theorem bump_moves_forward:
  assumes "bump env root requested = (r, as)"
  defines "files \<equiv> {path_join [root, ''VERSION''], path_join [root, ''cmd'', ''dproxy'', ''version.go''],
    path_join [root, ''CHANGELOG.md'']}"
  shows "r = ok (old, new) \<Longrightarrow> \<exists>v w. parse_version old = ok v \<and> parse_version new = ok w \<and> version_key v < version_key w
      \<and> (\<forall>p \<in> files. RenameTemp p \<in> set as)"
    and "(\<forall>e. r \<noteq> err (WriteFailed e)) \<Longrightarrow> \<not> is_ok r \<Longrightarrow> as = []"
    and "RenameTemp p \<in> set as \<Longrightarrow> p \<in> files"
proof -
  have files: "files = fst ` set us" if "plan_bump env root requested = ok (o', n, us)" for o' n us
    unfolding files_def set_map [symmetric] plan_bump_ok(2) [OF that] by simp
  show "\<exists>v w. parse_version old = ok v \<and> parse_version new = ok w \<and> version_key v < version_key w
      \<and> (\<forall>p \<in> files. RenameTemp p \<in> set as)" if "r = ok (old, new)"
  proof -
    from assms(1) that obtain us where us: "plan_bump env root requested = ok (old, new, us)"
      "write_updates (be_temp env) us = (None, as)"
      by (auto simp: bump_def split: sum.split_asm prod.split_asm option.split_asm)
    from plan_bump_ok(1) [OF us(1)] next_version_is_newer version_round_trip write_updates_all [OF us(2)]
    show ?thesis unfolding files [OF us(1)] by blast
  qed
  show "as = []" if "\<forall>e. r \<noteq> err (WriteFailed e)" "\<not> is_ok r"
    using assms(1) that by (auto simp: bump_def split: sum.split_asm prod.split_asm option.split_asm)
  show "p \<in> files" if "RenameTemp p \<in> set as"
  proof (cases "plan_bump env root requested")
    case (Inl e)
    with assms(1) that show ?thesis by (simp add: bump_def)
  next
    case (Inr q)
    obtain o' n us where q: "q = (o', n, us)" by (cases q)
    with assms(1) Inr obtain r' where "write_updates (be_temp env) us = (r', as)"
      by (auto simp: bump_def split: prod.split_asm option.split_asm)
    from write_updates_only [OF this that] files Inr q show ?thesis by simp
  qed
qed

end
