(* ===== verification/Release_Builder.thy ===== *)
theory Release_Builder
  imports Go_Archive Version_Bump
begin

text \<open>
  \<open>tools/releasebuilder/main.go\<close>: the tag and targets of a release, and the calls that build its files. Each
  call on the system is recorded in a trace; a schedule says which of them fail. The files are a map from paths
  to contents; the compiler, the compression and what a failed write leaves behind are arguments.
\<close>

section \<open>Tags and targets\<close>

definition tag_char :: "char \<Rightarrow> bool" where
  "tag_char c \<longleftrightarrow> is_digit c \<or> in_range 65 90 (code c) \<or> in_range 97 122 (code c) \<or> c = CHR ''.'' \<or> c = CHR ''-''"

definition tag_suffix :: "string \<Rightarrow> bool" where
  "tag_suffix s \<longleftrightarrow> s = [] \<or> drop 1 s \<noteq> [] \<and> list_all tag_char (drop 1 s)"

text \<open>\<open>versionPattern\<close>: three numbers, then a part after a hyphen and a part after a plus, both optional.\<close>

definition release_tag :: "string \<Rightarrow> bool" where
  "release_tag s \<longleftrightarrow> has_prefix s ''v'' \<and>
     (let core = takeWhile (\<lambda>c. c \<noteq> CHR ''-'' \<and> c \<noteq> CHR ''+'') (drop 1 s); suffix = drop (length core) (drop 1 s);
          pre = takeWhile (\<lambda>c. c \<noteq> CHR ''+'') suffix; parts = split_on CHR ''.'' core
      in length parts = 3 \<and> list_all stable_component parts \<and> tag_suffix pre \<and> tag_suffix (drop (length pre) suffix))"

type_synonym target = "string \<times> string"

datatype target_error = InvalidTarget string | DuplicateTarget string | NoTarget

fun parse_target_list :: "target list \<Rightarrow> string list \<Rightarrow> (target_error, target list) result" where
  "parse_target_list seen [] = ok []"
| "parse_target_list seen (p # ps) =
     (case split_on CHR ''/'' (trim_space p) of
        [goos, goarch] \<Rightarrow>
          if goos = [] \<or> goarch = [] then err (InvalidTarget p)
          else if (goos, goarch) \<in> set seen then err (DuplicateTarget p)
          else bind_result (parse_target_list ((goos, goarch) # seen) ps) (\<lambda>ts. ok ((goos, goarch) # ts))
      | _ \<Rightarrow> err (InvalidTarget p))"

definition parse_targets :: "string \<Rightarrow> (target_error, target list) result" where
  "parse_targets value' =
     bind_result (parse_target_list [] (split_on CHR '','' value')) (\<lambda>ts. if ts = [] then err NoTarget else ok ts)"

definition default_targets :: string where
  "default_targets = ''darwin/arm64,darwin/amd64,linux/arm64,linux/amd64,windows/arm64,windows/amd64''"

definition executable_name :: "target \<Rightarrow> string" where
  "executable_name t = (if fst t = ''windows'' then ''dproxy.exe'' else ''dproxy'')"

definition direct_binary_name :: "target \<Rightarrow> string" where
  "direct_binary_name t = ''dproxy-'' @ fst t @ ''-'' @ snd t @ path_ext (executable_name t)"

definition archive_name :: "string \<Rightarrow> target \<Rightarrow> string" where
  "archive_name tag t = ''dproxy_'' @ tag @ ''_'' @ fst t @ ''_'' @ snd t @ ''.tar.gz''"

text \<open>\<open>ParseInt\<close> with base 10 takes what \<open>atoi\<close> takes.\<close>

definition source_date_epoch :: "string \<Rightarrow> nat option" where
  "source_date_epoch v =
     (if v = [] then Some 0
      else case atoi v of None \<Rightarrow> None | Some n \<Rightarrow> if n < 0 then None else Some (nat n))"

section \<open>The system\<close>

datatype release_call =
    MkdirAll string | MkdirTemp | Absolute string | RunBuild "string list" "string list" | ReadAll string | WriteAll string
  | CreateFile string | WriteTarHeader string | WriteTarData | CloseTar | CloseGzip | CloseFile
  | OpenFile string | CopyInput | CloseInput | WriteLine string | RemoveAll string

datatype release_error = Fault string | Missing string | HeaderTooLarge | Within string release_error

record release_state =
  rl_trace :: "release_call list"
  rl_files :: "string \<Rightarrow> bytes option"

record release_env =
  re_fault :: "nat \<Rightarrow> string option"
  re_work :: string
  re_dir :: string
  re_getenv :: "string \<Rightarrow> string"
  re_environ :: "string list"
  re_build :: "string list \<Rightarrow> string list \<Rightarrow> bytes"
  re_deflate :: "bytes \<Rightarrow> bytes"
  re_partial :: "string \<Rightarrow> bytes option \<Rightarrow> bytes option"

type_synonym 'a release = "release_env \<Rightarrow> release_state \<Rightarrow> (release_error + 'a) \<times> release_state"

definition done_with :: "'a \<Rightarrow> 'a release" where
  "done_with x env st = (Inr x, st)"

definition failed_with :: "release_error \<Rightarrow> 'a release" where
  "failed_with e env st = (Inl e, st)"

definition and_then :: "'a release \<Rightarrow> ('a \<Rightarrow> 'b release) \<Rightarrow> 'b release" where
  "and_then m f env st = (case m env st of (Inl e, st') \<Rightarrow> (Inl e, st') | (Inr x, st') \<Rightarrow> f x env st')"

definition within :: "string \<Rightarrow> 'a release \<Rightarrow> 'a release" where
  "within what m env st = (case m env st of (Inl e, st') \<Rightarrow> (Inl (Within what e), st') | (Inr x, st') \<Rightarrow> (Inr x, st'))"

text \<open>One call: it is recorded, and fails when the schedule says so.\<close>

definition os_call :: "release_call \<Rightarrow> unit release" where
  "os_call c env st =
     (case re_fault env (length (rl_trace st)) of
        Some e \<Rightarrow> (Inl (Fault e), st\<lparr>rl_trace := rl_trace st @ [c]\<rparr>)
      | None \<Rightarrow> (Inr (), st\<lparr>rl_trace := rl_trace st @ [c]\<rparr>))"

text \<open>The deferred removal of a directory runs on every path; what it reports is dropped.\<close>

definition remove_all :: "string \<Rightarrow> unit release" where
  "remove_all dir env st =
     (case os_call (RemoveAll dir) env st of
        (Inl e, st') \<Rightarrow> (Inl e, st')
      | (Inr _, st') \<Rightarrow> (Inr (), st'\<lparr>rl_files := (\<lambda>p. if has_prefix p (dir @ ''/'') then None else rl_files st' p)\<rparr>))"

definition removing :: "string \<Rightarrow> 'a release \<Rightarrow> 'a release" where
  "removing dir m env st = (case m env st of (r, st') \<Rightarrow> (r, snd (remove_all dir env st')))"

text \<open>A deferred \<open>Close\<close> whose error counts when there is no other.\<close>

definition closing :: "unit release \<Rightarrow> unit release" where
  "closing m env st =
     (case m env st of
        (Inl e, st') \<Rightarrow> (Inl e, snd (os_call CloseFile env st'))
      | (Inr _, st') \<Rightarrow> os_call CloseFile env st')"

definition put_file :: "string \<Rightarrow> bytes option \<Rightarrow> unit release" where
  "put_file p bs env st = (Inr (), st\<lparr>rl_files := (rl_files st)(p := bs)\<rparr>)"

definition get_file :: "string \<Rightarrow> bytes release" where
  "get_file p env st = (case rl_files st p of None \<Rightarrow> (Inl (Missing p), st) | Some bs \<Rightarrow> (Inr bs, st))"

text \<open>A call that writes a file: when it fails, the file holds what the failure left.\<close>

definition writing :: "string \<Rightarrow> release_call \<Rightarrow> bytes option \<Rightarrow> unit release" where
  "writing p c bs env st =
     (case os_call c env st of
        (Inl e, st') \<Rightarrow> (Inl e, st'\<lparr>rl_files := (rl_files st')(p := re_partial env p (rl_files st' p))\<rparr>)
      | (Inr _, st') \<Rightarrow> put_file p bs env st')"

definition read_all :: "string \<Rightarrow> bytes release" where
  "read_all p = and_then (os_call (ReadAll p)) (\<lambda>_. get_file p)"

section \<open>Building\<close>

definition build_command :: "release_env \<Rightarrow> string \<Rightarrow> string \<Rightarrow> string list" where
  "build_command env tag out =
     [if re_getenv env ''GO'' = [] then ''go'' else re_getenv env ''GO'', ''build'', ''-trimpath'', ''-buildvcs=false'',
      ''-ldflags'', ''-buildid= -s -w -X main.version='' @ tag, ''-o'', out, ''./cmd/dproxy'']"

definition build_settings :: "release_env \<Rightarrow> target \<Rightarrow> string list" where
  "build_settings env t = re_environ env @ [''CGO_ENABLED=0'', ''GOOS='' @ fst t, ''GOARCH='' @ snd t]"

definition built :: "release_env \<Rightarrow> string \<Rightarrow> target \<Rightarrow> string \<Rightarrow> bytes" where
  "built env tag t out = re_build env (build_command env tag out) (build_settings env t)"

definition build_binary :: "string \<Rightarrow> target \<Rightarrow> string \<Rightarrow> unit release" where
  "build_binary tag t out env =
     within (''build '' @ fst t @ ''/'' @ snd t)
       (writing out (RunBuild (build_command env tag out) (build_settings env t)) (Some (built env tag t out))) env"

record archived_file =
  af_name :: string
  af_path :: string
  af_mode :: nat

text \<open>The entries in their order: header and contents of each file.\<close>

fun write_entries :: "nat \<Rightarrow> archived_file list \<Rightarrow> tar_file list release" where
  "write_entries epoch [] = done_with []"
| "write_entries epoch (f # fs) =
     and_then (read_all (af_path f)) (\<lambda>contents.
     let entry = \<lparr>tar_name = af_name f, tar_mode = af_mode f, tar_mtime = epoch, tar_data = contents\<rparr> in
     and_then (os_call (WriteTarHeader (af_name f))) (\<lambda>_.
     if tar_header entry = None then failed_with HeaderTooLarge
     else and_then (os_call WriteTarData) (\<lambda>_.
          and_then (write_entries epoch fs) (\<lambda>es. done_with (entry # es)))))"

text \<open>What is compressed reaches the file by the last close; until then, and when anything fails, its contents are unknown.\<close>

definition write_archive :: "string \<Rightarrow> archived_file list \<Rightarrow> nat \<Rightarrow> unit release" where
  "write_archive path files epoch env =
     and_then (os_call (CreateFile path)) (\<lambda>_. closing
       (and_then (put_file path (re_partial env path (Some []))) (\<lambda>_.
        and_then (write_entries epoch (sort_key af_name files)) (\<lambda>es.
        and_then (os_call CloseTar) (\<lambda>_.
          writing path CloseGzip (Some (gzip_stream (re_deflate env) (tar_archive es)))))))) env"

definition checksum_line :: "bytes \<Rightarrow> string \<Rightarrow> string" where
  "checksum_line contents artifact = hex_encode (sha256 contents) @ ''  '' @ path_base artifact @ [CHR 0x0A]"

fun checksum_lines :: "string \<Rightarrow> string list \<Rightarrow> unit release" where
  "checksum_lines path [] = done_with ()"
| "checksum_lines path (a # as) =
     and_then (os_call (OpenFile a)) (\<lambda>_.
     and_then (get_file a) (\<lambda>contents.
     and_then (\<lambda>env st. case os_call CopyInput env st of
         (Inl e, st') \<Rightarrow> (Inl e, snd (os_call CloseInput env st'))
       | (Inr _, st') \<Rightarrow> os_call CloseInput env st') (\<lambda>_.
     and_then (get_file path) (\<lambda>sums.
     and_then (writing path (WriteLine (checksum_line contents a))
         (Some (sums @ bytes_of_string (checksum_line contents a)))) (\<lambda>_.
       checksum_lines path as)))))"

definition write_checksums :: "string \<Rightarrow> string list \<Rightarrow> unit release" where
  "write_checksums path artifacts =
     and_then (os_call (CreateFile path)) (\<lambda>_. closing
       (and_then (put_file path (Some [])) (\<lambda>_. checksum_lines path (sort artifacts))))"

definition binary_path :: "string \<Rightarrow> target \<Rightarrow> string" where
  "binary_path work t = path_join [work, fst t @ ''_'' @ snd t, executable_name t]"

definition archive_files :: "string \<Rightarrow> string \<Rightarrow> target \<Rightarrow> archived_file list" where
  "archive_files license binary t =
     [\<lparr>af_name = ''LICENSE'', af_path = license, af_mode = 420\<rparr>,
      \<lparr>af_name = executable_name t, af_path = binary, af_mode = 493\<rparr>]"

definition build_target :: "string \<Rightarrow> string \<Rightarrow> string \<Rightarrow> string \<Rightarrow> nat \<Rightarrow> target \<Rightarrow> string list release" where
  "build_target tag out work license epoch t =
     (let binary = binary_path work t; direct = path_join [out, direct_binary_name t]; path = path_join [out, archive_name tag t] in
      and_then (within ''create target work directory'' (os_call (MkdirAll (path_dir binary)))) (\<lambda>_.
      and_then (build_binary tag t binary) (\<lambda>_.
      and_then (within (''read '' @ direct_binary_name t @ '' binary'') (read_all binary)) (\<lambda>contents.
      and_then (within (''write '' @ direct_binary_name t) (writing direct (WriteAll direct) (Some contents))) (\<lambda>_.
      and_then (within (''write '' @ archive_name tag t) (write_archive path (archive_files license binary t) epoch)) (\<lambda>_.
        done_with [direct, path]))))))"

fun build_targets :: "string \<Rightarrow> string \<Rightarrow> string \<Rightarrow> string \<Rightarrow> nat \<Rightarrow> target list \<Rightarrow> string list release" where
  "build_targets tag out work license epoch [] = done_with []"
| "build_targets tag out work license epoch (t # ts) =
     and_then (build_target tag out work license epoch t) (\<lambda>as.
     and_then (build_targets tag out work license epoch ts) (\<lambda>bs. done_with (as @ bs)))"

definition license_path :: "release_env \<Rightarrow> string" where
  "license_path env = path_join [re_dir env, ''LICENSE'']"

definition build_release :: "string \<Rightarrow> string \<Rightarrow> target list \<Rightarrow> nat \<Rightarrow> unit release" where
  "build_release tag out targets epoch env =
     and_then (within ''create output directory'' (os_call (MkdirAll out))) (\<lambda>_.
     and_then (within ''create work directory'' (os_call MkdirTemp)) (\<lambda>_. removing (re_work env)
       (and_then (within ''resolve LICENSE'' (os_call (Absolute ''LICENSE''))) (\<lambda>_.
        and_then (build_targets tag out (re_work env) (license_path env) epoch targets) (\<lambda>artifacts.
          write_checksums (path_join [out, ''SHA256SUMS'']) artifacts))))) env"

section \<open>The command\<close>

record release_flags =
  rf_tag :: string
  rf_output :: string
  rf_targets :: string

definition release_registrations :: "release_flags registration list" where
  "release_registrations =
     [string_var (\<lambda>v f. f\<lparr>rf_tag := v\<rparr>) ''tag'' [], string_var (\<lambda>v f. f\<lparr>rf_output := v\<rparr>) ''output'' ''dist'',
      string_var (\<lambda>v f. f\<lparr>rf_targets := v\<rparr>) ''targets'' default_targets]"

datatype release_outcome = FlagsRefused | TagRefused string | TargetsRefused target_error | EpochRefused
  | ReleaseFailed release_error | Released

text \<open>\<open>main\<close>: what ends the program, its exit status, and the state it leaves.\<close>

definition release_run :: "release_env \<Rightarrow> release_flags \<Rightarrow> release_state \<Rightarrow> (unit, (release_outcome \<times> nat) \<times> release_state) result" where
  "release_run env f st =
     (if \<not> release_tag (rf_tag f) then ok ((TagRefused (rf_tag f), 1), st)
      else case parse_targets (rf_targets f) of
        Inl Panic \<Rightarrow> panic
      | Inl (Err e) \<Rightarrow> ok ((TargetsRefused e, 1), st)
      | Inr targets \<Rightarrow>
          (case source_date_epoch (re_getenv env ''SOURCE_DATE_EPOCH'') of
             None \<Rightarrow> ok ((EpochRefused, 1), st)
           | Some epoch \<Rightarrow>
               (case build_release (rf_tag f) (rf_output f) targets epoch env st of
                  (Inl e, st') \<Rightarrow> ok ((ReleaseFailed e, 1), st')
                | (Inr _, st') \<Rightarrow> ok ((Released, 0), st'))))"

definition release_main :: "release_env \<Rightarrow> string list \<Rightarrow> release_state \<Rightarrow> (unit, (release_outcome \<times> nat) \<times> release_state) result" where
  "release_main env args st =
     bind_result (register_flags release_registrations (new_flag_set \<lparr>rf_tag = [], rf_output = [], rf_targets = []\<rparr>)) (\<lambda>fs.
       case flag_parse args fs of
         (Some HelpAsked, _) \<Rightarrow> ok ((FlagsRefused, 0), st)
       | (Some _, _) \<Rightarrow> ok ((FlagsRefused, 2), st)
       | (None, fs') \<Rightarrow> release_run env (fs_options fs') st)"

section \<open>Targets and tags\<close>

lemma parse_target_list_ok:
  "parse_target_list seen ps = ok ts \<Longrightarrow> distinct ts \<and> set ts \<inter> set seen = {}
     \<and> (\<forall>(a, b) \<in> set ts. a \<noteq> [] \<and> b \<noteq> [] \<and> CHR ''/'' \<notin> set a \<and> CHR ''/'' \<notin> set b)"
proof (induction seen ps arbitrary: ts rule: parse_target_list.induct)
  case (2 seen p ps)
  from 2(2) obtain a b us where ab: "split_on CHR ''/'' (trim_space p) = [a, b]" "a \<noteq> []" "b \<noteq> []" "(a, b) \<notin> set seen"
    and us: "parse_target_list ((a, b) # seen) ps = ok us" and ts: "ts = (a, b) # us"
    by (auto simp: bind_result_eq_ok split: list.split_asm if_split_asm)
  have "CHR ''/'' \<notin> set a" "CHR ''/'' \<notin> set b"
    using split_on_no_sep [of _ "CHR ''/''" "trim_space p"] ab(1) by auto
  with 2(1) [OF ab(1) refl refl _ ab(4) us] ab(2-4) ts show ?case by auto
qed simp

theorem parse_targets_ok:
  assumes "parse_targets v = ok ts"
  shows "ts \<noteq> []" and "distinct ts"
    and "(a, b) \<in> set ts \<Longrightarrow> a \<noteq> [] \<and> b \<noteq> [] \<and> CHR ''/'' \<notin> set a \<and> CHR ''/'' \<notin> set b"
  using assms parse_target_list_ok [of "[]" _ ts] by (auto simp: parse_targets_def bind_result_eq_ok split: if_split_asm)

text \<open>A list of distinct targets, spelled with commas, is the list that is parsed.\<close>

definition plain_word :: "string \<Rightarrow> bool" where
  "plain_word s \<longleftrightarrow> s \<noteq> [] \<and> is_ascii s \<and> list_all (\<lambda>c. \<not> is_space (code c) \<and> c \<noteq> CHR ''/'' \<and> c \<noteq> CHR '','') s"

definition spell_target :: "target \<Rightarrow> string" where
  "spell_target t = fst t @ ''/'' @ snd t"

lemma plain_wordD:
  assumes "plain_word s"
  shows "s \<noteq> []" "is_ascii s" "\<not> is_space (code (hd s))" "\<not> is_space (code (last s))" "CHR ''/'' \<notin> set s" "CHR '','' \<notin> set s"
  using assms hd_in_set [of s] last_in_set [of s] by (auto simp only: plain_word_def list_all_iff)

lemma trim_spelled:
  assumes "plain_word (fst t)" and "plain_word (snd t)"
  shows "trim_space (spell_target t) = spell_target t"
proof -
  have "is_ascii (spell_target t)" using plain_wordD(2) [OF assms(1)] plain_wordD(2) [OF assms(2)] by (simp add: spell_target_def)
  moreover have "trim_by (\<lambda>c. is_space (code c)) (spell_target t) = spell_target t"
    by (rule trim_by_id)
      (use plain_wordD(1,3) [OF assms(1)] plain_wordD(1,4) [OF assms(2)] in \<open>simp add: spell_target_def\<close>)
  ultimately show ?thesis by (simp add: trim_space_ascii)
qed

lemma split_spelled: "plain_word (fst t) \<Longrightarrow> plain_word (snd t) \<Longrightarrow> split_on CHR ''/'' (spell_target t) = [fst t, snd t]"
  using plain_wordD(5) [of "fst t"] plain_wordD(5) [of "snd t"] by (simp add: spell_target_def split_on_append split_on_free)

lemma parse_spelled:
  assumes "distinct ts" and "set ts \<inter> set seen = {}" and "\<And>t. t \<in> set ts \<Longrightarrow> plain_word (fst t) \<and> plain_word (snd t)"
  shows "parse_target_list seen (map spell_target ts) = ok ts"
  using assms
proof (induction ts arbitrary: seen)
  case (Cons t ts)
  have t: "plain_word (fst t)" "plain_word (snd t)" "t \<notin> set seen" using Cons.prems by auto
  have "parse_target_list (t # seen) (map spell_target ts) = ok ts" by (rule Cons.IH) (use Cons.prems in auto)
  with t plain_wordD(1) [OF t(1)] plain_wordD(1) [OF t(2)] show ?case by (simp add: trim_spelled split_spelled)
qed simp

theorem targets_round_trip:
  assumes "ts \<noteq> []" and "distinct ts" and "\<And>t. t \<in> set ts \<Longrightarrow> plain_word (fst t) \<and> plain_word (snd t)"
  shows "parse_targets (join '','' (map spell_target ts)) = ok ts"
proof -
  have "CHR '','' \<notin> set (spell_target t)" if "t \<in> set ts" for t
    using plain_wordD(6) [of "fst t"] plain_wordD(6) [of "snd t"] assms(3) [OF that] by (simp add: spell_target_def)
  then have "split_on CHR '','' (join '','' (map spell_target ts)) = map spell_target ts"
    by (intro split_on_join) (use assms(1) in auto)
  with parse_spelled [of ts "[]"] assms show ?thesis by (simp add: parse_targets_def)
qed

text \<open>A version \<open>versionbump\<close> writes is a tag that can be released.\<close>

theorem bumped_version_is_release_tag: "release_tag (CHR ''v'' # version_string v)"
proof -
  let ?core = "\<lambda>c. c \<noteq> CHR ''-'' \<and> c \<noteq> CHR ''+''"
  have digits: "c \<noteq> CHR ''-'' \<and> c \<noteq> CHR ''+''" if "c \<in> set (itoa n)" for c n
    using itoa_digits [OF that] by (auto simp: is_digit_def in_range_def)
  have core: "takeWhile ?core (drop 1 (CHR ''v'' # version_string v)) = version_string v"
    using digits by (auto simp: version_string_def takeWhile_eq_all_conv)
  show ?thesis
    unfolding release_tag_def Let_def core by (simp add: has_prefix_def split_version stable_itoa tag_suffix_def)
qed

section \<open>What a successful build leaves\<close>

named_theorems release_ok "what a call that succeeded did"

lemma and_then_ok [release_ok]: "and_then m f env st = (Inr y, st') \<longleftrightarrow> (\<exists>x st1. m env st = (Inr x, st1) \<and> f x env st1 = (Inr y, st'))"
  by (auto simp: and_then_def split: prod.split sum.split)

lemma within_ok [release_ok]: "within what m env st = (Inr y, st') \<longleftrightarrow> m env st = (Inr y, st')"
  by (auto simp: within_def split: prod.split sum.split)

lemma done_with_ok [release_ok]: "done_with x env st = (Inr y, st') \<longleftrightarrow> y = x \<and> st' = st"
  by (auto simp: done_with_def)

lemma failed_with_ok [release_ok]: "failed_with e env st = (Inr y, st') \<longleftrightarrow> False"
  by (simp add: failed_with_def)

lemma os_call_files: "rl_files (snd (os_call c env st)) = rl_files st"
  by (simp add: os_call_def split: option.split)

lemma os_call_ok: "os_call c env st = (Inr u, st') \<Longrightarrow> rl_files st' = rl_files st"
  using os_call_files [of c env st] by simp

lemma put_file_ok [release_ok]: "put_file p bs env st = (Inr u, st') \<longleftrightarrow> st' = st\<lparr>rl_files := (rl_files st)(p := bs)\<rparr>"
  by (auto simp: put_file_def)

lemma get_file_ok [release_ok]: "get_file p env st = (Inr bs, st') \<longleftrightarrow> st' = st \<and> rl_files st p = Some bs"
  by (auto simp: get_file_def split: option.split)

lemma writing_ok: "writing p c bs env st = (Inr u, st') \<Longrightarrow> rl_files st' = (rl_files st)(p := bs)"
  using os_call_files [of c env st] by (auto simp: writing_def put_file_def split: prod.split_asm sum.split_asm)

lemma read_all_ok: "read_all p env st = (Inr bs, st') \<Longrightarrow> rl_files st' = rl_files st \<and> rl_files st p = Some bs"
  by (auto simp: read_all_def release_ok dest: os_call_ok)

lemma closing_ok: "closing m env st = (Inr u, st') \<Longrightarrow> \<exists>x st1. m env st = (Inr x, st1) \<and> rl_files st' = rl_files st1"
  by (auto simp: closing_def dest: os_call_ok split: prod.split_asm sum.split_asm)

definition entry_of :: "(string \<Rightarrow> bytes option) \<Rightarrow> nat \<Rightarrow> archived_file \<Rightarrow> tar_file \<Rightarrow> bool" where
  "entry_of files epoch f e \<longleftrightarrow> tar_name e = af_name f \<and> tar_mode e = af_mode f \<and> tar_mtime e = epoch
     \<and> files (af_path f) = Some (tar_data e) \<and> tar_header e \<noteq> None"

lemma write_entries_ok:
  "write_entries epoch fs env st = (Inr es, st') \<Longrightarrow> rl_files st' = rl_files st \<and> list_all2 (entry_of (rl_files st) epoch) fs es"
proof (induction fs arbitrary: st es)
  case (Cons f fs)
  from Cons.prems obtain contents st1 st2 st3 es' where
    steps: "read_all (af_path f) env st = (Inr contents, st1)" "os_call (WriteTarHeader (af_name f)) env st1 = (Inr (), st2)"
      "os_call WriteTarData env st2 = (Inr (), st3)" "write_entries epoch fs env st3 = (Inr es', st')"
    and es: "es = \<lparr>tar_name = af_name f, tar_mode = af_mode f, tar_mtime = epoch, tar_data = contents\<rparr> # es'"
    and fits: "tar_header \<lparr>tar_name = af_name f, tar_mode = af_mode f, tar_mtime = epoch, tar_data = contents\<rparr> \<noteq> None"
    by (auto simp: release_ok Let_def split: if_split_asm)
  from read_all_ok [OF steps(1)] os_call_ok [OF steps(2)] os_call_ok [OF steps(3)] have
    "rl_files st3 = rl_files st" "rl_files st (af_path f) = Some contents" by simp_all
  with Cons.IH [OF steps(4)] fits show ?case by (simp add: es entry_of_def)
qed (simp add: release_ok)

lemma write_archive_ok:
  assumes "write_archive path files epoch env st = (Inr u, st')" and "path \<notin> af_path ` set files"
  shows "\<exists>es. list_all2 (entry_of (rl_files st) epoch) (sort_key af_name files) es
    \<and> rl_files st' = (rl_files st)(path := Some (gzip_stream (re_deflate env) (tar_archive es)))"
proof -
  from assms(1) obtain st1 x st2 where create: "os_call (CreateFile path) env st = (Inr (), st1)"
    and body: "and_then (put_file path (re_partial env path (Some []))) (\<lambda>_.
        and_then (write_entries epoch (sort_key af_name files)) (\<lambda>es. and_then (os_call CloseTar) (\<lambda>_.
          writing path CloseGzip (Some (gzip_stream (re_deflate env) (tar_archive es)))))) env st1 = (Inr x, st2)"
    and st': "rl_files st' = rl_files st2"
    by (auto simp: write_archive_def release_ok dest!: closing_ok)
  let ?st1 = "st1\<lparr>rl_files := (rl_files st1)(path := re_partial env path (Some []))\<rparr>"
  from body obtain es st3 st4 where es: "write_entries epoch (sort_key af_name files) env ?st1 = (Inr es, st3)"
    and tar: "os_call CloseTar env st3 = (Inr (), st4)"
    and gz: "writing path CloseGzip (Some (gzip_stream (re_deflate env) (tar_archive es))) env st4 = (Inr x, st2)"
    by (auto simp: release_ok)
  from write_entries_ok [OF es] have files: "rl_files st3 = rl_files ?st1"
    and all: "list_all2 (entry_of (rl_files ?st1) epoch) (sort_key af_name files) es" by auto
  have "entry_of (rl_files st) epoch f e" if "f \<in> set files" "entry_of (rl_files ?st1) epoch f e" for f e
  proof -
    have "af_path f \<noteq> path" using assms(2) that(1) by auto
    with that(2) os_call_ok [OF create] show ?thesis by (simp add: entry_of_def)
  qed
  then have "list_all2 (entry_of (rl_files st) epoch) (sort_key af_name files) es"
    using list.rel_mono_strong [OF all] by simp
  moreover have "rl_files st' = (rl_files st)(path := Some (gzip_stream (re_deflate env) (tar_archive es)))"
    using writing_ok [OF gz] os_call_ok [OF tar] files os_call_ok [OF create] st' by simp
  ultimately show ?thesis by blast
qed

text \<open>The lines of the checksum file for files with these contents.\<close>

definition checksum_text :: "(string \<Rightarrow> bytes option) \<Rightarrow> string list \<Rightarrow> bytes" where
  "checksum_text files as = concat (map (\<lambda>a. bytes_of_string (checksum_line (the (files a)) a)) as)"

lemma checksum_text_other: "path \<notin> set as \<Longrightarrow> checksum_text (files(path := x)) as = checksum_text files as"
  unfolding checksum_text_def by (rule arg_cong [of _ _ concat]) (auto intro!: map_cong)

lemma checksum_lines_ok:
  assumes "checksum_lines path as env st = (Inr u, st')" and "path \<notin> set as" and "rl_files st path = Some sums"
  shows "(\<forall>a \<in> set as. rl_files st a \<noteq> None) \<and> rl_files st' = (rl_files st)(path := Some (sums @ checksum_text (rl_files st) as))"
  using assms
proof (induction as arbitrary: st sums)
  case Nil
  then show ?case by (auto simp: release_ok checksum_text_def fun_upd_idem)
next
  case (Cons a as)
  from Cons.prems(1) obtain st1 contents st2 old st3 where steps: "os_call (OpenFile a) env st = (Inr (), st1)"
      "rl_files st1 a = Some contents" "rl_files st2 path = Some old"
      "writing path (WriteLine (checksum_line contents a)) (Some (old @ bytes_of_string (checksum_line contents a))) env st2
        = (Inr (), st3)" "checksum_lines path as env st3 = (Inr u, st')"
    and close: "(case os_call CopyInput env st1 of
         (Inl e, st') \<Rightarrow> (Inl e, snd (os_call CloseInput env st'))
       | (Inr _, st') \<Rightarrow> os_call CloseInput env st') = (Inr (), st2)"
    by (auto simp: release_ok)
  have files2: "rl_files st2 = rl_files st"
    using close os_call_ok [OF steps(1)] by (auto dest!: os_call_ok split: prod.split_asm sum.split_asm)
  define sums' where "sums' = sums @ bytes_of_string (checksum_line contents a)"
  have files3: "rl_files st3 = (rl_files st)(path := Some sums')"
    using writing_ok [OF steps(4)] steps(3) Cons.prems(3) files2 by (simp add: sums'_def)
  have contents: "rl_files st a = Some contents" using steps(2) os_call_ok [OF steps(1)] by simp
  have path: "path \<notin> set as" using Cons.prems(2) by simp
  have "rl_files st3 path = Some sums'" by (simp add: files3)
  note step = Cons.IH [OF steps(5) path this]
  note IH = conjunct1 [OF step] conjunct2 [OF step]
  have other: "checksum_text (rl_files st3) as = checksum_text (rl_files st) as"
    unfolding files3 by (rule checksum_text_other [OF path])
  have sums2: "sums' @ checksum_text (rl_files st) as = sums @ checksum_text (rl_files st) (a # as)"
    by (simp add: sums'_def checksum_text_def contents)
  have "rl_files st' = (rl_files st)(path := Some (sums @ checksum_text (rl_files st) (a # as)))"
    unfolding IH(2) other by (simp only: files3 fun_upd_upd sums2)
  moreover have "rl_files st b \<noteq> None" if "b \<in> set as" for b
  proof -
    have "b \<noteq> path" using path that by auto
    then show ?thesis using IH(1) that by (auto simp: files3)
  qed
  ultimately show ?case using contents by simp
qed

lemma write_checksums_ok:
  assumes "write_checksums path as env st = (Inr u, st')" and "path \<notin> set as"
  shows "rl_files st' = (rl_files st)(path := Some (checksum_text (rl_files st) (sort as)))"
proof -
  from assms(1) obtain st1 x st2 where create: "os_call (CreateFile path) env st = (Inr (), st1)"
    and body: "checksum_lines path (sort as) env (st1\<lparr>rl_files := (rl_files st1)(path := Some [])\<rparr>) = (Inr x, st2)"
    and st': "rl_files st' = rl_files st2"
    by (auto simp: write_checksums_def release_ok dest!: closing_ok)
  have path: "path \<notin> set (sort as)" using assms(2) by simp
  from checksum_lines_ok [OF body path, of "[]"] have
    "rl_files st2 = (rl_files st1)(path := Some (checksum_text ((rl_files st1)(path := Some [])) (sort as)))" by simp
  then show ?thesis using checksum_text_other [OF path] os_call_ok [OF create] st' by simp
qed

text \<open>The archive of a target: the licence and the executable, as a reader of the archive finds them.\<close>

definition release_entries :: "nat \<Rightarrow> target \<Rightarrow> bytes \<Rightarrow> bytes \<Rightarrow> tar_file list" where
  "release_entries epoch t license binary =
     [\<lparr>tar_name = ''LICENSE'', tar_mode = 420, tar_mtime = epoch, tar_data = license\<rparr>,
      \<lparr>tar_name = executable_name t, tar_mode = 493, tar_mtime = epoch, tar_data = binary\<rparr>]"

definition release_archive :: "release_env \<Rightarrow> nat \<Rightarrow> target \<Rightarrow> bytes \<Rightarrow> bytes \<Rightarrow> bytes" where
  "release_archive env epoch t license binary =
     gzip_stream (re_deflate env) (tar_archive (release_entries epoch t license binary))"

lemma archive_files_sorted: "sort_key af_name (archive_files license binary t) = archive_files license binary t"
proof -
  have "''LICENSE'' \<le> executable_name t" by (simp add: executable_name_def)
  then show ?thesis by (simp add: archive_files_def)
qed

lemma release_entries_of:
  assumes "list_all2 (entry_of files epoch) (archive_files license binary t) es"
    and "files license = Some l" and "files binary = Some b"
  shows "es = release_entries epoch t l b" and "e \<in> set es \<Longrightarrow> tar_header e \<noteq> None"
proof -
  from assms(1) obtain e1 e2 where es: "es = [e1, e2]" and
    "entry_of files epoch \<lparr>af_name = ''LICENSE'', af_path = license, af_mode = 420\<rparr> e1"
    "entry_of files epoch \<lparr>af_name = executable_name t, af_path = binary, af_mode = 493\<rparr> e2"
    by (auto simp: archive_files_def list_all2_Cons1)
  then show "es = release_entries epoch t l b" and "e \<in> set es \<Longrightarrow> tar_header e \<noteq> None"
    using assms(2,3) by (auto simp: entry_of_def release_entries_def)
qed

definition direct_path :: "string \<Rightarrow> target \<Rightarrow> string" where
  "direct_path out t = path_join [out, direct_binary_name t]"

definition archive_path :: "string \<Rightarrow> string \<Rightarrow> target \<Rightarrow> string" where
  "archive_path out tag t = path_join [out, archive_name tag t]"

lemma build_target_ok:
  assumes "build_target tag out work license epoch t env st = (Inr as, st')" and "rl_files st license = Some l"
    and "binary_path work t \<notin> {license, direct_path out t, archive_path out tag t}"
    and "direct_path out t \<noteq> license" and "direct_path out t \<noteq> archive_path out tag t" and "archive_path out tag t \<noteq> license"
  defines "b \<equiv> built env tag t (binary_path work t)"
  shows "as = [direct_path out t, archive_path out tag t] \<and> rl_files st' = (rl_files st)
    (binary_path work t := Some b, direct_path out t := Some b, archive_path out tag t := Some (release_archive env epoch t l b))
    \<and> (\<forall>e \<in> set (release_entries epoch t l b). tar_header e \<noteq> None)"
proof -
  from assms(1) obtain st1 st2 contents st3 st4 where steps:
    "os_call (MkdirAll (path_dir (binary_path work t))) env st = (Inr (), st1)"
    "writing (binary_path work t) (RunBuild (build_command env tag (binary_path work t)) (build_settings env t)) (Some b) env st1
      = (Inr (), st2)"
    "read_all (binary_path work t) env st2 = (Inr contents, st3)"
    "writing (direct_path out t) (WriteAll (direct_path out t)) (Some contents) env st3 = (Inr (), st4)"
    "write_archive (archive_path out tag t) (archive_files license (binary_path work t) t) epoch env st4 = (Inr (), st')"
    and as: "as = [direct_path out t, archive_path out tag t]"
    by (auto simp: build_target_def build_binary_def release_ok Let_def b_def direct_path_def archive_path_def)
  have files2: "rl_files st2 = (rl_files st)(binary_path work t := Some b)"
    using writing_ok [OF steps(2)] os_call_ok [OF steps(1)] by simp
  have contents: "contents = b" "rl_files st3 = rl_files st2" using read_all_ok [OF steps(3)] by (auto simp: files2)
  have files4: "rl_files st4 = (rl_files st)(binary_path work t := Some b, direct_path out t := Some b)"
    using writing_ok [OF steps(4)] by (simp add: contents files2)
  have "archive_path out tag t \<notin> af_path ` set (archive_files license (binary_path work t) t)"
    using assms(3,6) by (auto simp: archive_files_def)
  from write_archive_ok [OF steps(5) this] obtain es where
    es: "list_all2 (entry_of (rl_files st4) epoch) (archive_files license (binary_path work t) t) es"
    and files': "rl_files st' = (rl_files st4)(archive_path out tag t := Some (gzip_stream (re_deflate env) (tar_archive es)))"
    by (auto simp: archive_files_sorted)
  have "rl_files st4 license = Some l" "rl_files st4 (binary_path work t) = Some b"
    using assms(2-4) by (auto simp: files4)
  from release_entries_of [OF es this] as files' show ?thesis by (simp add: release_archive_def files4)
qed

section \<open>Releases\<close>

definition target_outputs :: "string \<Rightarrow> string \<Rightarrow> target \<Rightarrow> string list" where
  "target_outputs out tag t = [direct_path out t, archive_path out tag t]"

definition release_outputs :: "string \<Rightarrow> string \<Rightarrow> target list \<Rightarrow> string list" where
  "release_outputs out tag ts = concat (map (target_outputs out tag) ts)"

text \<open>
  The licence is not among the files that are written, and the binaries are under the work directory, where
  neither the licence nor an output is.
\<close>

definition separate_paths :: "string \<Rightarrow> string \<Rightarrow> string list \<Rightarrow> target list \<Rightarrow> bool" where
  "separate_paths work license outs ts \<longleftrightarrow> license \<notin> set outs
     \<and> list_all (\<lambda>p. \<not> has_prefix p (work @ ''/'')) (license # outs)
     \<and> list_all (\<lambda>t. has_prefix (binary_path work t) (work @ ''/'')) ts"

lemma separate_paths_Cons: "separate_paths work license outs (t # ts) \<longleftrightarrow>
    separate_paths work license outs ts \<and> has_prefix (binary_path work t) (work @ ''/'')"
  by (auto simp: separate_paths_def)

lemma build_targets_ok:
  assumes "build_targets tag out work license epoch ts env st = (Inr as, st')" and "rl_files st license = Some l"
    and "set (release_outputs out tag ts) \<subseteq> set outs" and "separate_paths work license outs ts"
    and "distinct (release_outputs out tag ts)"
  shows "as = release_outputs out tag ts
      \<and> (\<forall>p. \<not> has_prefix p (work @ ''/'') \<longrightarrow> p \<notin> set (release_outputs out tag ts) \<longrightarrow> rl_files st' p = rl_files st p)
      \<and> (\<forall>t \<in> set ts. rl_files st' (direct_path out t) = Some (built env tag t (binary_path work t))
        \<and> rl_files st' (archive_path out tag t) = Some (release_archive env epoch t l (built env tag t (binary_path work t)))
        \<and> (\<forall>e \<in> set (release_entries epoch t l (built env tag t (binary_path work t))). tar_header e \<noteq> None))"
  using assms
proof (induction ts arbitrary: st as)
  case Nil
  then show ?case by (simp add: release_ok release_outputs_def)
next
  case (Cons u us)
  note run = Cons.prems(1) and l = Cons.prems(2) and sub = Cons.prems(3) and sep = Cons.prems(4) and dist = Cons.prems(5)
  from run obtain as1 st1 as2 where first: "build_target tag out work license epoch u env st = (Inr as1, st1)"
    and rest: "build_targets tag out work license epoch us env st1 = (Inr as2, st')" and as: "as = as1 @ as2"
    by (auto simp: release_ok)
  let ?b = "binary_path work u" and ?d = "direct_path out u" and ?a = "archive_path out tag u"
  have outs: "release_outputs out tag (u # us) = ?d # ?a # release_outputs out tag us"
    by (simp add: release_outputs_def target_outputs_def)
  have under: "has_prefix ?b (work @ ''/'')" and plain: "\<not> has_prefix p (work @ ''/'')" if "p \<in> {license, ?d, ?a}" for p
    using sep sub that by (auto simp: separate_paths_def outs list_all_iff)
  have apart: "?b \<notin> {license, ?d, ?a}" using under plain by blast
  have "?d \<noteq> license" "?a \<noteq> license" using sep sub by (auto simp: separate_paths_def outs)
  moreover have "?d \<noteq> ?a" using dist by (simp add: outs)
  ultimately have one: "as1 = [?d, ?a]" "rl_files st1 = (rl_files st)(?b := Some (built env tag u ?b),
      ?d := Some (built env tag u ?b), ?a := Some (release_archive env epoch u l (built env tag u ?b)))"
    "\<forall>e \<in> set (release_entries epoch u l (built env tag u ?b)). tar_header e \<noteq> None"
    using build_target_ok [OF first l apart] by simp_all
  have l1: "rl_files st1 license = Some l" using apart \<open>?d \<noteq> license\<close> \<open>?a \<noteq> license\<close> l by (auto simp: one)
  have "set (release_outputs out tag us) \<subseteq> set outs" "separate_paths work license outs us" "distinct (release_outputs out tag us)"
    using sub sep dist by (simp_all add: outs separate_paths_Cons)
  note step = Cons.IH [OF rest l1 this]
  note IH = conjunct1 [OF step] conjunct2 [OF step, THEN conjunct1, rule_format] conjunct2 [OF step, THEN conjunct2, rule_format]
  have "?d \<notin> set (release_outputs out tag us)" "?a \<notin> set (release_outputs out tag us)" using dist by (simp_all add: outs)
  then have kept: "rl_files st' ?d = rl_files st1 ?d" "rl_files st' ?a = rl_files st1 ?a"
    using IH(2) plain by simp_all
  show ?case
  proof (intro conjI ballI allI impI)
    show "as = release_outputs out tag (u # us)" using IH(1) by (simp add: as one(1) outs)
    fix p assume "\<not> has_prefix p (work @ ''/'')" "p \<notin> set (release_outputs out tag (u # us))"
    then show "rl_files st' p = rl_files st p" using IH(2) [of p] under [of license] by (auto simp: outs one(2))
  next
    fix t assume t: "t \<in> set (u # us)"
    show "rl_files st' (direct_path out t) = Some (built env tag t (binary_path work t))"
      using IH(3) [of t] t kept \<open>?d \<noteq> ?a\<close> by (auto simp: one(2))
    show "rl_files st' (archive_path out tag t) = Some (release_archive env epoch t l (built env tag t (binary_path work t)))"
      using IH(3) [of t] t kept by (auto simp: one(2))
    show "tar_header e \<noteq> None" if "e \<in> set (release_entries epoch t l (built env tag t (binary_path work t)))" for e
      using IH(3) [of t] t one(3) that by auto
  qed
qed

text \<open>
  The names of the outputs are distinct when no system has a hyphen or an underscore in its name; \<open>parseTargets\<close>
  takes others, and two of them can share a name.
\<close>

definition output_names :: "string \<Rightarrow> target list \<Rightarrow> string list" where
  "output_names tag ts = concat (map (\<lambda>t. [direct_binary_name t, archive_name tag t]) ts)"

definition named_target :: "target \<Rightarrow> bool" where
  "named_target t \<longleftrightarrow> CHR ''-'' \<notin> set (fst t) \<and> CHR ''_'' \<notin> set (fst t) \<and> CHR ''/'' \<notin> set (fst t) \<and> CHR ''/'' \<notin> set (snd t)"

lemma append_sep_inj: "sep \<notin> set a \<Longrightarrow> sep \<notin> set a' \<Longrightarrow> a @ sep # b = a' @ sep # b' \<longleftrightarrow> a = a' \<and> b = b'"
proof (induction a arbitrary: a')
  case Nil
  then show ?case by (cases a') auto
next
  case (Cons c a)
  then show ?case by (cases a') auto
qed

lemma direct_name_inj: "named_target t \<Longrightarrow> named_target u \<Longrightarrow> direct_binary_name t = direct_binary_name u \<longleftrightarrow> t = u"
  by (auto simp: direct_binary_name_def named_target_def executable_name_def append_sep_inj prod_eq_iff)

lemma archive_name_inj: "named_target t \<Longrightarrow> named_target u \<Longrightarrow> archive_name tag t = archive_name tag u \<longleftrightarrow> t = u"
  by (auto simp: archive_name_def named_target_def append_sep_inj prod_eq_iff)

lemma names_differ: "direct_binary_name t \<noteq> archive_name tag u" "direct_binary_name t \<noteq> ''SHA256SUMS''" "archive_name tag u \<noteq> ''SHA256SUMS''"
  by (simp_all add: direct_binary_name_def archive_name_def)

lemma plain_names:
  assumes "named_target t" and "CHR ''/'' \<notin> set tag"
  shows "plain_element (direct_binary_name t)" "plain_element (archive_name tag t)"
proof -
  have "path_ext (executable_name t) \<in> {[], ''.exe''}" by (simp add: executable_name_def) (intro conjI impI; code_simp)
  then show "plain_element (direct_binary_name t)" using assms by (auto simp: plain_element_def direct_binary_name_def named_target_def)
  show "plain_element (archive_name tag t)" using assms by (simp add: plain_element_def archive_name_def named_target_def)
qed

lemma distinct_output_names:
  assumes "distinct ts" and "\<And>t. t \<in> set ts \<Longrightarrow> named_target t"
  shows "distinct (''SHA256SUMS'' # output_names tag ts)"
  using assms
  by (induction ts) (auto simp: output_names_def names_differ names_differ [symmetric] direct_name_inj archive_name_inj)

lemma release_outputs_names: "release_outputs out tag ts = map (\<lambda>n. path_join [out, n]) (output_names tag ts)"
  by (induction ts) (simp_all add: release_outputs_def output_names_def target_outputs_def direct_path_def archive_path_def)

theorem outputs_distinct:
  assumes "distinct ts" and "\<And>t. t \<in> set ts \<Longrightarrow> named_target t" and "CHR ''/'' \<notin> set tag"
  shows "distinct (path_join [out, ''SHA256SUMS''] # release_outputs out tag ts)"
proof -
  have "plain_element n" if "n \<in> set (''SHA256SUMS'' # output_names tag ts)" for n
    using that plain_names assms(2,3) by (auto simp: output_names_def plain_element_def)
  then have "inj_on (\<lambda>n. path_join [out, n]) (set (''SHA256SUMS'' # output_names tag ts))"
    by (simp add: inj_on_def path_join_inj del: list.set)
  then have "distinct (map (\<lambda>n. path_join [out, n]) (''SHA256SUMS'' # output_names tag ts))"
    using distinct_output_names [OF assms(1,2)] by (simp only: distinct_map simp_thms)
  then show ?thesis by (simp add: release_outputs_names)
qed

text \<open>Two targets of one name: the second binary takes the place of the first.\<close>

theorem target_names_can_collide:
  "parse_targets ''a-b/c,a/b-c'' = ok [(''a-b'', ''c''), (''a'', ''b-c'')]"
  "direct_binary_name (''a-b'', ''c'') = direct_binary_name (''a'', ''b-c'')"
proof -
  have "parse_targets (join '','' (map spell_target [(''a-b'', ''c''), (''a'', ''b-c'')])) = ok [(''a-b'', ''c''), (''a'', ''b-c'')]"
    by (rule targets_round_trip) (auto simp: plain_word_def is_space_def in_range_def)
  then show "parse_targets ''a-b/c,a/b-c'' = ok [(''a-b'', ''c''), (''a'', ''b-c'')]" by (simp add: spell_target_def)
qed (simp add: direct_binary_name_def executable_name_def)

text \<open>
  A release that succeeds leaves, for every target, the binary the compiler made and an archive of the licence and
  that binary, and a checksum file with the digest of each of them.
\<close>

lemma removing_ok: "removing dir m env st = (Inr u, st') \<Longrightarrow> \<exists>st1. m env st = (Inr u, st1)
    \<and> (\<forall>p. \<not> has_prefix p (dir @ ''/'') \<longrightarrow> rl_files st' p = rl_files st1 p)"
proof -
  have "rl_files (snd (remove_all dir env st1)) p = rl_files st1 p" if "\<not> has_prefix p (dir @ ''/'')" for st1 p
    using that os_call_files [of "RemoveAll dir" env st1] by (auto simp: remove_all_def split: prod.split sum.split)
  then show "removing dir m env st = (Inr u, st') \<Longrightarrow> ?thesis" by (auto simp: removing_def split: prod.split_asm)
qed

theorem release_contents:
  assumes "build_release tag out ts epoch env st = (Inr (), st')" and "rl_files st (license_path env) = Some l"
    and "separate_paths (re_work env) (license_path env) (path_join [out, ''SHA256SUMS''] # release_outputs out tag ts) ts"
    and "distinct ts" and "\<And>t. t \<in> set ts \<Longrightarrow> named_target t" and "CHR ''/'' \<notin> set tag"
  shows "t \<in> set ts \<Longrightarrow> rl_files st' (direct_path out t) = Some (built env tag t (binary_path (re_work env) t))"
    and "t \<in> set ts \<Longrightarrow> rl_files st' (archive_path out tag t)
        = Some (release_archive env epoch t l (built env tag t (binary_path (re_work env) t)))"
    and "rl_files st' (path_join [out, ''SHA256SUMS'']) = Some (checksum_text (rl_files st') (sort (release_outputs out tag ts)))"
    and "t \<in> set ts \<Longrightarrow> untar 3 (tar_archive (release_entries epoch t l (built env tag t (binary_path (re_work env) t))))
        = Some (release_entries epoch t l (built env tag t (binary_path (re_work env) t)))"
proof -
  let ?work = "re_work env" and ?sums = "path_join [out, ''SHA256SUMS'']" and ?outs = "release_outputs out tag ts"
  have distinct: "distinct (?sums # ?outs)" by (rule outputs_distinct) (use assms(4-6) in auto)
  from assms(1) obtain st1 st2 st3 st4 as st5 where calls: "os_call (MkdirAll out) env st = (Inr (), st1)"
      "os_call MkdirTemp env st1 = (Inr (), st2)" "os_call (Absolute ''LICENSE'') env st2 = (Inr (), st3)"
    and build: "build_targets tag out ?work (license_path env) epoch ts env st3 = (Inr as, st4)"
    and sums: "write_checksums ?sums as env st4 = (Inr (), st5)"
    and final: "\<And>p. \<not> has_prefix p (?work @ ''/'') \<Longrightarrow> rl_files st' p = rl_files st5 p"
    by (auto simp: build_release_def release_ok dest!: removing_ok)
  have "rl_files st3 = rl_files st" using calls [THEN os_call_ok] by simp
  then have l: "rl_files st3 (license_path env) = Some l" using assms(2) by simp
  have sub: "set ?outs \<subseteq> set (?sums # ?outs)" and dist: "distinct ?outs" using distinct by auto
  note all = build_targets_ok [OF build l sub assms(3) dist]
  have as: "as = ?outs" using all by blast
  have sums': "rl_files st5 = (rl_files st4)(?sums := Some (checksum_text (rl_files st4) (sort ?outs)))"
    using write_checksums_ok [OF sums] distinct by (simp add: as)
  have outside: "\<not> has_prefix p (?work @ ''/'')" if "p \<in> set (?sums # ?outs)" for p
    using assms(3) that by (auto simp: separate_paths_def list_all_iff)
  have kept: "rl_files st' p = rl_files st4 p" if "p \<in> set ?outs" for p
    using final [OF outside] that distinct by (auto simp: sums')
  have mem: "direct_path out t \<in> set ?outs" "archive_path out tag t \<in> set ?outs" if "t \<in> set ts" for t
    using that by (auto simp: release_outputs_def target_outputs_def)
  show "rl_files st' (direct_path out t) = Some (built env tag t (binary_path ?work t))" if "t \<in> set ts"
    using all that kept mem by simp
  show "rl_files st' (archive_path out tag t) = Some (release_archive env epoch t l (built env tag t (binary_path ?work t)))" if "t \<in> set ts"
    using all that kept mem by simp
  have "checksum_text (rl_files st') (sort ?outs) = checksum_text (rl_files st4) (sort ?outs)"
    unfolding checksum_text_def by (rule arg_cong [of _ _ concat]) (simp add: kept)
  then show "rl_files st' ?sums = Some (checksum_text (rl_files st') (sort ?outs))"
    using final [OF outside, of ?sums] by (simp add: sums')
  show "untar 3 (tar_archive (release_entries epoch t l (built env tag t (binary_path ?work t))))
        = Some (release_entries epoch t l (built env tag t (binary_path ?work t)))" if "t \<in> set ts"
  proof -
    have fits: "\<forall>e \<in> set (release_entries epoch t l (built env tag t (binary_path ?work t))). tar_header e \<noteq> None" using all that by blast
    have "CHR 0x00 \<notin> set (tar_name e)" if "e \<in> set (release_entries epoch t l b)" for e b
      using that by (auto simp: release_entries_def executable_name_def split: if_split_asm)
    with fits have "untar (Suc (length (release_entries epoch t l (built env tag t (binary_path ?work t)))))
        (tar_archive (release_entries epoch t l (built env tag t (binary_path ?work t))))
      = Some (release_entries epoch t l (built env tag t (binary_path ?work t)))"
      by (intro untar_archive) blast
    then show ?thesis by (simp add: release_entries_def eval_nat_numeral)
  qed
qed

text \<open>Once the work directory exists, removing it is the last call, whatever fails before.\<close>

theorem work_directory_removed:
  assumes "re_fault env (length (rl_trace st)) = None" and "re_fault env (Suc (length (rl_trace st))) = None"
    and "build_release tag out ts epoch env st = (r, st')"
  shows "last (rl_trace st') = RemoveAll (re_work env)"
proof -
  have "last (rl_trace (snd (removing dir m env st1))) = RemoveAll dir" for dir and m :: "unit release" and st1
    by (auto simp: removing_def remove_all_def os_call_def split: prod.split sum.split option.split)
  with assms show ?thesis
    by (auto simp: build_release_def and_then_def within_def os_call_def) (metis snd_conv)
qed

end
