(* ===== verification/Spec2Isabelle.thy ===== *)
theory Spec2Isabelle
  imports Policy_Checker Protocol_Codec Config_Token Config_Load Relay_Limiter Doh_Endpoint Websocket_Frames
    Tunnel_Endpoints Diagnostics Package_Interfaces Command_Line Private_Path Markdown_Wrap Release_Builder
begin

text \<open>
  A model of dproxy, a CONNECT proxy in two parts. The local side (\<open>dproxy client\<close>) accepts CONNECT
  requests on a loopback address. For each it dials the relay: its name is resolved over DoH, TLS 1.3 with
  ECH carries a WebSocket, and inside that an inner TLS session, pinned to the key of the remote, carries the
  control protocol. The remote side (\<open>dproxy server\<close>) authenticates the token, checks the destination against
  its own policy, resolves and dials it, and from then on both sides copy bytes.

  \<^bold>\<open>The theories and the code they model\<close> (paths under \<open>src/\<close>)

  \<^item> Go itself. \<open>Go_Prelude\<close>: results with errors and panics as values, slices, big-endian integers.
    \<open>Go_Strings\<close>, \<open>Go_Strconv\<close>: UTF-8, \<open>strings\<close>, \<open>strconv\<close>, the parts of a \<open>url.URL\<close>. \<open>Go_Netip\<close>,
    \<open>Go_Netip_Order\<close>: addresses, their parser and order. \<open>Go_Io\<close>: readers and writers as streams of pieces
    and scripted pipes. \<open>Go_Crypto\<close>: SHA-256, base64, constant-time comparison.
    \<open>Go_Flag\<close>: flag sets, their parser and the values it converts. \<open>Go_Path\<close>: cleaning and joining of paths.
    \<open>Go_Archive\<close>: the archives and gzip containers that are written, with a reader of archives.
  \<^item> \<open>internal/policy\<close>. \<open>Policy_Decision\<close>, \<open>Policy_Hostname\<close>, \<open>Policy_Destination\<close>: reasons, canonical names,
    destinations and their authority. \<open>Policy_Allowlist\<close>, \<open>Policy_Addresses\<close>, \<open>Policy_Checker\<close>: patterns, the special
    blocks and the check of a destination before and after its resolution.
  \<^item> \<open>internal/protocol\<close>. \<open>Protocol_Messages\<close>, \<open>Protocol_Codec\<close>: the five messages, their validation and frames.
  \<^item> \<open>internal/config\<close>. \<open>Config_Token\<close>, \<open>Config_Pin\<close>, \<open>Config_Settings\<close>, \<open>Config_Toml\<close>, \<open>Config_Load\<close>, \<open>Config_Flags\<close>: secrets
    and pins, settings and their validation, the TOML subset, flags over file over defaults, and the flags
    of both roles from the arguments on.
  \<^item> \<open>internal/logging\<close>: \<open>Log_Redaction\<close>. \<open>internal/privatepath\<close>: \<open>Private_Path\<close>.
  \<^item> \<open>internal/securetransport\<close>. \<open>Transport_Errors\<close>, \<open>Dns_Wire\<close>, \<open>Ech_Records\<close>: failures, DNS messages, HTTPS records and
    ECH configurations. \<open>Doh_Resolver\<close>: queries, aliases, answers. \<open>Secure_Dialer\<close>: the one TLS configuration,
    what is verified of a handshake, and the dials. \<open>Doh_Client\<close>: the resolver of a configuration and the transport
    it reaches its endpoint by. \<open>Doh_Endpoint\<close> models no code: it is a concrete
    endpoint that answers, and the properties of resolver and dialer over it.
  \<^item> \<open>internal/tunnel\<close>. \<open>Websocket_Frames\<close>, \<open>Websocket_Upgrade\<close>: both ends of the WebSocket. \<open>Tunnel_Identity\<close>, \<open>Inner_Tls\<close>:
    identities on disk and the pinned handshake. \<open>Tunnel_Client\<close>: \<open>Client.Open\<close>.
  \<^item> \<open>internal/relay\<close>. \<open>Relay_Limiter\<close>: failures per source, a linked list in a heap. \<open>Relay_Copy\<close>: the two copying
    directions, the idle timer and the lifetime. \<open>Relay_Session\<close>: one session. \<open>Relay_Server\<close>: routing,
    slots, shutdown.
  \<^item> \<open>internal/localproxy\<close>: \<open>Local_Proxy\<close>. \<open>Http_Serving\<close>: \<open>Serve\<close> and \<open>ListenAndServe\<close> of both servers.
    \<open>cmd/dproxy\<close>: \<open>Diagnostics\<close>, \<open>Command_Line\<close>.
  \<^item> \<open>tools\<close>: \<open>Version_Bump\<close>, \<open>Markdown_Wrap\<close>, \<open>Release_Builder\<close>, the commands of these names, with their own theorems.
  \<^item> \<open>Tunnel_Session\<close>, \<open>Tunnel_Endpoints\<close> put client and server together; \<open>Package_Interfaces\<close> puts resolver, dialer and
    client behind the interfaces of their users.

  \<^bold>\<open>How state and effects are modelled\<close>

  A struct is a record, an error a constructor of a datatype, a panic the value \<open>Panic\<close>. A function that
  changes state returns it changed. What the program asks of its surroundings (a socket, TLS, a file, a clock,
  the random source) is an environment record or a function argument; what it does to them is a list of
  actions in the result, so that a theorem can speak of what was never done and in which order. Goroutines
  that share state are step relations: \<open>relay_step\<close> interleaves both directions of a relay with the timers,
  \<open>server_step\<close> the requests of a server through the phases of the handler, \<open>sessions_step\<close> the active
  tunnels of the local side. Integers of a width are words, or carry their bound in the statement.

  \<^bold>\<open>What is proved\<close>

  \<^item> Safety of destinations: C1 and C2 for the policy, C6 for a whole session of the remote, C20 for the
    local side. Names and patterns: C3, C4.
  \<^item> Confidentiality of the outer transport: C9, C10 and C11 for the dialer and the resolver; C8 for the token;
    C36, C39 for the log and the report.
  \<^item> Authentication: C12 for a session, C13 the refinement of the limiter to a queue of failures, C14 the
    source that is counted.
  \<^item> Protocol and formats: C5, C31 and C32 for the control protocol, C25 and C26 for the WebSocket, C27 and C28 for DNS, C33 for
    the configuration file; C7 is the agreement of the two ends of one tunnel.
  \<^item> Copying and lifetime: C15 to C17 for the relay, C18 and C19 for the server, C21 and C22 for the local side, C24 for
    a tunnel that does not open. Liveness: C17, C19, C23, C29. Termination: C30.
  \<^item> Configuration and commands: C34, C35, C37, C38, C40.
  \<^item> Tools, beside the numbered properties: a version that is bumped parses and grows, and the changelog keeps its text
    (\<open>next_version_is_newer\<close>, \<open>bump_moves_forward\<close>, \<open>release_keeps_the_rest\<close>); wrapping loses no visible character and
    fills lines greedily (\<open>document_text_kept\<close>, \<open>wrap_text_lines\<close>), but is not idempotent; a release that succeeds holds for each
    target the binary, its archive and their digests (\<open>release_contents\<close>), in an archive that reads back (\<open>untar_archive\<close>).

  \<^bold>\<open>Interfaces\<close>

  Six interfaces are locales. \<open>byte_sink\<close> (in \<open>Go_Io\<close>) is a writer that may write short, interpreted on the
  scripted pipe; the codec and the logs write through it. \<open>failure_counter\<close> (in \<open>Relay_Limiter\<close>) is what a
  session relies on of the limiter, interpreted on the linked list in its heap. \<open>Package_Interfaces\<close> has those the packages
  declare: \<open>address_resolver\<close>, \<open>target_dialer\<close> and both as \<open>outbound\<close>, interpreted on the resolver over DoH and the TCP
  dialer, and \<open>tunnel_opener\<close>, interpreted on the client that \<open>NewServer\<close> of the local side makes. Over them it shows that
  a session with that resolver dials only addresses DoH answered for the name of an admitted destination
  (\<open>session_dials_only_doh_answers\<close>), and that a tunnel is established only when the remote proved the pinned key and
  accepted token and destination (\<open>established_means_remote_accepted\<close>).

  \<^bold>\<open>Bounds and fuel\<close>

  Recursion over answers follows the alias limit of the code (eight records), which is a measure, so no fuel is
  involved; the parsers recurse on the length of their input. SHA-1 and SHA-256 run over a fixed number of
  blocks computed from the length. \<open>ws_read\<close> returns at the first data frame or at the end of its
  stream, which every header read shortens. \<open>untar\<close> has fuel, one more than the files of the archive; \<open>untar_archive\<close> shows that
  this is enough.

  \<^bold>\<open>Not modelled\<close>

  HTTP parsing and \<open>net/http\<close>, \<open>crypto/tls\<close>, X.509, and the parsers of URLs and durations are libraries: they are
  arguments with the contract the code relies on. The wording of errors is left out except where the program inspects or
  prints it (\<open>Diagnostics\<close>). The compression of an archive and the compiler are arguments of the release builder.
  The signals and usage texts of a platform, the list of analyzers of \<open>tools/analyze\<close> and the fixture of the integration
  tests are left out: constants, and test code.
\<close>

section \<open>Destination policy\<close>

text \<open>
  C1: the remote side hands addresses to its dialer only for a destination the allowlist admits,
  on port 443, and every one of them is public.
\<close>

theorem resolve_only_public:
  assumes "resolve c d = (Some as, dec)"
  shows "allowed dec \<and> allowed (check_destination c d) \<and> dest_port d = allowed_port \<and> as \<noteq> []
    \<and> (\<forall>a \<in> set as. public_address a)"
  using resolve_addresses [OF assms] by simp

theorem resolve_only_public_witness:
  "\<exists>dec. resolve sample_checker sample_destination = (Some [Addr4 (v4 8 8 8 8)], dec)
     \<and> public_address (Addr4 (v4 8 8 8 8))"
proof -
  from resolve_only_public [OF sample_resolved] sample_resolved show ?thesis by auto
qed

text \<open>C2: an address is classified as public exactly when it lies outside the special blocks.\<close>

theorem classification_is_the_block_list:
  "classify_address a = AddressPublic \<longleftrightarrow> public_address a"
  by (rule classify_address_public)

text \<open>C3: a pattern matches a canonical hostname exactly when it covers it label by label.\<close>

theorem wildcard_has_no_suffix_confusion:
  assumes "canonical_host host"
  shows "pattern_matches p host \<longleftrightarrow> pattern_covers p host"
  by (rule pattern_matches_covers [OF assms])

theorem wildcard_has_no_suffix_confusion_witness:
  "pattern_covers \<lparr>pat_kind = PatternWildcard, pat_host = ''example.com''\<rparr> ''api.example.com''"
proof -
  have "pattern_matches \<lparr>pat_kind = PatternWildcard, pat_host = ''example.com''\<rparr> ''api.example.com''"
    by (simp add: pattern_matches_def has_suffix_def)
  then show ?thesis
    using wildcard_has_no_suffix_confusion [OF sample_canonical] by simp
qed

text \<open>C4: parsing the rendered authority of a valid destination gives the destination back.\<close>

theorem authority_round_trip:
  assumes "valid_destination d"
  shows "parse_authority (authority d) = ok d"
  by (rule parse_authority_authority [OF assms])

theorem authority_round_trip_witness:
  "parse_authority (authority sample_destination) = ok sample_destination"
  by (rule authority_round_trip [OF sample_valid])

section \<open>Control protocol\<close>

text \<open>
  C5: a valid message within the limit of the encoder is written as one frame, and a decoder with
  the same limit reads the message back, from any stream that starts with what was written, however
  the stream is cut into pieces, and leaves the bytes after the frame unread.
\<close>

theorem frame_round_trip:
  assumes "valid_message m" and "int (length (body_of m)) \<le> max_bytes"
    and "encode (Some pipe_write) max_bytes open_pipe (Struct m) = (r, p)"
    and "pending s = received p @ rest"
  shows "r = ok () \<and> (\<exists>s'. decode max_bytes s = (ok m, s') \<and> pending s' = rest)"
proof -
  have "r = ok ()" "received p = frame m"
    using encode_open_pipe_received [OF assms(1,2) _ assms(3)] by (simp_all add: open_pipe_def)
  with decode_frame [OF assms(1,2), of s rest] assms(4) show ?thesis by auto
qed

theorem frame_round_trip_witness:
  "\<exists>s'. decode 4096 \<lparr>chunks = [[0], [0, 0], [], [3, 5, 0], [7, 9]], stream_end = EOF\<rparr>
     = (ok (OpenError 7) :: (proto_error, message) result, s') \<and> pending s' = [9]"
proof -
  let ?s = "\<lparr>chunks = [[0], [0, 0], [], [3, 5, 0], [7, 9]], stream_end = EOF\<rparr>"
  have v: "valid_message (OpenError 7)" by (simp add: error_code_valid_def error_code_defs)
  have b: "int (length (body_of (OpenError 7))) \<le> 4096" by (simp add: put_uint16_def)
  have f: "frame (OpenError 7) = [0, 0, 0, 3, 5, 0, 7]"
    by (simp add: frame_def put_uint16_def put_uint32_def message_type_defs)
  obtain r and p :: "string pipe" where
    e: "encode (Some pipe_write) 4096 open_pipe (Struct (OpenError 7)) = (r, p)"
    by fastforce
  have "received p = frame (OpenError 7)"
    using encode_open_pipe_received [OF v b _ e] by (simp add: open_pipe_def)
  then have "pending ?s = received p @ [9]" by (simp add: f pending_def)
  from frame_round_trip [OF v b e this] show ?thesis by blast
qed

end
